(* ===== verification/Prelude.thy ===== *)
theory Prelude
  imports Main "HOL-Library.AList" "HOL-Library.Multiset" "HOL-Library.Monad_Syntax"
begin

text \<open>
  Shared material of the development: the association lists that stand for the
  \<^verbatim>\<open>std::unordered_map\<close> and \<^verbatim>\<open>std::map\<close> members of the modelled classes, facts on
  sorted lists and on the option monad, and the interface of a sorting routine.
  A process abort (\<^verbatim>\<open>Y_ABORT_UNLESS\<close>) or a fatal error (\<^verbatim>\<open>ThrowFatalError\<close>) of the
  source is the value \<open>None\<close> of the option monad.
\<close>

section \<open>Collections of simplification rules\<close>

named_theorems alist_simps \<open>lookups and key sets of association lists\<close>

section \<open>Association lists as maps\<close>

type_synonym ('k, 'v) amap = "('k \<times> 'v) list"

abbreviation lookup :: "('k, 'v) amap \<Rightarrow> 'k \<Rightarrow> 'v option" where
  "lookup m \<equiv> map_of m"

abbreviation keys_of :: "('k, 'v) amap \<Rightarrow> 'k set" where
  "keys_of m \<equiv> fst ` set m"

text \<open>A well-formed map holds each key once, so its length is the \<^verbatim>\<open>size()\<close> of the container.\<close>

definition wf_amap :: "('k, 'v) amap \<Rightarrow> bool" where
  "wf_amap m \<longleftrightarrow> distinct (map fst m)"

lemma wf_amap_Nil [simp]: "wf_amap []"
  by (simp add: wf_amap_def)

lemma wf_amap_update [simp]: "wf_amap m \<Longrightarrow> wf_amap (AList.update k v m)"
  by (simp add: wf_amap_def distinct_update)

lemma wf_amap_delete [simp]: "wf_amap m \<Longrightarrow> wf_amap (AList.delete k m)"
  by (simp add: wf_amap_def distinct_delete)

lemma lookup_update [simp, alist_simps]:
  "lookup (AList.update k v m) k' = (if k' = k then Some v else lookup m k')"
  by (simp add: update_conv')

lemma lookup_delete [simp, alist_simps]:
  "lookup (AList.delete k m) k' = (if k' = k then None else lookup m k')"
  by (simp add: delete_conv')

lemma keys_of_dom: "keys_of m = dom (lookup m)"
  by (simp add: dom_map_of_conv_image_fst)

lemma wf_amap_length: "wf_amap m \<Longrightarrow> length m = card (dom (lookup m))"
  by (metis dom_map_of_conv_image_fst distinct_card length_map set_map wf_amap_def)

lemma set_amap_update: "set (AList.update k v m) \<subseteq> insert (k, v) (set m)"
  by (induction m) auto

section \<open>Lists\<close>

lemma sorted_prefix_le:
  fixes f :: "'a \<Rightarrow> 'b::linorder"
  assumes "sorted (map f xs)" "i \<le> j" "j < length xs"
  shows "f (xs ! i) \<le> f (xs ! j)"
  using sorted_nth_mono [OF assms(1,2)] assms(2,3) by simp

lemma map_of_indexed:
  assumes "distinct (map f xs)" "x \<in> set xs"
  shows "map_of (map (\<lambda>x. (f x, x)) xs) (f x) = Some x"
  using assms by (induction xs) (auto simp: rev_image_eqI)

lemma map_of_indexed_None:
  "map_of (map (\<lambda>x. (f x, x)) xs) k = None \<longleftrightarrow> k \<notin> f ` set xs"
  by (induction xs) auto

lemma map_of_indexed_SomeD:
  "map_of (map (\<lambda>x. (f x, x)) xs) k = Some x \<Longrightarrow> x \<in> set xs \<and> f x = k"
  by (induction xs) (auto split: if_splits)

section \<open>Bit fields of natural numbers\<close>

lemma and_shifted_mask: "and n (push_bit k (mask j)) = 2 ^ k * (n div 2 ^ k mod (2 :: nat) ^ j)"
proof -
  have "and n (push_bit k (mask j)) = push_bit k (take_bit j (drop_bit k n))"
    by (rule bit_eqI) (auto simp: bit_simps)
  then show ?thesis
    by (simp add: push_bit_eq_mult take_bit_eq_mod drop_bit_eq_div mult.commute)
qed

lemma push_bit_or_take_bit: "or (push_bit k r) (take_bit k c) = 2 ^ k * r + c mod (2 :: nat) ^ k"
proof -
  have "or (push_bit k r) (take_bit k c) = push_bit k r + take_bit k c"
    by (rule disjunctive_add_eq_or [symmetric], rule bit_eqI) (auto simp: bit_simps)
  then show ?thesis
    by (simp add: push_bit_eq_mult take_bit_eq_mod mult.commute)
qed

section \<open>A sorting routine\<close>

text \<open>
  \<^verbatim>\<open>std::sort\<close> promises a permutation ordered by the comparator and nothing about the
  order of equivalent elements. The definitions that sort take the routine as an
  argument; this locale states its contract, for a comparator on a key.
\<close>

locale sorter =
  fixes key :: "'a \<Rightarrow> 'k::linorder" and srt :: "'a list \<Rightarrow> 'a list"
  assumes mset_srt: "mset (srt xs) = mset xs"
    and sorted_srt: "sorted (map key (srt xs))"
begin

lemma set_srt [simp]: "set (srt xs) = set xs"
  by (metis mset_srt mset_eq_setD)

lemma length_srt [simp]: "length (srt xs) = length xs"
  by (metis mset_srt size_mset)

lemma distinct_map_srt [simp]: "distinct (map f (srt xs)) = distinct (map f xs)"
  by (metis mset_map mset_srt mset_eq_imp_distinct_iff)

lemma length_filter_srt [simp]: "length (filter P (srt xs)) = length (filter P xs)"
  by (metis mset_filter mset_srt size_mset)

end

section \<open>Characters and tables\<close>

lemma of_char_less_256: "(of_char c :: nat) < 256"
  by simp

lemma replicate_num: "replicate (numeral k) x = x # replicate (pred_numeral k) x"
  by (simp add: numeral_eq_Suc)

end
