(* ===== verification/Ascii.thy ===== *)
theory Ascii
  imports Prelude
begin

text \<open>
  Character classes, \<^verbatim>\<open>util/string/ascii.h\<close>: a table of 256 bit sets indexed by the unsigned value of
  a character. The lemmas give the classes the SDK uses as ranges of codes.
\<close>

definition CC_SPACE :: nat where "CC_SPACE = 1"
definition CC_ISHEX :: nat where "CC_ISHEX = 64"

definition ASCII_CLASS :: "nat list" where
  "ASCII_CLASS = [
    0x00, 0x00, 0x00, 0x00, 0x00, 0x00, 0x00, 0x00, 0x00, 0x01, 0x01, 0x01, 0x01, 0x01, 0x00, 0x00,
    0x00, 0x00, 0x00, 0x00, 0x00, 0x00, 0x00, 0x00, 0x00, 0x00, 0x00, 0x00, 0x00, 0x00, 0x00, 0x00,
    0x01, 0x80, 0x80, 0x80, 0x80, 0x80, 0x80, 0x80, 0x80, 0x80, 0x80, 0x80, 0x80, 0x80, 0x80, 0x80,
    0x68, 0x68, 0x68, 0x68, 0x68, 0x68, 0x68, 0x68, 0x68, 0x68, 0x80, 0x80, 0x80, 0x80, 0x80, 0x80,
    0x80, 0x72, 0x72, 0x72, 0x72, 0x72, 0x72, 0x32, 0x32, 0x32, 0x32, 0x32, 0x32, 0x32, 0x32, 0x32,
    0x32, 0x32, 0x32, 0x32, 0x32, 0x32, 0x32, 0x32, 0x32, 0x32, 0x32, 0x80, 0x80, 0x80, 0x80, 0x80,
    0x80, 0x74, 0x74, 0x74, 0x74, 0x74, 0x74, 0x34, 0x34, 0x34, 0x34, 0x34, 0x34, 0x34, 0x34, 0x34,
    0x34, 0x34, 0x34, 0x34, 0x34, 0x34, 0x34, 0x34, 0x34, 0x34, 0x34, 0x80, 0x80, 0x80, 0x80, 0x00,
    0x00, 0x00, 0x00, 0x00, 0x00, 0x00, 0x00, 0x00, 0x00, 0x00, 0x00, 0x00, 0x00, 0x00, 0x00, 0x00,
    0x00, 0x00, 0x00, 0x00, 0x00, 0x00, 0x00, 0x00, 0x00, 0x00, 0x00, 0x00, 0x00, 0x00, 0x00, 0x00,
    0x00, 0x00, 0x00, 0x00, 0x00, 0x00, 0x00, 0x00, 0x00, 0x00, 0x00, 0x00, 0x00, 0x00, 0x00, 0x00,
    0x00, 0x00, 0x00, 0x00, 0x00, 0x00, 0x00, 0x00, 0x00, 0x00, 0x00, 0x00, 0x00, 0x00, 0x00, 0x00,
    0x00, 0x00, 0x00, 0x00, 0x00, 0x00, 0x00, 0x00, 0x00, 0x00, 0x00, 0x00, 0x00, 0x00, 0x00, 0x00,
    0x00, 0x00, 0x00, 0x00, 0x00, 0x00, 0x00, 0x00, 0x00, 0x00, 0x00, 0x00, 0x00, 0x00, 0x00, 0x00,
    0x00, 0x00, 0x00, 0x00, 0x00, 0x00, 0x00, 0x00, 0x00, 0x00, 0x00, 0x00, 0x00, 0x00, 0x00, 0x00,
    0x00, 0x00, 0x00, 0x00, 0x00, 0x00, 0x00, 0x00, 0x00, 0x00, 0x00, 0x00, 0x00, 0x00, 0x00, 0x00]"

definition in_class :: "nat \<Rightarrow> char \<Rightarrow> bool" where
  "in_class cc c \<longleftrightarrow> and (ASCII_CLASS ! of_char c) cc \<noteq> 0"

definition IsAsciiSpace :: "char \<Rightarrow> bool" where
  "IsAsciiSpace c \<longleftrightarrow> in_class CC_SPACE c"

definition IsAsciiHex :: "char \<Rightarrow> bool" where
  "IsAsciiHex c \<longleftrightarrow> in_class CC_ISHEX c"

lemma length_ASCII_CLASS: "length ASCII_CLASS = 256"
  by (simp add: ASCII_CLASS_def)

text \<open>The runs of a class in the table.\<close>

lemma in_class_runs:
  assumes "map (\<lambda>x. and x cc \<noteq> 0) ASCII_CLASS = runs"
  shows "in_class cc c = runs ! of_char c"
  using assms of_char_less_256 [of c] by (auto simp: in_class_def length_ASCII_CLASS)

lemma space_runs:
  "map (\<lambda>x. and x CC_SPACE \<noteq> 0) ASCII_CLASS =
     replicate 9 False @ replicate 5 True @ replicate 18 False @ replicate 1 True @ replicate 223 False"
  by (simp add: ASCII_CLASS_def CC_SPACE_def replicate_num)

lemma hex_runs:
  "map (\<lambda>x. and x CC_ISHEX \<noteq> 0) ASCII_CLASS =
     replicate 48 False @ replicate 10 True @ replicate 7 False @ replicate 6 True @ replicate 26 False
       @ replicate 6 True @ replicate 153 False"
  by (simp add: ASCII_CLASS_def CC_ISHEX_def replicate_num)

lemma IsAsciiSpace_iff:
  "IsAsciiSpace c \<longleftrightarrow> of_char c = (32 :: nat) \<or> (9 :: nat) \<le> of_char c \<and> of_char c \<le> (13 :: nat)"
proof -
  obtain n :: nat where n: "of_char c = n" "n < 256"
    using of_char_less_256 by blast
  show ?thesis
    using n(2) unfolding IsAsciiSpace_def in_class_runs [OF space_runs] n(1) by (auto simp: nth_append nth_Cons')
qed

lemma IsAsciiHex_iff:
  "IsAsciiHex c \<longleftrightarrow> (let n = of_char c :: nat in
     48 \<le> n \<and> n \<le> 57 \<or> 65 \<le> n \<and> n \<le> 70 \<or> 97 \<le> n \<and> n \<le> 102)"
proof -
  obtain n :: nat where n: "of_char c = n" "n < 256"
    using of_char_less_256 by blast
  show ?thesis
    using n(2) unfolding IsAsciiHex_def in_class_runs [OF hex_runs] Let_def n(1) by (auto simp: nth_append)
qed

end
