(* ===== verification/IntCast.thy ===== *)
theory IntCast
  imports Prelude "HOL-Library.Word"
begin

text \<open>
  Decimal conversion of integers, \<^verbatim>\<open>util/string/cast.{h,cpp}\<close>: the parser of
  \<^verbatim>\<open>FromString\<close> and \<^verbatim>\<open>TryFromString\<close> with its fast path for short inputs, and the
  formatter behind \<^verbatim>\<open>ToString\<close>. The templates are instantiated the way the SDK uses
  them: base 10, characters of type \<^verbatim>\<open>char\<close>, and \<^verbatim>\<open>ui64\<close> (or \<^verbatim>\<open>i64\<close>) as the type that
  is parsed and then narrowed. The 64-bit accumulator is a word, so its arithmetic
  wraps exactly as the code's does.
\<close>

section \<open>Parsing\<close>

datatype EParseStatus =
    PS_OK | PS_EMPTY_STRING | PS_PLUS_STRING | PS_MINUS_STRING | PS_BAD_SYMBOL | PS_OVERFLOW

text \<open>The value of a \<^verbatim>\<open>char\<close>, which is signed.\<close>

definition char_value :: "char \<Rightarrow> int" where
  "char_value c = (let n = of_char c in if n < 128 then n else n - 256)"

definition CharToDigit :: "char \<Rightarrow> 64 word option" where
  "CharToDigit c =
     (if char_value c \<ge> 48 then
        (let digit = word_of_int (char_value c - 48) in if digit < 10 then Some digit else None)
      else None)"

fun ParseFast_tail :: "64 word \<Rightarrow> string \<Rightarrow> 64 word option" where
  "ParseFast_tail result [] = Some result"
| "ParseFast_tail result (c # s) =
     (case CharToDigit c of None \<Rightarrow> None | Some d1 \<Rightarrow> ParseFast_tail (result * 10 + d1) s)"

fun ParseFast :: "64 word \<Rightarrow> string \<Rightarrow> 64 word option" where
  "ParseFast result (c1 # c2 # s) =
     (case (CharToDigit c1, CharToDigit c2) of
        (Some d1, Some d2) \<Rightarrow> ParseFast (result * 100 + d1 * 10 + d2) s
      | _ \<Rightarrow> ParseFast_tail result (c1 # c2 # s))"
| "ParseFast result s = ParseFast_tail result s"

fun ParseSlow :: "64 word \<Rightarrow> 64 word \<Rightarrow> string \<Rightarrow> EParseStatus + 64 word" where
  "ParseSlow mx result [] = Inr result"
| "ParseSlow mx result (c # s) =
     (case CharToDigit c of
        None \<Rightarrow> Inl PS_BAD_SYMBOL
      | Some digit \<Rightarrow>
          if result > mx div 10 then Inl PS_OVERFLOW
          else if result * 10 > mx - digit then Inl PS_OVERFLOW
          else ParseSlow mx (result * 10 + digit) s)"

text \<open>\<^verbatim>\<open>SAFE_LENS[ConstLog2(sizeof(ui64))][10]\<close>.\<close>

definition maxSafeLen :: nat where
  "maxSafeLen = 19"

definition BasicParse :: "64 word \<Rightarrow> string \<Rightarrow> EParseStatus + 64 word" where
  "BasicParse mx s =
     (if length s \<le> maxSafeLen then
        (case ParseFast 0 s of
           Some result \<Rightarrow> if result \<le> mx then Inr result else ParseSlow mx 0 s
         | None \<Rightarrow> ParseSlow mx 0 s)
      else ParseSlow mx 0 s)"

record TBounds =
  PositiveMax :: "64 word"
  NegativeMax :: "64 word"

definition iSBounds :: TBounds where
  "iSBounds = \<lparr>PositiveMax = 2 ^ 31 - 1, NegativeMax = 2 ^ 31\<rparr>"

definition llSBounds :: TBounds where
  "llSBounds = \<lparr>PositiveMax = 2 ^ 63 - 1, NegativeMax = 2 ^ 63\<rparr>"

definition llUBounds :: TBounds where
  "llUBounds = \<lparr>PositiveMax = - 1, NegativeMax = 0\<rparr>"

definition NegatePositiveSigned :: "64 word \<Rightarrow> int" where
  "NegatePositiveSigned v = (if v > 0 then - sint (v - 1) - 1 else 0)"

definition IntParse :: "bool \<Rightarrow> TBounds \<Rightarrow> string \<Rightarrow> EParseStatus + int" where
  "IntParse IsSigned bounds s =
     (case s of
        [] \<Rightarrow> Inl PS_EMPTY_STRING
      | c # pos \<Rightarrow>
          if c = CHR ''+'' then
            if pos = [] then Inl PS_PLUS_STRING
            else map_sum id (if IsSigned then sint else uint) (BasicParse (PositiveMax bounds) pos)
          else if IsSigned \<and> c = CHR ''-'' then
            if pos = [] then Inl PS_MINUS_STRING
            else map_sum id NegatePositiveSigned (BasicParse (NegativeMax bounds) pos)
          else map_sum id (if IsSigned then sint else uint) (BasicParse (PositiveMax bounds) s))"

text \<open>
  \<^verbatim>\<open>TryFromString<int>\<close>, \<^verbatim>\<open>FromString<i64>\<close> and \<^verbatim>\<open>FromString<ui64>\<close>; a failure (the exception
  of the throwing versions) is \<open>None\<close>.
\<close>

definition parse_ok :: "EParseStatus + int \<Rightarrow> int option" where
  "parse_ok r = (case r of Inl _ \<Rightarrow> None | Inr v \<Rightarrow> Some v)"

definition TryFromString_int :: "string \<Rightarrow> int option" where
  "TryFromString_int s = parse_ok (IntParse True iSBounds s)"

definition TryFromString_i64 :: "string \<Rightarrow> int option" where
  "TryFromString_i64 s = parse_ok (IntParse True llSBounds s)"

definition TryFromString_ui64 :: "string \<Rightarrow> 64 word option" where
  "TryFromString_ui64 s = map_option word_of_int (parse_ok (IntParse False llUBounds s))"

definition FromStringWithDefault_ui64 :: "string \<Rightarrow> 64 word \<Rightarrow> 64 word" where
  "FromStringWithDefault_ui64 s def = (case TryFromString_ui64 s of Some v \<Rightarrow> v | None \<Rightarrow> def)"

section \<open>Formatting\<close>

text \<open>
  The buffer is filled from its end: \<open>room\<close> is \<^verbatim>\<open>be - buf\<close> and \<open>out\<close> what is written from
  \<^verbatim>\<open>be\<close> on. A failed \<^verbatim>\<open>Y_ENSURE\<close> is \<open>None\<close>.
\<close>

fun ConvertUnsigned_loop :: "nat \<Rightarrow> 64 word \<Rightarrow> string \<Rightarrow> 64 word \<times> string" where
  "ConvertUnsigned_loop 0 t out = (t, out)"
| "ConvertUnsigned_loop (Suc room) t out =
     (if t > 0 then
        (let v = t div 10; r = t - 10 * v
         in ConvertUnsigned_loop room v (char_of (unat r + 48) # out))
      else (t, out))"

definition ConvertUnsigned :: "64 word \<Rightarrow> nat \<Rightarrow> string option" where
  "ConvertUnsigned t bufLen =
     (if bufLen = 0 then None
      else if t = 0 then Some ''0''
      else (case ConvertUnsigned_loop bufLen t [] of (t', out) \<Rightarrow> if t' = 0 then Some out else None))"

text \<open>\<^verbatim>\<open>TBufSizeRec\<close> for the largest \<^verbatim>\<open>ui64\<close> and \<^verbatim>\<open>i64\<close>, one more for the sign.\<close>

fun TBufSizeRec :: "nat \<Rightarrow> nat" where
  "TBufSizeRec v = (if v = 0 then 1 else 1 + TBufSizeRec (v div 10))"

declare TBufSizeRec.simps [simp del]

definition bufferSize :: "bool \<Rightarrow> nat" where
  "bufferSize IsSigned = (if IsSigned then 1 + TBufSizeRec (2 ^ 63 - 1) else TBufSizeRec (2 ^ 64 - 1))"

definition Convert_ui64 :: "64 word \<Rightarrow> nat \<Rightarrow> string option" where
  "Convert_ui64 t bufLen = ConvertUnsigned t (min (bufferSize False) bufLen)"

definition Convert_i64 :: "64 word \<Rightarrow> nat \<Rightarrow> string option" where
  "Convert_i64 t len =
     (let bufLen = min (bufferSize True) len in
      if sint t < 0 then
        if bufLen \<ge> 2 then
          (let mt = word_of_int (- (sint t + 1)) + 1
           in map_option (\<lambda>s. CHR ''-'' # s) (ConvertUnsigned mt (bufLen - 1)))
        else None
      else ConvertUnsigned t bufLen)"

text \<open>\<^verbatim>\<open>ToString\<close> hands over a buffer of 512 characters.\<close>

definition ToString_ui64 :: "64 word \<Rightarrow> string option" where
  "ToString_ui64 t = Convert_ui64 t 512"

definition ToString_i64 :: "64 word \<Rightarrow> string option" where
  "ToString_i64 t = Convert_i64 t 512"

text \<open>The output streams print numbers the same way.\<close>

definition show_ui32 :: "32 word \<Rightarrow> string" where
  "show_ui32 n = (case ToString_ui64 (ucast n) of Some s \<Rightarrow> s | None \<Rightarrow> [])"

definition show_int :: "int \<Rightarrow> string" where
  "show_int i = (case ToString_i64 (word_of_int i) of Some s \<Rightarrow> s | None \<Rightarrow> [])"

section \<open>The parser agrees with a reference without machine arithmetic\<close>

definition digit_of :: "char \<Rightarrow> nat option" where
  "digit_of c = (if 48 \<le> (of_char c :: nat) \<and> (of_char c :: nat) \<le> 57 then Some (of_char c - 48) else None)"

text \<open>The reference reads the digits into an unbounded number and stops at the first
  prefix that exceeds the limit.\<close>

fun decimal :: "nat \<Rightarrow> nat \<Rightarrow> string \<Rightarrow> EParseStatus + nat" where
  "decimal mx v [] = Inr v"
| "decimal mx v (c # s) =
     (case digit_of c of
        None \<Rightarrow> Inl PS_BAD_SYMBOL
      | Some d \<Rightarrow> if 10 * v + d > mx then Inl PS_OVERFLOW else decimal mx (10 * v + d) s)"

fun digits_value :: "nat \<Rightarrow> string \<Rightarrow> nat option" where
  "digits_value v [] = Some v"
| "digits_value v (c # s) = (case digit_of c of None \<Rightarrow> None | Some d \<Rightarrow> digits_value (10 * v + d) s)"

lemma digit_of_less: "digit_of c = Some d \<Longrightarrow> d < 10"
  by (auto simp: digit_of_def split: if_splits)

lemma CharToDigit_digit_of: "CharToDigit c = map_option of_nat (digit_of c)"
proof -
  obtain n :: nat where n: "of_char c = n" "(of_char c :: int) = int n" "n < 256"
    by (metis of_nat_of_char of_char_less_256)
  show ?thesis
  proof (cases "48 \<le> n \<and> n < 128")
    case True
    define d where "d = n - 48"
    have d: "d < 80" "char_value c = int d + 48" "n = d + 48"
      using True n by (auto simp: d_def char_value_def Let_def)
    then have "(of_nat d :: 64 word) < 10 \<longleftrightarrow> d < 10"
      by (simp add: word_less_nat_alt unat_of_nat take_bit_nat_eq_self)
    then show ?thesis
      using d n(1) by (auto simp: CharToDigit_def digit_of_def Let_def)
  next
    case False
    then have "char_value c < 48" "digit_of c = None"
      using n by (auto simp: char_value_def digit_of_def Let_def)
    then show ?thesis
      by (simp add: CharToDigit_def)
  qed
qed

lemma ParseFast_tail_value:
  "ParseFast_tail (of_nat v) s = map_option of_nat (digits_value v s)"
proof (induction s arbitrary: v)
  case (Cons c s)
  show ?case
    using Cons.IH [of "10 * v + the (digit_of c)"]
    by (cases "digit_of c") (auto simp: CharToDigit_digit_of algebra_simps)
qed simp

lemma ParseFast_value:
  "ParseFast (of_nat v) s = map_option of_nat (digits_value v s)"
proof (induction s arbitrary: v rule: induct_list012)
  case (3 c1 c2 s)
  show ?case
  proof (cases "digit_of c1"; cases "digit_of c2")
    fix d1 d2
    assume d: "digit_of c1 = Some d1" "digit_of c2 = Some d2"
    have "of_nat v * 100 + of_nat d1 * 10 + of_nat d2 = (of_nat (10 * (10 * v + d1) + d2) :: 64 word)"
      by (simp add: algebra_simps)
    then show ?thesis
      using d "3.IH"(1) [of "10 * (10 * v + d1) + d2"] by (simp add: CharToDigit_digit_of mult.commute)
  qed (simp_all add: CharToDigit_digit_of ParseFast_tail_value del: ParseFast_tail.simps digits_value.simps)
qed (simp_all add: ParseFast_tail_value del: ParseFast_tail.simps)

lemma digits_value_bound:
  "digits_value v s = Some r \<Longrightarrow> v * 10 ^ length s \<le> r \<and> r < (v + 1) * 10 ^ length s"
proof (induction s arbitrary: v)
  case (Cons c s)
  then obtain d where d: "digit_of c = Some d" "d < 10" "digits_value (10 * v + d) s = Some r"
    by (auto split: option.splits dest: digit_of_less)
  define p :: nat where "p = 10 ^ length s"
  have "(10 * v + d) * p \<le> r" "r < (10 * v + d + 1) * p"
    using Cons.IH [OF d(3)] by (simp_all add: p_def)
  moreover have "(10 * v + d + 1) * p \<le> (10 * v + 10) * p" "10 * v * p \<le> (10 * v + d) * p"
    by (rule mult_le_mono1, use d(2) in simp)+
  ultimately have "10 * v * p \<le> r" "r < (10 * v + 10) * p"
    by linarith+
  then show ?case
    by (simp add: p_def [symmetric] algebra_simps)
qed simp

lemma digits_value_decimal:
  assumes "digits_value v s = Some r" "r \<le> mx"
  shows "decimal mx v s = Inr r"
  using assms(1)
proof (induction s arbitrary: v)
  case (Cons c s)
  then obtain d where d: "digit_of c = Some d" "digits_value (10 * v + d) s = Some r"
    by (auto split: option.splits)
  have "(10 * v + d) * 1 \<le> (10 * v + d) * 10 ^ length s"
    by (rule mult_le_mono2) simp
  also have "\<dots> \<le> r"
    using digits_value_bound [OF d(2)] by simp
  finally show ?case
    using Cons.IH [OF d(2)] d(1) assms(2) by simp
qed simp

lemma decimal_digits_value:
  "decimal mx v s = Inr r \<Longrightarrow> digits_value v s = Some r"
  by (induction mx v s rule: decimal.induct) (auto split: option.splits if_splits)

lemma decimal_le: "decimal mx v s = Inr r \<Longrightarrow> v \<le> mx \<Longrightarrow> r \<le> mx"
  by (induction mx v s rule: decimal.induct) (auto split: option.splits if_splits)

lemma ParseSlow_decimal:
  assumes "9 \<le> unat mx" "unat result \<le> unat mx"
  shows "ParseSlow mx result s = map_sum id of_nat (decimal (unat mx) (unat result) s)"
  using assms(2)
proof (induction s arbitrary: result)
  case (Cons c s)
  show ?case
  proof (cases "digit_of c")
    case (Some d)
    have d: "d < 10" "unat (of_nat d :: 64 word) = d"
      using digit_of_less [OF Some] by (simp_all add: unat_of_nat take_bit_nat_eq_self)
    have m: "unat (mx - of_nat d) = unat mx - d"
      using assms(1) d by (simp add: unat_sub word_le_nat_alt)
    have div: "result > mx div 10 \<longleftrightarrow> unat result > unat mx div 10"
      by (simp add: word_less_nat_alt unat_div)
    have lim: "unat mx < 2 ^ 64"
      using unsigned_less [where 'a = nat and w = mx] by simp
    show ?thesis
    proof (cases "unat result > unat mx div 10")
      case True
      then have "10 * unat result + d > unat mx"
        by linarith
      then show ?thesis
        using Some True div by (simp add: CharToDigit_digit_of)
    next
      case False
      then have "10 * unat result \<le> unat mx"
        by linarith
      then have r: "unat (result * 10) = 10 * unat result"
        using lim by (simp add: unat_word_ariths)
      have gt: "result * 10 > mx - of_nat d \<longleftrightarrow> 10 * unat result + d > unat mx"
        using assms(1) d by (simp add: word_less_nat_alt r m) linarith
      show ?thesis
      proof (cases "10 * unat result + d > unat mx")
        case False
        then have u: "unat (result * 10 + of_nat d) = 10 * unat result + d"
          using lim r d by (simp add: unat_word_ariths(1) [of "result * 10"])
        show ?thesis
          using Cons.IH [of "result * 10 + of_nat d"] False \<open>\<not> unat result > unat mx div 10\<close> Some div gt
          by (simp add: CharToDigit_digit_of u)
      qed (use Some div gt False in \<open>simp add: CharToDigit_digit_of\<close>)
    qed
  qed (simp add: CharToDigit_digit_of)
qed simp

lemma BasicParse_decimal:
  assumes "9 \<le> unat mx"
  shows "BasicParse mx s = map_sum id of_nat (decimal (unat mx) 0 s)"
proof -
  have slow: "ParseSlow mx 0 s = map_sum id of_nat (decimal (unat mx) 0 s)"
    using ParseSlow_decimal [OF assms, of 0 s] by simp
  show ?thesis
  proof (cases "length s \<le> maxSafeLen \<and> (\<exists>r. digits_value 0 s = Some r)")
    case True
    then obtain r where r: "digits_value 0 s = Some r" and len: "length s \<le> 19"
      by (auto simp: maxSafeLen_def)
    have "r < 10 ^ length s"
      using digits_value_bound [OF r] by simp
    also have "\<dots> \<le> 10 ^ 19"
      using len by (intro power_increasing) auto
    finally have "unat (of_nat r :: 64 word) = r"
      by (simp add: unat_of_nat take_bit_nat_eq_self)
    then have "(of_nat r :: 64 word) \<le> mx \<longleftrightarrow> r \<le> unat mx"
      by (simp add: word_le_nat_alt)
    then show ?thesis
      using ParseFast_value [of 0 s] r slow digits_value_decimal [OF r]
      by (auto simp: BasicParse_def)
  next
    case False
    then show ?thesis
      using ParseFast_value [of 0 s] slow by (auto simp: BasicParse_def)
  qed
qed

section \<open>Formatting and parsing are inverse\<close>

lemma digits_value_append:
  "digits_value v (p @ q) = Option.bind (digits_value v p) (\<lambda>w. digits_value w q)"
  by (induction p arbitrary: v) (auto split: option.splits)

lemma digit_of_char_of: "n < 10 \<Longrightarrow> digit_of (char_of (n + 48)) = Some n"
  by (simp add: digit_of_def)

lemma TBufSizeRec_numeral: "TBufSizeRec (numeral k) = 1 + TBufSizeRec (numeral k div 10)"
  by (simp add: TBufSizeRec.simps)

lemma bufferSize_eq: "bufferSize b = 21"
  by (simp add: bufferSize_def TBufSizeRec_numeral TBufSizeRec.simps [of 0] TBufSizeRec.simps [of "Suc 0"])

lemma ConvertUnsigned_loop_value:
  assumes "unat t < 10 ^ room" "ConvertUnsigned_loop room t out = (t', out')"
  shows "t' = 0 \<and> (\<exists>p. out' = p @ out \<and> (t \<noteq> 0 \<longrightarrow> p \<noteq> []) \<and> digits_value 0 p = Some (unat t))"
  using assms
proof (induction room arbitrary: t out)
  case (Suc room)
  show ?case
  proof (cases "t = 0")
    case False
    define c where "c = (char_of (unat (t - 10 * (t div 10)) + 48) :: char)"
    have r: "t - 10 * (t div 10) = t mod 10"
      by (simp add: minus_mult_div_eq_mod)
    have c: "digit_of c = Some (unat t mod 10)"
      by (simp add: c_def r unat_mod digit_of_char_of)
    have "unat (t div 10) < 10 ^ room"
      using Suc.prems(1) by (simp add: unat_div less_mult_imp_div_less mult.commute)
    moreover have "ConvertUnsigned_loop room (t div 10) (c # out) = (t', out')"
      using Suc.prems(2) False by (simp add: Let_def c_def word_greater_zero_iff)
    ultimately obtain p where "t' = 0" "out' = p @ c # out" "digits_value 0 p = Some (unat t div 10)"
      using Suc.IH [of "t div 10" "c # out"] by (auto simp: unat_div)
    then show ?thesis
      using c by (intro conjI exI [of _ "p @ [c]"]) (simp_all add: digits_value_append)
  qed (use Suc.prems in auto)
qed (simp add: unat_eq_0)

lemma ConvertUnsigned_loop_numeral:
  "ConvertUnsigned_loop (numeral k) t out =
     (if t > 0 then ConvertUnsigned_loop (pred_numeral k) (t div 10)
        (char_of (unat (t - 10 * (t div 10)) + 48) # out)
      else (t, out))"
  by (simp add: numeral_eq_Suc Let_def)

lemma ConvertUnsigned_value:
  assumes "20 \<le> bufLen"
  shows "\<exists>s. ConvertUnsigned t bufLen = Some s \<and> s \<noteq> [] \<and> digits_value 0 s = Some (unat t)"
proof (cases "t = 0")
  case True
  then show ?thesis
    using assms by (simp add: ConvertUnsigned_def digit_of_def)
next
  case False
  have "unat t < 10 ^ 20"
    using unsigned_less [where 'a = nat and w = t] by simp
  also have "(10 :: nat) ^ 20 \<le> 10 ^ bufLen"
    using assms by (intro power_increasing) auto
  finally have "unat t < 10 ^ bufLen" .
  then show ?thesis
    using ConvertUnsigned_loop_value [of t bufLen "[]"] False assms
    by (cases "ConvertUnsigned_loop bufLen t []") (auto simp: ConvertUnsigned_def)
qed

lemma digits_value_head:
  assumes "digits_value v (c # s) = Some r"
  shows "c \<noteq> CHR ''+''" "c \<noteq> CHR ''-''"
  using assms by (auto simp: digit_of_def)

lemma BasicParse_digits:
  assumes "digits_value 0 s = Some r" "r \<le> unat mx" "9 \<le> unat mx"
  shows "BasicParse mx s = Inr (of_nat r)"
  using BasicParse_decimal [OF assms(3), of s] digits_value_decimal [OF assms(1,2)] by simp

lemma IntParse_digits:
  assumes "s \<noteq> []" "digits_value 0 s = Some r" "r \<le> unat (PositiveMax b)" "9 \<le> unat (PositiveMax b)"
  shows "IntParse sg b s = Inr ((if sg then sint else uint) (of_nat r :: 64 word))"
  using assms BasicParse_digits [OF assms(2-4)] digits_value_head
  by (cases s) (auto simp: IntParse_def simp del: digits_value.simps)

lemma IntParse_minus_digits:
  assumes "s \<noteq> []" "digits_value 0 s = Some r" "r \<le> unat (NegativeMax b)" "9 \<le> unat (NegativeMax b)"
  shows "IntParse True b (CHR ''-'' # s) = Inr (NegatePositiveSigned (of_nat r))"
  using assms BasicParse_digits [OF assms(2-4)] by (simp add: IntParse_def)

lemma ui64_roundtrip: "\<exists>s. ToString_ui64 t = Some s \<and> TryFromString_ui64 s = Some t"
proof -
  obtain s where s: "ConvertUnsigned t 21 = Some s" "s \<noteq> []" "digits_value 0 s = Some (unat t)"
    using ConvertUnsigned_value [of 21 t] by auto
  have "unat t \<le> unat (PositiveMax llUBounds)"
    by (metis word_le_nat_alt word_order.extremum llUBounds_def TBounds.select_convs(1))
  moreover have "9 \<le> unat (PositiveMax llUBounds)"
    using unsigned_minus_1_eq_mask [where 'a = nat and 'b = 64] by (simp add: llUBounds_def mask_eq_exp_minus_1)
  ultimately have "IntParse False llUBounds s = Inr (uint t)"
    using IntParse_digits [OF s(2,3), of llUBounds False] by simp
  then show ?thesis
    using s(1) by (simp add: ToString_ui64_def Convert_ui64_def bufferSize_eq TryFromString_ui64_def
      parse_ok_def)
qed

lemma sint_64_range: "- (2 ^ 63) \<le> sint (t :: 64 word)" "sint t < 2 ^ 63"
  using sint_ge [of t] sint_lt [of t] by simp_all

lemma unat_word_of_int_64:
  assumes "0 \<le> i" "i < 2 ^ 64"
  shows "unat (word_of_int i :: 64 word) = nat i"
  using assms by (simp add: unat_eq_nat_uint uint_word_of_int take_bit_int_eq_self)

lemma sint_word_of_int_64:
  assumes "- (2 ^ 63) \<le> i" "i < 2 ^ 63"
  shows "sint (word_of_int i :: 64 word) = i"
  using assms by (simp add: sint_sbintrunc' signed_take_bit_int_eq_self)

lemma i64_roundtrip: "\<exists>s. ToString_i64 t = Some s \<and> TryFromString_i64 s = Some (sint t)"
proof (cases "sint t < 0")
  case False
  obtain s where s: "ConvertUnsigned t 21 = Some s" "s \<noteq> []" "digits_value 0 s = Some (unat t)"
    using ConvertUnsigned_value [of 21 t] by auto
  have "unat t = nat (sint t)"
    using unat_word_of_int_64 [of "sint t"] sint_64_range [of t] False by simp
  then have "unat t \<le> unat (PositiveMax llSBounds)"
    using sint_64_range [of t] by (simp add: llSBounds_def)
  moreover have "9 \<le> unat (PositiveMax llSBounds)"
    by (simp add: llSBounds_def)
  ultimately have "IntParse True llSBounds s = Inr (sint t)"
    using IntParse_digits [OF s(2,3), of llSBounds True] by simp
  then show ?thesis
    using s(1) False by (simp add: ToString_i64_def Convert_i64_def bufferSize_eq TryFromString_i64_def
      parse_ok_def)
next
  case True
  define m where "m = (word_of_int (- (sint t + 1)) + 1 :: 64 word)"
  have m: "m = word_of_int (- sint t)" "m - 1 = word_of_int (- sint t - 1)"
    by (simp_all add: m_def)
  obtain s where s: "ConvertUnsigned m 20 = Some s" "s \<noteq> []" "digits_value 0 s = Some (unat m)"
    using ConvertUnsigned_value [of 20 m] by auto
  have u: "unat m = nat (- sint t)"
    unfolding m(1) using sint_64_range [of t] True by (intro unat_word_of_int_64) auto
  then have "unat m \<le> unat (NegativeMax llSBounds)"
    using sint_64_range [of t] by (simp add: llSBounds_def)
  moreover have "9 \<le> unat (NegativeMax llSBounds)"
    by (simp add: llSBounds_def)
  ultimately have "IntParse True llSBounds (CHR ''-'' # s) = Inr (NegatePositiveSigned m)"
    using IntParse_minus_digits [OF s(2,3), of llSBounds] by simp
  moreover have "NegatePositiveSigned m = sint t"
  proof -
    have "m > 0"
      using u True by (simp add: word_greater_zero_iff flip: unat_eq_0)
    moreover have "sint (m - 1) = - sint t - 1"
      unfolding m(2) using sint_64_range [of t] True by (intro sint_word_of_int_64) auto
    ultimately show ?thesis
      by (simp add: NegatePositiveSigned_def)
  qed
  ultimately show ?thesis
    using s(1) True by (simp add: ToString_i64_def Convert_i64_def bufferSize_eq TryFromString_i64_def
      parse_ok_def Let_def m_def)
qed

section \<open>Properties\<close>

lemma map_sum_Inr_iff: "map_sum id f x = Inr v \<longleftrightarrow> (\<exists>w. x = Inr w \<and> v = f w)"
  by (cases x) auto

lemma BasicParse_Inr_iff:
  assumes "9 \<le> unat mx"
  shows "BasicParse mx s = Inr w \<longleftrightarrow> (\<exists>n. digits_value 0 s = Some n \<and> n \<le> unat mx \<and> w = of_nat n)"
proof -
  have "decimal (unat mx) 0 s = Inr n \<longleftrightarrow> digits_value 0 s = Some n \<and> n \<le> unat mx" for n
    using digits_value_decimal [of 0 s n "unat mx"] decimal_digits_value [of "unat mx" 0 s n]
      decimal_le [of "unat mx" 0 s n] by auto
  then show ?thesis
    by (auto simp: BasicParse_decimal [OF assms] map_sum_Inr_iff)
qed

lemma sint_of_nat_64: "n < 2 ^ 63 \<Longrightarrow> sint (of_nat n :: 64 word) = int n"
  using sint_word_of_int_64 [of "int n"] by simp

lemma NegatePositiveSigned_of_nat: "n \<le> 2 ^ 31 \<Longrightarrow> NegatePositiveSigned (of_nat n) = - int n"
proof (cases n)
  case (Suc k)
  assume "n \<le> 2 ^ 31"
  then have "sint (of_nat k :: 64 word) = int k" "(of_nat n :: 64 word) > 0"
    using Suc by (simp_all add: sint_of_nat_64 word_greater_zero_iff unat_of_nat take_bit_nat_eq_self flip: unat_eq_0 del: of_nat_Suc)
  then show ?thesis
    using Suc by (simp add: NegatePositiveSigned_def)
qed (simp add: NegatePositiveSigned_def)

text \<open>
  C36. \<^verbatim>\<open>TryFromString<int>\<close> accepts exactly the decimal texts of the 32-bit integers: at
  least one digit after an optional sign, with a value between \<^verbatim>\<open>INT_MIN\<close> and \<^verbatim>\<open>INT_MAX\<close>,
  and it returns that value. The fast path and the overflow checks on the 64-bit
  accumulator neither reject such a text nor let another one through.
\<close>

theorem TryFromString_int_exact:
  "TryFromString_int s = Some v \<longleftrightarrow>
     - (2 ^ 31) \<le> v \<and> v < 2 ^ 31 \<and>
     (\<exists>ds n. ds \<noteq> [] \<and> digits_value 0 ds = Some n \<and>
        ((s = ds \<or> s = CHR ''+'' # ds) \<and> v = int n \<or> s = CHR ''-'' # ds \<and> v = - int n))"
proof -
  have mx: "unat (PositiveMax iSBounds) = 2 ^ 31 - 1" "unat (NegativeMax iSBounds) = 2 ^ 31"
    by (simp_all add: iSBounds_def)
  have pos: "map_sum id sint (BasicParse (PositiveMax iSBounds) ds) = Inr v \<longleftrightarrow>
      (\<exists>n. digits_value 0 ds = Some n \<and> v = int n \<and> v < 2 ^ 31)" for ds
    by (auto simp: map_sum_Inr_iff BasicParse_Inr_iff mx sint_of_nat_64)
  have neg: "map_sum id NegatePositiveSigned (BasicParse (NegativeMax iSBounds) ds) = Inr v \<longleftrightarrow>
      (\<exists>n. digits_value 0 ds = Some n \<and> v = - int n \<and> - (2 ^ 31) \<le> v)" for ds
    by (auto simp: map_sum_Inr_iff BasicParse_Inr_iff mx NegatePositiveSigned_of_nat)
  have head: "digits_value 0 (c # t) = Some n \<Longrightarrow> c \<noteq> CHR ''+'' \<and> c \<noteq> CHR ''-''" for c t n
    using digits_value_head by blast
  have ok: "parse_ok r = Some v \<longleftrightarrow> r = Inr v" for r
    by (cases r) (auto simp: parse_ok_def)
  show ?thesis
  proof (cases s)
    case (Cons c t)
    then show ?thesis
      using head [of c t] pos [of t] pos [of s] neg [of t]
      by (auto simp: TryFromString_int_def ok IntParse_def simp del: digits_value.simps split: if_splits)
  qed (simp add: TryFromString_int_def IntParse_def parse_ok_def)
qed

text \<open>
  Integers survive the way through text: every \<^verbatim>\<open>ui64\<close> and every \<^verbatim>\<open>i64\<close>, the smallest
  negative one included, is formatted without running out of buffer, and parsing the
  text gives the same value back.
\<close>

theorem integer_text_roundtrip:
  "(\<exists>s. ToString_ui64 u = Some s \<and> TryFromString_ui64 s = Some u) \<and>
   (\<exists>s. ToString_i64 t = Some s \<and> TryFromString_i64 s = Some (sint t))"
  using ui64_roundtrip i64_roundtrip by blast

end
