(* ===== verification/Utf8.thy ===== *)
theory Utf8
  imports Prelude "HOL-Library.Word"
begin

unbundle bit_operations_syntax

text \<open>
  UTF-8 in the issue library: the table driven validator \<^verbatim>\<open>IsUtf8\<close> of
  \<^verbatim>\<open>src/library/issue/utf8.cpp\<close>, the reader \<^verbatim>\<open>SafeReadUTF8Char\<close> of
  \<^verbatim>\<open>util/charset/utf8.h\<close> in the mode the library calls it in, and \<^verbatim>\<open>SanitizeNonAscii\<close>, which
  replaces what is not UTF-8 by question marks. Bytes are characters; their value as
  \<^verbatim>\<open>unsigned char\<close> is \<open>of_char\<close>.
\<close>

section \<open>The validator\<close>

definition range_type :: "nat list" where
  "range_type =
     replicate 128 0 @ replicate 16 0x10 @ replicate 16 0x40 @ replicate 32 0x20 @
     [8, 8] @ replicate 30 2 @
     [10] @ replicate 12 3 @ [4] @ replicate 2 3 @ [11] @ replicate 3 6 @ [5] @ replicate 11 8"

definition GetRange :: "char \<Rightarrow> nat" where
  "GetRange c = range_type ! of_char c"

text \<open>
  The \<^verbatim>\<open>COPY\<close> and \<^verbatim>\<open>TRANS\<close> macros for a list of masks: \<open>None\<close> is the \<^verbatim>\<open>return false\<close> at
  the end of the input, otherwise the flag \<^verbatim>\<open>result\<close> and what is left to read.
\<close>

fun copy_trans :: "nat list \<Rightarrow> bool \<Rightarrow> string \<Rightarrow> (bool \<times> string) option" where
  "copy_trans [] result s = Some (result, s)"
| "copy_trans (msk # masks) result [] = None"
| "copy_trans (msk # masks) result (c # s) =
     copy_trans masks (result \<and> GetRange c AND msk \<noteq> 0) s"

definition lead_masks :: "char \<Rightarrow> nat list option" where
  "lead_masks c =
     (let r = GetRange c in
      if r = 2 then Some [0x70]
      else if r = 3 then Some [0x70, 0x70]
      else if r = 4 then Some [0x50, 0x70]
      else if r = 5 then Some [0x10, 0x70, 0x70]
      else if r = 6 then Some [0x70, 0x70, 0x70]
      else if r = 10 then Some [0x20, 0x70]
      else if r = 11 then Some [0x60, 0x70, 0x70]
      else None)"

lemma copy_trans_length: "copy_trans ms r s = Some (r', s') \<Longrightarrow> length s' \<le> length s"
  by (induction ms r s rule: copy_trans.induct) auto

function (sequential) IsUtf8 :: "string \<Rightarrow> bool" where
  "IsUtf8 [] = True"
| "IsUtf8 (c # it) =
     (if (of_char c :: nat) AND 0x80 = 0 then IsUtf8 it
      else (case lead_masks c of
              None \<Rightarrow> False
            | Some masks \<Rightarrow>
                (case copy_trans masks True it of
                   None \<Rightarrow> False
                 | Some (result, it') \<Rightarrow> if result then IsUtf8 it' else False)))"
  by pat_completeness auto
termination
  by (relation "measure length") (auto dest: copy_trans_length)

section \<open>Reading one rune\<close>

datatype RECODE_RESULT = RECODE_OK | RECODE_EOINPUT | RECODE_BROKENSYMBOL

definition UTF8LeadByteMask :: "nat \<Rightarrow> nat" where
  "UTF8LeadByteMask utf8_rune_len = [0, 0, 0x1F, 0x0F, 0x07] ! utf8_rune_len"

definition UTF8RuneLen :: "nat \<Rightarrow> nat" where
  "UTF8RuneLen lead_byte =
     (if lead_byte AND 0x80 = 0 then 1
      else if lead_byte AND 0xE0 = 0xC0 then 2
      else if lead_byte AND 0xF0 = 0xE0 then 3
      else if lead_byte AND 0xF8 = 0xF0 then 4
      else 0)"

definition IsUTF8ContinuationByte :: "nat \<Rightarrow> bool" where
  "IsUTF8ContinuationByte c \<longleftrightarrow> c AND 0xC0 = 0x80"

definition PutUTF8SixBits :: "nat \<Rightarrow> nat \<Rightarrow> nat" where
  "PutUTF8SixBits rune c = (push_bit 6 rune) OR (c AND 0x3F)"

text \<open>\<^verbatim>\<open>IsValidUTF8Rune<runeLen, StrictUTF8::No>\<close>.\<close>

definition IsValidUTF8Rune :: "nat \<Rightarrow> nat \<Rightarrow> bool" where
  "IsValidUTF8Rune runeLen rune =
     (if runeLen = 2 then rune \<ge> 0x80
      else if runeLen = 3 then rune \<ge> 0x800
      else rune \<le> 0x10FFFF \<and> rune \<ge> 0x10000)"

text \<open>The result is the recode status, with the rune and its length when it is \<open>RECODE_OK\<close>.\<close>

fun read_tail :: "nat \<Rightarrow> nat \<Rightarrow> string \<Rightarrow> nat option" where
  "read_tail 0 rune s = Some rune"
| "read_tail (Suc n) rune [] = None"
| "read_tail (Suc n) rune (c # s) =
     (if IsUTF8ContinuationByte (of_char c) then read_tail n (PutUTF8SixBits rune (of_char c)) s else None)"

definition SafeReadUTF8Char :: "string \<Rightarrow> RECODE_RESULT \<times> nat \<times> nat" where
  "SafeReadUTF8Char s =
     (let len = UTF8RuneLen (of_char (hd s)) in
      if len > length s then (RECODE_EOINPUT, 0, 0)
      else if len = 0 then (RECODE_BROKENSYMBOL, 0, 0)
      else if len = 1 then (RECODE_OK, of_char (hd s), 1)
      else (case read_tail (len - 1) (of_char (hd s) AND UTF8LeadByteMask len) (tl s) of
              None \<Rightarrow> (RECODE_BROKENSYMBOL, 0, 0)
            | Some rune \<Rightarrow> if IsValidUTF8Rune len rune then (RECODE_OK, rune, len)
                           else (RECODE_BROKENSYMBOL, 0, 0)))"

lemma SafeReadUTF8Char_OK_length:
  "SafeReadUTF8Char s = (RECODE_OK, rune, n) \<Longrightarrow> 0 < n"
  by (auto simp: SafeReadUTF8Char_def Let_def split: if_splits option.splits)

function sanitize_loop :: "string \<Rightarrow> string" where
  "sanitize_loop i =
     (if i = [] then []
      else (case SafeReadUTF8Char i of
              (RECODE_OK, rune, runeLen) \<Rightarrow>
                take runeLen i @ sanitize_loop (drop runeLen i)
            | _ \<Rightarrow> CHR ''?'' # sanitize_loop (tl i)))"
  by pat_completeness auto
termination
  by (relation "measure length") (auto dest: sym [THEN SafeReadUTF8Char_OK_length])

declare sanitize_loop.simps [simp del]

definition SanitizeNonAscii :: "string \<Rightarrow> string" where
  "SanitizeNonAscii s = (if IsUtf8 s then s else sanitize_loop s)"

unbundle bit_operations_syntax

section \<open>What the validator accepts\<close>

text \<open>The encoding of RFC 3629 and the code points it encodes.\<close>

definition scalar_value :: "nat \<Rightarrow> bool" where
  "scalar_value c \<longleftrightarrow> c < 0xD800 \<or> 0xE000 \<le> c \<and> c \<le> 0x10FFFF"

definition utf8_bytes :: "nat \<Rightarrow> nat list" where
  "utf8_bytes c =
     (if c < 0x80 then [c]
      else if c < 0x800 then [0xC0 + c div 64, 0x80 + c mod 64]
      else if c < 0x10000 then [0xE0 + c div 4096, 0x80 + c div 64 mod 64, 0x80 + c mod 64]
      else [0xF0 + c div 262144, 0x80 + c div 4096 mod 64, 0x80 + c div 64 mod 64, 0x80 + c mod 64])"

definition utf8_encode :: "nat \<Rightarrow> string" where
  "utf8_encode c = map char_of (utf8_bytes c)"

lemma nth_replicate_append:
  "(replicate k x @ ys) ! n = (if n < k then x else ys ! (n - k))"
  by (simp add: nth_append)

lemma nth_type_Cons: "(x # ys) ! n = (if n = 0 then x else ys ! (n - 1))"
  by (rule nth_Cons')

lemma range_type_nth:
  assumes "n < 256"
  shows "range_type ! n =
     (if n < 0x80 then 0 else if n < 0x90 then 0x10 else if n < 0xA0 then 0x40 else if n < 0xC0 then 0x20
      else if n < 0xC2 then 8 else if n < 0xE0 then 2 else if n < 0xE1 then 10 else if n < 0xED then 3
      else if n < 0xEE then 4 else if n < 0xF0 then 3 else if n < 0xF1 then 11 else if n < 0xF4 then 6
      else if n < 0xF5 then 5 else 8)"
proof -
  have "replicate 11 8 ! (n - 245) = (8 :: nat)" if "245 \<le> n"
    using that assms by (intro nth_replicate) simp
  then show ?thesis
    unfolding range_type_def append_Cons append_Nil nth_replicate_append nth_type_Cons
    using assms by (auto simp: less_diff_conv2)
qed

abbreviation byte :: "char \<Rightarrow> nat" where
  "byte c \<equiv> of_char c"

lemma GetRange_byte: "GetRange c =
     (let n = byte c in
      if n < 0x80 then 0 else if n < 0x90 then 0x10 else if n < 0xA0 then 0x40 else if n < 0xC0 then 0x20
      else if n < 0xC2 then 8 else if n < 0xE0 then 2 else if n < 0xE1 then 10 else if n < 0xED then 3
      else if n < 0xEE then 4 else if n < 0xF0 then 3 else if n < 0xF1 then 11 else if n < 0xF4 then 6
      else if n < 0xF5 then 5 else 8)"
  unfolding GetRange_def Let_def by (rule range_type_nth) simp

lemma GetRange_masks:
  "0 < GetRange c AND 0x70 \<longleftrightarrow> 0x80 \<le> byte c \<and> byte c < 0xC0"
  "0 < GetRange c AND 0x50 \<longleftrightarrow> 0x80 \<le> byte c \<and> byte c < 0xA0"
  "0 < GetRange c AND 0x10 \<longleftrightarrow> 0x80 \<le> byte c \<and> byte c < 0x90"
  "0 < GetRange c AND 0x20 \<longleftrightarrow> 0xA0 \<le> byte c \<and> byte c < 0xC0"
  "0 < GetRange c AND 0x60 \<longleftrightarrow> 0x90 \<le> byte c \<and> byte c < 0xC0"
  by (auto simp: GetRange_byte Let_def)

lemma and_byte_masks:
  fixes n :: nat
  shows and_0x80: "n AND 0x80 = 128 * (n div 128 mod 2)" and and_0xC0: "n AND 0xC0 = 64 * (n div 64 mod 4)"
    and and_0xE0: "n AND 0xE0 = 32 * (n div 32 mod 8)" and and_0xF0: "n AND 0xF0 = 16 * (n div 16 mod 16)"
    and and_0xF8: "n AND 0xF8 = 8 * (n div 8 mod 32)"
proof -
  show "n AND 0x80 = 128 * (n div 128 mod 2)"
    using and_shifted_mask [of n 7 1] by (simp add: push_bit_eq_mult mask_eq_exp_minus_1)
  show "n AND 0xC0 = 64 * (n div 64 mod 4)"
    using and_shifted_mask [of n 6 2] by (simp add: push_bit_eq_mult mask_eq_exp_minus_1)
  show "n AND 0xE0 = 32 * (n div 32 mod 8)"
    using and_shifted_mask [of n 5 3] by (simp add: push_bit_eq_mult mask_eq_exp_minus_1)
  show "n AND 0xF0 = 16 * (n div 16 mod 16)"
    using and_shifted_mask [of n 4 4] by (simp add: push_bit_eq_mult mask_eq_exp_minus_1)
  show "n AND 0xF8 = 8 * (n div 8 mod 32)"
    using and_shifted_mask [of n 3 5] by (simp add: push_bit_eq_mult mask_eq_exp_minus_1)
qed

lemma byte_less: "byte c < 256"
  by simp

lemma byte_ascii: "byte c AND 0x80 = 0 \<longleftrightarrow> byte c < 0x80"
proof -
  have "byte c div 128 < 2"
    using byte_less [of c] by (intro less_mult_imp_div_less) simp
  then show ?thesis
    by (simp add: and_0x80 div_eq_0_iff)
qed

abbreviation continuation :: "char \<Rightarrow> bool" where
  "continuation c \<equiv> 0x80 \<le> byte c \<and> byte c < 0xC0"

definition range_masks :: "nat \<Rightarrow> nat list option" where
  "range_masks r =
      (if r = 2 then Some [0x70]
      else if r = 3 then Some [0x70, 0x70]
      else if r = 4 then Some [0x50, 0x70]
      else if r = 5 then Some [0x10, 0x70, 0x70]
      else if r = 6 then Some [0x70, 0x70, 0x70]
      else if r = 10 then Some [0x20, 0x70]
      else if r = 11 then Some [0x60, 0x70, 0x70]
      else None)"

lemma lead_masks_byte: "lead_masks c =
     (let n = byte c in
      if n < 0x80 then None else if n < 0x90 then None else if n < 0xA0 then None else if n < 0xC0 then None
      else if n < 0xC2 then None else if n < 0xE0 then Some [0x70] else if n < 0xE1 then Some [0x20, 0x70]
      else if n < 0xED then Some [0x70, 0x70] else if n < 0xEE then Some [0x50, 0x70]
      else if n < 0xF0 then Some [0x70, 0x70] else if n < 0xF1 then Some [0x60, 0x70, 0x70]
      else if n < 0xF4 then Some [0x70, 0x70, 0x70] else if n < 0xF5 then Some [0x10, 0x70, 0x70]
      else None)"
proof -
  have "lead_masks c = range_masks (GetRange c)"
    by (simp only: lead_masks_def range_masks_def Let_def)
  moreover have "range_masks 0 = None" "range_masks 0x10 = None" "range_masks 0x40 = None"
    "range_masks 0x20 = None" "range_masks 8 = None" "range_masks 2 = Some [0x70]"
    "range_masks 10 = Some [0x20, 0x70]" "range_masks 3 = Some [0x70, 0x70]"
    "range_masks 4 = Some [0x50, 0x70]" "range_masks 11 = Some [0x60, 0x70, 0x70]"
    "range_masks 6 = Some [0x70, 0x70, 0x70]" "range_masks 5 = Some [0x10, 0x70, 0x70]"
    by (simp_all add: range_masks_def)
  ultimately show ?thesis
    by (simp only: GetRange_byte Let_def if_distrib [of range_masks])
qed

lemma IsUtf8_one: "byte c < 0x80 \<Longrightarrow> IsUtf8 (c # s) \<longleftrightarrow> IsUtf8 s"
  by (simp add: byte_ascii)

lemma IsUtf8_multi:
  assumes "0x80 \<le> byte c" "lead_masks c = Some ms"
  shows "IsUtf8 (c # s) \<longleftrightarrow> (\<exists>s'. copy_trans ms True s = Some (True, s') \<and> IsUtf8 s')"
  using assms by (auto simp: byte_ascii split: option.splits)

lemma copy_trans_accepts:
  "copy_trans (m # ms) True s = Some (True, s') \<longleftrightarrow>
     (\<exists>c t. s = c # t \<and> 0 < GetRange c AND m \<and> copy_trans ms True t = Some (True, s'))"
  "copy_trans [] True s = Some (True, s') \<longleftrightarrow> s' = s"
proof -
  have "copy_trans ms False t \<noteq> Some (True, s')" for t
    by (induction ms "False" t rule: copy_trans.induct) auto
  then show "copy_trans (m # ms) True s = Some (True, s') \<longleftrightarrow>
      (\<exists>c t. s = c # t \<and> 0 < GetRange c AND m \<and> copy_trans ms True t = Some (True, s'))"
    by (cases s; cases "0 < GetRange (hd s) AND m") auto
qed auto

lemmas utf8_sequence = IsUtf8_multi copy_trans_accepts GetRange_masks

lemma IsUtf8_two:
  assumes "0xC2 \<le> byte c" "byte c < 0xE0"
  shows "IsUtf8 (c # s) \<longleftrightarrow> (\<exists>c1 s'. s = c1 # s' \<and> continuation c1 \<and> IsUtf8 s')"
proof -
  have "lead_masks c = Some [0x70]"
    using assms by (simp add: lead_masks_byte)
  then show ?thesis
    using assms by (auto simp: utf8_sequence simp del: IsUtf8.simps copy_trans.simps)
qed

lemma IsUtf8_three:
  assumes "0xE0 \<le> byte c" "byte c < 0xF0"
  shows "IsUtf8 (c # s) \<longleftrightarrow> (\<exists>c1 c2 s'. s = c1 # c2 # s' \<and> continuation c1 \<and> continuation c2 \<and>
     (byte c = 0xE0 \<longrightarrow> 0xA0 \<le> byte c1) \<and> (byte c = 0xED \<longrightarrow> byte c1 < 0xA0) \<and> IsUtf8 s')"
proof -
  define m :: nat where "m = (if byte c = 0xE0 then 0x20 else if byte c = 0xED then 0x50 else 0x70)"
  have m: "0 < GetRange x AND m \<longleftrightarrow> continuation x \<and>
      (byte c = 0xE0 \<longrightarrow> 0xA0 \<le> byte x) \<and> (byte c = 0xED \<longrightarrow> byte x < 0xA0)" for x
    by (auto simp: m_def GetRange_masks)
  have "lead_masks c = Some [m, 0x70]"
    using assms by (auto simp: lead_masks_byte m_def Let_def)
  then show ?thesis
    using assms by (auto simp: utf8_sequence m simp del: IsUtf8.simps copy_trans.simps)
qed

lemma IsUtf8_four:
  assumes "0xF0 \<le> byte c" "byte c < 0xF5"
  shows "IsUtf8 (c # s) \<longleftrightarrow> (\<exists>c1 c2 c3 s'. s = c1 # c2 # c3 # s' \<and>
     continuation c1 \<and> continuation c2 \<and> continuation c3 \<and>
     (byte c = 0xF0 \<longrightarrow> 0x90 \<le> byte c1) \<and> (byte c = 0xF4 \<longrightarrow> byte c1 < 0x90) \<and> IsUtf8 s')"
proof -
  define m :: nat where "m = (if byte c = 0xF0 then 0x60 else if byte c = 0xF4 then 0x10 else 0x70)"
  have m: "0 < GetRange x AND m \<longleftrightarrow> continuation x \<and>
      (byte c = 0xF0 \<longrightarrow> 0x90 \<le> byte x) \<and> (byte c = 0xF4 \<longrightarrow> byte x < 0x90)" for x
    by (auto simp: m_def GetRange_masks)
  have "lead_masks c = Some [m, 0x70, 0x70]"
    using assms by (auto simp: lead_masks_byte m_def Let_def)
  then show ?thesis
    using assms by (auto simp: utf8_sequence m simp del: IsUtf8.simps copy_trans.simps)
qed

lemma IsUtf8_lead:
  "IsUtf8 (c # s) \<Longrightarrow> byte c < 0x80 \<or> 0xC2 \<le> byte c \<and> byte c < 0xF5"
  by (auto simp: byte_ascii lead_masks_byte Let_def split: if_splits)

lemma byte_char_of: "n < 256 \<Longrightarrow> byte (char_of n) = n"
  by simp

lemma IsUtf8_encode_append:
  assumes "scalar_value c"
  shows "IsUtf8 (utf8_encode c @ s) \<longleftrightarrow> IsUtf8 s"
proof -
  consider "c < 0x80" | "0x80 \<le> c" "c < 0x800" | "0x800 \<le> c" "c < 0x10000" | "0x10000 \<le> c" "c \<le> 0x10FFFF"
    using assms by (fastforce simp: scalar_value_def)
  then show ?thesis
  proof cases
    case 1
    then show ?thesis
      by (simp add: utf8_encode_def utf8_bytes_def IsUtf8_one byte_char_of del: IsUtf8.simps)
  next
    case 2
    then have "2 \<le> c div 64" "c div 64 < 32" "c mod 64 < 64"
      by auto
    then show ?thesis
      using 2 by (simp add: utf8_encode_def utf8_bytes_def IsUtf8_two byte_char_of del: IsUtf8.simps)
  next
    case 3
    define x y where "x = c div 4096" and "y = c div 64 mod 64"
    have "x < 16" "y < 64" "c mod 64 < 64"
      using 3 by (auto simp: x_def y_def)
    moreover have "c div 64 = 64 * x + y"
      by (simp add: x_def y_def div_mult2_eq [of c 64 64, simplified])
    moreover have "c = 64 * (c div 64) + c mod 64"
      by simp
    ultimately have "x = 0 \<longrightarrow> 32 \<le> y" "x = 13 \<longrightarrow> y < 32"
      using 3 assms by (auto simp: scalar_value_def)
    then show ?thesis
      using 3 \<open>x < 16\<close> \<open>y < 64\<close> \<open>c mod 64 < 64\<close>
      by (simp add: utf8_encode_def utf8_bytes_def IsUtf8_three byte_char_of x_def [symmetric] y_def [symmetric] del: IsUtf8.simps)
  next
    case 4
    define x y where "x = c div 262144" and "y = c div 4096 mod 64"
    have "x < 5" "y < 64" "c div 64 mod 64 < 64" "c mod 64 < 64"
      using 4 by (auto simp: x_def y_def)
    moreover have "c div 4096 = 64 * x + y"
      by (simp add: x_def y_def div_mult2_eq [of c 4096 64, simplified])
    moreover have "c = 4096 * (c div 4096) + c mod 4096"
      by simp
    ultimately have "x = 0 \<longrightarrow> 16 \<le> y" "x = 4 \<longrightarrow> y < 16"
      using 4 by auto
    then show ?thesis
      using 4 \<open>x < 5\<close> \<open>y < 64\<close> \<open>c div 64 mod 64 < 64\<close> \<open>c mod 64 < 64\<close>
      by (simp add: utf8_encode_def utf8_bytes_def IsUtf8_four byte_char_of x_def [symmetric] y_def [symmetric] del: IsUtf8.simps)
  qed
qed

lemma sextet_digits:
  fixes q r :: nat
  assumes "r < 64"
  shows "(64 * q + r) div 64 = q" "(64 * q + r) mod 64 = r"
  using assms by simp_all

lemma encode_two:
  assumes "2 \<le> x" "x < 32" "y < 64"
  shows "utf8_encode (64 * x + y) = [char_of (0xC0 + x), char_of (0x80 + y)]"
  using assms by (simp add: utf8_encode_def utf8_bytes_def sextet_digits)

lemma encode_three:
  assumes "x < 16" "y < 64" "z < 64" "x = 0 \<longrightarrow> 32 \<le> y"
  defines "n \<equiv> 64 * (64 * x + y) + z"
  shows "utf8_encode n = [char_of (0xE0 + x), char_of (0x80 + y), char_of (0x80 + z)]"
    and "0x800 \<le> n" and "n < 0x10000"
proof -
  have n64: "n div 64 = 64 * x + y" "n mod 64 = z"
    unfolding n_def by (rule sextet_digits [OF assms(3)])+
  then have n: "n div 4096 = x" "n div 64 mod 64 = y"
    using assms(2) div_mult2_eq [of n 64 64] by simp_all
  show range: "0x800 \<le> n" "n < 0x10000"
    using assms(1-4) by (auto simp: n_def)
  then show "utf8_encode n = [char_of (0xE0 + x), char_of (0x80 + y), char_of (0x80 + z)]"
    by (simp add: utf8_encode_def utf8_bytes_def n n64(2))
qed

lemma encode_four:
  assumes "w < 5" "x < 64" "y < 64" "z < 64" "w = 0 \<longrightarrow> 16 \<le> x"
  defines "n \<equiv> 64 * (64 * (64 * w + x) + y) + z"
  shows "utf8_encode n = [char_of (0xF0 + w), char_of (0x80 + x), char_of (0x80 + y), char_of (0x80 + z)]"
    and "0x10000 \<le> n"
proof -
  have n64: "n div 64 = 64 * (64 * w + x) + y" "n mod 64 = z"
    unfolding n_def by (rule sextet_digits [OF assms(4)])+
  then have n4096: "n div 4096 = 64 * w + x"
    using sextet_digits [OF assms(3)] div_mult2_eq [of n 64 64] by simp
  then have "n div 262144 = w"
    using sextet_digits [OF assms(2)] div_mult2_eq [of n 4096 64] by simp
  moreover have "n div 64 mod 64 = y" "n div 4096 mod 64 = x"
    unfolding n64(1) n4096 by (rule sextet_digits(2) [OF assms(3)] sextet_digits(2) [OF assms(2)])+
  moreover show "0x10000 \<le> n"
    using assms(1-5) by (auto simp: n_def)
  ultimately show "utf8_encode n = [char_of (0xF0 + w), char_of (0x80 + x), char_of (0x80 + y), char_of (0x80 + z)]"
    by (simp add: utf8_encode_def utf8_bytes_def n64(2))
qed

lemma char_of_lead: "byte c = k + x \<Longrightarrow> char_of (k + x) = c"
  by (metis char_of_char)

lemma decode_two:
  assumes "0xC2 \<le> byte c" "byte c < 0xE0" "continuation c1"
  shows "\<exists>n. scalar_value n \<and> utf8_encode n = [c, c1]"
proof -
  define x y where "x = byte c - 0xC0" and "y = byte c1 - 0x80"
  have x: "byte c = 0xC0 + x" "2 \<le> x" "x < 32" and y: "byte c1 = 0x80 + y" "y < 64"
    using assms by (auto simp: x_def y_def)
  then have "utf8_encode (64 * x + y) = [c, c1]"
    by (simp add: encode_two char_of_lead)
  moreover have "scalar_value (64 * x + y)"
    using x y by (simp add: scalar_value_def)
  ultimately show ?thesis
    by blast
qed

lemma decode_three:
  assumes "0xE0 \<le> byte c" "byte c < 0xF0" "continuation c1" "continuation c2"
    "byte c = 0xE0 \<longrightarrow> 0xA0 \<le> byte c1" "byte c = 0xED \<longrightarrow> byte c1 < 0xA0"
  shows "\<exists>n. scalar_value n \<and> utf8_encode n = [c, c1, c2]"
proof -
  define x y z where "x = byte c - 0xE0" and "y = byte c1 - 0x80" and "z = byte c2 - 0x80"
  have x: "byte c = 0xE0 + x" "x < 16" and y: "byte c1 = 0x80 + y" "y < 64"
    and z: "byte c2 = 0x80 + z" "z < 64" and xy: "x = 0 \<longrightarrow> 32 \<le> y" "x = 13 \<longrightarrow> y < 32"
    using assms by (auto simp: x_def y_def z_def)
  then have "utf8_encode (64 * (64 * x + y) + z) = [c, c1, c2]"
    by (simp only: encode_three char_of_lead)
  moreover have "scalar_value (64 * (64 * x + y) + z)"
    using x(2) y(2) z(2) xy by (cases "x \<le> 12"; cases "x = 13"; auto simp: scalar_value_def)
  ultimately show ?thesis
    by blast
qed

lemma decode_four:
  assumes "0xF0 \<le> byte c" "byte c < 0xF5" "continuation c1" "continuation c2" "continuation c3"
    "byte c = 0xF0 \<longrightarrow> 0x90 \<le> byte c1" "byte c = 0xF4 \<longrightarrow> byte c1 < 0x90"
  shows "\<exists>n. scalar_value n \<and> utf8_encode n = [c, c1, c2, c3]"
proof -
  define w x y z where "w = byte c - 0xF0" and "x = byte c1 - 0x80" and "y = byte c2 - 0x80"
    and "z = byte c3 - 0x80"
  have w: "byte c = 0xF0 + w" "w < 5" and x: "byte c1 = 0x80 + x" "x < 64"
    and y: "byte c2 = 0x80 + y" "y < 64" and z: "byte c3 = 0x80 + z" "z < 64"
    and wx: "w = 0 \<longrightarrow> 16 \<le> x" "w = 4 \<longrightarrow> x < 16"
    using assms by (auto simp: w_def x_def y_def z_def)
  then have "utf8_encode (64 * (64 * (64 * w + x) + y) + z) = [c, c1, c2, c3]"
    by (simp only: encode_four char_of_lead)
  moreover have "scalar_value (64 * (64 * (64 * w + x) + y) + z)"
    using w(2) x(2) y(2) z(2) wx by (auto simp: scalar_value_def)
  ultimately show ?thesis
    by blast
qed

lemma IsUtf8_decode:
  assumes "IsUtf8 (c # s)"
  shows "\<exists>n s'. scalar_value n \<and> c # s = utf8_encode n @ s' \<and> IsUtf8 s'"
proof -
  consider "byte c < 0x80" | "0xC2 \<le> byte c" "byte c < 0xE0" | "0xE0 \<le> byte c" "byte c < 0xF0"
    | "0xF0 \<le> byte c" "byte c < 0xF5"
    using IsUtf8_lead [OF assms] by linarith
  then show ?thesis
  proof cases
    case 1
    then show ?thesis
      using assms IsUtf8_one [OF 1]
      by (intro exI [of _ "byte c"] exI [of _ s]) (simp add: utf8_encode_def utf8_bytes_def scalar_value_def)
  next
    case 2
    obtain c1 s' where s: "s = c1 # s'" "continuation c1" "IsUtf8 s'"
      using assms unfolding IsUtf8_two [OF 2] by blast
    show ?thesis
      using decode_two [OF 2 s(2)] s(1,3) by fastforce
  next
    case 3
    obtain c1 c2 s' where s: "s = c1 # c2 # s'" "continuation c1" "continuation c2"
      "byte c = 0xE0 \<longrightarrow> 0xA0 \<le> byte c1" "byte c = 0xED \<longrightarrow> byte c1 < 0xA0" "IsUtf8 s'"
      using assms unfolding IsUtf8_three [OF 3] by blast
    show ?thesis
      using decode_three [OF 3 s(2-5)] s(1,6) by fastforce
  next
    case 4
    obtain c1 c2 c3 s' where s: "s = c1 # c2 # c3 # s'" "continuation c1" "continuation c2" "continuation c3"
      "byte c = 0xF0 \<longrightarrow> 0x90 \<le> byte c1" "byte c = 0xF4 \<longrightarrow> byte c1 < 0x90" "IsUtf8 s'"
      using assms unfolding IsUtf8_four [OF 4] by blast
    show ?thesis
      using decode_four [OF 4 s(2-6)] s(1,7) by fastforce
  qed
qed

lemma utf8_encode_nonempty: "utf8_encode c \<noteq> []"
  by (simp add: utf8_encode_def utf8_bytes_def)

lemma IsUtf8_concat: "list_all scalar_value cs \<Longrightarrow> IsUtf8 (concat (map utf8_encode cs))"
  by (induction cs) (auto simp: IsUtf8_encode_append)

lemma IsUtf8_scalars:
  "IsUtf8 s \<Longrightarrow> \<exists>cs. list_all scalar_value cs \<and> s = concat (map utf8_encode cs)"
proof (induction "length s" arbitrary: s rule: less_induct)
  case less
  show ?case
  proof (cases s)
    case (Cons c t)
    then obtain n s' where n: "scalar_value n" "s = utf8_encode n @ s'" "IsUtf8 s'"
      using IsUtf8_decode less.prems by blast
    moreover have "length s' < length s"
      using n(2) utf8_encode_nonempty [of n] by simp
    ultimately obtain cs where "list_all scalar_value cs" "s' = concat (map utf8_encode cs)"
      using less.hyps by blast
    then show ?thesis
      using n by (intro exI [of _ "n # cs"]) simp
  qed (auto intro: exI [of _ "[]"])
qed

unbundle bit_operations_syntax

section \<open>What the reader accepts\<close>

lemma byte_and_eq:
  fixes n :: nat
  assumes "n < 256"
  shows "n AND 0xC0 = 0x80 \<longleftrightarrow> 0x80 \<le> n \<and> n < 0xC0"
    and "n AND 0xE0 = 0xC0 \<longleftrightarrow> 0xC0 \<le> n \<and> n < 0xE0"
    and "n AND 0xF0 = 0xE0 \<longleftrightarrow> 0xE0 \<le> n \<and> n < 0xF0"
    and "n AND 0xF8 = 0xF0 \<longleftrightarrow> 0xF0 \<le> n \<and> n < 0xF8"
proof -
  have "n div 64 mod 4 = n div 64" "n div 32 mod 8 = n div 32" "n div 16 mod 16 = n div 16"
    "n div 8 mod 32 = n div 8"
    using assms by (auto intro!: mod_less less_mult_imp_div_less)
  note * = and_0xC0 [of n, unfolded this] and_0xE0 [of n, unfolded this] and_0xF0 [of n, unfolded this]
    and_0xF8 [of n, unfolded this]
  show "n AND 0xC0 = 0x80 \<longleftrightarrow> 0x80 \<le> n \<and> n < 0xC0"
    unfolding * by auto
  show "n AND 0xE0 = 0xC0 \<longleftrightarrow> 0xC0 \<le> n \<and> n < 0xE0"
    unfolding * by auto
  show "n AND 0xF0 = 0xE0 \<longleftrightarrow> 0xE0 \<le> n \<and> n < 0xF0"
    unfolding * by auto
  show "n AND 0xF8 = 0xF0 \<longleftrightarrow> 0xF0 \<le> n \<and> n < 0xF8"
    unfolding * by auto
qed

lemma UTF8RuneLen_byte: "UTF8RuneLen (byte c) =
  (if byte c < 0x80 then 1 else if byte c < 0xC0 then 0 else if byte c < 0xE0 then 2
   else if byte c < 0xF0 then 3 else if byte c < 0xF8 then 4 else 0)"
  unfolding UTF8RuneLen_def byte_ascii byte_and_eq [OF byte_less] by simp

lemma IsUTF8ContinuationByte_byte: "IsUTF8ContinuationByte (byte c) \<longleftrightarrow> continuation c"
  unfolding IsUTF8ContinuationByte_def by (rule byte_and_eq [OF byte_less])

lemma PutUTF8SixBits_eq: "PutUTF8SixBits r c = 64 * r + c mod 64"
proof -
  have "c AND 0x3F = take_bit 6 c"
    by (simp add: take_bit_eq_mask mask_eq_exp_minus_1)
  then show ?thesis
    using push_bit_or_take_bit [of 6 r c] by (simp add: PutUTF8SixBits_def)
qed

lemma lead_bits:
  fixes n :: nat
  shows "n AND UTF8LeadByteMask 2 = n mod 32" "n AND UTF8LeadByteMask 3 = n mod 16"
    "n AND UTF8LeadByteMask 4 = n mod 8"
proof -
  have "n AND 0x1F = take_bit 5 n" "n AND 0x0F = take_bit 4 n" "n AND 0x07 = take_bit 3 n"
    by (simp_all add: take_bit_eq_mask mask_eq_exp_minus_1)
  then show "n AND UTF8LeadByteMask 2 = n mod 32" "n AND UTF8LeadByteMask 3 = n mod 16"
    "n AND UTF8LeadByteMask 4 = n mod 8"
    by (simp_all add: UTF8LeadByteMask_def take_bit_eq_mod)
qed

lemma read_tail_Suc:
  "read_tail (Suc k) rune s = Some r \<longleftrightarrow>
     (\<exists>c t. s = c # t \<and> continuation c \<and> read_tail k (64 * rune + byte c mod 64) t = Some r)"
  by (cases s) (auto simp: IsUTF8ContinuationByte_byte PutUTF8SixBits_eq)

lemma read_tail_0: "read_tail 0 rune s = Some r \<longleftrightarrow> r = rune"
  by auto

lemma read_tail_length: "read_tail k rune s = Some r \<Longrightarrow> k \<le> length s"
  by (induction k rune s rule: read_tail.induct) (auto split: if_splits)

lemma read_multi:
  assumes "UTF8RuneLen (byte c) = Suc (Suc k)"
  shows "SafeReadUTF8Char (c # s) = (RECODE_OK, r, n) \<longleftrightarrow>
     read_tail (Suc k) (byte c AND UTF8LeadByteMask (Suc (Suc k))) s = Some r \<and>
     IsValidUTF8Rune (Suc (Suc k)) r \<and> n = Suc (Suc k)"
  using assms read_tail_length [of "Suc k" "byte c AND UTF8LeadByteMask (Suc (Suc k))" s r]
  by (auto simp: SafeReadUTF8Char_def Let_def split: option.splits)

lemma read_one:
  assumes "byte c < 0x80"
  shows "SafeReadUTF8Char (c # s) = (RECODE_OK, r, n) \<longleftrightarrow> n = 1 \<and> r = byte c"
  using assms by (auto simp: SafeReadUTF8Char_def UTF8RuneLen_byte)

lemmas read_rules = read_tail_Suc read_tail_0 IsValidUTF8Rune_def lead_bits

lemma read_two:
  assumes "0xC0 \<le> byte c" "byte c < 0xE0"
  shows "SafeReadUTF8Char (c # s) = (RECODE_OK, r, n) \<longleftrightarrow>
     (\<exists>c1 s'. s = c1 # s' \<and> continuation c1 \<and> n = 2 \<and>
        r = 64 * (byte c mod 32) + byte c1 mod 64 \<and> 0x80 \<le> r)"
proof -
  have "UTF8RuneLen (byte c) = Suc (Suc 0)"
    using assms by (simp add: UTF8RuneLen_byte)
  from read_multi [OF this, of s r n] show ?thesis
    unfolding read_rules numeral_2_eq_2 [symmetric] by auto
qed

lemma read_three:
  assumes "0xE0 \<le> byte c" "byte c < 0xF0"
  shows "SafeReadUTF8Char (c # s) = (RECODE_OK, r, n) \<longleftrightarrow>
     (\<exists>c1 c2 s'. s = c1 # c2 # s' \<and> continuation c1 \<and> continuation c2 \<and> n = 3 \<and>
        r = 64 * (64 * (byte c mod 16) + byte c1 mod 64) + byte c2 mod 64 \<and> 0x800 \<le> r)"
proof -
  have "UTF8RuneLen (byte c) = Suc (Suc 1)"
    using assms by (simp add: UTF8RuneLen_byte)
  from read_multi [OF this, of s r n] show ?thesis
    unfolding One_nat_def read_rules numeral_3_eq_3 [symmetric] by auto
qed

lemma read_four:
  assumes "0xF0 \<le> byte c" "byte c < 0xF8"
  shows "SafeReadUTF8Char (c # s) = (RECODE_OK, r, n) \<longleftrightarrow>
     (\<exists>c1 c2 c3 s'. s = c1 # c2 # c3 # s' \<and> continuation c1 \<and> continuation c2 \<and> continuation c3 \<and> n = 4 \<and>
        r = 64 * (64 * (64 * (byte c mod 8) + byte c1 mod 64) + byte c2 mod 64) + byte c3 mod 64 \<and>
        0x10000 \<le> r \<and> r \<le> 0x10FFFF)"
proof -
  have "UTF8RuneLen (byte c) = Suc (Suc (Suc (Suc 0)))"
    using assms by (simp add: UTF8RuneLen_byte)
  moreover have four: "Suc (Suc (Suc (Suc 0))) = 4"
    by simp
  ultimately show ?thesis
    using read_multi [of c "Suc (Suc 0)" s r n] unfolding read_rules four by auto
qed

lemma read_fails:
  assumes "0x80 \<le> byte c" "byte c < 0xC0 \<or> 0xF8 \<le> byte c"
  shows "SafeReadUTF8Char (c # s) \<noteq> (RECODE_OK, r, n)"
  using assms by (auto simp: SafeReadUTF8Char_def UTF8RuneLen_byte Let_def)

lemma mod_offset: "m dvd k \<Longrightarrow> x < m \<Longrightarrow> (k + x) mod m = (x :: nat)"
  by (auto simp: dvd_def)

lemma byte_split:
  "k \<le> byte c \<Longrightarrow> byte c < k + m \<Longrightarrow> \<exists>x. byte c = k + x \<and> x < m"
  by (metis le_iff_add nat_add_left_cancel_less)

lemma read_two_sound:
  assumes lead: "0xC0 \<le> byte c" "byte c < 0xE0" and "SafeReadUTF8Char (c # s) = (RECODE_OK, r, n)"
  shows "r \<le> 0x10FFFF \<and> (\<exists>s'. c # s = utf8_encode r @ s' \<and> n = length (utf8_encode r))"
proof -
  obtain c1 s' where s: "s = c1 # s'" "continuation c1" "n = 2"
    "r = 64 * (byte c mod 32) + byte c1 mod 64" "0x80 \<le> r"
    using assms(3) unfolding read_two [OF lead] by blast
  obtain x y where x: "byte c = 0xC0 + x" "x < 32" and y: "byte c1 = 0x80 + y" "y < 64"
    using byte_split [of "0xC0" c 32] byte_split [of "0x80" c1 64] lead s(2) by auto
  have r: "r = 64 * x + y"
    using s(4) x y by (simp add: mod_offset)
  then have "utf8_encode r = [c, c1]" "r \<le> 0x10FFFF"
    using s(5) x y encode_two [of x y] by (auto simp: char_of_lead)
  then show ?thesis
    using s by simp
qed

lemma read_three_sound:
  assumes lead: "0xE0 \<le> byte c" "byte c < 0xF0" and "SafeReadUTF8Char (c # s) = (RECODE_OK, r, n)"
  shows "r \<le> 0x10FFFF \<and> (\<exists>s'. c # s = utf8_encode r @ s' \<and> n = length (utf8_encode r))"
proof -
  obtain c1 c2 s' where s: "s = c1 # c2 # s'" "continuation c1" "continuation c2" "n = 3"
    "r = 64 * (64 * (byte c mod 16) + byte c1 mod 64) + byte c2 mod 64" "0x800 \<le> r"
    using assms(3) unfolding read_three [OF lead] by blast
  obtain x y z where x: "byte c = 0xE0 + x" "x < 16" and y: "byte c1 = 0x80 + y" "y < 64"
    and z: "byte c2 = 0x80 + z" "z < 64"
    using byte_split [of "0xE0" c 16] byte_split [of "0x80" c1 64] byte_split [of "0x80" c2 64] lead s(2,3)
    by auto
  have r: "r = 64 * (64 * x + y) + z"
    using s(5) x y z by (simp add: mod_offset)
  have "x = 0 \<longrightarrow> 32 \<le> y"
    using s(6) z(2) r by auto
  from encode_three [OF x(2) y(2) z(2) this] have "utf8_encode r = [c, c1, c2]" "r \<le> 0x10FFFF"
    using x y z r by (auto simp: char_of_lead)
  then show ?thesis
    using s by simp
qed

lemma read_four_sound:
  assumes lead: "0xF0 \<le> byte c" "byte c < 0xF8" and "SafeReadUTF8Char (c # s) = (RECODE_OK, r, n)"
  shows "r \<le> 0x10FFFF \<and> (\<exists>s'. c # s = utf8_encode r @ s' \<and> n = length (utf8_encode r))"
proof -
  obtain c1 c2 c3 s' where s: "s = c1 # c2 # c3 # s'" "continuation c1" "continuation c2"
    "continuation c3" "n = 4"
    "r = 64 * (64 * (64 * (byte c mod 8) + byte c1 mod 64) + byte c2 mod 64) + byte c3 mod 64"
    "0x10000 \<le> r" "r \<le> 0x10FFFF"
    using assms(3) unfolding read_four [OF lead] by blast
  obtain w x y z where w: "byte c = 0xF0 + w" "w < 8" and x: "byte c1 = 0x80 + x" "x < 64"
    and y: "byte c2 = 0x80 + y" "y < 64" and z: "byte c3 = 0x80 + z" "z < 64"
    using byte_split [of "0xF0" c 8] byte_split [of "0x80" c1 64] byte_split [of "0x80" c2 64]
      byte_split [of "0x80" c3 64] lead s(2-4) by auto
  have r: "r = 64 * (64 * (64 * w + x) + y) + z"
    using s(6) w x y z by (simp add: mod_offset)
  have "w < 5" "w = 0 \<longrightarrow> 16 \<le> x"
    using s(7,8) x(2) y(2) z(2) r by auto
  from encode_four(1) [OF this(1) x(2) y(2) z(2) this(2)] have "utf8_encode r = [c, c1, c2, c3]"
    using w x y z r by (simp add: char_of_lead)
  then show ?thesis
    using s by simp
qed

lemma read_sound:
  assumes "SafeReadUTF8Char (c # s) = (RECODE_OK, r, n)"
  shows "r \<le> 0x10FFFF \<and> (\<exists>s'. c # s = utf8_encode r @ s' \<and> n = length (utf8_encode r))"
proof -
  consider "byte c < 0x80" | "0xC0 \<le> byte c" "byte c < 0xE0" | "0xE0 \<le> byte c" "byte c < 0xF0"
    | "0xF0 \<le> byte c" "byte c < 0xF8"
    using read_fails [of c s r n] assms by linarith
  then show ?thesis
  proof cases
    case 1
    then show ?thesis
      using assms by (simp add: read_one utf8_encode_def utf8_bytes_def)
  next
    case 2
    then show ?thesis
      using assms by (rule read_two_sound)
  next
    case 3
    then show ?thesis
      using assms by (rule read_three_sound)
  next
    case 4
    then show ?thesis
      using assms by (rule read_four_sound)
  qed
qed

lemma read_complete:
  assumes "r \<le> 0x10FFFF"
  shows "SafeReadUTF8Char (utf8_encode r @ s) = (RECODE_OK, r, length (utf8_encode r))"
proof -
  consider "r < 0x80" | "0x80 \<le> r" "r < 0x800" | "0x800 \<le> r" "r < 0x10000" | "0x10000 \<le> r"
    by linarith
  then show ?thesis
  proof cases
    case 1
    then show ?thesis
      by (simp add: utf8_encode_def utf8_bytes_def read_one)
  next
    case 2
    then have "r div 64 < 32"
      by auto
    then show ?thesis
      using 2 by (simp add: utf8_encode_def utf8_bytes_def read_two mod_offset)
  next
    case 3
    then have "r div 4096 < 16" "r = 64 * (64 * (r div 4096) + r div 64 mod 64) + r mod 64"
      by (auto simp: div_mult2_eq [of r 64 64, simplified])
    then show ?thesis
      using 3 by (simp add: utf8_encode_def utf8_bytes_def read_three mod_offset)
  next
    case 4
    have "r div 64 = 64 * (r div 4096) + r div 64 mod 64" "r div 4096 = 64 * (r div 262144) + r div 4096 mod 64"
      "r = 64 * (r div 64) + r mod 64"
      by (simp_all add: div_mult2_eq [of r 64 64, simplified] div_mult2_eq [of r 4096 64, simplified])
    then have "r = 64 * (64 * (64 * (r div 262144) + r div 4096 mod 64) + r div 64 mod 64) + r mod 64"
      by metis
    moreover have "r div 262144 < 8"
      using assms by auto
    ultimately show ?thesis
      using 4 assms by (simp add: utf8_encode_def utf8_bytes_def read_four mod_offset)
  qed
qed

section \<open>Sanitizing\<close>

abbreviation code_point :: "nat \<Rightarrow> bool" where
  "code_point n \<equiv> n \<le> 0x10FFFF"

lemma sanitize_loop_OK:
  "SafeReadUTF8Char (c # t) = (RECODE_OK, r, n) \<Longrightarrow>
     sanitize_loop (c # t) = take n (c # t) @ sanitize_loop (drop n (c # t))"
  by (subst sanitize_loop.simps) simp

lemma sanitize_loop_bad:
  "SafeReadUTF8Char (c # t) = (res, r, n) \<Longrightarrow> res \<noteq> RECODE_OK \<Longrightarrow>
     sanitize_loop (c # t) = CHR ''?'' # sanitize_loop t"
  by (subst sanitize_loop.simps) (cases res; simp)

lemma question_mark: "utf8_encode 0x3F = ''?''"
  by (simp add: utf8_encode_def utf8_bytes_def char_of_def bit_Suc_0_iff)

lemma sanitize_loop_code_points:
  "\<exists>cs. list_all code_point cs \<and> sanitize_loop s = concat (map utf8_encode cs)"
proof (induction s rule: length_induct)
  case (1 s)
  show ?case
  proof (cases s)
    case (Cons c t)
    obtain res r n where read: "SafeReadUTF8Char (c # t) = (res, r, n)"
      by (cases "SafeReadUTF8Char (c # t)")
    show ?thesis
    proof (cases "res = RECODE_OK")
      case True
      then obtain s' where r: "code_point r" "s = utf8_encode r @ s'" "n = length (utf8_encode r)"
        using read_sound read Cons by blast
      moreover obtain cs where "list_all code_point cs" "sanitize_loop s' = concat (map utf8_encode cs)"
        using 1 r(2) utf8_encode_nonempty [of r] by force
      ultimately show ?thesis
        using sanitize_loop_OK [of c t r n] read True Cons [symmetric]
        by (intro exI [of _ "r # cs"]) simp
    next
      case False
      obtain cs where "list_all code_point cs" "sanitize_loop t = concat (map utf8_encode cs)"
        using 1 Cons by force
      then show ?thesis
        using sanitize_loop_bad [OF read False] Cons question_mark
        by (intro exI [of _ "0x3F # cs"]) simp
    qed
  qed (auto simp: sanitize_loop.simps intro: exI [of _ "[]"])
qed

lemma sanitize_loop_id:
  "list_all code_point cs \<Longrightarrow> sanitize_loop (concat (map utf8_encode cs)) = concat (map utf8_encode cs)"
proof (induction cs)
  case (Cons r cs)
  then show ?case
    using utf8_encode_nonempty [of r]
    by (subst sanitize_loop.simps) (simp add: read_complete)
qed (simp add: sanitize_loop.simps)


section \<open>Properties\<close>

text \<open>
  C32. \<^verbatim>\<open>IsUtf8\<close> accepts exactly the byte strings that RFC 3629 calls UTF-8: the
  concatenations of the encodings of Unicode scalar values. Overlong forms, surrogates
  and values above 0x10FFFF are rejected.
\<close>

theorem IsUtf8_rfc3629:
  "IsUtf8 s \<longleftrightarrow> (\<exists>cs. list_all scalar_value cs \<and> s = concat (map utf8_encode cs))"
  using IsUtf8_scalars IsUtf8_concat by blast

text \<open>
  C33. Whatever the input, \<^verbatim>\<open>SanitizeNonAscii\<close> returns a concatenation of encoded code
  points up to 0x10FFFF, and sanitizing a second time changes nothing.
\<close>

theorem SanitizeNonAscii_code_points:
  "(\<exists>cs. list_all code_point cs \<and> SanitizeNonAscii s = concat (map utf8_encode cs)) \<and>
   SanitizeNonAscii (SanitizeNonAscii s) = SanitizeNonAscii s"
proof -
  have "\<exists>cs. list_all code_point cs \<and> SanitizeNonAscii s = concat (map utf8_encode cs)"
  proof (cases "IsUtf8 s")
    case True
    then obtain cs where "list_all scalar_value cs" "s = concat (map utf8_encode cs)"
      using IsUtf8_scalars by blast
    then show ?thesis
      using True by (auto simp: SanitizeNonAscii_def scalar_value_def list_all_iff intro!: exI [of _ cs])
  qed (use sanitize_loop_code_points in \<open>simp add: SanitizeNonAscii_def\<close>)
  then show ?thesis
    using sanitize_loop_id by (auto simp: SanitizeNonAscii_def)
qed

text \<open>
  The result of \<^verbatim>\<open>SanitizeNonAscii\<close> need not be UTF-8: an encoded surrogate makes
  \<^verbatim>\<open>IsUtf8\<close> fail, but the reader, called in its lenient mode, takes it for a rune and the
  bytes are kept.
\<close>

theorem SanitizeNonAscii_keeps_surrogates:
  "SanitizeNonAscii [CHR 0xED, CHR 0xA0, CHR 0x80] = [CHR 0xED, CHR 0xA0, CHR 0x80] \<and>
   \<not> IsUtf8 (SanitizeNonAscii [CHR 0xED, CHR 0xA0, CHR 0x80])"
proof -
  have e: "[CHR 0xED, CHR 0xA0, CHR 0x80] = concat (map utf8_encode [0xD800])"
    by (simp add: utf8_encode_def utf8_bytes_def char_of_def bit_Suc_0_iff)
  have "\<not> IsUtf8 [CHR 0xED, CHR 0xA0, CHR 0x80]"
    by (subst IsUtf8_three) auto
  then show ?thesis
    using sanitize_loop_id [of "[0xD800]"] unfolding e by (simp add: SanitizeNonAscii_def)
qed

end
