(* ===== verification/Multimaps.thy ===== *)
theory Multimaps
  imports Prelude
begin

text \<open>
  \<^verbatim>\<open>std::multimap\<close> as the list of its entries in iteration order: ordered by key, entries
  with equal keys in the order of their insertion. \<^verbatim>\<open>find\<close> returns the first entry of a
  key, as the implementations of the standard library do.
\<close>

type_synonym ('k, 'v) mmap = "('k \<times> 'v) list"

definition mm_sorted :: "('k::linorder, 'v) mmap \<Rightarrow> bool" where
  "mm_sorted m \<longleftrightarrow> sorted (map fst m)"

definition mm_insert :: "'k::linorder \<Rightarrow> 'v \<Rightarrow> ('k, 'v) mmap \<Rightarrow> ('k, 'v) mmap" where
  "mm_insert k v m = takeWhile (\<lambda>e. fst e \<le> k) m @ (k, v) # dropWhile (\<lambda>e. fst e \<le> k) m"

definition mm_range :: "'k \<Rightarrow> ('k, 'v) mmap \<Rightarrow> 'v list" where
  "mm_range k m = map snd (filter (\<lambda>e. fst e = k) m)"

lemma mset_mm_insert [simp]: "mset (mm_insert k v m) = add_mset (k, v) (mset m)"
proof -
  have "mset m = mset (takeWhile (\<lambda>e. fst e \<le> k) m) + mset (dropWhile (\<lambda>e. fst e \<le> k) m)"
    by (metis mset_append takeWhile_dropWhile_id)
  then show ?thesis
    by (simp add: mm_insert_def)
qed

lemma set_mm_insert [simp]: "set (mm_insert k v m) = insert (k, v) (set m)"
  by (subst set_mset_mset [symmetric]) (simp del: set_mset_mset, simp)

lemma length_mm_insert [simp]: "length (mm_insert k v m) = Suc (length m)"
  by (subst size_mset [symmetric]) (simp del: size_mset, simp)

lemma mm_insert_not_Nil [simp]: "mm_insert k v m \<noteq> []"
  by (simp add: mm_insert_def)

lemma mset_snd_mm_insert [simp]: "mset (map snd (mm_insert k v m)) = add_mset v (mset (map snd m))"
  by simp

lemma mm_sorted_Nil [simp]: "mm_sorted []"
  by (simp add: mm_sorted_def)

lemma mm_sorted_insert [simp]: "mm_sorted m \<Longrightarrow> mm_sorted (mm_insert k v m)"
proof (unfold mm_sorted_def mm_insert_def, induction m)
  case (Cons e m)
  then show ?case
    by (auto dest: set_takeWhileD set_dropWhileD)
qed simp

lemma mm_sorted_tl [simp]: "mm_sorted m \<Longrightarrow> mm_sorted (tl m)"
  by (cases m) (auto simp: mm_sorted_def)

lemma mm_sorted_butlast [simp]: "mm_sorted m \<Longrightarrow> mm_sorted (butlast m)"
  by (simp add: mm_sorted_def map_butlast sorted_butlast)

lemma mm_sorted_filter [simp]: "mm_sorted m \<Longrightarrow> mm_sorted (filter P m)"
  by (simp add: mm_sorted_def sorted_filter)

lemma mm_sorted_hd: "mm_sorted m \<Longrightarrow> e \<in> set m \<Longrightarrow> fst (hd m) \<le> fst e"
  by (cases m) (auto simp: mm_sorted_def)

text \<open>The order of the values of a key is the order of insertion.\<close>

lemma mm_range_insert:
  assumes "mm_sorted m"
  shows "mm_range k' (mm_insert k v m) = mm_range k' m @ (if k' = k then [v] else [])"
proof -
  have split: "mm_range k' m =
      map snd (filter (\<lambda>e. fst e = k') (takeWhile (\<lambda>e. fst e \<le> k) m)) @
      map snd (filter (\<lambda>e. fst e = k') (dropWhile (\<lambda>e. fst e \<le> k) m))"
    by (metis filter_append map_append mm_range_def takeWhile_dropWhile_id)
  have "filter (\<lambda>e. fst e = k) (dropWhile (\<lambda>e. fst e \<le> k) m) = []"
  proof -
    have "\<forall>e \<in> set (dropWhile (\<lambda>e. fst e \<le> k) m). k < fst e"
      using assms
    proof (induction m)
      case (Cons e m)
      then have "\<forall>x \<in> set m. fst e \<le> fst x" "mm_sorted m"
        by (auto simp: mm_sorted_def)
      then show ?case
        using Cons.IH by (cases "fst e \<le> k") (auto simp: not_le intro: less_le_trans)
    qed simp
    then show ?thesis
      by (auto simp: filter_empty_conv)
  qed
  moreover have "mm_range k' (mm_insert k v m) =
      map snd (filter (\<lambda>e. fst e = k') (takeWhile (\<lambda>e. fst e \<le> k) m)) @ (if k' = k then [v] else []) @
      map snd (filter (\<lambda>e. fst e = k') (dropWhile (\<lambda>e. fst e \<le> k) m))"
    by (simp add: mm_range_def mm_insert_def)
  ultimately show ?thesis
    unfolding split by (cases "k' = k") simp_all
qed

end
