(* ===== verification/Rose.thy ===== *)
theory Rose
  imports Prelude "HOL-Library.Sublist"
begin

text \<open>
  Trees whose nodes are addressed by paths. The source builds such trees through raw
  pointers to nodes that are filled in later; a pointer to a node is the path to it from
  the root, which stays valid because a node's children are only appended while the node
  itself is processed.
\<close>

datatype 'a rose = Node (label: 'a) (children: "'a rose list")

fun modify_at :: "nat list \<Rightarrow> ('a rose \<Rightarrow> 'a rose) \<Rightarrow> 'a rose \<Rightarrow> 'a rose" where
  "modify_at [] f t = f t"
| "modify_at (i # p) f (Node a ts) =
     (if i < length ts then Node a (ts[i := modify_at p f (ts ! i)]) else Node a ts)"

abbreviation set_at :: "nat list \<Rightarrow> 'a rose \<Rightarrow> 'a rose \<Rightarrow> 'a rose" where
  "set_at p x \<equiv> modify_at p (\<lambda>_. x)"

text \<open>
  The breadth first copy: \<open>queue\<close> holds pairs of a node of the copy, allocated and not yet
  filled, and the node it is to be filled from. The node is written with the converted
  label and default children, which are queued behind the others.
\<close>

function (sequential) bfs_copy ::
  "('a \<Rightarrow> 'b) \<Rightarrow> 'b \<Rightarrow> 'b rose \<Rightarrow> (nat list \<times> 'a rose) list \<Rightarrow> 'b rose" where
  "bfs_copy f d t [] = t"
| "bfs_copy f d t ((p, Node a ts) # queue) =
     bfs_copy f d (set_at p (Node (f a) (replicate (length ts) (Node d []))) t)
       (queue @ map (\<lambda>i. (p @ [i], ts ! i)) [0..<length ts])"
  by pat_completeness auto
termination
proof (relation "measure (\<lambda>(_, _, _, queue). sum_list (map (size \<circ> snd) queue))")
  fix f :: "'a \<Rightarrow> 'b" and d t p a and ts :: "'a rose list" and queue :: "(nat list \<times> 'a rose) list"
  have "map (\<lambda>i. size (ts ! i)) [0..<length ts] = map size ts"
    by (rule nth_equalityI) auto
  moreover have "sum_list (map size ts) \<le> size_list size ts"
    by (induction ts) auto
  ultimately show "((f, d, set_at p (Node (f a) (replicate (length ts) (Node d []))) t,
        queue @ map (\<lambda>i. (p @ [i], ts ! i)) [0..<length ts]), f, d, t, (p, Node a ts) # queue)
      \<in> measure (\<lambda>(_, _, _, queue). sum_list (map (size \<circ> snd) queue))"
    by (simp add: comp_def)
qed simp

section \<open>The copy is the node-wise conversion\<close>

lemma set_at_commute:
  "p \<parallel> q \<Longrightarrow> set_at p x (set_at q y t) = set_at q y (set_at p x t)"
proof (induction p arbitrary: q t)
  case (Cons i p)
  then obtain j q' where q: "q = j # q'" "i \<noteq> j \<or> p \<parallel> q'"
    by (cases q) (auto simp: parallel_def)
  obtain a ts where t: "t = Node a ts"
    by (cases t)
  show ?case
  proof (cases "i = j")
    case True
    then show ?thesis
      using q Cons.IH [of q' "ts ! j"] by (auto simp: t)
  next
    case False
    then show ?thesis
      using q by (auto simp: t list_update_swap)
  qed
qed (simp add: parallel_def)

lemma set_at_append:
  "set_at (p @ q) x (set_at p n t) = set_at p (set_at q x n) t"
proof (induction p arbitrary: t)
  case (Cons i p)
  then show ?case
    by (cases t) auto
qed simp

definition fill :: "('a \<Rightarrow> 'b) \<Rightarrow> 'b rose \<Rightarrow> (nat list \<times> 'a rose) list \<Rightarrow> 'b rose" where
  "fill f t queue = foldl (\<lambda>t (p, m). set_at p (map_rose f m) t) t queue"

lemma fill_simps [simp]:
  "fill f t [] = t"
  "fill f t ((p, m) # queue) = fill f (set_at p (map_rose f m) t) queue"
  "fill f t (q1 @ q2) = fill f (fill f t q1) q2"
  by (simp_all add: fill_def)

lemma fill_set_at:
  "\<forall>q\<in>fst ` set queue. p \<parallel> q \<Longrightarrow> fill f (set_at p x t) queue = set_at p x (fill f t queue)"
  by (induction queue arbitrary: t) (auto simp: set_at_commute [of p _ x, symmetric])

lemma fill_swap:
  "\<forall>p\<in>fst ` set q1. \<forall>q\<in>fst ` set q2. p \<parallel> q \<Longrightarrow> fill f (fill f t q1) q2 = fill f (fill f t q2) q1"
  by (induction q1 arbitrary: t) (auto simp: fill_set_at)

lemma fill_children:
  "fill f (set_at p n t) (map (\<lambda>i. (p @ [i], g i)) is) =
   set_at p (fill f n (map (\<lambda>i. ([i], g i)) is)) t"
  by (induction "is" arbitrary: n) (auto simp: set_at_append)

lemma fill_node:
  "fill f (Node b (replicate (length ts) d)) (map (\<lambda>i. ([i], ts ! i)) [0..<length ts]) =
   Node b (map (map_rose f) ts)"
proof -
  have "k \<le> length ts \<Longrightarrow>
    fill f (Node b (replicate (length ts) d)) (map (\<lambda>i. ([i], ts ! i)) [0..<k]) =
    Node b (map (map_rose f) (take k ts) @ replicate (length ts - k) d)" for k
  proof (induction k)
    case (Suc k)
    then obtain r where "length ts - k = Suc r" "length ts - Suc k = r"
      by (metis Suc_diff_Suc Suc_le_lessD)
    then show ?case
      using Suc by (simp add: take_Suc_conv_app_nth list_update_append min_def)
  qed simp
  from this [of "length ts"] show ?thesis
    by simp
qed

lemma parallel_snoc: "q \<parallel> p \<Longrightarrow> q \<parallel> p @ [i]"
  by (metis parallel_append parallel_commute append_Nil2)

lemma parallel_children: "i \<noteq> j \<Longrightarrow> p @ [i] \<parallel> p @ [j]"
  by (simp add: not_equal_is_parallel)

lemma bfs_copy_fill:
  "sorted_wrt parallel (map fst queue) \<Longrightarrow> bfs_copy f d t queue = fill f t queue"
proof (induction f d t queue rule: bfs_copy.induct)
  case (2 f d t p a ts queue)
  let ?kids = "map (\<lambda>i. (p @ [i], ts ! i)) [0..<length ts]"
  let ?n = "Node (f a) (replicate (length ts) (Node d []))"
  have par: "\<forall>q\<in>fst ` set queue. q \<parallel> p"
    using 2(2) by (auto simp: parallel_commute)
  have "sorted_wrt parallel (map fst ?kids)"
    by (auto simp: sorted_wrt_iff_nth_less parallel_children)
  then have "sorted_wrt parallel (map fst (queue @ ?kids))"
    using 2(2) par by (auto simp: sorted_wrt_append parallel_snoc)
  then have "bfs_copy f d t ((p, Node a ts) # queue) = fill f (fill f (set_at p ?n t) queue) ?kids"
    using 2(1) by simp
  also have "\<dots> = fill f (fill f (set_at p ?n t) ?kids) queue"
    using par by (intro fill_swap) (auto simp: parallel_snoc)
  also have "fill f (set_at p ?n t) ?kids = set_at p (map_rose f (Node a ts)) t"
    by (simp add: fill_children fill_node)
  finally show ?case
    by simp
qed simp

theorem bfs_copy_map: "bfs_copy f d (Node d []) [([], m)] = map_rose f m"
  by (simp add: bfs_copy_fill)

end
