(* ===== verification/Issue.thy ===== *)
theory Issue
  imports Ascii Utf8 IntCast Rose
begin

text \<open>
  Issues, the tree-shaped diagnostics of a response: \<^verbatim>\<open>library/issue/yql_issue.{h,cpp}\<close>.
  A \<^verbatim>\<open>TIssue\<close> owns its sub-issues by reference counted pointers that nothing shares, so an
  issue is a tree. The traversals keep an explicit stack, as in the source; a callback
  with side effects is represented by the list of calls it gets, in order.
\<close>

section \<open>Positions and issues\<close>

record TPosition =
  Column :: "32 word"
  Row :: "32 word"
  File :: string

definition default_position :: TPosition where
  "default_position = \<lparr>Column = 0, Row = 0, File = []\<rparr>"

definition MakePosition :: "32 word \<Rightarrow> 32 word \<Rightarrow> string \<Rightarrow> TPosition" where
  "MakePosition column row file = \<lparr>Column = column, Row = row, File = SanitizeNonAscii file\<rparr>"

definition HasValue :: "TPosition \<Rightarrow> bool" where
  "HasValue pos \<longleftrightarrow> or (Row pos) (Column pos) \<noteq> 0"

text \<open>\<^verbatim>\<open>ESeverity\<close> is an enumeration over \<^verbatim>\<open>uint32_t\<close> that is also cast from numbers of a
  message, so any 32-bit value can occur.\<close>

definition Fatal :: "32 word" where
  "Fatal = 0"

definition Error :: "32 word" where
  "Error = 1"

definition Warning :: "32 word" where
  "Warning = 2"

definition Info :: "32 word" where
  "Info = 3"

text \<open>The function has no \<^verbatim>\<open>return\<close> for other values: \<open>None\<close>.\<close>

definition SeverityToString :: "32 word \<Rightarrow> string option" where
  "SeverityToString severity =
     (if severity = Fatal then Some ''Fatal'' else if severity = Error then Some ''Error''
      else if severity = Warning then Some ''Warning'' else if severity = Info then Some ''Info''
      else None)"

record issue_data =
  Message :: string
  Position :: TPosition
  EndPosition :: TPosition
  IssueCode :: "32 word"
  Severity :: "32 word"

type_synonym TIssue = "issue_data rose"

abbreviation GetSubIssues :: "TIssue \<Rightarrow> TIssue list" where
  "GetSubIssues issue \<equiv> children issue"

definition make_data :: "string \<Rightarrow> TPosition \<Rightarrow> TPosition \<Rightarrow> issue_data" where
  "make_data message position endPosition =
     \<lparr>Message = SanitizeNonAscii message, Position = position, EndPosition = endPosition,
      IssueCode = 0, Severity = Error\<rparr>"

definition default_data :: issue_data where
  "default_data = \<lparr>Message = [], Position = default_position, EndPosition = default_position,
     IssueCode = 0, Severity = Error\<rparr>"

text \<open>The three constructors with a message.\<close>

definition IssueOfMessage :: "string \<Rightarrow> TIssue" where
  "IssueOfMessage message = Node (make_data message default_position default_position) []"

definition IssueAt :: "TPosition \<Rightarrow> string \<Rightarrow> TIssue" where
  "IssueAt position message = Node (make_data message position position) []"

definition IssueAtRange :: "TPosition \<Rightarrow> TPosition \<Rightarrow> string \<Rightarrow> TIssue" where
  "IssueAtRange position endPosition message = Node (make_data message position endPosition) []"

fun SetCode :: "32 word \<Rightarrow> 32 word \<Rightarrow> TIssue \<Rightarrow> TIssue" where
  "SetCode code severity (Node d subs) = Node (d\<lparr>IssueCode := code, Severity := severity\<rparr>) subs"

fun SetMessage :: "string \<Rightarrow> TIssue \<Rightarrow> TIssue" where
  "SetMessage msg (Node d subs) = Node (d\<lparr>Message := SanitizeNonAscii msg\<rparr>) subs"

fun AddSubIssue :: "TIssue \<Rightarrow> TIssue \<Rightarrow> TIssue" where
  "AddSubIssue issue (Node d subs) =
     Node (d\<lparr>Severity := min (Severity (label issue)) (Severity d)\<rparr>) (subs @ [issue])"

fun CopyWithoutSubIssues :: "TIssue \<Rightarrow> TIssue \<Rightarrow> TIssue" where
  "CopyWithoutSubIssues src (Node d subs) = Node (label src) subs"

section \<open>Traversal\<close>

datatype EFnType = Main | AfterChildren

type_synonym call = "EFnType \<times> 16 word \<times> TIssue"

definition push_children :: "bool \<Rightarrow> 16 word \<Rightarrow> TIssue list \<Rightarrow> call list \<Rightarrow> call list" where
  "push_children hasAfterChildrenFn level subIssues issuesStack =
     foldr (\<lambda>sub stack. (Main, level, sub) #
                         (if hasAfterChildrenFn then (AfterChildren, level, sub) # stack else stack))
       subIssues issuesStack"

fun call_weight :: "call \<Rightarrow> nat" where
  "call_weight (Main, _, issue) = 2 * size issue"
| "call_weight (AfterChildren, _, _) = 1"

lemma push_children_weight:
  "sum_list (map call_weight (push_children b l subs stack))
     \<le> 2 * size_list size subs + sum_list (map call_weight stack)"
  unfolding push_children_def by (induction subs) auto

lemma sum_list_size_le: "sum_list (map size ts) \<le> size_list size (ts :: 'a rose list)"
  by (induction ts) auto

function (sequential) walk_loop :: "bool \<Rightarrow> bool \<Rightarrow> call list \<Rightarrow> call list" where
  "walk_loop leafOnly hasAfterChildrenFn [] = []"
| "walk_loop leafOnly hasAfterChildrenFn ((fnType, level, curIssue) # issuesStack) =
     (if \<not> leafOnly \<or> GetSubIssues curIssue = [] then [(fnType, level, curIssue)] else []) @
     walk_loop leafOnly hasAfterChildrenFn
       (if fnType = Main
        then push_children hasAfterChildrenFn (level + 1) (GetSubIssues curIssue) issuesStack
        else issuesStack)"
  by pat_completeness auto
termination
proof (relation "measure (\<lambda>(_, _, stack). sum_list (map call_weight stack))")
  fix leafOnly b :: bool and fnType level curIssue stack
  show "((leafOnly, b, if fnType = Main then push_children b (level + 1) (GetSubIssues curIssue) stack
         else stack), leafOnly, b, (fnType, level, curIssue) # stack)
      \<in> measure (\<lambda>(_, _, stack). sum_list (map call_weight stack))"
    using push_children_weight [of b "level + 1" "GetSubIssues curIssue" stack]
    by (cases curIssue; cases fnType) auto
qed simp

text \<open>
  \<^verbatim>\<open>WalkThroughIssues\<close> with callbacks: the calls of \<^verbatim>\<open>fn\<close> and, when it is given, of
  \<^verbatim>\<open>afterChildrenFn\<close>.
\<close>

definition WalkThroughIssues :: "TIssue \<Rightarrow> bool \<Rightarrow> bool \<Rightarrow> call list" where
  "WalkThroughIssues topIssue leafOnly hasAfterChildrenFn =
     walk_loop leafOnly hasAfterChildrenFn
       ((Main, 0, topIssue) # (if hasAfterChildrenFn then [(AfterChildren, 0, topIssue)] else []))"

text \<open>The version whose callback can stop the walk.\<close>

function (sequential) walk_until_loop ::
  "bool \<Rightarrow> (TIssue \<Rightarrow> 16 word \<Rightarrow> bool) \<Rightarrow> (16 word \<times> TIssue) list \<Rightarrow> bool" where
  "walk_until_loop leafOnly fn [] = True"
| "walk_until_loop leafOnly fn ((level, curIssue) # issuesStack) =
     (if (\<not> leafOnly \<or> GetSubIssues curIssue = []) \<and> \<not> fn curIssue level then False
      else walk_until_loop leafOnly fn
             (map (\<lambda>sub. (level + 1, sub)) (GetSubIssues curIssue) @ issuesStack))"
  by pat_completeness auto
termination
proof (relation "measure (\<lambda>(_, _, stack). sum_list (map (\<lambda>(_, i). size i) stack))")
  fix leafOnly fn and level :: "16 word" and curIssue :: TIssue and stack :: "(16 word \<times> TIssue) list"
  have "sum_list (map size (GetSubIssues curIssue)) < size curIssue"
    by (cases curIssue) (auto simp: less_Suc_eq_le intro: sum_list_size_le)
  then show "((leafOnly, fn, map (\<lambda>sub. (level + 1, sub)) (GetSubIssues curIssue) @ stack),
      leafOnly, fn, (level, curIssue) # stack)
      \<in> measure (\<lambda>(_, _, stack). sum_list (map (\<lambda>(_, i). size i) stack))"
    by (simp add: comp_def)
qed simp

definition WalkUntil :: "TIssue \<Rightarrow> bool \<Rightarrow> (TIssue \<Rightarrow> 16 word \<Rightarrow> bool) \<Rightarrow> bool" where
  "WalkUntil topIssue leafOnly fn = walk_until_loop leafOnly fn [(0, topIssue)]"

text \<open>\<^verbatim>\<open>StatusContainsIssueWithCode\<close> of \<^verbatim>\<open>types/status/status.cpp\<close>.\<close>

fun StatusContainsIssueIf :: "TIssue list \<Rightarrow> (TIssue \<Rightarrow> bool) \<Rightarrow> bool" where
  "StatusContainsIssueIf [] pred = False"
| "StatusContainsIssueIf (topIssue # issues) pred =
     (if \<not> WalkUntil topIssue False (\<lambda>issue level. \<not> pred issue) then True
      else StatusContainsIssueIf issues pred)"

definition StatusContainsIssueWithCode :: "TIssue list \<Rightarrow> 32 word \<Rightarrow> bool" where
  "StatusContainsIssueWithCode issues code =
     StatusContainsIssueIf issues (\<lambda>issue. IssueCode (label issue) = code)"

section \<open>Printing\<close>

definition OutPosition :: "TPosition \<Rightarrow> string" where
  "OutPosition pos =
     (if File pos = [] then ''<main>'' else File pos) @
     (if HasValue pos then '':'' @ show_ui32 (Row pos) @ '':'' @ show_ui32 (Column pos) else [])"

definition OutRange :: "TPosition \<Rightarrow> TPosition \<Rightarrow> string" where
  "OutRange pos endPos =
     (if pos \<noteq> endPos then ''['' @ OutPosition pos @ ''-'' @ OutPosition endPos @ '']'' else OutPosition pos)"

definition StripString :: "string \<Rightarrow> string" where
  "StripString s = rev (dropWhile IsAsciiSpace (rev (dropWhile IsAsciiSpace s)))"

definition newline :: char where
  "newline = CHR 0x0A"

definition PrintIssueTo :: "TIssue \<Rightarrow> bool \<Rightarrow> string option" where
  "PrintIssueTo issue oneLine =
     (let d = label issue in
      do { sev \<leftarrow> SeverityToString (Severity d);
           Some (OutRange (Position d) (EndPosition d) @ '': '' @ sev @ '': '' @
             (if oneLine then map (\<lambda>c. if c = newline then CHR '' '' else c) (StripString (Message d))
              else Message d) @
             (if IssueCode d \<noteq> 0 then '', code: '' @ show_ui32 (IssueCode d) else [])) })"

text \<open>Writing in sequence; a step without a result ends the output.\<close>

fun concat_opt :: "string option list \<Rightarrow> string option" where
  "concat_opt [] = Some []"
| "concat_opt (x # xs) = do { s \<leftarrow> x; r \<leftarrow> concat_opt xs; Some (s @ r) }"

fun print_call :: "bool \<Rightarrow> call \<Rightarrow> string option" where
  "print_call printWithSpace (Main, level, issue) =
     do { s \<leftarrow> PrintIssueTo issue True;
          Some ((if level > 0 then '' subissue: { '' else if printWithSpace then '' { '' else ''{ '') @ s) }"
| "print_call printWithSpace (AfterChildren, _, _) = Some '' }''"

fun print_indented :: "call \<Rightarrow> string option" where
  "print_indented (_, level, issue) =
     do { s \<leftarrow> PrintIssueTo issue False; Some (replicate (unat level * 4) CHR '' '' @ s @ [newline]) }"

definition PrintIssuesTo :: "TIssue list \<Rightarrow> bool \<Rightarrow> string option" where
  "PrintIssuesTo issues oneLine =
     (if oneLine then
        (let printWithSpace = (length issues > 1) in
         do { body \<leftarrow> concat_opt (map (\<lambda>topIssue.
                concat_opt (map (print_call printWithSpace) (WalkThroughIssues topIssue False True))) issues);
              Some ((if length issues > 1 then ''['' else []) @ body @
                    (if length issues > 1 then '' ]'' else [])) })
      else concat_opt (map (\<lambda>topIssue.
             concat_opt (map print_indented (WalkThroughIssues topIssue False False))) issues))"

section \<open>Messages\<close>

text \<open>\<^verbatim>\<open>Ydb.Issue.IssueMessage\<close>. The positions are optional; reading one that is not set
  gives zeros.\<close>

record message_position =
  pos_row :: "32 word"
  pos_column :: "32 word"
  pos_file :: string

record message_data =
  position :: "message_position option"
  msg_text :: string
  end_position :: "message_position option"
  issue_code :: "32 word"
  severity :: "32 word"

type_synonym IssueMessage = "message_data rose"

definition read_position :: "message_position option \<Rightarrow> message_position" where
  "read_position p = (case p of None \<Rightarrow> \<lparr>pos_row = 0, pos_column = 0, pos_file = []\<rparr> | Some q \<Rightarrow> q)"

text \<open>
  What the loop of \<^verbatim>\<open>IssueFromMessage\<close> writes into one issue. \<^verbatim>\<open>AddSubIssue\<close> lowers the
  severity, and the final \<^verbatim>\<open>SetCode\<close> overwrites it.
\<close>

definition issue_data_of :: "message_data \<Rightarrow> issue_data" where
  "issue_data_of m =
     (let p = read_position (position m);
          e = read_position (end_position m);
          pos = MakePosition (pos_column p) (pos_row p) (pos_file p);
          endPos = MakePosition (pos_column e) (pos_row e) [];
          d = (if HasValue pos then
                 if HasValue endPos then make_data (msg_text m) pos endPos else make_data (msg_text m) pos pos
               else make_data (msg_text m) default_position default_position)
      in d\<lparr>IssueCode := issue_code m, Severity := severity m\<rparr>)"

definition IssueFromMessage :: "IssueMessage \<Rightarrow> TIssue" where
  "IssueFromMessage issueMessage =
     bfs_copy issue_data_of default_data (Node default_data []) [([], issueMessage)]"

definition IssuesFromMessage :: "IssueMessage list \<Rightarrow> TIssue list" where
  "IssuesFromMessage message = map IssueFromMessage message"

definition message_data_of :: "issue_data \<Rightarrow> message_data" where
  "message_data_of i =
     \<lparr>position = (if HasValue (Position i)
        then Some \<lparr>pos_row = Row (Position i), pos_column = Column (Position i), pos_file = File (Position i)\<rparr>
        else None),
      msg_text = Message i,
      end_position = (if HasValue (EndPosition i)
        then Some \<lparr>pos_row = Row (EndPosition i), pos_column = Column (EndPosition i), pos_file = []\<rparr>
        else None),
      issue_code = IssueCode i, severity = Severity i\<rparr>"

definition empty_message :: message_data where
  "empty_message = \<lparr>position = None, msg_text = [], end_position = None, issue_code = 0, severity = 0\<rparr>"

definition IssueToMessage :: "TIssue \<Rightarrow> IssueMessage" where
  "IssueToMessage topIssue =
     bfs_copy message_data_of empty_message (Node empty_message []) [([], topIssue)]"

definition IssuesToMessage :: "TIssue list \<Rightarrow> IssueMessage list" where
  "IssuesToMessage issues = map IssueToMessage issues"

section \<open>The traversals visit the tree in order\<close>

text \<open>The recursive descriptions of the two walks.\<close>

definition visited :: "bool \<Rightarrow> TIssue \<Rightarrow> bool" where
  [simp]: "visited leafOnly issue \<longleftrightarrow> \<not> leafOnly \<or> GetSubIssues issue = []"

definition after_call :: "bool \<Rightarrow> bool \<Rightarrow> 16 word \<Rightarrow> TIssue \<Rightarrow> call list" where
  "after_call leafOnly hasAfter level issue =
     (if hasAfter \<and> visited leafOnly issue then [(AfterChildren, level, issue)] else [])"

fun preorder :: "bool \<Rightarrow> bool \<Rightarrow> 16 word \<Rightarrow> TIssue \<Rightarrow> call list" where
  "preorder leafOnly hasAfter level (Node d subs) =
     (if visited leafOnly (Node d subs) then [(Main, level, Node d subs)] else []) @
     concat (map (\<lambda>sub. preorder leafOnly hasAfter (level + 1) sub @
                        after_call leafOnly hasAfter (level + 1) sub) subs)"

fun expand_call :: "bool \<Rightarrow> bool \<Rightarrow> call \<Rightarrow> call list" where
  "expand_call leafOnly hasAfter (Main, level, issue) = preorder leafOnly hasAfter level issue"
| "expand_call leafOnly hasAfter (AfterChildren, level, issue) =
     (if visited leafOnly issue then [(AfterChildren, level, issue)] else [])"

lemma expand_push_children:
  "concat (map (expand_call leafOnly hasAfter) (push_children hasAfter level subs stack)) =
   concat (map (\<lambda>sub. preorder leafOnly hasAfter level sub @ after_call leafOnly hasAfter level sub) subs) @
   concat (map (expand_call leafOnly hasAfter) stack)"
  unfolding push_children_def by (induction subs) (auto simp: after_call_def)

lemma walk_loop_expand:
  "walk_loop leafOnly hasAfter stack = concat (map (expand_call leafOnly hasAfter) stack)"
proof (induction leafOnly hasAfter stack rule: walk_loop.induct)
  case (2 leafOnly hasAfter fnType level curIssue stack)
  then show ?case
    by (cases curIssue; cases fnType) (auto simp: expand_push_children)
qed simp

fun tree_nodes :: "16 word \<Rightarrow> TIssue \<Rightarrow> (16 word \<times> TIssue) list" where
  "tree_nodes level (Node d subs) = (level, Node d subs) # concat (map (tree_nodes (level + 1)) subs)"

lemma walk_until_loop_nodes:
  "walk_until_loop leafOnly fn stack \<longleftrightarrow>
     (\<forall>(level, issue) \<in> set (concat (map (\<lambda>(l, i). tree_nodes l i) stack)). visited leafOnly issue \<longrightarrow> fn issue level)"
proof (induction leafOnly fn stack rule: walk_until_loop.induct)
  case (2 leafOnly fn level curIssue stack)
  obtain d subs where i: "curIssue = Node d subs"
    by (cases curIssue)
  have kids: "concat (map (\<lambda>(l, i). tree_nodes l i) (map (Pair (level + 1)) subs @ stack)) =
      concat (map (tree_nodes (level + 1)) subs) @ concat (map (\<lambda>(l, i). tree_nodes l i) stack)"
    by (simp add: comp_def)
  show ?case
    using 2 unfolding i by (auto simp del: map_append simp add: kids)
qed simp

lemma StatusContainsIssueIf_iff:
  "StatusContainsIssueIf issues pred \<longleftrightarrow>
     (\<exists>topIssue \<in> set issues. \<exists>(level, issue) \<in> set (tree_nodes 0 topIssue). pred issue)"
  by (induction issues) (auto simp: WalkUntil_def walk_until_loop_nodes case_prod_unfold)


section \<open>Printing follows the tree\<close>

fun show_tree :: "bool \<Rightarrow> 16 word \<Rightarrow> TIssue \<Rightarrow> string option" where
  "show_tree printWithSpace level (Node d subs) =
     do { s \<leftarrow> print_call printWithSpace (Main, level, Node d subs);
          inner \<leftarrow> concat_opt (map (show_tree printWithSpace (level + 1)) subs);
          Some (s @ inner @ '' }'') }"

lemma concat_opt_append:
  "concat_opt (xs @ ys) = do { s \<leftarrow> concat_opt xs; r \<leftarrow> concat_opt ys; Some (s @ r) }"
  by (induction xs) (auto simp: bind_eq_Some_conv Option.bind_assoc split: bind_splits)

lemma concat_opt_concat: "concat_opt (map concat_opt xss) = concat_opt (concat xss)"
  by (induction xss) (auto simp: concat_opt_append)

lemma concat_opt_tree:
  "concat_opt (map (print_call b) (preorder False True level t @ after_call False True level t)) =
   show_tree b level t"
proof (induction t arbitrary: level)
  case (Node d subs)
  let ?walk = "\<lambda>sub. preorder False True (level + 1) sub @ after_call False True (level + 1) sub"
  have "concat_opt (map (print_call b) (concat (map ?walk subs))) =
      concat_opt (map (\<lambda>sub. concat_opt (map (print_call b) (?walk sub))) subs)"
    using concat_opt_concat [of "map (map (print_call b)) (map ?walk subs)"]
    by (simp add: map_concat comp_def)
  also have "\<dots> = concat_opt (map (show_tree b (level + 1)) subs)"
    using Node by (intro arg_cong [where f = concat_opt] map_cong) auto
  finally show ?case
    by (simp add: concat_opt_append after_call_def Option.bind_assoc)
qed

lemma WalkThroughIssues_eq:
  "WalkThroughIssues t leafOnly hasAfter =
     preorder leafOnly hasAfter 0 t @ after_call leafOnly hasAfter 0 t"
  by (simp add: WalkThroughIssues_def walk_loop_expand after_call_def)

lemma print_walk: "concat_opt (map (print_call b) (WalkThroughIssues t False True)) = show_tree b 0 t"
  unfolding WalkThroughIssues_eq by (rule concat_opt_tree)

section \<open>Conversion to and from messages\<close>

definition portable :: "issue_data \<Rightarrow> bool" where
  "portable d \<longleftrightarrow> SanitizeNonAscii (Message d) = Message d \<and>
     (if HasValue (Position d)
      then SanitizeNonAscii (File (Position d)) = File (Position d) \<and>
           HasValue (EndPosition d) \<and> File (EndPosition d) = []
      else Position d = default_position \<and> EndPosition d = default_position)"

definition portable_tree :: "TIssue \<Rightarrow> bool" where
  "portable_tree t \<longleftrightarrow> (\<forall>d \<in> set_rose t. portable d)"

lemma SanitizeNonAscii_Nil [simp]: "SanitizeNonAscii [] = []"
  by (simp add: SanitizeNonAscii_def)

lemma issue_data_roundtrip: "portable d \<Longrightarrow> issue_data_of (message_data_of d) = d"
  by (cases d rule: issue_data.cases)
     (auto simp: portable_def issue_data_of_def message_data_of_def read_position_def MakePosition_def
       HasValue_def make_data_def default_position_def Let_def)

lemma IssueFromMessage_map: "IssueFromMessage m = map_rose issue_data_of m"
  by (simp add: IssueFromMessage_def bfs_copy_map)

lemma IssueToMessage_map: "IssueToMessage i = map_rose message_data_of i"
  by (simp add: IssueToMessage_def bfs_copy_map)

section \<open>Properties\<close>

text \<open>
  C34. \<^verbatim>\<open>WalkThroughIssues\<close> with its explicit stack calls back in the order of the
  recursive preorder traversal, with the depth as level, and calls \<^verbatim>\<open>afterChildrenFn\<close> for
  an issue after all calls for its sub-issues; the version that can stop returns true
  exactly when the callback accepts every issue it is meant for.
\<close>

theorem WalkThroughIssues_preorder:
  "WalkThroughIssues t leafOnly hasAfter =
     preorder leafOnly hasAfter 0 t @ after_call leafOnly hasAfter 0 t \<and>
   (WalkUntil t leafOnly fn \<longleftrightarrow>
     list_all (\<lambda>(level, issue). fn issue level)
       (filter (\<lambda>(level, issue). visited leafOnly issue) (tree_nodes 0 t)))"
  by (auto simp: WalkThroughIssues_eq WalkUntil_def walk_until_loop_nodes list_all_iff)

text \<open>
  The one-line form of a list of issues is the concatenation of the nested
  texts of its trees, every opened brace closed after the sub-issues of its issue.
\<close>

theorem PrintIssuesTo_nested:
  "PrintIssuesTo issues True =
     do { body \<leftarrow> concat_opt (map (show_tree (length issues > 1) 0) issues);
          Some (if length issues > 1 then ''['' @ body @ '' ]'' else body) }"
  by (simp add: PrintIssuesTo_def print_walk Let_def)

text \<open>
  C35. An issue survives the conversion to a message and back when every node is
  portable: sanitized texts, and either no position at all or both a position and an end
  position, the latter without a file. The breadth first loops with their queues of
  half-built nodes compute the node-wise conversion, and severities are not mixed up with
  those of sub-issues.
\<close>

theorem issue_message_roundtrip:
  assumes "portable_tree t"
  shows "IssueFromMessage (IssueToMessage t) = t"
  using assms by (simp add: portable_tree_def IssueFromMessage_map IssueToMessage_map rose.map_comp comp_def
    issue_data_roundtrip rose.map_ident_strong)


abbreviation sample_issue :: TIssue where
  "sample_issue \<equiv>
     Node \<lparr>Message = ''outer'', Position = \<lparr>Column = 4, Row = 2, File = ''q.sql''\<rparr>,
           EndPosition = \<lparr>Column = 9, Row = 2, File = []\<rparr>, IssueCode = 2012, Severity = Error\<rparr>
       [Node \<lparr>Message = ''inner'', Position = default_position, EndPosition = default_position,
              IssueCode = 0, Severity = Fatal\<rparr> []]"

theorem issue_message_roundtrip_witness:
  "portable_tree sample_issue \<and> IssueFromMessage (IssueToMessage sample_issue) = sample_issue"
proof -
  have ascii: "IsUtf8 ''outer''" "IsUtf8 ''inner''" "IsUtf8 ''q.sql''"
    by (simp_all add: IsUtf8_one)
  have "portable_tree sample_issue"
    by (simp add: portable_tree_def portable_def SanitizeNonAscii_def ascii HasValue_def default_position_def del: IsUtf8.simps)
  then show ?thesis
    using issue_message_roundtrip by blast
qed

text \<open>
  An issue at a point of a named file does not survive the conversion: the file of
  the end position is not transported, so the point comes back as a range that ends in
  the main program.
\<close>

theorem issue_message_loses_end_file:
  "let i = Node \<lparr>Message = ''m'', Position = \<lparr>Column = 1, Row = 1, File = ''f''\<rparr>,
             EndPosition = \<lparr>Column = 1, Row = 1, File = ''f''\<rparr>, IssueCode = 0, Severity = Error\<rparr> [];
       j = IssueFromMessage (IssueToMessage i)
   in PrintIssueTo i True = Some ''f:1:1: Error: m'' \<and>
      PrintIssueTo j True = Some ''[f:1:1-<main>:1:1]: Error: m''"
proof -
  have ascii: "SanitizeNonAscii ''m'' = ''m''" "SanitizeNonAscii ''f'' = ''f''"
    by (simp_all add: SanitizeNonAscii_def IsUtf8_one)
  have one: "show_ui32 1 = ''1''"
    by (simp add: show_ui32_def ToString_ui64_def Convert_ui64_def ConvertUnsigned_def bufferSize_eq
        ConvertUnsigned_loop_numeral char_of_def bit_Suc_0_iff)
  show ?thesis
    by (simp add: Let_def IssueFromMessage_map IssueToMessage_map issue_data_of_def message_data_of_def
        HasValue_def read_position_def MakePosition_def make_data_def ascii PrintIssueTo_def
        SeverityToString_def Error_def Fatal_def OutRange_def OutPosition_def one StripString_def
        IsAsciiSpace_iff newline_def)
qed

end
