(* ===== verification/Status.thy ===== *)
theory Status
  imports Issue Multimaps "HOL-Library.List_Lexorder" "HOL-Library.Char_ord"
begin

text \<open>
  Statuses: the codes of \<^verbatim>\<open>types/status_codes.h\<close>, \<^verbatim>\<open>TPlainStatus\<close> with its construction from
  the status of a gRPC call (\<^verbatim>\<open>impl/internal/plain_status/status.{h,cpp}\<close>) and the queries of
  \<^verbatim>\<open>TStatus\<close>. A code is a number, because the SDK casts codes it receives. A \<^verbatim>\<open>double\<close> is its
  64-bit pattern and \<^verbatim>\<open>std::stod\<close> is an argument: the message of the exception or the value.
\<close>

section \<open>Codes\<close>

type_synonym EStatus = nat

named_theorems status_codes \<open>values of the status codes\<close>

definition STATUS_UNDEFINED :: EStatus where [status_codes]: "STATUS_UNDEFINED = 0"
definition SUCCESS :: EStatus where [status_codes]: "SUCCESS = 400000"
definition BAD_REQUEST :: EStatus where [status_codes]: "BAD_REQUEST = 400010"
definition UNAUTHORIZED :: EStatus where [status_codes]: "UNAUTHORIZED = 400020"
definition INTERNAL_ERROR :: EStatus where [status_codes]: "INTERNAL_ERROR = 400030"
definition ABORTED :: EStatus where [status_codes]: "ABORTED = 400040"
definition UNAVAILABLE :: EStatus where [status_codes]: "UNAVAILABLE = 400050"
definition OVERLOADED :: EStatus where [status_codes]: "OVERLOADED = 400060"
definition SCHEME_ERROR :: EStatus where [status_codes]: "SCHEME_ERROR = 400070"
definition GENERIC_ERROR :: EStatus where [status_codes]: "GENERIC_ERROR = 400080"
definition TIMEOUT :: EStatus where [status_codes]: "TIMEOUT = 400090"
definition BAD_SESSION :: EStatus where [status_codes]: "BAD_SESSION = 400100"
definition PRECONDITION_FAILED :: EStatus where [status_codes]: "PRECONDITION_FAILED = 400120"
definition ALREADY_EXISTS :: EStatus where [status_codes]: "ALREADY_EXISTS = 400130"
definition NOT_FOUND :: EStatus where [status_codes]: "NOT_FOUND = 400140"
definition SESSION_EXPIRED :: EStatus where [status_codes]: "SESSION_EXPIRED = 400150"
definition CANCELLED :: EStatus where [status_codes]: "CANCELLED = 400160"
definition UNDETERMINED :: EStatus where [status_codes]: "UNDETERMINED = 400170"
definition UNSUPPORTED :: EStatus where [status_codes]: "UNSUPPORTED = 400180"
definition SESSION_BUSY :: EStatus where [status_codes]: "SESSION_BUSY = 400190"
definition EXTERNAL_ERROR :: EStatus where [status_codes]: "EXTERNAL_ERROR = 400200"

definition TRANSPORT_STATUSES_FIRST :: nat where [status_codes]: "TRANSPORT_STATUSES_FIRST = 401000"
definition TRANSPORT_STATUSES_LAST :: nat where [status_codes]: "TRANSPORT_STATUSES_LAST = 401999"
definition INTERNAL_CLIENT_FIRST :: nat where [status_codes]: "INTERNAL_CLIENT_FIRST = 402000"

definition TRANSPORT_UNAVAILABLE :: EStatus where
  [status_codes]: "TRANSPORT_UNAVAILABLE = TRANSPORT_STATUSES_FIRST + 10"
definition CLIENT_RESOURCE_EXHAUSTED :: EStatus where
  [status_codes]: "CLIENT_RESOURCE_EXHAUSTED = TRANSPORT_STATUSES_FIRST + 20"
definition CLIENT_DEADLINE_EXCEEDED :: EStatus where
  [status_codes]: "CLIENT_DEADLINE_EXCEEDED = TRANSPORT_STATUSES_FIRST + 30"
definition CLIENT_INTERNAL_ERROR :: EStatus where
  [status_codes]: "CLIENT_INTERNAL_ERROR = TRANSPORT_STATUSES_FIRST + 50"
definition CLIENT_CANCELLED :: EStatus where
  [status_codes]: "CLIENT_CANCELLED = TRANSPORT_STATUSES_FIRST + 60"
definition CLIENT_UNAUTHENTICATED :: EStatus where
  [status_codes]: "CLIENT_UNAUTHENTICATED = TRANSPORT_STATUSES_FIRST + 70"
definition CLIENT_CALL_UNIMPLEMENTED :: EStatus where
  [status_codes]: "CLIENT_CALL_UNIMPLEMENTED = TRANSPORT_STATUSES_FIRST + 80"
definition CLIENT_OUT_OF_RANGE :: EStatus where
  [status_codes]: "CLIENT_OUT_OF_RANGE = TRANSPORT_STATUSES_FIRST + 90"
definition CLIENT_DISCOVERY_FAILED :: EStatus where
  [status_codes]: "CLIENT_DISCOVERY_FAILED = INTERNAL_CLIENT_FIRST + 10"
definition CLIENT_LIMITS_REACHED :: EStatus where
  [status_codes]: "CLIENT_LIMITS_REACHED = INTERNAL_CLIENT_FIRST + 20"

section \<open>The plain status\<close>

type_synonym double = "64 word"

record TPlainStatus =
  StatusCode :: EStatus
  Issues :: "TIssue list"
  StatusEndpoint :: string
  Metadata :: "(string, string) mmap"
  ConsumedUnits :: double

text \<open>The codes of \<^verbatim>\<open>grpc::StatusCode\<close> the SDK names.\<close>

datatype grpc_code =
    GRPC_OK | GRPC_CANCELLED | GRPC_DEADLINE_EXCEEDED | GRPC_RESOURCE_EXHAUSTED | GRPC_OUT_OF_RANGE
  | GRPC_UNIMPLEMENTED | GRPC_UNAVAILABLE | GRPC_UNAUTHENTICATED | GRPC_OTHER "32 word"

record TGrpcStatus =
  Msg :: string
  Details :: string
  GRpcStatusCode :: grpc_code
  InternalError :: bool
  ServerTrailingMetadata :: "(string, string) mmap"

definition GrpcOk :: "TGrpcStatus \<Rightarrow> bool" where
  "GrpcOk s \<longleftrightarrow> \<not> InternalError s \<and> GRpcStatusCode s = GRPC_OK"

definition Ok :: "TPlainStatus \<Rightarrow> bool" where
  "Ok s \<longleftrightarrow> StatusCode s = SUCCESS"

definition IsTransportError :: "TPlainStatus \<Rightarrow> bool" where
  "IsTransportError s \<longleftrightarrow>
     TRANSPORT_STATUSES_FIRST \<le> StatusCode s \<and> StatusCode s \<le> TRANSPORT_STATUSES_LAST"

definition YDB_CONSUMED_UNITS_HEADER :: string where
  "YDB_CONSUMED_UNITS_HEADER = ''x-ydb-consumed-units''"

definition AddIssue :: "TIssue \<Rightarrow> TPlainStatus \<Rightarrow> TPlainStatus" where
  "AddIssue i s = s\<lparr>Issues := Issues s @ [i]\<rparr>"

definition InitCostInfo :: "(string \<Rightarrow> string + double) \<Rightarrow> TPlainStatus \<Rightarrow> TPlainStatus" where
  "InitCostInfo stod s =
     (case mm_range YDB_CONSUMED_UNITS_HEADER (Metadata s) of
        [] \<Rightarrow> s
      | v # _ \<Rightarrow>
          (case stod v of
             Inr units \<Rightarrow> s\<lparr>ConsumedUnits := units\<rparr>
           | Inl what \<Rightarrow>
               AddIssue (IssueOfMessage (''Failed to parse CostInfo from Metadata: '' @ what))
                 (if Ok s then s\<lparr>StatusCode := CLIENT_INTERNAL_ERROR\<rparr> else s)))"

definition plain_default :: TPlainStatus where
  "plain_default = \<lparr>StatusCode = SUCCESS, Issues = [], StatusEndpoint = [], Metadata = [], ConsumedUnits = 0\<rparr>"

definition plain_of_issues :: "EStatus \<Rightarrow> TIssue list \<Rightarrow> TPlainStatus" where
  "plain_of_issues status issues = plain_default\<lparr>StatusCode := status, Issues := issues\<rparr>"

definition plain_with_metadata ::
  "(string \<Rightarrow> string + double) \<Rightarrow> EStatus \<Rightarrow> TIssue list \<Rightarrow> string \<Rightarrow> (string, string) mmap \<Rightarrow> TPlainStatus" where
  "plain_with_metadata stod status issues endpoint metadata =
     InitCostInfo stod (plain_default\<lparr>StatusCode := status, Issues := issues,
       StatusEndpoint := endpoint, Metadata := metadata\<rparr>)"

definition plain_of_message :: "EStatus \<Rightarrow> string \<Rightarrow> TPlainStatus" where
  "plain_of_message status message =
     (let s = plain_default\<lparr>StatusCode := status\<rparr>
      in if message \<noteq> [] then AddIssue (IssueOfMessage message) s else s)"

definition Internal :: "string \<Rightarrow> TPlainStatus" where
  "Internal message = plain_of_message CLIENT_INTERNAL_ERROR (''Internal client error: '' @ message)"

fun grpc_to_status :: "grpc_code \<Rightarrow> EStatus" where
  "grpc_to_status GRPC_UNAVAILABLE = TRANSPORT_UNAVAILABLE"
| "grpc_to_status GRPC_CANCELLED = CLIENT_CANCELLED"
| "grpc_to_status GRPC_UNAUTHENTICATED = CLIENT_UNAUTHENTICATED"
| "grpc_to_status GRPC_UNIMPLEMENTED = CLIENT_CALL_UNIMPLEMENTED"
| "grpc_to_status GRPC_RESOURCE_EXHAUSTED = CLIENT_RESOURCE_EXHAUSTED"
| "grpc_to_status GRPC_DEADLINE_EXCEEDED = CLIENT_DEADLINE_EXCEEDED"
| "grpc_to_status GRPC_OUT_OF_RANGE = CLIENT_OUT_OF_RANGE"
| "grpc_to_status _ = CLIENT_INTERNAL_ERROR"

text \<open>The text of a code, as the stream prints the number, is an argument too.\<close>

definition plain_of_grpc ::
  "(string \<Rightarrow> string + double) \<Rightarrow> (grpc_code \<Rightarrow> string) \<Rightarrow> TGrpcStatus \<Rightarrow> string \<Rightarrow> (string, string) mmap
    \<Rightarrow> TPlainStatus" where
  "plain_of_grpc stod show_code grpcStatus endpoint metadata =
     (let (status, msg) =
            (if InternalError grpcStatus then
               (CLIENT_INTERNAL_ERROR,
                if Msg grpcStatus \<noteq> [] then ''Internal client error: '' @ Msg grpcStatus
                else ''Unknown internal client error'')
             else if GRpcStatusCode grpcStatus \<noteq> GRPC_OK then
               (grpc_to_status (GRpcStatusCode grpcStatus),
                ''GRpc error: ('' @ show_code (GRpcStatusCode grpcStatus) @ ''): '' @ Msg grpcStatus)
             else (SUCCESS, []));
          s = plain_default\<lparr>StatusCode := status, StatusEndpoint := endpoint, Metadata := metadata\<rparr>;
          s = (if msg \<noteq> [] then AddIssue (IssueOfMessage msg) s else s);
          s = s\<lparr>Metadata := foldl (\<lambda>m (name, value). mm_insert name value m) (Metadata s)
                              (ServerTrailingMetadata grpcStatus)\<rparr>
      in InitCostInfo stod s)"

section \<open>The status of a result\<close>

text \<open>\<^verbatim>\<open>TStatus\<close> shares an immutable plain status. \<^verbatim>\<open>CheckStatusOk\<close> fails with a fatal error.\<close>

type_synonym TStatus = TPlainStatus

definition GetStatus :: "TStatus \<Rightarrow> EStatus" where
  "GetStatus s = StatusCode s"

definition IsSuccess :: "TStatus \<Rightarrow> bool" where
  "IsSuccess s \<longleftrightarrow> GetStatus s = SUCCESS"

definition CheckStatusOk :: "TStatus \<Rightarrow> unit option" where
  "CheckStatusOk s = (if Ok s then Some () else None)"

definition GetResponseMetadata :: "TStatus \<Rightarrow> (string, string) mmap" where
  "GetResponseMetadata s = Metadata s"

definition EOS :: "TStatus \<Rightarrow> bool" where
  "EOS s \<longleftrightarrow> GetStatus s = CLIENT_OUT_OF_RANGE"

section \<open>Facts\<close>

lemma grpc_to_status_transport:
  "TRANSPORT_STATUSES_FIRST \<le> grpc_to_status c" "grpc_to_status c \<le> TRANSPORT_STATUSES_LAST"
  by (cases c; simp add: status_codes)+

definition cost_header_ok :: "(string \<Rightarrow> string + double) \<Rightarrow> (string, string) mmap \<Rightarrow> bool" where
  "cost_header_ok stod md \<longleftrightarrow>
     (case mm_range YDB_CONSUMED_UNITS_HEADER md of [] \<Rightarrow> True | v # _ \<Rightarrow> \<not> isl (stod v))"

definition all_metadata :: "(string, string) mmap \<Rightarrow> TGrpcStatus \<Rightarrow> (string, string) mmap" where
  "all_metadata md g = foldl (\<lambda>m (name, value). mm_insert name value m) md (ServerTrailingMetadata g)"

lemma InitCostInfo_StatusCode:
  "StatusCode (InitCostInfo stod s) =
     (if Ok s \<and> \<not> cost_header_ok stod (Metadata s) then CLIENT_INTERNAL_ERROR else StatusCode s)"
  by (auto simp: InitCostInfo_def AddIssue_def cost_header_ok_def split: list.splits sum.splits)

text \<open>
  C37. The status of a gRPC call is a success exactly when the call succeeded and its
  consumed units header, if there is one, is a number; every other outcome is one of the
  transport statuses, never a server status.
\<close>

theorem plain_of_grpc_outcome:
  "(Ok (plain_of_grpc stod show_code g ep md) \<longleftrightarrow> GrpcOk g \<and> cost_header_ok stod (all_metadata md g)) \<and>
   IsTransportError (plain_of_grpc stod show_code g ep md) = (\<not> Ok (plain_of_grpc stod show_code g ep md))"
proof -
  have code: "StatusCode (plain_of_grpc stod show_code g ep md) =
      (if InternalError g then CLIENT_INTERNAL_ERROR
       else if GRpcStatusCode g \<noteq> GRPC_OK then grpc_to_status (GRpcStatusCode g)
       else if cost_header_ok stod (all_metadata md g) then SUCCESS else CLIENT_INTERNAL_ERROR)"
    using grpc_to_status_transport [of "GRpcStatusCode g"]
    by (auto simp: plain_of_grpc_def InitCostInfo_StatusCode Ok_def AddIssue_def Let_def all_metadata_def
      plain_default_def status_codes)
  show ?thesis
    using grpc_to_status_transport [of "GRpcStatusCode g"]
    by (auto simp: Ok_def IsTransportError_def GrpcOk_def code) (auto simp: status_codes)
qed

end
