(* ===== verification/Quote.thy ===== *)
theory Quote
  imports Ascii IntCast
begin

text \<open>
  Percent encoding, \<^verbatim>\<open>library/cpp/string_utils/quote/quote.cpp\<close>. Output buffers are the strings
  written to them, without the terminating zero; input ranges are the characters that remain. The
  routines on character ranges treat blocks of 16 characters at once; the generic templates work
  character by character. Decoding in place, where input and output share a buffer, is modelled on the
  buffer itself.
\<close>

section \<open>Encoding\<close>

definition chars_to_url_escape :: "bool list" where
  "chars_to_url_escape = map (\<lambda>x. x = (1 :: nat)) [
    1, 1, 1, 1, 1, 1, 1, 1, 1, 1, 1, 1, 1, 1, 1, 1,
    1, 1, 1, 1, 1, 1, 1, 1, 1, 1, 1, 1, 1, 1, 1, 1,
    0, 0, 1, 1, 0, 1, 1, 1, 1, 1, 0, 1, 1, 0, 0, 0,
    0, 0, 0, 0, 0, 0, 0, 0, 0, 0, 1, 0, 1, 1, 1, 1,
    0, 0, 0, 0, 0, 0, 0, 0, 0, 0, 0, 0, 0, 0, 0, 0,
    0, 0, 0, 0, 0, 0, 0, 0, 0, 0, 0, 1, 1, 1, 1, 0,
    1, 0, 0, 0, 0, 0, 0, 0, 0, 0, 0, 0, 0, 0, 0, 0,
    0, 0, 0, 0, 0, 0, 0, 0, 0, 0, 0, 1, 1, 1, 0, 1,
    1, 1, 1, 1, 1, 1, 1, 1, 1, 1, 1, 1, 1, 1, 1, 1,
    1, 1, 1, 1, 1, 1, 1, 1, 1, 1, 1, 1, 1, 1, 1, 1,
    1, 1, 1, 1, 1, 1, 1, 1, 1, 1, 1, 1, 1, 1, 1, 1,
    1, 1, 1, 1, 1, 1, 1, 1, 1, 1, 1, 1, 1, 1, 1, 1,
    1, 1, 1, 1, 1, 1, 1, 1, 1, 1, 1, 1, 1, 1, 1, 1,
    1, 1, 1, 1, 1, 1, 1, 1, 1, 1, 1, 1, 1, 1, 1, 1,
    1, 1, 1, 1, 1, 1, 1, 1, 1, 1, 1, 1, 1, 1, 1, 1,
    1, 1, 1, 1, 1, 1, 1, 1, 1, 1, 1, 1, 1, 1, 1, 1]"

definition d2x :: string where
  "d2x = ''0123456789ABCDEF''"

definition percent_hex :: "char \<Rightarrow> string" where
  "percent_hex c = [CHR ''%'', d2x ! drop_bit 4 (of_char c), d2x ! and (of_char c) 0xF]"

definition EscapeHelper :: "bool list \<Rightarrow> char \<Rightarrow> string" where
  "EscapeHelper escape_map c =
     (if \<not> escape_map ! of_char c then [if c = CHR '' '' then CHR ''+'' else c] else percent_hex c)"

text \<open>The template, and the overload for character ranges.\<close>

fun Escape_template :: "bool list \<Rightarrow> string \<Rightarrow> string" where
  "Escape_template escape_map [] = []"
| "Escape_template escape_map (c # src) = EscapeHelper escape_map c @ Escape_template escape_map src"

definition BLOCK :: nat where
  "BLOCK = 16"

function Escape :: "bool list \<Rightarrow> string \<Rightarrow> string" where
  "Escape escape_map src =
     (if BLOCK \<le> length src then
        (let block = take BLOCK src;
             escape_count = list_ex (\<lambda>c. escape_map ! of_char c) block;
             written = (if \<not> escape_count then map (\<lambda>c. if c = CHR '' '' then CHR ''+'' else c) block
                        else concat (map (EscapeHelper escape_map) block))
         in written @ Escape escape_map (drop BLOCK src))
      else Escape_template escape_map src)"
  by pat_completeness auto

termination
  by (relation "measure (length \<circ> snd)") (auto simp: BLOCK_def)

declare Escape.simps [simp del]

section \<open>Decoding\<close>

text \<open>
  \<^verbatim>\<open>x2c\<close> reads two hexadecimal digits after a percent sign. Both readers stop at the end of their
  input, one at a position, the other at the terminating zero, which is not a digit.
\<close>

definition GETXC :: "8 word \<Rightarrow> char \<Rightarrow> 8 word" where
  "GETXC c x =
     c * 16 + word_of_int (if char_value x \<ge> 65 then (and (char_value x) 0xdf - 65) + 10 else char_value x - 48)"

fun x2c :: "string \<Rightarrow> char \<times> string" where
  "x2c (x0 # x1 # x) =
     (if \<not> IsAsciiHex x0 \<or> \<not> IsAsciiHex x1 then (CHR ''%'', x0 # x1 # x)
      else (char_of (unat (GETXC (GETXC 0 x0) x1)), x))"
| "x2c x = (CHR ''%'', x)"

lemma x2c_length: "length (snd (x2c s)) \<le> length s"
  by (induction s rule: x2c.induct) auto

function Unescape_template :: "string \<Rightarrow> string" where
  "Unescape_template [] = []"
| "Unescape_template (c # src) =
     (if c = CHR ''%'' then (let (d, rest0) = x2c src in d # Unescape_template rest0)
      else if c = CHR ''+'' then CHR '' '' # Unescape_template src
      else c # Unescape_template src)"
  by pat_completeness auto

termination
proof (relation "measure length")
  fix c src d rest0 and p :: "char \<times> string"
  assume "p = x2c src" "(d, rest0) = p"
  then show "(rest0, c # src) \<in> measure length"
    using x2c_length [of src] by (simp add: less_Suc_eq_le) (metis snd_conv)
qed auto

definition x2d :: "nat list" where
  "x2d = foldl (\<lambda>values i. values[97 + i := i + 10, 65 + i := i + 10])
           (foldl (\<lambda>values i. values[48 + i := i]) (replicate 256 0xFF) [0..<10]) [0..<6]"

fun UnescapeHelper :: "string \<Rightarrow> char \<times> string" where
  "UnescapeHelper [] = (CHR 0x00, [])"
| "UnescapeHelper (c # src) =
     (if c = CHR ''%'' then
        if 2 \<le> length src then
          (let hi = x2d ! of_char (src ! 0); lo = x2d ! of_char (src ! 1)
           in if or hi lo < 16 then (char_of (or (push_bit 4 hi) lo), drop 2 src) else (c, src))
        else (c, src)
      else (if c = CHR ''+'' then CHR '' '' else c, src))"

text \<open>The loop up to a position, which is given by the number of characters after it.\<close>

lemma UnescapeHelper_length: "s \<noteq> [] \<Longrightarrow> length (snd (UnescapeHelper s)) < length s"
  by (cases s) (auto simp: Let_def)

function UnescapeWhile :: "nat \<Rightarrow> string \<Rightarrow> string \<times> string" where
  "UnescapeWhile n src =
     (if n < length src then
        (let (c, src) = UnescapeHelper src; (out, rest) = UnescapeWhile n src in (c # out, rest))
      else ([], src))"
  by pat_completeness auto

termination
proof (relation "measure (length \<circ> snd)")
  fix n :: nat and src p c rest0
  assume "n < length src" "p = UnescapeHelper src" "(c, rest0) = p"
  then show "((n, rest0), n, src) \<in> measure (length \<circ> snd)"
    using UnescapeHelper_length [of src] by (cases src) (auto simp: prod_eq_iff simp del: UnescapeHelper.simps)
qed auto

declare UnescapeWhile.simps [simp del]

lemma UnescapeWhile_length: "length (snd (UnescapeWhile n s)) \<le> n"
proof (induction n s rule: UnescapeWhile.induct)
  case (1 n s)
  obtain c r where h: "UnescapeHelper s = (c, r)"
    by fastforce
  then show ?case
    using 1 [OF _ h [symmetric] refl] by (subst UnescapeWhile.simps) (simp add: split_beta)
qed

function Unescape :: "string \<Rightarrow> string" where
  "Unescape src =
     (if BLOCK \<le> length src then
        if \<not> list_ex (\<lambda>c. c = CHR ''%'') (take BLOCK src) then
          map (\<lambda>c. if c = CHR ''+'' then CHR '' '' else c) (take BLOCK src) @ Unescape (drop BLOCK src)
        else (let (out, rest) = UnescapeWhile (length src - BLOCK) src in out @ Unescape rest)
      else fst (UnescapeWhile 0 src))"
  by pat_completeness auto

termination
proof (relation "measure length")
  fix src out rest and p :: "string \<times> string"
  assume "BLOCK \<le> length src" "p = UnescapeWhile (length src - BLOCK) src" "(out, rest) = p"
  then have "length rest \<le> length src - BLOCK" "BLOCK \<le> length src"
    using UnescapeWhile_length [of "length src - BLOCK" src] by (auto simp: prod_eq_iff)
  then show "(rest, src) \<in> measure length"
    by (simp add: BLOCK_def)
qed (auto simp: BLOCK_def)

declare Unescape.simps [simp del]

text \<open>
  The same routine when \<^verbatim>\<open>to\<close> points into the buffer it reads: positions in one buffer, every write
  visible to the reads after it.
\<close>

definition UnescapeHelper_at :: "nat \<Rightarrow> string \<times> nat \<times> nat \<Rightarrow> string \<times> nat \<times> nat" where
  "UnescapeHelper_at end_pos st =
     (let (buf, to_pos, from_pos) = st; c = buf ! from_pos; from_pos = from_pos + 1;
          (c, from_pos) =
            (if c = CHR ''%'' then
               if 2 \<le> end_pos - from_pos then
                 (let hi = x2d ! of_char (buf ! from_pos); lo = x2d ! of_char (buf ! (from_pos + 1))
                  in if or hi lo < 16 then (char_of (or (push_bit 4 hi) lo), from_pos + 2) else (c, from_pos))
               else (c, from_pos)
             else (if c = CHR ''+'' then CHR '' '' else c, from_pos))
      in (buf[to_pos := c], to_pos + 1, from_pos))"

lemma UnescapeHelper_at_advances: "snd (snd st) < snd (snd (UnescapeHelper_at e st))"
  by (cases st) (auto simp: UnescapeHelper_at_def Let_def)

function UnescapeWhile_at :: "nat \<Rightarrow> nat \<Rightarrow> string \<times> nat \<times> nat \<Rightarrow> string \<times> nat \<times> nat" where
  "UnescapeWhile_at end_pos stop (buf, to_pos, from_pos) =
     (if from_pos < stop then UnescapeWhile_at end_pos stop (UnescapeHelper_at end_pos (buf, to_pos, from_pos))
      else (buf, to_pos, from_pos))"
  by pat_completeness auto

termination
  by (relation "measure (\<lambda>(e, stop, st). stop - snd (snd st))")
    (use UnescapeHelper_at_advances in \<open>force simp: diff_less_mono2\<close>)+

declare UnescapeWhile_at.simps [simp del]

lemma UnescapeWhile_at_stops: "stop \<le> snd (snd (UnescapeWhile_at e stop st))"
  by (induction e stop st rule: UnescapeWhile_at.induct) (subst UnescapeWhile_at.simps, simp)

function Unescape_at :: "nat \<Rightarrow> string \<times> nat \<times> nat \<Rightarrow> string \<times> nat" where
  "Unescape_at end_pos (buf, to_pos, from_pos) =
     (if from_pos + BLOCK \<le> end_pos then
        if \<not> list_ex (\<lambda>i. buf ! (from_pos + i) = CHR ''%'') [0..<BLOCK] then
          (let src = map (\<lambda>i. buf ! (from_pos + i)) [0..<BLOCK];
               buf = foldl (\<lambda>buf i. buf[to_pos + i := if src ! i = CHR ''+'' then CHR '' '' else src ! i])
                       buf [0..<BLOCK]
           in Unescape_at end_pos (buf, to_pos + BLOCK, from_pos + BLOCK))
        else Unescape_at end_pos (UnescapeWhile_at end_pos (from_pos + BLOCK) (buf, to_pos, from_pos))
      else
        (let (buf, to_pos, from_pos) = UnescapeWhile_at end_pos end_pos (buf, to_pos, from_pos)
         in (buf[to_pos := CHR 0x00], to_pos)))"
  by pat_completeness auto

termination
proof (relation "measure (\<lambda>(e, st). e - snd (snd st))")
  fix e b t f
  assume "f + BLOCK \<le> e"
  then show "((e, UnescapeWhile_at e (f + BLOCK) (b, t, f)), e, b, t, f) \<in> measure (\<lambda>(e, st). e - snd (snd st))"
    using UnescapeWhile_at_stops [of "f + BLOCK" e "(b, t, f)"] by (simp add: BLOCK_def)
qed (auto simp: BLOCK_def)

declare Unescape_at.simps [simp del]

section \<open>The interface\<close>

definition CgiEscapeBufLen :: "nat \<Rightarrow> nat" where
  "CgiEscapeBufLen len = 3 * len + 1"

definition CgiUnescapeBufLen :: "nat \<Rightarrow> nat" where
  "CgiUnescapeBufLen len = len + 1"

text \<open>A zero-terminated string that may be null.\<close>

definition FixZero :: "string option \<Rightarrow> string" where
  "FixZero s = (case s of None \<Rightarrow> [] | Some s \<Rightarrow> takeWhile (\<lambda>c. c \<noteq> CHR 0x00) s)"

definition CGIEscape_cstr :: "string option \<Rightarrow> string" where
  "CGIEscape_cstr src = Escape_template chars_to_url_escape (FixZero src)"

definition CGIEscape :: "string \<Rightarrow> string" where
  "CGIEscape src = Escape chars_to_url_escape src"

definition AppendCgiEscaped :: "string \<Rightarrow> string \<Rightarrow> string" where
  "AppendCgiEscaped value dst = dst @ CGIEscape value"

definition quote_map :: "string \<Rightarrow> bool list" where
  "quote_map safe =
     foldl (\<lambda>m c. m[of_char c := False])
       (foldl (\<lambda>m c. m[of_char c := True]) chars_to_url_escape
          ('':/?#[]@!$&'' @ [CHR 0x27] @ ''()*+,;=''))
       safe"

definition Quote_cstr :: "string option \<Rightarrow> string \<Rightarrow> string" where
  "Quote_cstr src safe = Escape_template (quote_map safe) (FixZero src)"

definition Quote :: "string \<Rightarrow> string \<Rightarrow> string" where
  "Quote src safe = Escape (quote_map safe) src"

definition CGIUnescape_cstr :: "string option \<Rightarrow> string" where
  "CGIUnescape_cstr src = Unescape_template (FixZero src)"

definition CGIUnescapeRet :: "string \<Rightarrow> string" where
  "CGIUnescapeRet src = Unescape src"

text \<open>A string that nothing else refers to is decoded in its own buffer, which ends with a zero.\<close>

definition CGIUnescape :: "bool \<Rightarrow> string \<Rightarrow> string" where
  "CGIUnescape is_detached url =
     (if url = [] then url
      else if is_detached then
        (let (buf, res_end) = Unescape_at (length url) (url @ [CHR 0x00], 0, 0) in take res_end buf)
      else CGIUnescapeRet url)"

function UrlUnescape :: "string \<Rightarrow> string" where
  "UrlUnescape [] = []"
| "UrlUnescape (ch # src) =
     (if ch = CHR ''%'' \<and> 2 \<le> length src then (let (ch, src) = x2c src in ch # UrlUnescape src)
      else ch # UrlUnescape src)"
  by pat_completeness auto

termination
proof (relation "measure length")
  fix ch ch' src rest and p :: "char \<times> string"
  assume "p = x2c src" "(ch', rest) = p"
  then show "(rest, ch # src) \<in> measure length"
    using x2c_length [of src] by (simp add: less_Suc_eq_le) (metis snd_conv)
qed auto

fun UrlEscape :: "bool \<Rightarrow> string \<Rightarrow> string" where
  "UrlEscape forceEscape [] = []"
| "UrlEscape forceEscape (c # src) =
     (let escapePercent = (c = CHR ''%'' \<and>
            (forceEscape \<or> \<not> (src \<noteq> [] \<and> IsAsciiHex (src ! 0) \<and> 1 < length src \<and> IsAsciiHex (src ! 1))))
      in (if escapePercent \<or> of_char c \<le> (32 :: nat) \<or> (126 :: nat) < of_char c then percent_hex c else [c]))
     @ UrlEscape forceEscape src"

section \<open>Blocks against characters\<close>

lemma Escape_template_concat: "Escape_template m s = concat (map (EscapeHelper m) s)"
  by (induction s) auto

lemma Escape_eq_template: "Escape m s = Escape_template m s"
proof (induction m s rule: Escape.induct)
  case (1 m s)
  have plain: "\<not> list_ex (\<lambda>c. m ! of_char c) b \<Longrightarrow>
      concat (map (EscapeHelper m) b) = map (\<lambda>c. if c = CHR '' '' then CHR ''+'' else c) b" for b
    by (induction b) (auto simp: EscapeHelper_def)
  have "concat (map (EscapeHelper m) (take BLOCK s)) @ concat (map (EscapeHelper m) (drop BLOCK s)) =
      concat (map (EscapeHelper m) s)"
    by (metis append_take_drop_id concat_append map_append)
  then show ?case
    using 1 [OF _ refl refl refl] plain [of "take BLOCK s"]
    by (subst Escape.simps) (auto simp: Let_def Escape_template_concat)
qed

lemma foldl_update_nth:
  assumes "a + k \<le> length v"
  shows "length (foldl (\<lambda>v i. v[a + i := g i]) v [0..<k]) = length v"
    and "foldl (\<lambda>v i. v[a + i := g i]) v [0..<k] ! n = (if a \<le> n \<and> n < a + k then g (n - a) else v ! n)"
  using assms by (induction k) (auto simp: nth_list_update less_Suc_eq)

lemma foldl_update2_nth:
  assumes "a + k \<le> length v" "b + k \<le> a"
  shows "length (foldl (\<lambda>v i. v[a + i := g i, b + i := g i]) v [0..<k]) = length v"
    and "foldl (\<lambda>v i. v[a + i := g i, b + i := g i]) v [0..<k] ! n =
      (if b \<le> n \<and> n < b + k then g (n - b) else if a \<le> n \<and> n < a + k then g (n - a) else v ! n)"
  using assms by (induction k) (auto simp: nth_list_update less_Suc_eq)

lemma x2d_nth:
  assumes "n < 256"
  shows "x2d ! n = (if 48 \<le> n \<and> n \<le> 57 then n - 48 else if 65 \<le> n \<and> n \<le> 70 then n - 55
    else if 97 \<le> n \<and> n \<le> 102 then n - 87 else 255)"
  using assms unfolding x2d_def
  by (subst foldl_update2_nth) (auto simp: foldl_update_nth)

lemma x2d_hex: "IsAsciiHex c \<longleftrightarrow> x2d ! of_char c < 16"
  using x2d_nth [OF of_char_less_256] by (auto simp: IsAsciiHex_iff Let_def)

lemma or_less_16: "or (a :: nat) b < 16 \<longleftrightarrow> a < 16 \<and> b < 16"
proof -
  have d: "x < 16 \<longleftrightarrow> drop_bit 4 x = 0" for x :: nat
    by (simp add: drop_bit_eq_div div_eq_0_iff)
  show ?thesis
    unfolding d by (simp add: or_eq_0_iff)
qed

lemma hex_pair: "a < 16 \<Longrightarrow> b < 16 \<Longrightarrow> or (push_bit 4 a) b = 16 * a + (b :: nat)"
  using push_bit_or_take_bit [of 4 a b] by (simp add: take_bit_eq_mod push_bit_eq_mult)

lemma GETXC_hex:
  assumes "IsAsciiHex x"
  shows "GETXC c x = c * 16 + of_nat (x2d ! of_char x)"
proof -
  obtain n :: nat where n: "of_char x = n" "n < 256"
    using of_char_less_256 by blast
  have r: "48 \<le> n \<and> n \<le> 57 \<or> 65 \<le> n \<and> n \<le> 70 \<or> 97 \<le> n \<and> n \<le> 102"
    using assms n by (simp add: IsAsciiHex_iff)
  have "(of_char x :: int) = int n"
    using n(1) of_nat_of_char [of x, where 'a = int] by simp
  then have v: "char_value x = int n"
    using r by (auto simp: char_value_def)
  have "and (int n) 0xdf = (if n \<le> 70 then int n else int n - 32)" if "65 \<le> n"
  proof -
    have "n = 65 \<or> n = 66 \<or> n = 67 \<or> n = 68 \<or> n = 69 \<or> n = 70 \<or>
        n = 97 \<or> n = 98 \<or> n = 99 \<or> n = 100 \<or> n = 101 \<or> n = 102"
      using r that by arith
    then show ?thesis
      by (elim disjE) simp_all
  qed
  then have "(if int n \<ge> 65 then (and (int n) 0xdf - 65) + 10 else int n - 48) = int (x2d ! n)"
    using r by (simp add: x2d_nth [OF n(2)] of_nat_diff) linarith
  then show ?thesis
    unfolding GETXC_def v n(1) by simp
qed

lemma x2c_hex:
  assumes "IsAsciiHex a" "IsAsciiHex b"
  shows "x2c (a # b # r) = (char_of (16 * x2d ! of_char a + x2d ! of_char b), r)"
proof -
  have "x2d ! of_char a < 16" "x2d ! of_char b < 16"
    using assms by (simp_all add: x2d_hex)
  then have "unat (of_nat (x2d ! of_char a) * 16 + of_nat (x2d ! of_char b) :: 8 word) =
      16 * x2d ! of_char a + x2d ! of_char b"
    using unat_of_nat [where 'a = 8, of "16 * x2d ! of_char a + x2d ! of_char b"]
    by (simp add: mult.commute)
  then show ?thesis
    using assms by (simp add: GETXC_hex)
qed

lemma UnescapeHelper_x2c:
  "UnescapeHelper (c # s) = (if c = CHR ''%'' then x2c s else (if c = CHR ''+'' then CHR '' '' else c, s))"
proof (cases "\<exists>a b r. s = a # b # r")
  case True
  then obtain a b r where s: "s = a # b # r"
    by blast
  show ?thesis
    by (cases "IsAsciiHex a \<and> IsAsciiHex b")
      (auto simp: s x2c_hex or_less_16 hex_pair simp flip: x2d_hex simp del: x2c.simps, auto)
next
  case False
  then show ?thesis
    by (induction s rule: x2c.induct) auto
qed

lemma Unescape_template_step:
  "Unescape_template (c # s) = (let (d, r) = UnescapeHelper (c # s) in d # Unescape_template r)"
  unfolding UnescapeHelper_x2c by (simp add: Let_def)

lemma UnescapeWhile_template:
  "Unescape_template s = fst (UnescapeWhile n s) @ Unescape_template (snd (UnescapeWhile n s))"
proof (induction n s rule: UnescapeWhile.induct)
  case (1 n s)
  obtain d r where h: "UnescapeHelper s = (d, r)"
    by fastforce
  show ?case
  proof (cases "n < length s")
    case True
    then have "Unescape_template s = d # Unescape_template r"
      using Unescape_template_step h by (cases s) (auto simp del: UnescapeHelper.simps Unescape_template.simps)
    then show ?thesis
      using 1 [OF True h [symmetric] refl] True by (subst (1 2) UnescapeWhile.simps) (simp add: h split_beta)
  qed (subst (1 2) UnescapeWhile.simps, simp)
qed

lemma Unescape_template_plain:
  "CHR ''%'' \<notin> set b \<Longrightarrow>
    Unescape_template (b @ s) = map (\<lambda>c. if c = CHR ''+'' then CHR '' '' else c) b @ Unescape_template s"
  by (induction b) auto

lemma Unescape_eq_template: "Unescape s = Unescape_template s"
proof (induction s rule: Unescape.induct)
  case (1 s)
  have rest: "length (snd (UnescapeWhile 0 s)) \<le> 0"
    by (rule UnescapeWhile_length)
  show ?case
  proof (cases "BLOCK \<le> length s \<and> CHR ''%'' \<notin> set (take BLOCK s)")
    case True
    then show ?thesis
      using 1(1) Unescape_template_plain [of "take BLOCK s" "drop BLOCK s"]
      by (subst Unescape.simps) (auto simp: list_ex_iff)
  next
    case False
    obtain out r where w: "UnescapeWhile (length s - BLOCK) s = (out, r)"
      by fastforce
    show ?thesis
      using False 1(2) [OF _ _ w [symmetric] refl] rest UnescapeWhile_template [of s 0]
        UnescapeWhile_template [of s "length s - BLOCK"]
      by (subst Unescape.simps) (auto simp: list_ex_iff w)
  qed
qed

section \<open>Decoding undoes encoding\<close>

lemma length_d2x: "length d2x = 16"
  by (simp add: d2x_def)

lemma d2x_hex:
  assumes "k < 16"
  shows "IsAsciiHex (d2x ! k)" "x2d ! of_char (d2x ! k) = k"
proof -
  have "map (\<lambda>c. x2d ! of_char c) d2x = [0..<16]"
    by (simp add: d2x_def x2d_nth upt_conv_Cons)
  from arg_cong [OF this, of "\<lambda>l. l ! k"] have "x2d ! of_char (d2x ! k) = k"
    using assms length_d2x by simp
  then show "IsAsciiHex (d2x ! k)" "x2d ! of_char (d2x ! k) = k"
    using assms by (simp_all add: x2d_hex)
qed

lemma and_15: "and (n :: nat) 15 = n mod 16"
  using take_bit_eq_mask [of 4 n] by (simp add: take_bit_eq_mod mask_eq_exp_minus_1)

lemma percent_hex_digits:
  obtains a b where "percent_hex c = [CHR ''%'', a, b]" "IsAsciiHex a" "IsAsciiHex b"
    "\<And>r. x2c (a # b # r) = (c, r)"
proof -
  obtain n :: nat where n: "of_char c = n" "n < 256"
    using of_char_less_256 by blast
  have q: "n div 16 < 16" "n mod 16 < 16" and c: "char_of n = c"
    using n by (simp_all add: less_mult_imp_div_less) auto
  have "x2c (d2x ! (n div 16) # d2x ! (n mod 16) # r) = (c, r)" for r
    using q c by (subst x2c_hex) (simp_all add: d2x_hex)
  then show ?thesis
    using that [of "d2x ! (n div 16)" "d2x ! (n mod 16)"] n(1) d2x_hex q
    by (simp add: percent_hex_def and_15 drop_bit_eq_div)
qed

lemma Unescape_EscapeHelper:
  assumes "m ! 37" "m ! 43"
  shows "Unescape_template (EscapeHelper m c @ s) = c # Unescape_template s"
proof (cases "m ! of_char c")
  case True
  then show ?thesis
    by (rule_tac c = c in percent_hex_digits) (simp add: EscapeHelper_def)
next
  case False
  then have "c \<noteq> CHR ''%''" "c \<noteq> CHR ''+''"
    using assms by auto
  then show ?thesis
    using False by (simp add: EscapeHelper_def)
qed

lemma Unescape_Escape: "m ! 37 \<Longrightarrow> m ! 43 \<Longrightarrow> Unescape (Escape m s) = s"
  unfolding Unescape_eq_template Escape_eq_template
  by (induction s) (simp_all add: Unescape_EscapeHelper del: Unescape_template.simps(2))

lemma length_Escape: "length (Escape m s) \<le> 3 * length s"
  unfolding Escape_eq_template by (induction s) (auto simp: EscapeHelper_def percent_hex_def)

lemma set_Escape: "set (Escape m s) \<subseteq> {c. \<not> m ! of_char c} \<union> {CHR ''+'', CHR ''%''} \<union> set d2x"
proof -
  have "k < 16 \<Longrightarrow> d2x ! k \<in> set d2x" for k
    by (simp add: length_d2x)
  moreover have "drop_bit 4 (of_char c :: nat) < 16" "and (of_char c :: nat) 15 < 16" for c
    using of_char_less_256 [of c] by (simp_all add: drop_bit_eq_div and_15 less_mult_imp_div_less)
  ultimately show ?thesis
    unfolding Escape_eq_template by (induction s) (auto simp: EscapeHelper_def percent_hex_def)
qed

section \<open>Decoding in place\<close>

text \<open>What is left to read and what has been written, and the positions the routine keeps.\<close>

definition to_read :: "nat \<Rightarrow> string \<times> nat \<times> nat \<Rightarrow> string" where
  "to_read e st = (case st of (buf, t, f) \<Rightarrow> take (e - f) (drop f buf))"

definition written :: "string \<times> nat \<times> nat \<Rightarrow> string" where
  "written st = (case st of (buf, t, f) \<Rightarrow> take t buf)"

definition in_place :: "nat \<Rightarrow> string \<times> nat \<times> nat \<Rightarrow> bool" where
  "in_place e st \<longleftrightarrow> (case st of (buf, t, f) \<Rightarrow> t \<le> f \<and> f \<le> e \<and> e < length buf)"

lemmas place_defs = to_read_def written_def in_place_def

lemma to_read_Cons:
  "in_place e (buf, t, f) \<Longrightarrow> f < e \<Longrightarrow> to_read e (buf, t, f) = buf ! f # take (e - Suc f) (drop (Suc f) buf)"
  by (simp add: place_defs Cons_nth_drop_Suc [symmetric] take_Cons' split: nat_diff_split)

lemma UnescapeHelper_at_simulates:
  assumes "in_place e (buf, t, f)" "f < e" "UnescapeHelper (to_read e (buf, t, f)) = (c, r)"
    and "st = UnescapeHelper_at e (buf, t, f)"
  shows "in_place e st \<and> to_read e st = r \<and> written st = written (buf, t, f) @ [c]"
proof -
  have nth: "take (e - Suc f) (drop (Suc f) buf) ! i = buf ! (Suc f + i)" if "i < e - Suc f" for i
    using that assms(1) by (simp add: place_defs)
  have len: "length (take (e - Suc f) (drop (Suc f) buf)) = e - Suc f"
    using assms(1) by (auto simp: place_defs)
  have "written (buf[t := d], Suc t, g) = written (buf, t, f) @ [d]" for d g
    using assms(1) by (simp add: place_defs take_Suc_conv_app_nth)
  moreover have "to_read e (buf[t := d], Suc t, g) = take (e - g) (drop g buf)" if "Suc f \<le> g" for d g
    using assms(1) that by (simp add: place_defs drop_update_cancel)
  ultimately show ?thesis
    using assms(1-3) unfolding assms(4) to_read_Cons [OF assms(1,2)]
    by (auto simp: UnescapeHelper_at_def len nth Let_def in_place_def numeral_2_eq_2 drop_take
        split: if_splits)
qed

lemma UnescapeWhile_at_simulates:
  assumes "in_place e st" "stop \<le> e" "UnescapeWhile (e - stop) (to_read e st) = (out, r)"
    and "st' = UnescapeWhile_at e stop st"
  shows "in_place e st' \<and> to_read e st' = r \<and> written st' = written st @ out"
  using assms
proof (induction e stop st arbitrary: out rule: UnescapeWhile_at.induct)
  case (1 e stop buf t f)
  have len: "length (to_read e (buf, t, f)) = e - f"
    using 1(2) by (auto simp: place_defs)
  show ?case
  proof (cases "f < stop")
    case True
    obtain c s where h: "UnescapeHelper (to_read e (buf, t, f)) = (c, s)"
      by fastforce
    have "e - stop < e - f"
      using True 1(3) by arith
    then obtain out' where w: "UnescapeWhile (e - stop) s = (out', r)" "out = c # out'"
      using 1(4) h UnescapeWhile.simps [of "e - stop" "to_read e (buf, t, f)"] unfolding len
      by (cases "UnescapeWhile (e - stop) s") auto
    define st1 where "st1 = UnescapeHelper_at e (buf, t, f)"
    have s: "in_place e st1" "to_read e st1 = s" "written st1 = written (buf, t, f) @ [c]"
      using UnescapeHelper_at_simulates [OF 1(2) _ h st1_def] True 1(3) by auto
    have "st' = UnescapeWhile_at e stop st1"
      using 1(5) True by (simp add: UnescapeWhile_at.simps [of e stop buf] st1_def)
    then show ?thesis
      using 1(1) [OF True s(1) [unfolded st1_def] 1(3)] s w unfolding st1_def by simp
  next
    case False
    then have "\<not> e - stop < e - f"
      by arith
    then show ?thesis
      using 1 False UnescapeWhile.simps [of "e - stop" "to_read e (buf, t, f)"] unfolding len
      by (simp add: UnescapeWhile_at.simps [of e stop buf])
  qed
qed

lemma block_written:
  assumes "t + k \<le> length buf"
  shows "foldl (\<lambda>b i. b[t + i := g i]) buf [0..<k] = take t buf @ map g [0..<k] @ drop (t + k) buf"
  using assms
proof (induction k)
  case (Suc k)
  then show ?case
    by (simp add: list_update_append Cons_nth_drop_Suc [symmetric])
qed simp

lemma block_simulates:
  assumes ip: "in_place e (buf, t, f)" and le: "f + BLOCK \<le> e"
    and src: "src = map (\<lambda>i. buf ! (f + i)) [0..<BLOCK]"
    and st: "st = (foldl (\<lambda>b i. b[t + i := if src ! i = CHR ''+'' then CHR '' '' else src ! i]) buf [0..<BLOCK],
        t + BLOCK, f + BLOCK)"
  shows "in_place e st" "to_read e (buf, t, f) = src @ to_read e st"
    "written st = written (buf, t, f) @ map (\<lambda>c. if c = CHR ''+'' then CHR '' '' else c) src"
proof -
  have g: "map (\<lambda>i. if src ! i = CHR ''+'' then CHR '' '' else src ! i) [0..<BLOCK] =
      map (\<lambda>c. if c = CHR ''+'' then CHR '' '' else c) src" and l: "length src = BLOCK"
    by (auto simp: src intro: nth_equalityI)
  have b: "fst st = take t buf @ map (\<lambda>c. if c = CHR ''+'' then CHR '' '' else c) src @ drop (t + BLOCK) buf"
    using ip le by (simp add: st block_written place_defs g)
  show "in_place e st"
    using ip le arg_cong [OF b, of length] l by (auto simp: st place_defs)
  have "src = take BLOCK (drop f buf)"
    using ip le by (intro nth_equalityI) (auto simp: src place_defs)
  moreover have "drop (f + BLOCK) (fst st) = drop (f + BLOCK) buf"
    using ip le unfolding b by (auto simp: place_defs l)
  moreover have "take (e - f) xs = take BLOCK xs @ take (e - (f + BLOCK)) (drop BLOCK xs)" for xs :: string
    using le by (simp flip: take_add)
  ultimately show "to_read e (buf, t, f) = src @ to_read e st"
    by (simp add: to_read_def st add.commute)
  have "written st = take (t + BLOCK) (fst st)"
    by (simp add: st written_def)
  then show "written st = written (buf, t, f) @ map (\<lambda>c. if c = CHR ''+'' then CHR '' '' else c) src"
    using ip le unfolding b by (auto simp: place_defs l)
qed

lemma Unescape_at_simulates:
  assumes "in_place e st" "Unescape_at e st = (buf', t')"
  shows "take t' buf' = written st @ Unescape (to_read e st)"
  using assms
proof (induction e st rule: Unescape_at.induct)
  case (1 e buf t f)
  consider (plain) "f + BLOCK \<le> e" "\<not> list_ex (\<lambda>i. buf ! (f + i) = CHR ''%'') [0..<BLOCK]"
    | (coded) "f + BLOCK \<le> e" "list_ex (\<lambda>i. buf ! (f + i) = CHR ''%'') [0..<BLOCK]"
    | (last) "\<not> f + BLOCK \<le> e"
    by blast
  then show ?case
  proof cases
    case plain
    note b = block_simulates [OF 1(3) plain(1) refl refl]
    have "CHR ''%'' \<notin> set (map (\<lambda>i. buf ! (f + i)) [0..<BLOCK])"
      using plain(2) by (auto simp: list_ex_iff)
    then show ?thesis
      using 1(1) [OF plain refl refl b(1)] 1(4) plain
      unfolding b(2,3) Unescape_eq_template Unescape_at.simps [of e buf]
      by (simp add: Unescape_template_plain Let_def)
  next
    case coded
    obtain out rest where h: "UnescapeWhile (e - (f + BLOCK)) (to_read e (buf, t, f)) = (out, rest)"
      by fastforce
    note s = UnescapeWhile_at_simulates [OF 1(3) coded(1) h refl]
    have "Unescape_at e (UnescapeWhile_at e (f + BLOCK) (buf, t, f)) = (buf', t')"
      using 1(4) coded by (simp add: Unescape_at.simps [of e buf])
    then show ?thesis
      using 1(2) [OF coded(1)] coded(2) s h UnescapeWhile_template [of "to_read e (buf, t, f)" "e - (f + BLOCK)"]
      by (simp add: Unescape_eq_template)
  next
    case last
    obtain out rest where h: "UnescapeWhile (e - e) (to_read e (buf, t, f)) = (out, rest)"
      by fastforce
    obtain b t1 f1 where st: "UnescapeWhile_at e e (buf, t, f) = (b, t1, f1)"
      by (metis prod_cases3)
    have "written (b, t1, f1) = written (buf, t, f) @ out" "in_place e (b, t1, f1)"
      using UnescapeWhile_at_simulates [OF 1(3) order.refl h refl] st by auto
    moreover have "buf' = b[t1 := CHR 0x00]" "t' = t1"
      using 1(4) last st by (auto simp: Unescape_at.simps [of e buf])
    moreover have "Unescape_template (to_read e (buf, t, f)) = out"
      using UnescapeWhile_template [of "to_read e (buf, t, f)" 0] h
        UnescapeWhile_length [of 0 "to_read e (buf, t, f)"] by simp
    ultimately show ?thesis
      by (simp add: Unescape_eq_template written_def)
  qed
qed

section \<open>Addresses\<close>

lemma UrlEscape_hex: "IsAsciiHex a \<Longrightarrow> UrlEscape f (a # s) = a # UrlEscape f s"
  by (auto simp: IsAsciiHex_iff Let_def)

lemma UrlEscape_kept:
  assumes "IsAsciiHex a" "IsAsciiHex b"
  shows "UrlEscape False (CHR ''%'' # a # b # s) = CHR ''%'' # a # b # UrlEscape False s"
proof -
  have "UrlEscape False (CHR ''%'' # a # b # s) = CHR ''%'' # UrlEscape False (a # b # s)"
    using assms by (subst UrlEscape.simps(2)) (simp del: UrlEscape.simps)
  then show ?thesis
    using assms by (simp add: UrlEscape_hex del: UrlEscape.simps)
qed

lemma UrlUnescape_percent_hex: "UrlUnescape (percent_hex c @ s) = c # UrlUnescape s"
  by (rule percent_hex_digits [of c]) simp

lemma UrlEscape_percent_hex: "UrlEscape False (percent_hex c @ s) = percent_hex c @ UrlEscape False s"
proof (rule percent_hex_digits [of c])
  fix a b
  assume "percent_hex c = [CHR ''%'', a, b]" "IsAsciiHex a" "IsAsciiHex b"
  then show ?thesis
    by (simp add: UrlEscape_kept del: UrlEscape.simps)
qed

text \<open>A percent sign starts an escape when two hexadecimal digits follow.\<close>

lemma UrlEscape_cases:
  obtains (escaped) "UrlEscape f (c # s) = percent_hex c @ UrlEscape f s" "c = CHR ''%'' \<Longrightarrow> \<not> f \<Longrightarrow> snd (x2c s) = s"
  | (plain) "UrlEscape f (c # s) = c # UrlEscape f s" "c \<noteq> CHR ''%''"
  | (kept) a b r where "\<not> f" "c = CHR ''%''" "s = a # b # r" "IsAsciiHex a" "IsAsciiHex b"
      "UrlEscape f (c # s) = c # a # b # UrlEscape f r"
proof (cases "c = CHR ''%''")
  case True
  show ?thesis
  proof (cases "\<not> f \<and> (\<exists>a b r. s = a # b # r \<and> IsAsciiHex a \<and> IsAsciiHex b)")
    case True
    then show ?thesis
      using kept \<open>c = _\<close> by (auto simp: UrlEscape_kept simp del: UrlEscape.simps)
  next
    case False
    then have "snd (x2c s) = s" if "\<not> f"
      using that by (induction s rule: x2c.induct) auto
    moreover have "UrlEscape f (c # s) = percent_hex c @ UrlEscape f s"
      using False True by (cases s; cases "tl s") auto
    ultimately show ?thesis
      using escaped by blast
  qed
next
  case False
  then show ?thesis
    using escaped plain by (cases "of_char c \<le> (32 :: nat) \<or> (126 :: nat) < of_char c") auto
qed

lemma UrlUnescape_UrlEscape_force: "UrlUnescape (UrlEscape True s) = s"
proof (induction s)
  case (Cons c s)
  then show ?case
    by (cases rule: UrlEscape_cases [of True c s])
      (simp_all add: UrlUnescape_percent_hex del: UrlEscape.simps UrlUnescape.simps(2), simp)
qed simp

lemma UrlUnescape_UrlEscape: "UrlUnescape (UrlEscape False s) = UrlUnescape s"
proof (induction s rule: length_induct)
  case (1 s)
  then have IH: "length t < length s \<Longrightarrow> UrlUnescape (UrlEscape False t) = UrlUnescape t" for t
    by blast
  show ?case
  proof (cases s)
    case (Cons c t)
    show ?thesis
    proof (cases rule: UrlEscape_cases [of False c t])
      case escaped
      then have "UrlUnescape (c # t) = c # UrlUnescape t"
        by (cases "c = CHR ''%''"; cases t rule: x2c.cases) (auto split: if_splits)
      then show ?thesis
        using IH [of t] escaped Cons by (simp add: UrlUnescape_percent_hex del: UrlEscape.simps UrlUnescape.simps)
    next
      case plain
      then show ?thesis
        using IH [of t] Cons by (simp del: UrlEscape.simps)
    next
      case (kept a b r)
      then show ?thesis
        using IH [of r] Cons by (simp del: UrlEscape.simps)
    qed
  qed simp
qed

lemma UrlEscape_idem: "UrlEscape False (UrlEscape False s) = UrlEscape False s"
proof (induction s rule: length_induct)
  case (1 s)
  then have IH: "length t < length s \<Longrightarrow> UrlEscape False (UrlEscape False t) = UrlEscape False t" for t
    by blast
  show ?case
  proof (cases s)
    case (Cons c t)
    show ?thesis
    proof (cases rule: UrlEscape_cases [of False c t])
      case escaped
      then show ?thesis
        using IH [of t] Cons by (simp add: UrlEscape_percent_hex del: UrlEscape.simps)
    next
      case plain
      then have "UrlEscape False (c # u) = c # UrlEscape False u" for u
        by (auto simp: percent_hex_def split: if_splits)
      then show ?thesis
        using IH [of t] Cons by (simp del: UrlEscape.simps)
    next
      case (kept a b r)
      then show ?thesis
        using IH [of r] Cons by (simp add: UrlEscape_kept del: UrlEscape.simps)
    qed
  qed simp
qed

lemma url_escape_marks:
  "chars_to_url_escape ! 37" "chars_to_url_escape ! 43" "chars_to_url_escape ! 38" "chars_to_url_escape ! 61"
  by (simp_all add: chars_to_url_escape_def)

lemma length_url_escape: "length chars_to_url_escape = 256"
  by (simp add: chars_to_url_escape_def)

lemma foldl_update_const:
  "length (foldl (\<lambda>m c. m[of_char c := x]) m cs) = length m"
  "n < length m \<Longrightarrow> foldl (\<lambda>m c. m[of_char c := x]) m cs ! n = (if n \<in> of_char ` set cs then x else m ! n)"
  by (induction cs arbitrary: m) (auto simp: nth_list_update)

section \<open>Properties\<close>

text \<open>
  The routines on character ranges, which treat blocks of 16 characters at once and decode by a
  table, compute what the templates compute one character at a time with the digits read by
  arithmetic: for every escape table and every input.
\<close>

theorem blocks_agree_with_templates:
  "Escape escape_map s = Escape_template escape_map s \<and> Unescape s = Unescape_template s"
  by (simp add: Escape_eq_template Unescape_eq_template)

text \<open>
  Decoding undoes encoding for every string of bytes, also with extra characters declared safe as
  long as these are not the percent sign or the plus; the encoded text fits the buffer the callers
  reserve, and holds no ampersand and no equality sign.
\<close>

theorem cgi_escape_roundtrip:
  assumes "CHR ''%'' \<notin> set safe" "CHR ''+'' \<notin> set safe"
  shows "CGIUnescapeRet (CGIEscape s) = s \<and> CGIUnescapeRet (Quote s safe) = s
    \<and> length (CGIEscape s) < CgiEscapeBufLen (length s) \<and> length (Quote s safe) < CgiEscapeBufLen (length s)
    \<and> CHR ''&'' \<notin> set (CGIEscape s) \<and> CHR ''='' \<notin> set (CGIEscape s)"
proof -
  have "(of_char c :: nat) \<in> of_char ` set safe \<longleftrightarrow> c \<in> set safe" for c :: char
    by auto
  from this [of "CHR ''%''"] this [of "CHR ''+''"] have "quote_map safe ! 37" "quote_map safe ! 43"
    using assms url_escape_marks by (simp_all add: quote_map_def foldl_update_const length_url_escape)
  moreover have "CHR ''&'' \<notin> set (CGIEscape s)" "CHR ''='' \<notin> set (CGIEscape s)"
    using set_Escape [of chars_to_url_escape s] url_escape_marks(3,4) by (auto simp: CGIEscape_def d2x_def)
  ultimately show ?thesis
    using length_Escape [of chars_to_url_escape s] length_Escape [of "quote_map safe" s]
    by (simp add: CGIUnescapeRet_def CGIEscape_def Quote_def Unescape_Escape url_escape_marks CgiEscapeBufLen_def)
qed

theorem cgi_escape_roundtrip_witness:
  "CGIUnescapeRet (CGIEscape ''a b&c'') = ''a b&c'' \<and> CGIUnescapeRet (Quote ''a b/c'' ''/'') = ''a b/c''"
  using cgi_escape_roundtrip [of "''/''" "''a b&c''"] cgi_escape_roundtrip [of "''/''" "''a b/c''"] by simp

text \<open>
  C38. Decoding a string in its own buffer gives what decoding into a fresh buffer gives: the writes
  never reach a character that is still to be read.
\<close>

theorem cgi_unescape_in_place: "CGIUnescape is_detached url = CGIUnescapeRet url"
proof -
  obtain b t where u: "Unescape_at (length url) (url @ [CHR 0x00], 0, 0) = (b, t)"
    by fastforce
  have "in_place (length url) (url @ [CHR 0x00], 0, 0)"
    by (simp add: in_place_def)
  from Unescape_at_simulates [OF this u] have "take t b = Unescape url"
    by (simp add: written_def to_read_def)
  then show ?thesis
    by (simp add: CGIUnescape_def CGIUnescapeRet_def u Unescape_eq_template)
qed

text \<open>
  Escaping an address with every percent sign escaped is undone by unescaping, zero bytes
  included. Without that option escaping leaves the address it stands for unchanged and does nothing
  the second time.
\<close>

theorem url_escape_roundtrip:
  "UrlUnescape (UrlEscape True s) = s \<and> UrlUnescape (UrlEscape False s) = UrlUnescape s
    \<and> UrlEscape False (UrlEscape False s) = UrlEscape False s"
  by (simp only: UrlUnescape_UrlEscape_force UrlUnescape_UrlEscape UrlEscape_idem)

end
