(* ===== verification/Cgi.thy ===== *)
theory Cgi
  imports Quote Multimaps "HOL-Library.List_Lexorder" "HOL-Library.Char_ord" "HOL-Library.Sublist"
begin

text \<open>
  Query parameters, \<^verbatim>\<open>library/cpp/cgiparam/cgiparam.{h,cpp}\<close> with the scanner of
  \<^verbatim>\<open>library/cpp/string_utils/scan/scan.h\<close>: a multimap of names and values with a text form. An
  iterator range of equal names is a segment of the entries. \<^verbatim>\<open>TStringBuf\<close> is the text it refers to;
  one that refers to nothing is \<open>None\<close>.
\<close>

type_synonym TCgiParameters = "(string, string) mmap"

section \<open>Scanning\<close>

definition NextTok :: "char \<Rightarrow> string \<Rightarrow> string \<times> string option" where
  "NextTok delim s =
     (if delim \<in> set s then (takeWhile (\<lambda>c. c \<noteq> delim) s, Some (tl (dropWhile (\<lambda>c. c \<noteq> delim) s)))
      else (s, None))"

definition buf_chars :: "string option \<Rightarrow> string" where
  "buf_chars b = (case b of None \<Rightarrow> [] | Some s \<Rightarrow> s)"

text \<open>The calls of the callback, in their order.\<close>

lemma NextTok_length: "s \<noteq> [] \<Longrightarrow> length (buf_chars (snd (NextTok d s))) < length s"
  using length_dropWhile_le [of "\<lambda>c. c \<noteq> d" s]
  by (auto simp: NextTok_def buf_chars_def neq_Nil_conv less_Suc_eq_le simp del: length_dropWhile_le)

function ScanKeyValue :: "bool \<Rightarrow> char \<Rightarrow> char \<Rightarrow> string \<Rightarrow> (string \<times> string) list" where
  "ScanKeyValue addAll sep sepKeyVal s =
     (if s = [] then []
      else
        (let (val, s') = NextTok sep s
         in (if val = [] then []
             else (let (key, val) = NextTok sepKeyVal val
                   in if addAll \<or> val \<noteq> None then [(key, buf_chars val)] else []))
            @ ScanKeyValue addAll sep sepKeyVal (buf_chars s')))"
  by pat_completeness auto

termination
proof (relation "measure (\<lambda>(a, b, c, s). length s)")
  fix a b c s val s' and p :: "string \<times> string option"
  assume "s \<noteq> []" "p = NextTok b s" "(val, s') = p"
  then show "((a, b, c, buf_chars s'), a, b, c, s) \<in> measure (\<lambda>(a, b, c, s). length s)"
    using NextTok_length [of s b] by (simp, metis snd_conv)
qed auto

declare ScanKeyValue.simps [simp del]

section \<open>The parameters\<close>

definition InsertUnescaped :: "string \<Rightarrow> string \<Rightarrow> TCgiParameters \<Rightarrow> TCgiParameters" where
  "InsertUnescaped name value m = mm_insert name value m"

definition InsertEscaped :: "string \<Rightarrow> string \<Rightarrow> TCgiParameters \<Rightarrow> TCgiParameters" where
  "InsertEscaped name value m = InsertUnescaped (CGIUnescapeRet name) (CGIUnescapeRet value) m"

definition ScanAdd :: "string \<Rightarrow> TCgiParameters \<Rightarrow> TCgiParameters" where
  "ScanAdd query m =
     foldl (\<lambda>m (key, val). InsertEscaped key val m) m (ScanKeyValue False (CHR ''&'') (CHR ''='') query)"

definition ScanAddAll :: "string \<Rightarrow> TCgiParameters \<Rightarrow> TCgiParameters" where
  "ScanAddAll query m =
     foldl (\<lambda>m (key, val). InsertEscaped key val m) m (ScanKeyValue True (CHR ''&'') (CHR ''='') query)"

definition ScanAddUnescaped :: "string \<Rightarrow> TCgiParameters \<Rightarrow> TCgiParameters" where
  "ScanAddUnescaped query m =
     foldl (\<lambda>m (key, val). InsertUnescaped key val m) m (ScanKeyValue False (CHR ''&'') (CHR ''='') query)"

definition ScanAddAllUnescaped :: "string \<Rightarrow> TCgiParameters \<Rightarrow> TCgiParameters" where
  "ScanAddAllUnescaped query m =
     foldl (\<lambda>m (key, val). InsertUnescaped key val m) m (ScanKeyValue True (CHR ''&'') (CHR ''='') query)"

definition Flush :: "TCgiParameters \<Rightarrow> TCgiParameters" where
  "Flush m = []"

definition Scan :: "string \<Rightarrow> bool \<Rightarrow> TCgiParameters \<Rightarrow> TCgiParameters" where
  "Scan query form m = (if form then ScanAdd query (Flush m) else ScanAddAll query (Flush m))"

definition params_of_string :: "string \<Rightarrow> TCgiParameters" where
  "params_of_string s = Scan s True []"

definition params_of_list :: "(string \<times> string) list \<Rightarrow> TCgiParameters" where
  "params_of_list il = foldl (\<lambda>m (k, v). mm_insert k v m) [] il"

fun Print :: "TCgiParameters \<Rightarrow> string" where
  "Print [] = []"
| "Print [(k, v)] = CGIEscape k @ ''='' @ CGIEscape v"
| "Print ((k, v) # m) = CGIEscape k @ ''='' @ CGIEscape v @ ''&'' @ Print m"

definition PrintSize :: "TCgiParameters \<Rightarrow> nat" where
  "PrintSize m = length m + sum_list (map (\<lambda>(k, v). CgiEscapeBufLen (length k + length v)) m)"

fun QuotedPrint :: "string \<Rightarrow> TCgiParameters \<Rightarrow> string" where
  "QuotedPrint safe [] = []"
| "QuotedPrint safe [(k, v)] = Quote k safe @ ''='' @ Quote v safe"
| "QuotedPrint safe ((k, v) # m) = Quote k safe @ ''='' @ Quote v safe @ ''&'' @ QuotedPrint safe m"

section \<open>Access by name\<close>

definition equal_range :: "string \<Rightarrow> TCgiParameters \<Rightarrow> TCgiParameters \<times> TCgiParameters \<times> TCgiParameters" where
  "equal_range name m =
     (let upto = takeWhile (\<lambda>e. fst e \<le> name) m
      in (takeWhile (\<lambda>e. fst e < name) upto, dropWhile (\<lambda>e. fst e < name) upto,
          dropWhile (\<lambda>e. fst e \<le> name) m))"

text \<open>The loops over a range count a position down to zero.\<close>

fun entry_at :: "TCgiParameters \<Rightarrow> nat \<Rightarrow> (string \<times> string) option" where
  "entry_at [] pos = None"
| "entry_at (e # es) pos = (if pos = 0 then Some e else entry_at es (pos - 1))"

definition Find :: "string \<Rightarrow> nat \<Rightarrow> TCgiParameters \<Rightarrow> (string \<times> string) option" where
  "Find name pos m = (case equal_range name m of (_, mid, _) \<Rightarrow> entry_at mid pos)"

definition Get :: "string \<Rightarrow> nat \<Rightarrow> TCgiParameters \<Rightarrow> string" where
  "Get name numOfValue m = (case Find name numOfValue m of None \<Rightarrow> [] | Some e \<Rightarrow> snd e)"

definition GetLast :: "string \<Rightarrow> TCgiParameters \<Rightarrow> string" where
  "GetLast name m =
     (case rev (takeWhile (\<lambda>e. fst e \<le> name) m) of
        [] \<Rightarrow> []
      | e # _ \<Rightarrow> if fst e = name then snd e else [])"

definition Has_value :: "string \<Rightarrow> string \<Rightarrow> TCgiParameters \<Rightarrow> bool" where
  "Has_value name value m = (case equal_range name m of (_, mid, _) \<Rightarrow> list_ex (\<lambda>e. value = snd e) mid)"

definition Has :: "string \<Rightarrow> TCgiParameters \<Rightarrow> bool" where
  "Has name m = (case equal_range name m of (_, mid, _) \<Rightarrow> mid \<noteq> [])"

section \<open>Editing\<close>

fun erase_at :: "TCgiParameters \<Rightarrow> nat \<Rightarrow> bool \<times> TCgiParameters" where
  "erase_at [] pos = (False, [])"
| "erase_at (e # es) pos =
     (if pos = 0 then (True, es) else (let (found, es) = erase_at es (pos - 1) in (found, e # es)))"

definition Erase :: "string \<Rightarrow> nat \<Rightarrow> TCgiParameters \<Rightarrow> bool \<times> TCgiParameters" where
  "Erase name pos m =
     (case equal_range name m of (pre, mid, post) \<Rightarrow>
        let (found, mid) = erase_at mid pos in (found, pre @ mid @ post))"

fun erase_if :: "(string \<Rightarrow> bool) \<Rightarrow> TCgiParameters \<Rightarrow> bool \<times> TCgiParameters" where
  "erase_if P [] = (False, [])"
| "erase_if P (e # es) =
     (let (found, es) = erase_if P es in if P (snd e) then (True, es) else (found, e # es))"

definition Erase_value :: "string \<Rightarrow> string \<Rightarrow> TCgiParameters \<Rightarrow> bool \<times> TCgiParameters" where
  "Erase_value name val m =
     (case equal_range name m of (pre, mid, post) \<Rightarrow>
        let (found, mid) = erase_if (\<lambda>v. val = v) mid in (found, pre @ mid @ post))"

definition ErasePattern :: "string \<Rightarrow> string \<Rightarrow> TCgiParameters \<Rightarrow> bool \<times> TCgiParameters" where
  "ErasePattern name pat m =
     (case equal_range name m of (pre, mid, post) \<Rightarrow>
        let (found, mid) = erase_if (\<lambda>v. prefix pat v) mid in (found, pre @ mid @ post))"

definition EraseAll :: "string \<Rightarrow> TCgiParameters \<Rightarrow> nat \<times> TCgiParameters" where
  "EraseAll name m = (case equal_range name m of (pre, mid, post) \<Rightarrow> (length mid, pre @ post))"

text \<open>The hint of an insertion is the end of the range.\<close>

definition JoinUnescaped :: "string \<Rightarrow> char \<Rightarrow> string option \<Rightarrow> TCgiParameters \<Rightarrow> TCgiParameters" where
  "JoinUnescaped key sep val m =
     (case equal_range key m of (pre, mid, post) \<Rightarrow>
        case mid of
          [] \<Rightarrow> (case val of None \<Rightarrow> m | Some v \<Rightarrow> pre @ (key, v) # post)
        | (k, dst) # rest \<Rightarrow>
            (let dst = foldl (\<lambda>dst e. dst @ [sep] @ snd e) dst rest;
                 dst = (case val of None \<Rightarrow> dst | Some v \<Rightarrow> dst @ [sep] @ v)
             in pre @ (k, dst) # post))"

fun assign_values :: "TCgiParameters \<Rightarrow> string list \<Rightarrow> TCgiParameters \<times> string list" where
  "assign_values (e # es) (v # vs) = (let (es, vs) = assign_values es vs in ((fst e, v) # es, vs))"
| "assign_values es vs = ([], vs)"

definition ReplaceUnescaped :: "string \<Rightarrow> string list \<Rightarrow> TCgiParameters \<Rightarrow> TCgiParameters" where
  "ReplaceUnescaped key values m =
     (case equal_range key m of (pre, mid, post) \<Rightarrow>
        let (reused, more) = assign_values mid values
        in pre @ reused @ map (\<lambda>v. (key, v)) more @ post)"

section \<open>The read-only variant\<close>

text \<open>
  \<^verbatim>\<open>TQuickCgiParam\<close> keeps the decoded names and values in one buffer, each followed by a zero; the
  second component counts the characters of the buffer used.
\<close>

definition TQuickCgiParam :: "string \<Rightarrow> TCgiParameters \<times> nat" where
  "TQuickCgiParam s =
     foldl (\<lambda>(m, buf) (key, val).
         let name = CGIUnescapeRet key; buf = buf + length name + 1;
             value = CGIUnescapeRet val; buf = buf + length value + 1
         in (mm_insert name value m, buf))
       ([], 0) (ScanKeyValue False (CHR ''&'') (CHR ''='') s)"

section \<open>A range of equal names\<close>

definition range_of :: "TCgiParameters \<Rightarrow> string \<Rightarrow> string list" where
  "range_of m k = mm_range k m"

lemma equal_range_split:
  assumes "mm_sorted m" "equal_range name m = (pre, mid, post)"
  shows "m = pre @ mid @ post" "\<forall>e \<in> set pre. fst e < name" "\<forall>e \<in> set mid. fst e = name"
    "\<forall>e \<in> set post. name < fst e"
proof -
  define upto where "upto = takeWhile (\<lambda>e. fst e \<le> name) m"
  have d: "pre = takeWhile (\<lambda>e. fst e < name) upto" "mid = dropWhile (\<lambda>e. fst e < name) upto"
      "post = dropWhile (\<lambda>e. fst e \<le> name) m"
    using assms(2) by (auto simp: equal_range_def upto_def Let_def)
  show "m = pre @ mid @ post"
    unfolding d by (simp flip: append.assoc) (simp add: upto_def)
  show "\<forall>e \<in> set pre. fst e < name"
    unfolding d by (auto dest: set_takeWhileD)
  have above: "mm_sorted xs \<Longrightarrow> \<forall>e \<in> set (dropWhile (\<lambda>e. fst e < n) xs). n \<le> fst e" for n and xs :: TCgiParameters
    by (induction xs) (auto simp: mm_sorted_def not_less intro: order.trans)
  have "mm_sorted upto"
    using assms(1) unfolding upto_def mm_sorted_def by (metis sorted_wrt_take take_map takeWhile_eq_take)
  then show "\<forall>e \<in> set mid. fst e = name"
    using above [of upto name] set_dropWhileD [of _ _ upto] set_takeWhileD [of _ "\<lambda>e. fst e \<le> name" m]
    unfolding d upto_def by (blast intro: order.antisym)
  have "mm_sorted xs \<Longrightarrow> \<forall>e \<in> set (dropWhile (\<lambda>e. fst e \<le> name) xs). name < fst e" for xs :: TCgiParameters
    by (induction xs) (auto simp: mm_sorted_def not_le intro: less_le_trans)
  then show "\<forall>e \<in> set post. name < fst e"
    using assms(1) unfolding d by blast
qed

lemma replace_mid:
  assumes "mm_sorted m" "equal_range name m = (pre, mid, post)" "\<forall>e \<in> set mid'. fst e = name"
  shows "mm_sorted (pre @ mid' @ post)"
    and "range_of (pre @ mid' @ post) = (range_of m)(name := map snd mid')"
    and "range_of m name = map snd mid"
proof -
  note s = equal_range_split [OF assms(1,2)]
  have "sorted (map fst pre)" "sorted (map fst post)"
    using assms(1) s(1) by (auto simp: mm_sorted_def sorted_append)
  moreover have "sorted (map fst mid')"
    using assms(3) by (auto simp: sorted_iff_nth_mono)
  ultimately show "mm_sorted (pre @ mid' @ post)"
    using s(2,4) assms(3) by (fastforce simp: mm_sorted_def sorted_append)
  have f: "filter (\<lambda>e. fst e = k) pre = []" "filter (\<lambda>e. fst e = k) post = []" if "k = name" for k
    using s(2,4) that by (auto simp: filter_empty_conv)
  have g: "filter (\<lambda>e. fst e = k) mid = (if k = name then mid else [])"
      "filter (\<lambda>e. fst e = k) mid' = (if k = name then mid' else [])" for k
    using s(3) assms(3) by (auto simp: filter_empty_conv filter_id_conv)
  show "range_of (pre @ mid' @ post) = (range_of m)(name := map snd mid')" "range_of m name = map snd mid"
    by (auto simp: fun_eq_iff range_of_def mm_range_def s(1) g f)
qed

section \<open>Printing and scanning\<close>

lemma NextTok_append:
  "d \<notin> set a \<Longrightarrow> NextTok d (a @ d # r) = (a, Some r)"
  "d \<notin> set a \<Longrightarrow> NextTok d a = (a, None)"
  by (auto simp: NextTok_def takeWhile_append dropWhile_append)

text \<open>The scanner splits a text into its non-empty parts, and these at their first equality sign.\<close>

lemma ScanKeyValue_entry:
  assumes "CHR ''&'' \<notin> set k" "CHR ''&'' \<notin> set v" "CHR ''='' \<notin> set k"
  shows "ScanKeyValue b (CHR ''&'') (CHR ''='') (k @ ''='' @ v) = [(k, v)]"
    and "ScanKeyValue b (CHR ''&'') (CHR ''='') (k @ ''='' @ v @ ''&'' @ r) =
      (k, v) # ScanKeyValue b (CHR ''&'') (CHR ''='') r"
proof -
  have e: "NextTok (CHR ''='') (k @ CHR ''='' # v) = (k, Some v)"
    using assms by (simp add: NextTok_append)
  have "NextTok (CHR ''&'') (k @ CHR ''='' # v) = (k @ CHR ''='' # v, None)"
    using assms by (simp add: NextTok_append)
  then show "ScanKeyValue b (CHR ''&'') (CHR ''='') (k @ ''='' @ v) = [(k, v)]"
    using e by (subst ScanKeyValue.simps) (simp add: buf_chars_def, simp add: ScanKeyValue.simps)
  have "NextTok (CHR ''&'') ((k @ CHR ''='' # v) @ CHR ''&'' # r) = (k @ CHR ''='' # v, Some r)"
    using assms by (intro NextTok_append) simp
  then show "ScanKeyValue b (CHR ''&'') (CHR ''='') (k @ ''='' @ v @ ''&'' @ r) =
      (k, v) # ScanKeyValue b (CHR ''&'') (CHR ''='') r"
    using e by (subst ScanKeyValue.simps) (simp add: buf_chars_def)
qed

fun join_with :: "(string \<Rightarrow> string) \<Rightarrow> (string \<times> string) list \<Rightarrow> string" where
  "join_with f [] = []"
| "join_with f [(k, v)] = f k @ ''='' @ f v"
| "join_with f ((k, v) # m) = f k @ ''='' @ f v @ ''&'' @ join_with f m"

lemma Print_join: "Print m = join_with CGIEscape m"
  by (induction m rule: Print.induct) auto

lemma QuotedPrint_join: "QuotedPrint safe m = join_with (\<lambda>s. Quote s safe) m"
  by (induction safe m rule: QuotedPrint.induct) auto

lemma ScanKeyValue_join:
  assumes "\<forall>(k, v) \<in> set m. CHR ''&'' \<notin> set (f k) \<and> CHR ''='' \<notin> set (f k) \<and> CHR ''&'' \<notin> set (f v)"
  shows "ScanKeyValue b (CHR ''&'') (CHR ''='') (join_with f m) = map (\<lambda>(k, v). (f k, f v)) m"
  using assms
proof (induction f m rule: join_with.induct)
  case 1
  then show ?case
    by (simp add: ScanKeyValue.simps)
qed (simp_all add: ScanKeyValue_entry [simplified])

lemma mm_insert_last: "\<forall>e \<in> set m. fst e \<le> k \<Longrightarrow> mm_insert k v m = m @ [(k, v)]"
  by (simp add: mm_insert_def takeWhile_eq_all_conv [THEN iffD2] dropWhile_eq_Nil_conv [THEN iffD2])

lemma foldl_insert_sorted:
  "mm_sorted (acc @ m) \<Longrightarrow> foldl (\<lambda>m (k, v). mm_insert k v m) acc m = acc @ m"
proof (induction m arbitrary: acc)
  case (Cons e m)
  then have "\<forall>x \<in> set acc. fst x \<le> fst e" "mm_sorted ((acc @ [e]) @ m)"
    by (auto simp: mm_sorted_def sorted_append)
  then show ?case
    using Cons.IH [of "acc @ [e]"] by (cases e) (simp add: mm_insert_last)
qed simp

definition decodable :: "(string \<Rightarrow> string) \<Rightarrow> string \<Rightarrow> bool" where
  "decodable f s \<longleftrightarrow> CGIUnescapeRet (f s) = s \<and> CHR ''&'' \<notin> set (f s) \<and> CHR ''='' \<notin> set (f s)"

lemma Scan_join:
  assumes "mm_sorted m"
    and "\<forall>(k, v) \<in> set m. decodable f k \<and> decodable f v"
  shows "Scan (join_with f m) form m' = m"
proof -
  have "foldl (\<lambda>m (key, val). InsertEscaped key val m) acc (map (\<lambda>(k, v). (f k, f v)) xs) =
      foldl (\<lambda>m (k, v). mm_insert k v m) acc xs" if "set xs \<subseteq> set m" for acc xs
    using that assms(2)
    by (induction xs arbitrary: acc) (auto simp: InsertEscaped_def InsertUnescaped_def decodable_def)
  moreover have "ScanKeyValue b (CHR ''&'') (CHR ''='') (join_with f m) = map (\<lambda>(k, v). (f k, f v)) m" for b
    using assms(2) by (intro ScanKeyValue_join) (auto simp: decodable_def)
  ultimately show ?thesis
    using foldl_insert_sorted [of "[]" m] assms(1) by (simp add: Scan_def ScanAdd_def ScanAddAll_def Flush_def)
qed

lemma length_Unescape: "length (Unescape s) \<le> length s"
proof -
  have "length (Unescape_template s) \<le> length s"
  proof (induction s rule: Unescape_template.induct)
    case (2 c s)
    obtain d r where x: "x2c s = (d, r)"
      by fastforce
    then have "length r \<le> length s"
      using x2c_length [of s] by simp
    then show ?case
      using 2(1) [OF _ x [symmetric] refl] 2(2,3) by (auto simp: x)
  qed simp
  then show ?thesis
    by (simp add: Unescape_eq_template)
qed

lemma length_Print: "length (Print m) \<le> PrintSize m"
proof (induction m rule: Print.induct)
  case (2 k v)
  then show ?case
    using length_Escape [of chars_to_url_escape k] length_Escape [of chars_to_url_escape v]
    by (simp add: PrintSize_def CgiEscapeBufLen_def CGIEscape_def)
next
  case (3 k v e m)
  then show ?case
    using length_Escape [of chars_to_url_escape k] length_Escape [of chars_to_url_escape v]
    by (simp add: PrintSize_def CgiEscapeBufLen_def CGIEscape_def)
qed simp

lemma decodable_CGIEscape: "decodable CGIEscape s"
  unfolding decodable_def CGIUnescapeRet_def CGIEscape_def
  using set_Escape [of chars_to_url_escape s] url_escape_marks
  by (auto simp: Unescape_Escape d2x_def)

lemma quote_map_nth:
  assumes "c \<notin> set safe" "c \<in> set ''%&+=''"
  shows "quote_map safe ! of_char c"
proof -
  have "(of_char c :: nat) \<notin> of_char ` set safe"
    using assms(1) by auto
  then show ?thesis
    using assms(2) url_escape_marks by (auto simp: quote_map_def foldl_update_const length_url_escape)
qed

lemma decodable_Quote:
  assumes "set ''%&+='' \<inter> set safe = {}"
  shows "decodable (\<lambda>s. Quote s safe) s"
proof -
  have "quote_map safe ! 37" "quote_map safe ! 43" "quote_map safe ! 38" "quote_map safe ! 61"
    using assms quote_map_nth [of "CHR ''%''" safe] quote_map_nth [of "CHR ''+''" safe]
      quote_map_nth [of "CHR ''&''" safe] quote_map_nth [of "CHR ''=''" safe] by simp_all
  then show ?thesis
    unfolding decodable_def CGIUnescapeRet_def Quote_def
    using set_Escape [of "quote_map safe" s] by (auto simp: Unescape_Escape d2x_def)
qed

lemma ScanKeyValue_size:
  "sum_list (map (\<lambda>(k, v). length k + length v + 2) (ScanKeyValue False sep sepKeyVal s)) \<le> length s + 1"
proof (induction s rule: length_induct)
  case (1 s)
  have tok: "length t + length (buf_chars r) + of_bool (r \<noteq> None) = length s" if "NextTok d s = (t, r)" for d t r s
  proof (cases "d \<in> set s")
    case True
    then obtain a b where "s = a @ d # b" "d \<notin> set a"
      by (meson split_list_first)
    then show ?thesis
      using that by (auto simp: NextTok_append buf_chars_def)
  qed (use that in \<open>auto simp: NextTok_def buf_chars_def\<close>)
  show ?case
  proof (cases "s = []")
    case True
    then show ?thesis
      by (simp add: ScanKeyValue.simps)
  next
    case False
    obtain val r key v where n: "NextTok sep s = (val, r)" "NextTok sepKeyVal val = (key, v)"
      by fastforce
    have "length (buf_chars r) < length s"
      using NextTok_length [OF False, of sep] n by simp
    with 1 have "sum_list (map (\<lambda>(k, v). length k + length v + 2) (ScanKeyValue False sep sepKeyVal (buf_chars r)))
        \<le> length (buf_chars r) + 1"
      by blast
    moreover have "r = None \<Longrightarrow> ScanKeyValue False sep sepKeyVal (buf_chars r) = []"
      by (simp add: buf_chars_def ScanKeyValue.simps)
    ultimately show ?thesis
      using False tok [OF n(1)] tok [OF n(2)] ScanKeyValue.simps [of False sep sepKeyVal s] n
      by (cases r; cases v) (auto simp: of_bool_def)
  qed
qed

lemma quick_params_fold:
  assumes "foldl (\<lambda>(m, buf) (key, val).
         let name = CGIUnescapeRet key; buf = buf + length name + 1;
             value = CGIUnescapeRet val; buf = buf + length value + 1
         in (mm_insert name value m, buf)) (m, used) kvs = (m', used')"
  shows "m' = foldl (\<lambda>m (key, val). InsertEscaped key val m) m kvs
    \<and> used' \<le> used + sum_list (map (\<lambda>(k, v). length k + length v + 2) kvs)"
  using assms
proof (induction kvs arbitrary: m used)
  case (Cons kv kvs)
  obtain k v where kv: "kv = (k, v)"
    by fastforce
  have "length (CGIUnescapeRet k) \<le> length k" "length (CGIUnescapeRet v) \<le> length v"
    by (simp_all add: CGIUnescapeRet_def length_Unescape)
  then show ?case
    using Cons by (fastforce simp: kv InsertEscaped_def InsertUnescaped_def Let_def)
qed simp

section \<open>Access and editing\<close>

lemma entry_at_nth: "entry_at es pos = (if pos < length es then Some (es ! pos) else None)"
  by (induction es pos rule: entry_at.induct) (auto simp: nth_Cons')

lemma erase_at_take: "erase_at es pos = (pos < length es, take pos es @ drop (Suc pos) es)"
proof (induction es pos rule: erase_at.induct)
  case (2 e es pos)
  then show ?case
    by (cases pos) auto
qed simp

lemma erase_if_filter: "erase_if P es = (list_ex (\<lambda>e. P (snd e)) es, filter (\<lambda>e. \<not> P (snd e)) es)"
  by (induction es) auto

lemma assign_values_take:
  "assign_values es vs = (zip (map fst (take (length vs) es)) vs, drop (length es) vs)"
  by (induction es vs rule: assign_values.induct) auto

lemma map_snd_filter: "map snd (filter (\<lambda>e. P (snd e)) es) = filter P (map snd es)"
  by (simp add: filter_map comp_def)

definition join_values :: "char \<Rightarrow> string option \<Rightarrow> string list \<Rightarrow> string list" where
  "join_values sep val vs =
     (case vs @ (case val of None \<Rightarrow> [] | Some v \<Rightarrow> [v]) of
        [] \<Rightarrow> []
      | v # vs \<Rightarrow> [concat (v # map (\<lambda>v. sep # v) vs)])"

lemma foldl_join: "foldl (\<lambda>dst e. dst @ sep # snd e) d es = d @ concat (map (\<lambda>v. sep # v) (map snd es))"
  by (induction es arbitrary: d) auto

lemma GetLast_range:
  assumes "mm_sorted m"
  shows "GetLast name m = (if range_of m name = [] then [] else last (range_of m name))"
proof -
  obtain pre mid post where r: "equal_range name m = (pre, mid, post)"
    by (metis prod_cases3)
  note s = equal_range_split [OF assms r]
  have "takeWhile (\<lambda>e. fst e \<le> name) m = pre @ mid"
    unfolding s(1) using s(2-4) by (cases post) (auto simp: takeWhile_append intro: takeWhile_eq_all_conv [THEN iffD2])
  moreover have "range_of m name = map snd mid"
    using replace_mid(3) [OF assms r] s(3) by blast
  ultimately show ?thesis
    using s(2,3) by (cases mid rule: rev_cases; cases pre rule: rev_cases) (auto simp: GetLast_def)
qed

text \<open>The contract of an edit: the values of one name change as the function says.\<close>

definition edited :: "string \<Rightarrow> (string list \<Rightarrow> string list) \<Rightarrow> TCgiParameters \<Rightarrow> TCgiParameters \<Rightarrow> bool" where
  "edited name f m m' \<longleftrightarrow> mm_sorted m' \<and> range_of m' = (range_of m)(name := f (range_of m name))"

lemma edited_mid:
  assumes "mm_sorted m" "equal_range name m = (pre, mid, post)" "\<forall>e \<in> set mid'. fst e = name"
    and "map snd mid' = f (map snd mid)"
  shows "edited name f m (pre @ mid' @ post)"
  using replace_mid [OF assms(1-3)] assms(4) by (simp add: edited_def)

lemma range_parts:
  assumes "mm_sorted m"
  obtains pre mid post where "equal_range name m = (pre, mid, post)" "m = pre @ mid @ post"
    "\<forall>e \<in> set pre \<union> set post. fst e \<noteq> name" "\<forall>e \<in> set mid. fst e = name" "range_of m name = map snd mid"
proof -
  obtain pre mid post where r: "equal_range name m = (pre, mid, post)"
    by (metis prod_cases3)
  note s = equal_range_split [OF assms r]
  show ?thesis
    using that [OF r s(1) _ s(3)] s(2,4) replace_mid(3) [OF assms r s(3)] by force
qed

lemma Erase_edited:
  assumes "mm_sorted m"
  shows "edited name (\<lambda>vs. take i vs @ drop (Suc i) vs) m (snd (Erase name i m))
    \<and> fst (Erase name i m) = (i < length (range_of m name))"
proof (rule range_parts [OF assms, of name])
  fix pre mid post
  assume p: "equal_range name m = (pre, mid, post)" "\<forall>e \<in> set mid. fst e = name" "range_of m name = map snd mid"
  have "edited name (\<lambda>vs. take i vs @ drop (Suc i) vs) m (pre @ (take i mid @ drop (Suc i) mid) @ post)"
    using p by (intro edited_mid [OF assms p(1)]) (auto simp: take_map drop_map dest: in_set_takeD in_set_dropD)
  then show ?thesis
    using p by (simp add: Erase_def erase_at_take)
qed

lemma erase_if_edited:
  assumes "mm_sorted m" "equal_range name m = (pre, mid, post)" "erase_if P mid = (found, mid')"
  shows "edited name (filter (\<lambda>v. \<not> P v)) m (pre @ mid' @ post) \<and> found = list_ex P (range_of m name)"
proof -
  note s = equal_range_split(3) [OF assms(1,2)] replace_mid(3) [OF assms(1,2)]
  have "edited name (filter (\<lambda>v. \<not> P v)) m (pre @ filter (\<lambda>e. \<not> P (snd e)) mid @ post)"
    using s by (intro edited_mid [OF assms(1,2)]) (auto simp: map_snd_filter [of "\<lambda>v. \<not> P v"])
  then show ?thesis
    using s assms(3) by (auto simp: erase_if_filter list_ex_iff)
qed

lemma Erase_value_edited:
  assumes "mm_sorted m"
  shows "edited name (filter (\<lambda>x. v \<noteq> x)) m (snd (Erase_value name v m))
    \<and> fst (Erase_value name v m) = (v \<in> set (range_of m name))"
  using erase_if_edited [OF assms, of name, where P = "\<lambda>x. v = x"]
  by (auto simp: Erase_value_def list_ex_iff split: prod.splits)

lemma ErasePattern_edited:
  assumes "mm_sorted m"
  shows "edited name (filter (\<lambda>x. \<not> prefix v x)) m (snd (ErasePattern name v m))
    \<and> fst (ErasePattern name v m) = list_ex (prefix v) (range_of m name)"
  using erase_if_edited [OF assms, of name, where P = "\<lambda>x. prefix v x"]
  by (auto simp: ErasePattern_def split: prod.splits)

lemma EraseAll_edited:
  assumes "mm_sorted m"
  shows "edited name (\<lambda>vs. []) m (snd (EraseAll name m)) \<and> fst (EraseAll name m) = length (range_of m name)"
proof (rule range_parts [OF assms, of name])
  fix pre mid post
  assume p: "equal_range name m = (pre, mid, post)" "range_of m name = map snd mid"
  then show ?thesis
    using edited_mid [OF assms p(1), of "[]" "\<lambda>vs. []"] by (simp add: EraseAll_def)
qed

lemma JoinUnescaped_edited:
  assumes "mm_sorted m"
  shows "edited name (join_values sep val) m (JoinUnescaped name sep val m)"
proof (rule range_parts [OF assms, of name])
  fix pre mid post
  assume p: "equal_range name m = (pre, mid, post)" "m = pre @ mid @ post" "\<forall>e \<in> set mid. fst e = name"
  note e = edited_mid [OF assms p(1), of _ "join_values sep val"]
  show ?thesis
  proof (cases mid)
    case Nil
    then show ?thesis
      using e [of "[]"] e [of "[(name, v)]" for v] p
      by (cases val) (auto simp: JoinUnescaped_def join_values_def)
  next
    case (Cons kd rest)
    then show ?thesis
      using e [of "[(fst kd, d)]" for d] p
      by (cases kd; cases val) (auto simp: JoinUnescaped_def join_values_def foldl_join Let_def)
  qed
qed

lemma ReplaceUnescaped_edited:
  assumes "mm_sorted m"
  shows "edited name (\<lambda>_. vs) m (ReplaceUnescaped name vs m)"
proof (rule range_parts [OF assms, of name])
  fix pre mid post
  assume p: "equal_range name m = (pre, mid, post)" "\<forall>e \<in> set mid. fst e = name"
  have "map snd (zip (map fst (take (length vs) mid)) vs) = take (length mid) vs"
    by (simp add: map_snd_zip_take min_def)
  then have "edited name (\<lambda>_. vs) m (pre @ (zip (map fst (take (length vs) mid)) vs @ map (\<lambda>v. (name, v)) (drop (length mid) vs)) @ post)"
    using p by (intro edited_mid [OF assms p(1)])
      (auto simp: comp_def dest!: set_zip_leftD in_set_takeD)
  then show ?thesis
    by (simp add: ReplaceUnescaped_def p assign_values_take)
qed

section \<open>Properties\<close>

text \<open>
  Every access by name reads the list of the values of that name, in the order of their
  insertion: the value at a position, the last one, whether one is present; the missing ones are
  empty.
\<close>

theorem params_access:
  assumes "mm_sorted m"
  shows "Get name i m = (if i < length (range_of m name) then range_of m name ! i else [])
    \<and> GetLast name m = (if range_of m name = [] then [] else last (range_of m name))
    \<and> (Has name m \<longleftrightarrow> range_of m name \<noteq> [])
    \<and> (Has_value name v m \<longleftrightarrow> v \<in> set (range_of m name))"
proof -
  obtain pre mid post where r: "equal_range name m = (pre, mid, post)"
    by (metis prod_cases3)
  have "range_of m name = map snd mid"
    using replace_mid(3) [OF assms r] equal_range_split(3) [OF assms r] by blast
  then show ?thesis
    using GetLast_range [OF assms, of name]
    by (auto simp: Get_def Find_def r entry_at_nth Has_def Has_value_def list_ex_iff)
qed

theorem params_access_witness:
  "Get ''a'' 1 [(''a'', ''1''), (''a'', ''2'')] = ''2'' \<and> GetLast ''a'' [(''a'', ''1''), (''a'', ''2'')] = ''2''"
  using params_access [of "[(''a'', ''1''), (''a'', ''2'')]" "''a''" 1]
  by (simp add: mm_sorted_def range_of_def mm_range_def)

text \<open>
  Every edit changes the values of one name as its contract says and leaves every other name and
  the order of the entries alone: erasing by position, by value, by prefix and altogether, joining the
  values with a separator, and replacing them. What the routines report is whether, or how many, values
  were erased.
\<close>

theorem params_edit:
  assumes "mm_sorted m"
  shows "(edited name (\<lambda>vs. take i vs @ drop (Suc i) vs) m (snd (Erase name i m))
      \<and> fst (Erase name i m) = (i < length (range_of m name)))
    \<and> (edited name (filter (\<lambda>x. v \<noteq> x)) m (snd (Erase_value name v m))
      \<and> fst (Erase_value name v m) = (v \<in> set (range_of m name)))
    \<and> (edited name (filter (\<lambda>x. \<not> prefix v x)) m (snd (ErasePattern name v m))
      \<and> fst (ErasePattern name v m) = list_ex (prefix v) (range_of m name))
    \<and> (edited name (\<lambda>vs. []) m (snd (EraseAll name m)) \<and> fst (EraseAll name m) = length (range_of m name))
    \<and> edited name (join_values sep val) m (JoinUnescaped name sep val m)
    \<and> edited name (\<lambda>_. vs) m (ReplaceUnescaped name vs m)"
  using Erase_edited [OF assms, of name i] Erase_value_edited [OF assms, of name v]
    ErasePattern_edited [OF assms, of name v] EraseAll_edited [OF assms, of name]
    JoinUnescaped_edited [OF assms, of name sep val] ReplaceUnescaped_edited [OF assms, of name vs]
  by (intro conjI) simp_all

theorem params_edit_witness:
  "edited ''a'' (join_values (CHR '','') None) [(''a'', ''1''), (''a'', ''2''), (''b'', ''3'')]
      (JoinUnescaped ''a'' (CHR '','') None [(''a'', ''1''), (''a'', ''2''), (''b'', ''3'')])
    \<and> join_values (CHR '','') None [''1'', ''2''] = [''1,2'']"
  using params_edit [of "[(''a'', ''1''), (''a'', ''2''), (''b'', ''3'')]" "''a''"]
  by (simp add: mm_sorted_def join_values_def)

text \<open>
  C39. Printing and scanning are inverse: the text of a set of parameters, in either of its two
  encodings, scans back to the same entries in the same order, in either mode of the scanner and
  whatever the parameters held before; the printed text fits the size computed for it.
\<close>

theorem params_print_scan:
  assumes "mm_sorted m" "set ''%&+='' \<inter> set safe = {}"
  shows "Scan (Print m) form m' = m \<and> Scan (QuotedPrint safe m) form m' = m \<and> length (Print m) \<le> PrintSize m"
  using Scan_join [OF assms(1), of CGIEscape] Scan_join [OF assms(1), of "\<lambda>s. Quote s safe"]
    decodable_Quote [OF assms(2)] length_Print [of m]
  by (auto simp: Print_join QuotedPrint_join decodable_CGIEscape)

theorem params_print_scan_witness:
  "Scan (Print [(''a b'', ''1&2'')]) True [] = [(''a b'', ''1&2'')]"
  using params_print_scan [of "[(''a b'', ''1&2'')]" "''/''" True "[]"] by (simp add: mm_sorted_def)

text \<open>
  The read-only variant holds the entries the scanner of the editable one finds, and the decoded
  names and values with their terminating zeros never outgrow the buffer it allocates.
\<close>

theorem quick_params_fit:
  "fst (TQuickCgiParam s) = params_of_string s \<and> snd (TQuickCgiParam s) \<le> CgiUnescapeBufLen (length s)"
proof -
  obtain m used where q: "TQuickCgiParam s = (m, used)"
    by fastforce
  from quick_params_fold [OF this [unfolded TQuickCgiParam_def]]
    ScanKeyValue_size [of "CHR ''&''" "CHR ''=''" s]
  show ?thesis
    by (simp add: q params_of_string_def Scan_def ScanAdd_def Flush_def CgiUnescapeBufLen_def)
qed

end
