(* ===== verification/OperationId.thy ===== *)
theory OperationId
  imports IntCast Cgi
begin

text \<open>
  Operation and session identifiers, \<^verbatim>\<open>library/operation_id/operation_id.cpp\<close>: texts such as
  \<^verbatim>\<open>ydb://session/3?node_id=2&id=Z\<close>. The URI library, whose state
  machines are generated when the SDK is built, is an argument of the functions that call it:
  \<open>uri_parse\<close> stands for \<^verbatim>\<open>TUri::Parse\<close> followed by printing the path and the query (\<open>None\<close> when
  the parse fails), \<open>reencode\<close> for \<^verbatim>\<open>TUri::ReEncode\<close>. Exceptions and aborts are the left values of
  \<open>op_error\<close>.
\<close>

section \<open>Data\<close>

datatype op_error = OpException | OpAbort

type_synonym EKind = int

definition UNUSED :: EKind where "UNUSED = 0"
definition OPERATION_DDL :: EKind where "OPERATION_DDL = 1"
definition OPERATION_DML :: EKind where "OPERATION_DML = 2"
definition SESSION_YQL :: EKind where "SESSION_YQL = 3"
definition PREPARED_QUERY_ID :: EKind where "PREPARED_QUERY_ID = 4"
definition CMS_REQUEST :: EKind where "CMS_REQUEST = 5"
definition EXPORT :: EKind where "EXPORT = 6"
definition BUILD_INDEX :: EKind where "BUILD_INDEX = 7"
definition IMPORT :: EKind where "IMPORT = 8"
definition SCRIPT_EXECUTION :: EKind where "SCRIPT_EXECUTION = 9"
definition SS_BG_TASKS :: EKind where "SS_BG_TASKS = 10"
definition INCREMENTAL_BACKUP :: EKind where "INCREMENTAL_BACKUP = 11"
definition RESTORE :: EKind where "RESTORE = 12"
definition COMPACTION :: EKind where "COMPACTION = 13"
definition FULL_BACKUP :: EKind where "FULL_BACKUP = 14"
definition ANALYZE :: EKind where "ANALYZE = 15"
definition SET_NOT_NULL :: EKind where "SET_NOT_NULL = 16"

lemmas kind_defs = UNUSED_def OPERATION_DDL_def OPERATION_DML_def SESSION_YQL_def PREPARED_QUERY_ID_def
  CMS_REQUEST_def EXPORT_def BUILD_INDEX_def IMPORT_def SCRIPT_EXECUTION_def SS_BG_TASKS_def
  INCREMENTAL_BACKUP_def RESTORE_def COMPACTION_def FULL_BACKUP_def ANALYZE_def SET_NOT_NULL_def

text \<open>\<^verbatim>\<open>EKind_IsValid\<close>: the numbers of the enumeration.\<close>

definition EKind_IsValid :: "EKind \<Rightarrow> bool" where
  "EKind_IsValid k \<longleftrightarrow> 0 \<le> k \<and> k \<le> 16"

record op_proto =
  Kind :: EKind
  Data :: "(string \<times> string) list"

text \<open>The index maps a key to pointers to values of the message: their positions.\<close>

record TOperationId =
  Proto :: op_proto
  Index :: "(string, nat list) amap"

section \<open>Prepared query identifiers\<close>

definition QueryIdPrefix :: string where
  "QueryIdPrefix = ''ydb://preparedqueryid/4?id=''"

definition FormatPreparedQueryIdCompat :: "string \<Rightarrow> string" where
  "FormatPreparedQueryIdCompat s = QueryIdPrefix @ s"

text \<open>The output parameter is only written when the result is true.\<close>

definition DecodePreparedQueryIdCompat :: "string \<Rightarrow> op_error + string option" where
  "DecodePreparedQueryIdCompat s =
     (if length s \<le> length QueryIdPrefix then Inl OpException
      else if take (length QueryIdPrefix) s = QueryIdPrefix
      then Inr (Some (drop (length QueryIdPrefix) s))
      else Inr None)"

section \<open>Formatting\<close>

definition kind_prefix :: "EKind \<Rightarrow> string option" where
  "kind_prefix k =
     (if k = UNUSED then Some []
      else if k = OPERATION_DDL \<or> k = OPERATION_DML then Some ''ydb://operation''
      else if k = SESSION_YQL then Some ''ydb://session''
      else if k = PREPARED_QUERY_ID then Some ''ydb://preparedqueryid''
      else if k = CMS_REQUEST then Some ''ydb://cmsrequest''
      else if k = EXPORT then Some ''ydb://export''
      else if k = IMPORT then Some ''ydb://import''
      else if k = BUILD_INDEX then Some ''ydb://buildindex''
      else if k = SCRIPT_EXECUTION then Some ''ydb://scriptexec''
      else if k = INCREMENTAL_BACKUP then Some ''ydb://incbackup''
      else if k = RESTORE then Some ''ydb://restore''
      else if k = COMPACTION then Some ''ydb://compaction''
      else if k = FULL_BACKUP then Some ''ydb://fullbackup''
      else if k = ANALYZE then Some ''ydb://analyze''
      else if k = SET_NOT_NULL then Some ''ydb://setnotnull''
      else None)"

fun join_data :: "(string \<Rightarrow> string) \<Rightarrow> (string \<times> string) list \<Rightarrow> string" where
  "join_data reencode [] = []"
| "join_data reencode [(k, v)] = reencode k @ ''='' @ reencode v"
| "join_data reencode ((k, v) # rest) = reencode k @ ''='' @ reencode v @ ''&'' @ join_data reencode rest"

text \<open>Fields that have their default value are not listed by the reflection.\<close>

definition ProtoToString :: "(string \<Rightarrow> string) \<Rightarrow> op_proto \<Rightarrow> op_error + string" where
  "ProtoToString reencode proto =
     (case kind_prefix (Kind proto) of
        None \<Rightarrow> Inl OpAbort
      | Some res \<Rightarrow>
          Inr (res @ (if Kind proto \<noteq> 0 then ''/'' @ show_int (Kind proto) else []) @
               (if Data proto \<noteq> [] then ''?'' @ join_data reencode (Data proto) else [])))"

section \<open>The class\<close>

definition push_index :: "string \<Rightarrow> nat \<Rightarrow> (string, nat list) amap \<Rightarrow> (string, nat list) amap" where
  "push_index key pos idx =
     AList.update key ((case lookup idx key of None \<Rightarrow> [] | Some ps \<Rightarrow> ps) @ [pos]) idx"

definition AddOptionalValue :: "string \<Rightarrow> string \<Rightarrow> TOperationId \<Rightarrow> TOperationId" where
  "AddOptionalValue key value op =
     (let p = (Proto op)\<lparr>Data := Data (Proto op) @ [(key, value)]\<rparr>
      in op\<lparr>Proto := p, Index := push_index key (length (Data p) - 1) (Index op)\<rparr>)"

definition empty_id :: "EKind \<Rightarrow> TOperationId" where
  "empty_id k = \<lparr>Proto = \<lparr>Kind = k, Data = []\<rparr>, Index = []\<rparr>"

definition ParseOperationId ::
  "(string \<Rightarrow> (string \<times> string) option) \<Rightarrow> string \<Rightarrow> bool \<Rightarrow> op_error + TOperationId" where
  "ParseOperationId uri_parse s allowEmpty =
     (if allowEmpty \<and> s = [] then Inr (empty_id UNUSED)
      else (case uri_parse s of
        None \<Rightarrow> Inl OpException
      | Some (path, query) \<Rightarrow>
          if path = [] \<or> hd path \<noteq> CHR ''/'' then Inl OpException
          else if tl path = [] then Inl OpException
          else (case TryFromString_int (tl path) of
              None \<Rightarrow> Inl OpException
            | Some kind \<Rightarrow>
                if \<not> EKind_IsValid kind then Inl OpException
                else if query = [] then Inr (empty_id kind)
                else Inr (foldl (\<lambda>op (k, v). AddOptionalValue k v op) (empty_id kind)
                            (params_of_string (tl query))))))"

definition BuildIndex :: "op_proto \<Rightarrow> (string, nat list) amap" where
  "BuildIndex p =
     foldl (\<lambda>idx i. push_index (fst (Data p ! i)) i idx) [] [0..<length (Data p)]"

text \<open>The copy constructor.\<close>

definition CopyOperationId :: "TOperationId \<Rightarrow> TOperationId" where
  "CopyOperationId other = \<lparr>Proto = Proto other, Index = BuildIndex (Proto other)\<rparr>"

definition SetKind :: "EKind \<Rightarrow> TOperationId \<Rightarrow> TOperationId" where
  "SetKind k op = op\<lparr>Proto := (Proto op)\<lparr>Kind := k\<rparr>\<rparr>"

definition GetValue :: "string \<Rightarrow> TOperationId \<Rightarrow> op_error + string list" where
  "GetValue key op =
     (case lookup (Index op) key of
        None \<Rightarrow> Inl OpException
      | Some ps \<Rightarrow> Inr (map (\<lambda>i. snd (Data (Proto op) ! i)) ps))"

definition GetSubKind :: "TOperationId \<Rightarrow> op_error + string" where
  "GetSubKind op =
     (case lookup (Index op) ''kind'' of
        None \<Rightarrow> Inr []
      | Some ps \<Rightarrow> if length ps \<noteq> 1 then Inl OpException else Inr (snd (Data (Proto op) ! hd ps)))"

definition ParseKind :: "string \<Rightarrow> EKind" where
  "ParseKind value =
     (if prefix ''ss/backgrounds'' value then SS_BG_TASKS
      else if prefix ''export'' value then EXPORT
      else if prefix ''import'' value then IMPORT
      else if prefix ''buildindex'' value then BUILD_INDEX
      else if prefix ''scriptexec'' value then SCRIPT_EXECUTION
      else if prefix ''incbackup'' value then INCREMENTAL_BACKUP
      else if prefix ''restore'' value then RESTORE
      else if prefix ''compaction'' value then COMPACTION
      else if prefix ''fullbackup'' value then FULL_BACKUP
      else if prefix ''analyze'' value then ANALYZE
      else if prefix ''setnotnull'' value then SET_NOT_NULL
      else UNUSED)"

section \<open>The index names the values of each key\<close>

definition values_of :: "string \<Rightarrow> op_proto \<Rightarrow> string list" where
  "values_of key p = map snd (filter (\<lambda>e. fst e = key) (Data p))"

definition positions :: "string \<Rightarrow> (string \<times> string) list \<Rightarrow> nat list" where
  "positions key d = filter (\<lambda>i. fst (d ! i) = key) [0..<length d]"

definition index_ok :: "TOperationId \<Rightarrow> bool" where
  "index_ok op \<longleftrightarrow> (\<forall>key. lookup (Index op) key =
     (case positions key (Data (Proto op)) of [] \<Rightarrow> None | ps \<Rightarrow> Some ps))"

lemma positions_Nil [simp]: "positions key [] = []"
  by (simp add: positions_def)

lemma positions_snoc:
  "positions key (d @ [e]) = positions key d @ (if fst e = key then [length d] else [])"
  by (auto simp: positions_def nth_append intro: filter_cong)

lemma map_positions: "map (\<lambda>i. snd (d ! i)) (positions key d) = map snd (filter (\<lambda>e. fst e = key) d)"
proof (induction d rule: rev_induct)
  case (snoc e d)
  have "map (\<lambda>i. snd ((d @ [e]) ! i)) (positions key d) = map (\<lambda>i. snd (d ! i)) (positions key d)"
    by (auto simp: positions_def nth_append)
  then show ?case
    using snoc by (simp add: positions_snoc)
qed simp

lemma lookup_push_index:
  "lookup (push_index key pos idx) k =
     (if k = key then Some ((case lookup idx key of None \<Rightarrow> [] | Some ps \<Rightarrow> ps) @ [pos]) else lookup idx k)"
  by (simp add: push_index_def)

lemma index_ok_empty [simp]: "index_ok (empty_id k)"
  by (simp add: index_ok_def empty_id_def)

lemma index_ok_AddOptionalValue [simp]: "index_ok op \<Longrightarrow> index_ok (AddOptionalValue key value op)"
  by (auto simp: index_ok_def AddOptionalValue_def lookup_push_index positions_snoc split: list.splits)

lemma index_ok_SetKind [simp]: "index_ok op \<Longrightarrow> index_ok (SetKind k op)"
  by (simp add: index_ok_def SetKind_def)

lemma BuildIndex_lookup:
  "lookup (BuildIndex p) key = (case positions key (Data p) of [] \<Rightarrow> None | ps \<Rightarrow> Some ps)"
proof -
  have "n \<le> length (Data p) \<Longrightarrow>
      lookup (foldl (\<lambda>idx i. push_index (fst (Data p ! i)) i idx) [] [0..<n]) key =
      (case positions key (take n (Data p)) of [] \<Rightarrow> None | ps \<Rightarrow> Some ps)" for n
  proof (induction n)
    case (Suc n)
    then show ?case
      by (auto simp: lookup_push_index take_Suc_conv_app_nth positions_snoc split: list.splits)
  qed simp
  from this [of "length (Data p)"] show ?thesis
    by (simp add: BuildIndex_def)
qed

lemma index_ok_Copy [simp]: "index_ok (CopyOperationId op)"
  by (simp add: index_ok_def CopyOperationId_def BuildIndex_lookup)

lemma GetValue_index_ok:
  assumes "index_ok op"
  shows "GetValue key op =
    (case values_of key (Proto op) of [] \<Rightarrow> Inl OpException | vs \<Rightarrow> Inr vs)"
  using assms map_positions [of "Data (Proto op)" key]
  by (auto simp: GetValue_def index_ok_def values_of_def split: list.splits)

lemma Proto_AddOptionalValue [simp]:
  "Kind (Proto (AddOptionalValue k v op)) = Kind (Proto op)"
  "Data (Proto (AddOptionalValue k v op)) = Data (Proto op) @ [(k, v)]"
  by (simp_all add: AddOptionalValue_def)

lemma foldl_AddOptionalValue:
  assumes "index_ok op" "op' = foldl (\<lambda>op (k, v). AddOptionalValue k v op) op ps"
  shows "index_ok op' \<and> Kind (Proto op') = Kind (Proto op) \<and> Data (Proto op') = Data (Proto op) @ ps"
  using assms by (induction ps arbitrary: op) auto

lemma ParseOperationId_index_ok: "ParseOperationId up s e = Inr op \<Longrightarrow> index_ok op"
  using foldl_AddOptionalValue [OF index_ok_empty refl]
  by (auto simp: ParseOperationId_def split: if_splits option.splits prod.splits)

section \<open>Query parameters\<close>

lemma params_of_list_snoc: "params_of_list (ps @ [(k, v)]) = mm_insert k v (params_of_list ps)"
  by (simp add: params_of_list_def)

lemma params_of_list_sorted: "mm_sorted (params_of_list ps)"
  by (induction ps rule: rev_induct) (auto simp: params_of_list_snoc, simp add: params_of_list_def)

lemma mm_range_params_of_list: "mm_range key (params_of_list ps) = mm_range key ps"
proof (induction ps rule: rev_induct)
  case (snoc e ps)
  then show ?case
    by (cases e) (simp add: params_of_list_snoc mm_range_insert params_of_list_sorted, simp add: mm_range_def)
qed (simp add: params_of_list_def)

lemma join_data_join_with: "join_data f d = join_with f d"
  by (induction f d rule: join_data.induct) auto

lemma params_of_string_join:
  assumes "\<forall>(k, v) \<in> set m. decodable f k \<and> decodable f v"
  shows "params_of_string (join_with f m) = params_of_list m"
proof -
  have "foldl (\<lambda>m (key, val). InsertEscaped key val m) acc (map (\<lambda>(k, v). (f k, f v)) xs) =
      foldl (\<lambda>m (k, v). mm_insert k v m) acc xs" if "set xs \<subseteq> set m" for acc xs
    using that assms
    by (induction xs arbitrary: acc) (auto simp: InsertEscaped_def InsertUnescaped_def decodable_def)
  moreover have "ScanKeyValue False (CHR ''&'') (CHR ''='') (join_with f m) = map (\<lambda>(k, v). (f k, f v)) m"
    using assms by (intro ScanKeyValue_join) (auto simp: decodable_def)
  ultimately show ?thesis
    by (simp add: params_of_string_def Scan_def ScanAdd_def Flush_def params_of_list_def)
qed

lemma values_of_mm_range: "values_of key p = mm_range key (Data p)"
  by (simp add: values_of_def mm_range_def)

section \<open>Properties\<close>

lemma show_int_digits:
  assumes "0 \<le> k" "k \<le> 16"
  shows "show_int k \<noteq> []" "TryFromString_int (show_int k) = Some k"
proof -
  have s: "sint (word_of_int k :: 64 word) = k" and u: "unat (word_of_int k :: 64 word) = nat k"
    using assms by (simp_all add: sint_word_of_int_64 unat_word_of_int_64)
  obtain t where t: "ConvertUnsigned (word_of_int k) 21 = Some t" "t \<noteq> []"
      "digits_value 0 t = Some (nat k)"
    using ConvertUnsigned_value [of 21 "word_of_int k"] u by auto
  have sh: "show_int k = t"
    using t s assms by (simp add: show_int_def ToString_i64_def Convert_i64_def bufferSize_eq)
  show "show_int k \<noteq> []" "TryFromString_int (show_int k) = Some k"
    using t assms sint_of_nat_64 [of "nat k"] IntParse_digits [of t "nat k" iSBounds True]
    unfolding sh by (simp_all add: TryFromString_int_def parse_ok_def iSBounds_def)
qed

text \<open>
  The index of an identifier that was parsed and then extended names, for every key, exactly the
  values the message holds under that key, in their order: \<open>GetValue\<close> returns them and throws when
  there is none, and a copy, whose index is rebuilt from the message, answers every key alike.
\<close>

theorem operation_id_values:
  assumes "ParseOperationId uri_parse s allowEmpty = Inr op"
    and "op' = foldl (\<lambda>op (k, v). AddOptionalValue k v op) op extra"
  shows "GetValue key op' =
      (case values_of key (Proto op) @ mm_range key extra of [] \<Rightarrow> Inl OpException | vs \<Rightarrow> Inr vs)
    \<and> GetValue key (CopyOperationId op') = GetValue key op'"
proof -
  have ok: "index_ok op'" and d: "Data (Proto op') = Data (Proto op) @ extra"
    using foldl_AddOptionalValue [OF ParseOperationId_index_ok [OF assms(1)] assms(2)] by auto
  have "values_of key (Proto op') = values_of key (Proto op) @ mm_range key extra"
    by (simp add: values_of_def mm_range_def d)
  moreover have "Proto (CopyOperationId op') = Proto op'"
    by (simp add: CopyOperationId_def)
  ultimately show ?thesis
    using GetValue_index_ok [OF ok] GetValue_index_ok [OF index_ok_Copy, of key op'] by simp
qed

theorem operation_id_values_witness:
  "GetValue ''id'' (AddOptionalValue ''id'' ''z'' (empty_id 3)) = Inr [''z'']"
proof -
  have p: "ParseOperationId (\<lambda>_. Some (''/3'', [])) ''ydb://session/3'' False = Inr (empty_id 3)"
    using IntParse_digits [of "''3''" 3 iSBounds True]
    by (simp add: ParseOperationId_def EKind_IsValid_def TryFromString_int_def parse_ok_def iSBounds_def digit_of_def)
  show ?thesis
    using operation_id_values [OF p, of "AddOptionalValue ''id'' ''z'' (empty_id 3)" "[(''id'', ''z'')]" "''id''"]
    by (simp add: empty_id_def values_of_def mm_range_def)
qed



text \<open>
  A prepared query identifier decodes to the query it was made of, unless that query is empty:
  the decoder refuses a text that is not longer than the prefix.
\<close>

theorem prepared_query_roundtrip:
  "DecodePreparedQueryIdCompat (FormatPreparedQueryIdCompat s) =
     (if s = [] then Inl OpException else Inr (Some s))"
  by (simp add: DecodePreparedQueryIdCompat_def FormatPreparedQueryIdCompat_def)

text \<open>
  The kinds of which an identifier cannot be printed are exactly the background tasks among the
  valid ones, although the parser of kinds returns that one: printing it aborts.
\<close>

theorem printable_kinds:
  "(ProtoToString reencode p = Inl OpAbort \<longleftrightarrow> (if EKind_IsValid (Kind p) then Kind p = SS_BG_TASKS else True))
    \<and> ParseKind (''ss/backgrounds'' @ s) = SS_BG_TASKS"
proof -
  have "ProtoToString reencode p = Inl OpAbort \<longleftrightarrow> kind_prefix (Kind p) = None"
    by (simp add: ProtoToString_def split: option.splits)
  also have "\<dots> \<longleftrightarrow> (if EKind_IsValid (Kind p) then Kind p = SS_BG_TASKS else True)"
    unfolding kind_prefix_def kind_defs EKind_IsValid_def by (simp split: if_splits) arith
  finally show ?thesis
    by (simp add: ParseKind_def)
qed

end
