(* ===== verification/Endpoints.thy ===== *)
theory Endpoints
  imports Prelude "HOL-Library.Word"
begin

text \<open>
  The endpoint elector of \<^verbatim>\<open>src/client/impl/endpoints/endpoints.{h,cpp}\<close>: the list of
  endpoints a discovery returned, kept ordered by priority, the two indexes over it
  (by endpoint and by node id), pessimization of endpoints and nodes, and the
  registries that link session objects to the node they live on.

  The mutex of the class makes each method atomic, so every method is one function on
  the state. \<^verbatim>\<open>std::sort\<close> and \<^verbatim>\<open>RandomNumber\<close> are arguments. Registries are heap
  objects shared by pointer: they live in a store and are named by their address.
\<close>

section \<open>Data\<close>

record TEndpointRecord =
  Endpoint :: string
  Priority :: int
  SslTargetNameOverride :: string
  NodeId :: "64 word"
  Location :: string

definition empty_record :: TEndpointRecord where
  "empty_record = \<lparr>Endpoint = [], Priority = 0, SslTargetNameOverride = [], NodeId = 0, Location = []\<rparr>"

record TEndpointKey =
  KeyEndpoint :: string
  KeyNodeId :: "64 word"

text \<open>
  \<open>TObjRegistry\<close>: \<^verbatim>\<open>std::set<TEndpointObj*>\<close> is the list of addresses in pointer order.
  \<open>obj_heap\<close> holds the registries by address and the member \<open>ObjRegistry\<close> of every
  \<^verbatim>\<open>TEndpointObj\<close> (no entry for the null pointer).
\<close>

record TObjRegistry =
  Objs :: "nat list"
  RegNodeId :: "64 word"

record obj_heap =
  Registries :: "TObjRegistry list"
  ObjRegistry :: "(nat, nat) amap"

record TKnownEndpoint =
  Record :: TEndpointRecord
  TaggedObjs :: "(nat, nat) amap"

text \<open>A gauge is \<open>None\<close> until \<open>SetStatCollector\<close> installs one.\<close>

record TEndpointElectorSafe =
  Records :: "TEndpointRecord list"
  KnownEndpoints :: "(string, TEndpointRecord) amap"
  KnownEndpointsByNodeId :: "(64 word, TKnownEndpoint) amap"
  BestK :: int
  PessimizationRatio :: int
  EndpointCountGauge :: "int option"
  PessimizationRatioGauge :: "int option"
  EndpointActiveGauge :: "int option"

definition init_elector :: TEndpointElectorSafe where
  "init_elector = \<lparr>Records = [], KnownEndpoints = [], KnownEndpointsByNodeId = [], BestK = -1,
     PessimizationRatio = 0, EndpointCountGauge = None, PessimizationRatioGauge = None,
     EndpointActiveGauge = None\<rparr>"

definition SetValue :: "int \<Rightarrow> int option \<Rightarrow> int option" where
  "SetValue v g = map_option (\<lambda>_. v) g"

definition Dec :: "int option \<Rightarrow> int option" where
  "Dec g = map_option (\<lambda>v. v - 1) g"

section \<open>The object registry\<close>

definition Add :: "nat \<Rightarrow> TObjRegistry \<Rightarrow> bool \<times> TObjRegistry" where
  "Add obj reg = (if obj \<in> set (Objs reg) then (False, reg)
                  else (True, reg\<lparr>Objs := insort obj (Objs reg)\<rparr>))"

definition Remove :: "nat \<Rightarrow> TObjRegistry \<Rightarrow> TObjRegistry option" where
  "Remove obj reg = (if obj \<in> set (Objs reg) then Some (reg\<lparr>Objs := remove1 obj (Objs reg)\<rparr>)
                     else None)"

definition Size :: "TObjRegistry \<Rightarrow> nat" where
  "Size reg = length (Objs reg)"

text \<open>The objects whose \<^verbatim>\<open>OnEndpointRemoved\<close> is called, in order.\<close>

definition NotifyEndpointRemoved :: "TObjRegistry \<Rightarrow> nat list" where
  "NotifyEndpointRemoved reg = Objs reg"

definition remove_from :: "nat \<Rightarrow> nat \<Rightarrow> obj_heap \<Rightarrow> obj_heap option" where
  "remove_from obj addr h =
     (if addr < length (Registries h)
      then map_option (\<lambda>reg. h\<lparr>Registries := (Registries h)[addr := reg]\<rparr>)
             (Remove obj (Registries h ! addr))
      else None)"

definition Unlink :: "nat \<Rightarrow> obj_heap \<Rightarrow> obj_heap option" where
  "Unlink obj h =
     do { h' \<leftarrow> (case lookup (ObjRegistry h) obj of None \<Rightarrow> Some h | Some addr \<Rightarrow> remove_from obj addr h);
          Some (h'\<lparr>ObjRegistry := AList.delete obj (ObjRegistry h')\<rparr>) }"

definition Link :: "nat \<Rightarrow> nat \<Rightarrow> obj_heap \<Rightarrow> (bool \<times> obj_heap) option" where
  "Link obj addr h =
     (if addr < length (Registries h) then
        (case Add obj (Registries h ! addr) of
           (True, reg) \<Rightarrow>
             (let h1 = h\<lparr>Registries := (Registries h)[addr := reg]\<rparr> in
              do { h2 \<leftarrow> (case lookup (ObjRegistry h1) obj of None \<Rightarrow> Some h1
                         | Some old \<Rightarrow> remove_from obj old h1);
                   Some (True, h2\<lparr>ObjRegistry := AList.update obj addr (ObjRegistry h2)\<rparr>) })
         | (False, _) \<Rightarrow> Some (False, h))
      else None)"

definition ObjectRegistred :: "nat \<Rightarrow> obj_heap \<Rightarrow> bool" where
  "ObjectRegistred obj h \<longleftrightarrow> lookup (ObjRegistry h) obj \<noteq> None"

definition ObjectCount :: "nat \<Rightarrow> obj_heap \<Rightarrow> nat option" where
  "ObjectCount obj h =
     do { addr \<leftarrow> lookup (ObjRegistry h) obj;
          if addr < length (Registries h) then Some (Size (Registries h ! addr)) else None }"

section \<open>The elector\<close>

definition PessimizedPriority :: int where
  "PessimizedPriority = 2 ^ 31 - 1"

function GetBestK_loop :: "TEndpointRecord list \<Rightarrow> int \<Rightarrow> nat \<Rightarrow> nat" where
  "GetBestK_loop records bestPriority pos =
     (if pos < length records then
        if Priority (records ! pos) \<noteq> bestPriority then pos
        else GetBestK_loop records bestPriority (pos + 1)
      else pos)"
  by pat_completeness auto
termination
  by (relation "measure (\<lambda>(records, _, pos). length records - pos)") auto

declare GetBestK_loop.simps [simp del]

definition GetBestK :: "TEndpointRecord list \<Rightarrow> int" where
  "GetBestK records =
     (if records = [] then -1
      else signed_take_bit 31 (int (GetBestK_loop records (Priority (records ! 0)) 1) - 1))"

fun uniq_records :: "string list \<Rightarrow> TEndpointRecord list \<Rightarrow> TEndpointRecord list
    \<Rightarrow> string list \<times> TEndpointRecord list" where
  "uniq_records index uniqRec [] = (index, uniqRec)"
| "uniq_records index uniqRec (record # records) =
     (if Endpoint record \<in> set index then uniq_records index uniqRec records
      else uniq_records (Endpoint record # index) (uniqRec @ [record]) records)"

type_synonym removal = "string list \<times> nat list \<times> (string, TEndpointRecord) amap
    \<times> (64 word, TKnownEndpoint) amap"

fun remove_missing :: "string list \<Rightarrow> TEndpointRecord list \<Rightarrow> removal \<Rightarrow> removal option" where
  "remove_missing index [] st = Some st"
| "remove_missing index (record # records) (removed, notifyRemoved, known, byNode) =
     (if Endpoint record \<notin> set index then
        (case lookup known (Endpoint record) of
           None \<Rightarrow> None
         | Some _ \<Rightarrow>
            (case lookup byNode (NodeId record) of
               Some node \<Rightarrow>
                 remove_missing index records
                   (removed @ [Endpoint record], notifyRemoved @ map snd (TaggedObjs node),
                    AList.delete (Endpoint record) known, AList.delete (NodeId record) byNode)
             | None \<Rightarrow>
                 remove_missing index records
                   (removed @ [Endpoint record], notifyRemoved,
                    AList.delete (Endpoint record) known, byNode)))
      else remove_missing index records (removed, notifyRemoved, known, byNode))"

definition set_node_record ::
  "TEndpointRecord \<Rightarrow> (64 word, TKnownEndpoint) amap \<Rightarrow> (64 word, TKnownEndpoint) amap" where
  "set_node_record record byNode =
     AList.update (NodeId record)
       (case lookup byNode (NodeId record) of
          None \<Rightarrow> \<lparr>Record = record, TaggedObjs = []\<rparr>
        | Some node \<Rightarrow> node\<lparr>Record := record\<rparr>) byNode"

fun add_records :: "TEndpointRecord list \<Rightarrow> (string, TEndpointRecord) amap
    \<Rightarrow> (64 word, TKnownEndpoint) amap
    \<Rightarrow> (string, TEndpointRecord) amap \<times> (64 word, TKnownEndpoint) amap" where
  "add_records [] known byNode = (known, byNode)"
| "add_records (record # records) known byNode =
     add_records records (AList.update (Endpoint record) record known) (set_node_record record byNode)"

text \<open>
  Returns the removed endpoints, the addresses of the registries to notify and the new
  state; \<open>None\<close> where one of the two \<^verbatim>\<open>Y_ABORT_UNLESS\<close> checks fails.
\<close>

definition SetNewState :: "(TEndpointRecord list \<Rightarrow> TEndpointRecord list) \<Rightarrow> TEndpointRecord list
    \<Rightarrow> TEndpointElectorSafe \<Rightarrow> (string list \<times> nat list \<times> TEndpointElectorSafe) option" where
  "SetNewState srt records s =
     (let (index, uniqRec0) = uniq_records [] [] records;
          uniqRec = srt uniqRec0;
          bestK = GetBestK uniqRec
      in do {
        (removed, notifyRemoved, known, byNode) \<leftarrow>
          remove_missing index (Records s) ([], [], KnownEndpoints s, KnownEndpointsByNodeId s);
        let (known', byNode') = add_records uniqRec known byNode;
        if length uniqRec = length known' then
          Some (removed, notifyRemoved,
            s\<lparr>Records := uniqRec, KnownEndpoints := known', KnownEndpointsByNodeId := byNode',
              EndpointCountGauge := SetValue (int (length uniqRec)) (EndpointCountGauge s),
              EndpointActiveGauge := SetValue (int (length uniqRec)) (EndpointActiveGauge s),
              BestK := bestK, PessimizationRatio := 0,
              PessimizationRatioGauge := SetValue 0 (PessimizationRatioGauge s)\<rparr>)
        else None })"

text \<open>The notifications \<open>SetNewState\<close> sends, registry by registry.\<close>

definition notified :: "nat list \<Rightarrow> obj_heap \<Rightarrow> nat list" where
  "notified addrs h = concat (map (\<lambda>a. NotifyEndpointRemoved (Registries h ! a)) addrs)"

text \<open>\<open>None\<close> is a read past the end of \<open>Records\<close>.\<close>

definition GetEndpoint :: "(nat \<Rightarrow> nat) \<Rightarrow> TEndpointKey \<Rightarrow> bool \<Rightarrow> TEndpointElectorSafe
    \<Rightarrow> TEndpointRecord option" where
  "GetEndpoint RandomNumber preferredEndpoint onlyPreferred s =
     (case (if KeyNodeId preferredEndpoint \<noteq> 0
            then lookup (KnownEndpointsByNodeId s) (KeyNodeId preferredEndpoint) else None) of
        Some node \<Rightarrow> Some (Record node)
      | None \<Rightarrow>
         (case (if KeyEndpoint preferredEndpoint \<noteq> []
                then lookup (KnownEndpoints s) (KeyEndpoint preferredEndpoint) else None) of
            Some record \<Rightarrow> Some record
          | None \<Rightarrow>
             if onlyPreferred then Some empty_record
             else if BestK s = -1 then Some empty_record
             else let idx = RandomNumber (nat (BestK s + 1)) in
                  if idx < length (Records s) then Some (Records s ! idx) else None))"

fun pessimize_first :: "string \<Rightarrow> TEndpointRecord list \<Rightarrow> (64 word \<times> TEndpointRecord list) option" where
  "pessimize_first endpoint [] = None"
| "pessimize_first endpoint (r # rs) =
     (if Endpoint r = endpoint \<and> Priority r \<noteq> PessimizedPriority
      then Some (NodeId r, r\<lparr>Priority := PessimizedPriority\<rparr> # rs)
      else map_option (apsnd (Cons r)) (pessimize_first endpoint rs))"

definition new_ratio :: "int \<Rightarrow> nat \<Rightarrow> int" where
  "new_ratio pessimizationRatio n =
     signed_take_bit 31 (take_bit 64 (take_bit 64 pessimizationRatio * int n + 100) div int n)"

definition PessimizeEndpointUnlocked ::
  "string \<Rightarrow> TEndpointElectorSafe \<Rightarrow> bool \<times> TEndpointElectorSafe" where
  "PessimizeEndpointUnlocked endpoint s =
     (case pessimize_first endpoint (Records s) of
        None \<Rightarrow> (False, s)
      | Some (nodeId, records) \<Rightarrow>
         (let known = (case lookup (KnownEndpoints s) endpoint of
                         None \<Rightarrow> KnownEndpoints s
                       | Some r \<Rightarrow> AList.update endpoint (r\<lparr>Priority := PessimizedPriority\<rparr>) (KnownEndpoints s));
              byNode = (case lookup (KnownEndpointsByNodeId s) nodeId of
                          None \<Rightarrow> KnownEndpointsByNodeId s
                        | Some node \<Rightarrow>
                           if Endpoint (Record node) = endpoint
                           then AList.update nodeId (node\<lparr>Record := (Record node)\<lparr>Priority := PessimizedPriority\<rparr>\<rparr>)
                                  (KnownEndpointsByNodeId s)
                           else KnownEndpointsByNodeId s);
              newRatio = new_ratio (PessimizationRatio s) (length records)
          in (True, s\<lparr>Records := records, KnownEndpoints := known, KnownEndpointsByNodeId := byNode,
                      PessimizationRatio := newRatio,
                      PessimizationRatioGauge := SetValue newRatio (PessimizationRatioGauge s),
                      EndpointActiveGauge := Dec (EndpointActiveGauge s)\<rparr>)))"

definition resort :: "(TEndpointRecord list \<Rightarrow> TEndpointRecord list) \<Rightarrow> TEndpointElectorSafe
    \<Rightarrow> TEndpointElectorSafe" where
  "resort srt s = (let records = srt (Records s) in s\<lparr>Records := records, BestK := GetBestK records\<rparr>)"

definition PessimizeEndpoint :: "(TEndpointRecord list \<Rightarrow> TEndpointRecord list) \<Rightarrow> string
    \<Rightarrow> TEndpointElectorSafe \<Rightarrow> TEndpointElectorSafe" where
  "PessimizeEndpoint srt endpoint s =
     (let (changed, s') = PessimizeEndpointUnlocked endpoint s in
      if changed then resort srt s' else s')"

text \<open>The lazy filter view is read position by position while the loop body updates priorities.\<close>

fun PessimizeNode_loop :: "64 word \<Rightarrow> nat list \<Rightarrow> bool \<Rightarrow> TEndpointElectorSafe
    \<Rightarrow> bool \<times> TEndpointElectorSafe" where
  "PessimizeNode_loop nodeId [] changed s = (changed, s)"
| "PessimizeNode_loop nodeId (i # is) changed s =
     (let r = Records s ! i in
      if NodeId r = nodeId \<and> Priority r \<noteq> PessimizedPriority then
        (let (c, s') = PessimizeEndpointUnlocked (Endpoint r) s in
         PessimizeNode_loop nodeId is (changed \<or> c) s')
      else PessimizeNode_loop nodeId is changed s)"

definition PessimizeNode :: "(TEndpointRecord list \<Rightarrow> TEndpointRecord list) \<Rightarrow> 64 word
    \<Rightarrow> TEndpointElectorSafe \<Rightarrow> TEndpointElectorSafe" where
  "PessimizeNode srt nodeId s =
     (if nodeId = 0 then s
      else let (changed, s') = PessimizeNode_loop nodeId [0..<length (Records s)] False s in
           if changed then resort srt s' else s')"

definition GetPessimizationRatio :: "TEndpointElectorSafe \<Rightarrow> int" where
  "GetPessimizationRatio s = PessimizationRatio s"

definition SetStatCollector :: "int option \<Rightarrow> int option \<Rightarrow> int option \<Rightarrow> TEndpointElectorSafe
    \<Rightarrow> TEndpointElectorSafe" where
  "SetStatCollector endpointCount pessimizationRatio endpointActive s =
     s\<lparr>EndpointCountGauge := endpointCount, PessimizationRatioGauge := pessimizationRatio,
       EndpointActiveGauge := endpointActive\<rparr>"

definition LinkObjToEndpoint :: "TEndpointKey \<Rightarrow> nat \<Rightarrow> nat \<Rightarrow> TEndpointElectorSafe \<Rightarrow> obj_heap
    \<Rightarrow> (bool \<times> TEndpointElectorSafe \<times> obj_heap) option" where
  "LinkObjToEndpoint endpoint obj tag s h =
     (case lookup (KnownEndpointsByNodeId s) (KeyNodeId endpoint) of
        None \<Rightarrow> Some (False, s, h)
      | Some node \<Rightarrow>
         (let (addr, s', h') =
            (case lookup (TaggedObjs node) tag of
               Some a \<Rightarrow> (a, s, h)
             | None \<Rightarrow>
                (let a = length (Registries h) in
                 (a, s\<lparr>KnownEndpointsByNodeId := AList.update (KeyNodeId endpoint)
                         (node\<lparr>TaggedObjs := AList.update tag a (TaggedObjs node)\<rparr>)
                         (KnownEndpointsByNodeId s)\<rparr>,
                  h\<lparr>Registries := Registries h @ [\<lparr>Objs = [], RegNodeId = KeyNodeId endpoint\<rparr>]\<rparr>)))
          in do { (ok, h'') \<leftarrow> Link obj addr h'; Some (ok, s', h'') }))"

text \<open>The callbacks of \<open>ForEachEndpoint\<close>: node id and size of the handle; \<open>None\<close> where \<^verbatim>\<open>at\<close> throws.\<close>

fun for_each :: "int \<Rightarrow> nat \<Rightarrow> (64 word, TKnownEndpoint) amap \<Rightarrow> obj_heap \<Rightarrow> TEndpointRecord list
    \<Rightarrow> (64 word \<times> nat) list option" where
  "for_each maxPriority tag byNode h [] = Some []"
| "for_each maxPriority tag byNode h (r # rs) =
     (if Priority r > maxPriority then Some []
      else case lookup byNode (NodeId r) of
             None \<Rightarrow> None
           | Some node \<Rightarrow>
              (let sz = (case lookup (TaggedObjs node) tag of
                             None \<Rightarrow> 0
                           | Some a \<Rightarrow> Size (Registries h ! a))
               in do { cbs \<leftarrow> for_each maxPriority tag byNode h rs; Some ((NodeId r, sz) # cbs) }))"

definition ForEachEndpoint :: "int \<Rightarrow> int \<Rightarrow> nat \<Rightarrow> TEndpointElectorSafe \<Rightarrow> obj_heap
    \<Rightarrow> (64 word \<times> nat) list option" where
  "ForEachEndpoint minPriority maxPriority tag s h =
     for_each maxPriority tag (KnownEndpointsByNodeId s) h
       (dropWhile (\<lambda>r. Priority r < minPriority) (Records s))"

section \<open>Invariants\<close>

abbreviation pessimized :: "TEndpointRecord \<Rightarrow> bool" where
  "pessimized r \<equiv> Priority r = PessimizedPriority"

abbreviation by_endpoint :: "TEndpointRecord list \<Rightarrow> (string, TEndpointRecord) amap" where
  "by_endpoint rs \<equiv> map (\<lambda>r. (Endpoint r, r)) rs"

text \<open>
  The records are distinct by endpoint and ordered by priority, \<open>BestK\<close> is the index of the
  last record of the best priority, \<open>KnownEndpoints\<close> is exactly the index of the records by
  endpoint, and every record's node is known. The ratio is a number of pessimized
  records times the share of one record, rounded down.
\<close>

definition records_inv :: "TEndpointRecord list \<Rightarrow> bool" where
  "records_inv rs \<longleftrightarrow> distinct (map Endpoint rs) \<and> length rs < 2 ^ 31 \<and>
     (\<forall>r \<in> set rs. Priority r \<le> PessimizedPriority)"

definition index_inv :: "TEndpointElectorSafe \<Rightarrow> bool" where
  "index_inv s \<longleftrightarrow> wf_amap (KnownEndpoints s) \<and> lookup (KnownEndpoints s) = lookup (by_endpoint (Records s)) \<and>
     wf_amap (KnownEndpointsByNodeId s) \<and>
     (\<forall>r \<in> set (Records s). lookup (KnownEndpointsByNodeId s) (NodeId r) \<noteq> None)"

definition order_inv :: "TEndpointElectorSafe \<Rightarrow> bool" where
  "order_inv s \<longleftrightarrow> sorted (map Priority (Records s)) \<and> BestK s = GetBestK (Records s)"

definition ratio_inv :: "TEndpointElectorSafe \<Rightarrow> bool" where
  "ratio_inv s \<longleftrightarrow> (\<exists>p \<le> length (filter pessimized (Records s)).
     PessimizationRatio s = int (p * (100 div length (Records s))))"

definition elector_inv :: "TEndpointElectorSafe \<Rightarrow> bool" where
  "elector_inv s \<longleftrightarrow> records_inv (Records s) \<and> index_inv s \<and> order_inv s \<and> ratio_inv s"

text \<open>
  An object's registry pointer and the registries agree, and the elector only points to
  registries that exist.
\<close>

definition link_inv :: "obj_heap \<Rightarrow> bool" where
  "link_inv h \<longleftrightarrow> (\<forall>reg \<in> set (Registries h). distinct (Objs reg) \<and> sorted (Objs reg)) \<and>
     (\<forall>obj a. lookup (ObjRegistry h) obj = Some a \<longleftrightarrow>
        a < length (Registries h) \<and> obj \<in> set (Objs (Registries h ! a)))"

definition tags_inv :: "TEndpointElectorSafe \<Rightarrow> obj_heap \<Rightarrow> bool" where
  "tags_inv s h \<longleftrightarrow> (\<forall>n node tag a. lookup (KnownEndpointsByNodeId s) n = Some node \<longrightarrow>
     (tag, a) \<in> set (TaggedObjs node) \<longrightarrow> a < length (Registries h))"

section \<open>Best priority\<close>

lemma GetBestK_loop_spec:
  "pos \<le> length rs \<Longrightarrow>
   pos \<le> GetBestK_loop rs b pos \<and> GetBestK_loop rs b pos \<le> length rs \<and>
   (\<forall>i. pos \<le> i \<longrightarrow> i < GetBestK_loop rs b pos \<longrightarrow> Priority (rs ! i) = b) \<and>
   (GetBestK_loop rs b pos < length rs \<longrightarrow> Priority (rs ! GetBestK_loop rs b pos) \<noteq> b)"
proof (induction rs b pos rule: GetBestK_loop.induct)
  case (1 rs b pos)
  show ?case
  proof (cases "pos < length rs \<and> Priority (rs ! pos) = b")
    case True
    with "1.IH" have "Suc pos \<le> GetBestK_loop rs b (Suc pos) \<and> GetBestK_loop rs b (Suc pos) \<le> length rs \<and>
       (\<forall>i. Suc pos \<le> i \<longrightarrow> i < GetBestK_loop rs b (Suc pos) \<longrightarrow> Priority (rs ! i) = b) \<and>
       (GetBestK_loop rs b (Suc pos) < length rs \<longrightarrow> Priority (rs ! GetBestK_loop rs b (Suc pos)) \<noteq> b)"
      by simp
    moreover have "GetBestK_loop rs b pos = GetBestK_loop rs b (Suc pos)"
      using True by (simp add: GetBestK_loop.simps [of rs b pos])
    moreover have "pos \<le> i \<longleftrightarrow> i = pos \<or> Suc pos \<le> i" for i
      by auto
    ultimately show ?thesis
      using True by auto
  next
    case False
    then have "GetBestK_loop rs b pos = pos"
      by (auto simp: GetBestK_loop.simps [of rs b pos])
    with False "1.prems" show ?thesis by auto
  qed
qed

lemma signed_31_small: "0 \<le> k \<Longrightarrow> k < 2 ^ 31 \<Longrightarrow> signed_take_bit 31 k = (k::int)"
  by (rule signed_take_bit_int_eq_self) auto

lemma GetBestK_spec:
  assumes "rs \<noteq> []" "length rs < 2 ^ 31"
  obtains k where "GetBestK rs = int k" "k < length rs"
    "\<forall>i \<le> k. Priority (rs ! 0) = Priority (rs ! i)"
    "Suc k < length rs \<longrightarrow> Priority (rs ! Suc k) \<noteq> Priority (rs ! 0)"
proof -
  define p where "p = GetBestK_loop rs (Priority (rs ! 0)) 1"
  have *: "1 \<le> p \<and> p \<le> length rs \<and> (\<forall>i. 1 \<le> i \<longrightarrow> i < p \<longrightarrow> Priority (rs ! i) = Priority (rs ! 0)) \<and>
     (p < length rs \<longrightarrow> Priority (rs ! p) \<noteq> Priority (rs ! 0))"
    unfolding p_def using assms(1) by (intro GetBestK_loop_spec) (simp add: Suc_leI)
  then obtain k where p: "p = Suc k"
    by (cases p) auto
  have "GetBestK_loop rs (Priority (rs ! 0)) (Suc 0) = Suc k"
    using p by (simp add: p_def)
  then have "GetBestK rs = int k"
    using * assms by (simp add: GetBestK_def signed_31_small p)
  moreover have "\<forall>i \<le> k. Priority (rs ! 0) = Priority (rs ! i)"
    using * by (metis One_nat_def Suc_leI le_imp_less_Suc not_gr_zero p)
  ultimately show thesis
    using * p by (intro that [of k]) (simp_all add: Suc_le_eq)
qed

lemma GetBestK_min:
  assumes "sorted (map Priority rs)" "rs \<noteq> []" "length rs < 2 ^ 31" "int i \<le> GetBestK rs"
  shows "i < length rs \<and> (\<forall>r \<in> set rs. Priority (rs ! i) \<le> Priority r)"
proof -
  obtain k where k: "GetBestK rs = int k" "k < length rs" "\<forall>i \<le> k. Priority (rs ! 0) = Priority (rs ! i)"
    using GetBestK_spec [OF assms(2,3)] by metis
  then have i: "i < length rs" "Priority (rs ! 0) = Priority (rs ! i)"
    using assms(4) by auto
  have "Priority (rs ! 0) \<le> Priority r" if "r \<in> set rs" for r
    using that sorted_prefix_le [OF assms(1), of 0] by (auto simp: in_set_conv_nth)
  with i show ?thesis by simp
qed

section \<open>Setting a new state\<close>

lemma uniq_records_eq:
  "uniq_records idx us rs = (idx', us') \<Longrightarrow> set idx = Endpoint ` set us \<Longrightarrow> distinct (map Endpoint us) \<Longrightarrow>
   set idx' = Endpoint ` set us' \<and> distinct (map Endpoint us') \<and> set us' \<subseteq> set us \<union> set rs \<and>
   Endpoint ` set us' = Endpoint ` set us \<union> Endpoint ` set rs \<and> length us' \<le> length us + length rs"
proof (induction idx us rs rule: uniq_records.induct)
  case (2 idx us r rs)
  show ?case
  proof (cases "Endpoint r \<in> set idx")
    case True
    with 2 show ?thesis by (auto split: if_splits)
  next
    case False
    with "2.prems" have "uniq_records (Endpoint r # idx) (us @ [r]) rs = (idx', us')"
      "set (Endpoint r # idx) = Endpoint ` set (us @ [r])" "distinct (map Endpoint (us @ [r]))"
      by auto
    from "2.IH"(2) [OF False this] show ?thesis by auto
  qed
qed auto

lemma remove_missing_spec:
  assumes "distinct (map Endpoint rs)"
    and "\<forall>r \<in> set rs. Endpoint r \<notin> set idx \<longrightarrow> lookup known (Endpoint r) \<noteq> None"
    and "wf_amap known" "wf_amap bn"
  shows "\<exists>nt' known' bn'. remove_missing idx rs (rem, nt, known, bn) =
      Some (rem @ map Endpoint (filter (\<lambda>r. Endpoint r \<notin> set idx) rs), nt', known', bn') \<and>
      wf_amap known' \<and> wf_amap bn' \<and>
      (\<forall>k. lookup known' k = (if k \<in> Endpoint ` set rs - set idx then None else lookup known k)) \<and>
      lookup bn' \<subseteq>\<^sub>m lookup bn \<and>
      set nt' \<subseteq> set nt \<union> {a. \<exists>n node tag. lookup bn n = Some node \<and> (tag, a) \<in> set (TaggedObjs node)}"
  using assms
proof (induction rs arbitrary: rem nt known bn)
  case Nil
  then show ?case by auto
next
  case (Cons r rs)
  show ?case
  proof (cases "Endpoint r \<in> set idx")
    case True
    with Cons.prems Cons.IH [of known bn rem nt] show ?thesis by auto
  next
    case False
    with Cons.prems(2) obtain v where v: "lookup known (Endpoint r) = Some v" by auto
    define known1 where "known1 = AList.delete (Endpoint r) known"
    define rem1 where "rem1 = rem @ [Endpoint r]"
    obtain nt1 bn1 where step: "remove_missing idx (r # rs) (rem, nt, known, bn) =
        remove_missing idx rs (rem1, nt1, known1, bn1)"
      and bn1: "wf_amap bn1" "lookup bn1 \<subseteq>\<^sub>m lookup bn"
      and nt1: "set nt1 \<subseteq> set nt \<union> {a. \<exists>n node tag. lookup bn n = Some node \<and> (tag, a) \<in> set (TaggedObjs node)}"
    proof (cases "lookup bn (NodeId r)")
      case None
      with False v Cons.prems(4) show thesis
        by (intro that [of nt bn]) (auto simp: known1_def rem1_def)
    next
      case (Some node)
      with False v Cons.prems(4) show thesis
        by (intro that [of "nt @ map snd (TaggedObjs node)" "AList.delete (NodeId r) bn"])
           (auto simp: known1_def rem1_def map_le_def, blast)
    qed
    have "\<exists>nt' known' bn'. remove_missing idx rs (rem1, nt1, known1, bn1) =
      Some (rem1 @ map Endpoint (filter (\<lambda>r. Endpoint r \<notin> set idx) rs), nt', known', bn') \<and>
      wf_amap known' \<and> wf_amap bn' \<and>
      (\<forall>k. lookup known' k = (if k \<in> Endpoint ` set rs - set idx then None else lookup known1 k)) \<and>
      lookup bn' \<subseteq>\<^sub>m lookup bn1 \<and>
      set nt' \<subseteq> set nt1 \<union> {a. \<exists>n node tag. lookup bn1 n = Some node \<and> (tag, a) \<in> set (TaggedObjs node)}"
      using Cons.prems bn1(1) by (intro Cons.IH) (auto simp: known1_def, metis image_eqI)
    then obtain nt' known' bn' where
      *: "remove_missing idx rs (rem1, nt1, known1, bn1) =
            Some (rem1 @ map Endpoint (filter (\<lambda>r. Endpoint r \<notin> set idx) rs), nt', known', bn')"
        "wf_amap known'" "wf_amap bn'"
        "\<forall>k. lookup known' k = (if k \<in> Endpoint ` set rs - set idx then None else lookup known1 k)"
        "lookup bn' \<subseteq>\<^sub>m lookup bn1"
        "set nt' \<subseteq> set nt1 \<union> {a. \<exists>n node tag. lookup bn1 n = Some node \<and> (tag, a) \<in> set (TaggedObjs node)}"
      by blast
    have sub: "lookup bn1 n = Some node \<Longrightarrow> lookup bn n = Some node" for n node
      using bn1(2) by (force simp: map_le_def)
    have "set nt' \<subseteq> set nt \<union> {a. \<exists>n node tag. lookup bn n = Some node \<and> (tag, a) \<in> set (TaggedObjs node)}"
      using *(6) nt1 sub by blast
    moreover have "lookup bn' \<subseteq>\<^sub>m lookup bn"
      using *(5) bn1(2) by (rule map_le_trans)
    moreover have "lookup known' k = (if k \<in> Endpoint ` set (r # rs) - set idx then None else lookup known k)" for k
      using *(4) False by (auto simp: known1_def)
    moreover have "rem1 @ map Endpoint (filter (\<lambda>r. Endpoint r \<notin> set idx) rs) =
        rem @ map Endpoint (filter (\<lambda>r. Endpoint r \<notin> set idx) (r # rs))"
      using False by (simp add: rem1_def)
    ultimately show ?thesis
      unfolding step using *(1-3) by (metis (no_types, lifting))
  qed
qed

lemma set_node_record_lookup:
  "lookup (set_node_record r bn) n =
     (if n = NodeId r then Some (case lookup bn n of None \<Rightarrow> \<lparr>Record = r, TaggedObjs = []\<rparr>
                                 | Some node \<Rightarrow> node\<lparr>Record := r\<rparr>)
      else lookup bn n)"
  by (simp add: set_node_record_def)

lemma wf_set_node_record [simp]: "wf_amap bn \<Longrightarrow> wf_amap (set_node_record r bn)"
  by (simp add: set_node_record_def)

lemma add_records_spec:
  assumes "add_records rs known bn = (known', bn')" "distinct (map Endpoint rs)" "wf_amap known" "wf_amap bn"
  shows "wf_amap known' \<and> wf_amap bn' \<and>
     (\<forall>k. lookup known' k = (case lookup (by_endpoint rs) k of None \<Rightarrow> lookup known k | Some r \<Rightarrow> Some r)) \<and>
     (\<forall>n. n \<in> NodeId ` set rs \<or> lookup bn n \<noteq> None \<longrightarrow> lookup bn' n \<noteq> None) \<and>
     (\<forall>n node tag a. lookup bn' n = Some node \<longrightarrow> (tag, a) \<in> set (TaggedObjs node) \<longrightarrow>
        (\<exists>node'. lookup bn n = Some node' \<and> (tag, a) \<in> set (TaggedObjs node')))"
  using assms
proof (induction rs arbitrary: known bn)
  case Nil
  then show ?case by auto
next
  case (Cons r rs)
  let ?k = "AList.update (Endpoint r) r known" and ?b = "set_node_record r bn"
  from Cons.prems have "add_records rs ?k ?b = (known', bn')" "distinct (map Endpoint rs)" "wf_amap ?k" "wf_amap ?b"
    by auto
  from Cons.IH [OF this] have IH: "wf_amap known'" "wf_amap bn'"
     "\<And>k. lookup known' k = (case lookup (by_endpoint rs) k of None \<Rightarrow> lookup ?k k | Some r \<Rightarrow> Some r)"
     "\<And>n. n \<in> NodeId ` set rs \<or> lookup ?b n \<noteq> None \<Longrightarrow> lookup bn' n \<noteq> None"
     "\<And>n node tag a. lookup bn' n = Some node \<Longrightarrow> (tag, a) \<in> set (TaggedObjs node) \<Longrightarrow>
        (\<exists>node'. lookup ?b n = Some node' \<and> (tag, a) \<in> set (TaggedObjs node'))"
    by blast+
  have "lookup (by_endpoint rs) (Endpoint r) = None"
    using Cons.prems(2) by (simp add: map_of_indexed_None)
  moreover have "\<exists>node'. lookup bn n = Some node' \<and> (tag, a) \<in> set (TaggedObjs node')"
    if "lookup bn' n = Some node" "(tag, a) \<in> set (TaggedObjs node)" for n node tag a
    using IH(5) [OF that] by (auto simp: set_node_record_lookup split: if_splits option.splits)
  moreover have "lookup bn' n \<noteq> None" if "n \<in> NodeId ` set (r # rs) \<or> lookup bn n \<noteq> None" for n
    using that by (intro IH(4)) (auto simp: set_node_record_lookup)
  ultimately show ?case
    using IH(1-3) by (auto split: option.splits)
qed

abbreviation tagged_addrs :: "TEndpointElectorSafe \<Rightarrow> nat set" where
  "tagged_addrs s \<equiv> {a. \<exists>n node tag. lookup (KnownEndpointsByNodeId s) n = Some node \<and> (tag, a) \<in> set (TaggedObjs node)}"

lemma lookup_after_replacement:
  assumes "Endpoint ` set us = E"
    and "\<And>k. known k = (if k \<in> Endpoint ` set rs - E then None else lookup (by_endpoint rs) k)"
  shows "(case lookup (by_endpoint us) k of None \<Rightarrow> known k | Some r \<Rightarrow> Some r) = lookup (by_endpoint us) k"
proof (cases "lookup (by_endpoint us) k")
  case None
  then have "k \<notin> E" using assms(1) by (simp add: map_of_indexed_None)
  then have "known k = None"
    using assms(2) [of k] by (simp add: map_of_indexed_None)
  with None show ?thesis by simp
qed simp

lemma wf_amap_by_endpoint: "distinct (map Endpoint rs) \<Longrightarrow> wf_amap (by_endpoint rs)"
  by (simp add: wf_amap_def comp_def)

lemma same_lookup_length:
  "wf_amap m \<Longrightarrow> wf_amap m' \<Longrightarrow> lookup m = lookup m' \<Longrightarrow> length m = length m'"
  by (simp add: wf_amap_length)

lemma SetNewState_result:
  assumes srt: "sorter Priority srt" and inv: "elector_inv s" and bound: "length records < 2 ^ 31"
    and prio: "\<forall>r \<in> set records. Priority r \<le> PessimizedPriority"
  obtains nt s' where
    "SetNewState srt records s =
       Some (map Endpoint (filter (\<lambda>r. Endpoint r \<notin> Endpoint ` set records) (Records s)), nt, s')"
    "elector_inv s'" "set (Records s') \<subseteq> set records"
    "Endpoint ` set (Records s') = Endpoint ` set records"
    "PessimizationRatio s' = 0" "tagged_addrs s' \<subseteq> tagged_addrs s" "set nt \<subseteq> tagged_addrs s"
proof -
  obtain idx us where u: "uniq_records [] [] records = (idx, us)" by (cases "uniq_records [] [] records")
  from uniq_records_eq [OF this] have us: "set idx = Endpoint ` set records" "distinct (map Endpoint us)"
      "set us \<subseteq> set records" "Endpoint ` set us = Endpoint ` set records" "length us \<le> length records"
    by auto
  have su: "mset (srt us) = mset us" "sorted (map Priority (srt us))"
    using srt by (simp_all add: sorter.mset_srt sorter.sorted_srt)
  have set_su: "set (srt us) = set us" and len_su: "length (srt us) = length us"
    using su(1) by (metis mset_eq_setD, metis size_mset)
  have dist_su: "distinct (map Endpoint (srt us))"
    using srt us(2) by (simp add: sorter.distinct_map_srt)
  from inv have i: "distinct (map Endpoint (Records s))" "wf_amap (KnownEndpoints s)"
      "lookup (KnownEndpoints s) = lookup (by_endpoint (Records s))" "wf_amap (KnownEndpointsByNodeId s)"
    by (simp_all add: elector_inv_def records_inv_def index_inv_def)
  have "\<forall>r \<in> set (Records s). Endpoint r \<notin> set idx \<longrightarrow> lookup (KnownEndpoints s) (Endpoint r) \<noteq> None"
    using i(1,3) by (simp add: map_of_indexed)
  from remove_missing_spec [OF i(1) this i(2,4), of "[]" "[]"] obtain nt known bn where
    rm: "remove_missing idx (Records s) ([], [], KnownEndpoints s, KnownEndpointsByNodeId s) =
       Some (map Endpoint (filter (\<lambda>r. Endpoint r \<notin> set idx) (Records s)), nt, known, bn)"
      "wf_amap known" "wf_amap bn"
      "\<And>k. lookup known k = (if k \<in> Endpoint ` set (Records s) - set idx then None
            else lookup (KnownEndpoints s) k)"
      "lookup bn \<subseteq>\<^sub>m lookup (KnownEndpointsByNodeId s)" "set nt \<subseteq> tagged_addrs s"
    by auto
  obtain known' bn' where ar: "add_records (srt us) known bn = (known', bn')"
    by (cases "add_records (srt us) known bn")
  from add_records_spec [OF ar dist_su rm(2,3)] have ar': "wf_amap known'" "wf_amap bn'"
      "\<And>k. lookup known' k = (case lookup (by_endpoint (srt us)) k of None \<Rightarrow> lookup known k | Some r \<Rightarrow> Some r)"
      "\<And>n. n \<in> NodeId ` set (srt us) \<Longrightarrow> lookup bn' n \<noteq> None"
      "\<And>n node tag a. lookup bn' n = Some node \<Longrightarrow> (tag, a) \<in> set (TaggedObjs node) \<Longrightarrow>
        (\<exists>node'. lookup bn n = Some node' \<and> (tag, a) \<in> set (TaggedObjs node'))"
    by blast+
  have look: "lookup known' = lookup (by_endpoint (srt us))"
    using ar'(3) lookup_after_replacement [of "srt us" "set idx" "lookup known" "Records s"] rm(4) i(3) us set_su
    by (simp add: fun_eq_iff)
  have len: "length known' = length us"
    using same_lookup_length [OF ar'(1) wf_amap_by_endpoint [OF dist_su] look] len_su by simp
  define s' where "s' = s\<lparr>Records := srt us, KnownEndpoints := known', KnownEndpointsByNodeId := bn',
              EndpointCountGauge := SetValue (int (length (srt us))) (EndpointCountGauge s),
              EndpointActiveGauge := SetValue (int (length (srt us))) (EndpointActiveGauge s),
              BestK := GetBestK (srt us), PessimizationRatio := 0,
              PessimizationRatioGauge := SetValue 0 (PessimizationRatioGauge s)\<rparr>"
  have bn_sub: "lookup (KnownEndpointsByNodeId s) n = Some node" if "lookup bn n = Some node" for n node
    using rm(5) that unfolding map_le_def by (metis domI)
  have "tagged_addrs s' \<subseteq> tagged_addrs s"
    using ar'(5) bn_sub by (fastforce simp: s'_def)
  moreover have "elector_inv s'"
    using us(2,3,5) set_su len_su dist_su su(2) ar'(1,2,4) look bound prio
    by (auto simp: elector_inv_def records_inv_def index_inv_def order_inv_def ratio_inv_def s'_def)
  ultimately show thesis
    using rm us set_su len len_su
    by (intro that [of nt s']) (auto simp: SetNewState_def Let_def u ar s'_def)
qed

lemma pessimize_first_Some:
  "pessimize_first ep rs = Some (nid, rs') \<Longrightarrow>
   \<exists>i < length rs. rs' = rs[i := (rs ! i)\<lparr>Priority := PessimizedPriority\<rparr>] \<and> Endpoint (rs ! i) = ep \<and>
     \<not> pessimized (rs ! i) \<and> nid = NodeId (rs ! i)"
proof (induction rs arbitrary: rs')
  case (Cons r rs)
  show ?case
  proof (cases "Endpoint r = ep \<and> \<not> pessimized r")
    case True
    with Cons.prems show ?thesis by (intro exI [of _ 0]) auto
  next
    case False
    with Cons.prems obtain rs1 where "pessimize_first ep rs = Some (nid, rs1)" "rs' = r # rs1"
      by (auto simp: if_not_P split: if_splits)
    with Cons.IH [of rs1] obtain i where "i < length rs" "rs' = (r # rs)[Suc i := (rs ! i)\<lparr>Priority := PessimizedPriority\<rparr>]"
        "Endpoint (rs ! i) = ep" "\<not> pessimized (rs ! i)" "nid = NodeId (rs ! i)"
      by auto
    then show ?thesis by (intro exI [of _ "Suc i"]) auto
  qed
qed simp

lemma pessimize_first_None:
  "pessimize_first ep rs = None \<longleftrightarrow> (\<forall>r \<in> set rs. Endpoint r = ep \<longrightarrow> pessimized r)"
  by (induction rs) auto

lemma lookup_by_endpoint_update:
  assumes "distinct (map Endpoint rs)" "i < length rs"
  shows "lookup (by_endpoint (rs[i := (rs ! i)\<lparr>Priority := p\<rparr>])) =
         (lookup (by_endpoint rs))(Endpoint (rs ! i) \<mapsto> (rs ! i)\<lparr>Priority := p\<rparr>)"
  using assms
proof (induction rs arbitrary: i)
  case (Cons r rs)
  then show ?case
    by (cases i) (auto simp: fun_eq_iff, metis image_eqI nth_mem)
qed simp

lemma map_Endpoint_update: "map Endpoint (rs[i := (rs ! i)\<lparr>Priority := p\<rparr>]) = map Endpoint rs"
  by (cases "i < length rs") (simp_all add: map_update list_update_same_conv not_less list_update_beyond)

lemma new_ratio_eq:
  assumes "0 < n" "n < 2 ^ 31" "p \<le> n"
  shows "new_ratio (int (p * (100 div n))) n = int (Suc p * (100 div n))"
proof -
  define q where "q = 100 div n"
  define x where "x = p * q"
  have "p * q \<le> n * q" using assms(3) by simp
  also have "\<dots> \<le> 100" by (simp add: q_def)
  finally have x: "x \<le> 100" by (simp add: x_def)
  have q: "q \<le> 100" by (simp add: q_def)
  have "x * n \<le> 100 * 2 ^ 31"
    using x assms(2) by (intro mult_mono) auto
  then have "int (x * n) \<le> int (100 * 2 ^ 31)"
    by (simp only: of_nat_le_iff)
  then have "int x * int n + 100 < 2 ^ 64" by simp
  then have "take_bit 64 (int x * int n + 100) = int x * int n + 100"
    by (intro take_bit_int_eq_self) simp
  moreover have "take_bit 64 (int x) = int x"
    using x by (intro take_bit_int_eq_self) auto
  moreover have "(int x * int n + 100) div int n = int (x + q)"
    using assms(1) by (simp add: q_def zdiv_int)
  moreover have "signed_take_bit 31 (int (x + q)) = int (x + q)"
    using x q by (intro signed_31_small) auto
  moreover have "Suc p * (100 div n) = x + q"
    by (simp add: x_def q_def)
  ultimately show ?thesis
    by (simp add: new_ratio_def x_def flip: q_def)
qed

section \<open>Pessimization\<close>

text \<open>What holds between two priority changes, before the records are sorted again.\<close>

definition weak_inv :: "TEndpointElectorSafe \<Rightarrow> bool" where
  "weak_inv s \<longleftrightarrow> records_inv (Records s) \<and> index_inv s \<and> ratio_inv s"

lemma length_filter_update:
  assumes "i < length rs" "\<not> P (rs ! i)" "P x"
  shows "length (filter P (rs[i := x])) = Suc (length (filter P rs))"
  using assms
proof (induction rs arbitrary: i)
  case (Cons r rs)
  then show ?case by (cases i) auto
qed simp

lemma length_filter_lt: "i < length rs \<Longrightarrow> \<not> P (rs ! i) \<Longrightarrow> length (filter P rs) < length rs"
  by (rule length_filter_less [OF nth_mem])

lemma PessimizeEndpointUnlocked_Some:
  assumes "PessimizeEndpointUnlocked ep s = (True, s')" "weak_inv s"
  obtains i where "i < length (Records s)" "Endpoint (Records s ! i) = ep" "\<not> pessimized (Records s ! i)"
    "Records s' = (Records s)[i := (Records s ! i)\<lparr>Priority := PessimizedPriority\<rparr>]" "weak_inv s'"
    "PessimizationRatio s' = PessimizationRatio s + int (100 div length (Records s))"
    "tagged_addrs s' \<subseteq> tagged_addrs s"
proof -
  let ?P = PessimizedPriority
  obtain nid rs' where pf: "pessimize_first ep (Records s) = Some (nid, rs')"
    using assms(1) by (auto simp: PessimizeEndpointUnlocked_def split: option.splits)
  from pessimize_first_Some [OF this] obtain i where i: "i < length (Records s)"
      "rs' = (Records s)[i := (Records s ! i)\<lparr>Priority := ?P\<rparr>]" "Endpoint (Records s ! i) = ep"
      "\<not> pessimized (Records s ! i)" "nid = NodeId (Records s ! i)"
    by blast
  from assms(2) obtain p where w: "distinct (map Endpoint (Records s))" "length (Records s) < 2 ^ 31"
      "\<forall>r \<in> set (Records s). Priority r \<le> ?P" "wf_amap (KnownEndpoints s)"
      "lookup (KnownEndpoints s) = lookup (by_endpoint (Records s))" "wf_amap (KnownEndpointsByNodeId s)"
      "\<forall>r \<in> set (Records s). lookup (KnownEndpointsByNodeId s) (NodeId r) \<noteq> None"
      and p: "p \<le> length (filter pessimized (Records s))"
        "PessimizationRatio s = int (p * (100 div length (Records s)))"
    by (auto simp: weak_inv_def records_inv_def index_inv_def ratio_inv_def)
  have known: "lookup (KnownEndpoints s) ep = Some (Records s ! i)"
    using map_of_indexed [OF w(1) nth_mem [OF i(1)]] i(3) w(5) by simp
  have p_lt: "p < length (Records s)"
    using p(1) length_filter_lt [of i "Records s" pessimized] i by auto
  have ratio: "new_ratio (PessimizationRatio s) (length rs') = int (Suc p * (100 div length (Records s)))"
    using new_ratio_eq [OF _ w(2) less_imp_le [OF p_lt]] i(1,2) p(2) by (metis length_list_update gr_zeroI not_less_zero)
  obtain node where node: "lookup (KnownEndpointsByNodeId s) nid = Some node"
    using w(7) nth_mem [OF i(1)] i(5) by auto
  have s': "Records s' = rs'"
      "KnownEndpoints s' = AList.update ep ((Records s ! i)\<lparr>Priority := ?P\<rparr>) (KnownEndpoints s)"
      "PessimizationRatio s' = int (Suc p * (100 div length (Records s)))"
      "KnownEndpointsByNodeId s' = (if Endpoint (Record node) = ep
         then AList.update nid (node\<lparr>Record := (Record node)\<lparr>Priority := ?P\<rparr>\<rparr>) (KnownEndpointsByNodeId s)
         else KnownEndpointsByNodeId s)"
    using assms(1) pf known node ratio
    by (auto simp: PessimizeEndpointUnlocked_def Let_def simp del: mult_Suc)
  have "records_inv (Records s')"
    using w(1-3) i by (auto simp: records_inv_def s' map_Endpoint_update dest!: subsetD [OF set_update_subset_insert])
  moreover have "index_inv s'"
    using w(4-7) i lookup_by_endpoint_update [OF w(1) i(1), of ?P] node
    by (auto simp: index_inv_def s' fun_eq_iff dest!: subsetD [OF set_update_subset_insert])
  moreover have "ratio_inv s'"
    using p(1) i length_filter_update [OF i(1), of pessimized "(Records s ! i)\<lparr>Priority := ?P\<rparr>"]
    by (auto simp: ratio_inv_def s' simp del: mult_Suc intro!: exI [of _ "Suc p"])
  moreover have "tagged_addrs s' \<subseteq> tagged_addrs s"
    using node by (auto simp: s' split: if_splits)
  ultimately show thesis
    using i s' p(2) by (intro that [of i]) (auto simp: weak_inv_def)
qed

lemma PessimizeEndpointUnlocked_unchanged:
  "PessimizeEndpointUnlocked ep s = (False, s') \<Longrightarrow> s' = s \<and> (\<forall>r \<in> set (Records s). Endpoint r = ep \<longrightarrow> pessimized r)"
proof (cases "pessimize_first ep (Records s)")
  case None
  then show "PessimizeEndpointUnlocked ep s = (False, s') \<Longrightarrow> ?thesis"
    by (simp add: PessimizeEndpointUnlocked_def pessimize_first_None)
next
  case (Some x)
  then show "PessimizeEndpointUnlocked ep s = (False, s') \<Longrightarrow> ?thesis"
    by (simp add: PessimizeEndpointUnlocked_def Let_def split: prod.splits)
qed

lemma resort_inv:
  assumes "sorter Priority srt" "weak_inv s"
  shows "elector_inv (resort srt s)" "mset (Records (resort srt s)) = mset (Records s)"
    "PessimizationRatio (resort srt s) = PessimizationRatio s"
    "KnownEndpointsByNodeId (resort srt s) = KnownEndpointsByNodeId s"
proof -
  have m: "mset (srt (Records s)) = mset (Records s)"
    using assms(1) by (rule sorter.mset_srt)
  have st: "set (srt (Records s)) = set (Records s)"
    using m by (rule mset_eq_setD)
  have "lookup (by_endpoint (srt (Records s))) = lookup (by_endpoint (Records s))"
    if "distinct (map Endpoint (Records s))"
  proof -
    have "distinct (map Endpoint (srt (Records s)))"
      using assms(1) that by (simp add: sorter.distinct_map_srt)
    then show ?thesis using that m
      by (intro map_of_eqI) (auto simp: comp_def st map_of_indexed)
  qed
  with assms m st show "elector_inv (resort srt s)"
    by (simp add: elector_inv_def weak_inv_def records_inv_def index_inv_def order_inv_def ratio_inv_def
        resort_def Let_def sorter.distinct_map_srt sorter.length_srt sorter.length_filter_srt sorter.sorted_srt)
  show "mset (Records (resort srt s)) = mset (Records s)"
    "PessimizationRatio (resort srt s) = PessimizationRatio s"
    "KnownEndpointsByNodeId (resort srt s) = KnownEndpointsByNodeId s"
    using m by (simp_all add: resort_def Let_def)
qed

lemma weak_of_elector: "elector_inv s \<Longrightarrow> weak_inv s"
  by (simp add: elector_inv_def weak_inv_def)

abbreviation pessimize_if :: "(TEndpointRecord \<Rightarrow> bool) \<Rightarrow> TEndpointRecord \<Rightarrow> TEndpointRecord" where
  "pessimize_if P r \<equiv> (if P r then r\<lparr>Priority := PessimizedPriority\<rparr> else r)"

lemma pessimize_if_id: "pessimized r \<Longrightarrow> r\<lparr>Priority := PessimizedPriority\<rparr> = r"
  by simp

lemma map_pessimize_endpoint:
  assumes "distinct (map Endpoint rs)" "i < length rs" "Endpoint (rs ! i) = ep"
  shows "rs[i := (rs ! i)\<lparr>Priority := PessimizedPriority\<rparr>] = map (pessimize_if (\<lambda>r. Endpoint r = ep)) rs"
proof (rule nth_equalityI)
  fix j assume "j < length (rs[i := (rs ! i)\<lparr>Priority := PessimizedPriority\<rparr>])"
  then have "j < length rs" by simp
  moreover from this have "Endpoint (rs ! j) = ep \<longleftrightarrow> j = i"
    using assms by (metis length_map nth_eq_iff_index_eq nth_map)
  ultimately show "rs[i := (rs ! i)\<lparr>Priority := PessimizedPriority\<rparr>] ! j =
      map (pessimize_if (\<lambda>r. Endpoint r = ep)) rs ! j"
    by (auto simp: nth_list_update)
qed simp

lemma PessimizeEndpoint_result:
  assumes "sorter Priority srt" "elector_inv s"
  shows "elector_inv (PessimizeEndpoint srt ep s) \<and>
    mset (Records (PessimizeEndpoint srt ep s)) = mset (map (pessimize_if (\<lambda>r. Endpoint r = ep)) (Records s)) \<and>
    tagged_addrs (PessimizeEndpoint srt ep s) \<subseteq> tagged_addrs s"
proof (cases "PessimizeEndpointUnlocked ep s")
  case (Pair c s')
  show ?thesis
  proof (cases c)
    case True
    with Pair have u: "PessimizeEndpointUnlocked ep s = (True, s')" by simp
    from PessimizeEndpointUnlocked_Some [OF u weak_of_elector [OF assms(2)]] obtain i where
      i: "i < length (Records s)" "Endpoint (Records s ! i) = ep" "weak_inv s'"
        "Records s' = (Records s)[i := (Records s ! i)\<lparr>Priority := PessimizedPriority\<rparr>]"
        "tagged_addrs s' \<subseteq> tagged_addrs s" by metis
    have "distinct (map Endpoint (Records s))"
      using assms(2) by (simp add: elector_inv_def records_inv_def)
    with i resort_inv [OF assms(1) i(3)] u show ?thesis
      by (simp add: PessimizeEndpoint_def map_pessimize_endpoint)
  next
    case False
    with Pair PessimizeEndpointUnlocked_unchanged [of ep s s']
    have "s' = s" "\<forall>r \<in> set (Records s). Endpoint r = ep \<longrightarrow> pessimized r" by auto
    moreover from this have "map (pessimize_if (\<lambda>r. Endpoint r = ep)) (Records s) = Records s"
      by (intro map_idI) auto
    ultimately show ?thesis
      using False Pair assms(2) by (simp add: PessimizeEndpoint_def)
  qed
qed

lemma PessimizeNode_loop_result:
  assumes "weak_inv s" "i \<le> length R" "length (Records s) = length R"
    and "Records s = map (pessimize_if (\<lambda>r. NodeId r = nid)) (take i R) @ drop i R"
    and "distinct (map Endpoint R)"
    and "PessimizeNode_loop nid [i..<length R] c s = (c', s')"
  shows "weak_inv s' \<and> Records s' = map (pessimize_if (\<lambda>r. NodeId r = nid)) R \<and>
    tagged_addrs s' \<subseteq> tagged_addrs s \<and> (c \<longrightarrow> c') \<and> (\<not> c' \<longrightarrow> s' = s)"
  using assms
proof (induction "length R - i" arbitrary: i c s)
  case 0
  then show ?case by simp
next
  case (Suc n)
  let ?f = "pessimize_if (\<lambda>r. NodeId r = nid)"
  from Suc.hyps(2) Suc.prems(2) have i: "i < length R" by simp
  have Ri: "Records s ! i = R ! i"
    using Suc.prems(4) i by (simp add: nth_append)
  have cons: "[i..<length R] = i # [Suc i..<length R]"
    using i by (simp add: upt_conv_Cons)
  have take_drop: "map ?f (take (Suc i) R) @ drop (Suc i) R = (Records s)[i := ?f (R ! i)]"
    using i Suc.prems(4) by (simp add: take_Suc_conv_app_nth Cons_nth_drop_Suc [symmetric] list_update_append)
  show ?case
  proof (cases "NodeId (R ! i) = nid \<and> \<not> pessimized (R ! i)")
    case True
    obtain d t where u: "PessimizeEndpointUnlocked (Endpoint (R ! i)) s = (d, t)"
      by (cases "PessimizeEndpointUnlocked (Endpoint (R ! i)) s")
    have "Records s ! i \<in> set (Records s)" using i Suc.prems(3) by simp
    with True Ri PessimizeEndpointUnlocked_unchanged [of "Endpoint (R ! i)" s t] u have d: d
      by (cases d) auto
    with u have u': "PessimizeEndpointUnlocked (Endpoint (R ! i)) s = (True, t)" by simp
    from PessimizeEndpointUnlocked_Some [OF u' Suc.prems(1)] obtain j where j: "j < length (Records s)" "Endpoint (Records s ! j) = Endpoint (R ! i)"
        "Records t = (Records s)[j := (Records s ! j)\<lparr>Priority := PessimizedPriority\<rparr>]" "weak_inv t"
        "tagged_addrs t \<subseteq> tagged_addrs s" by metis
    have "distinct (map Endpoint (Records s))"
      using Suc.prems(1) by (simp add: weak_inv_def records_inv_def)
    then have "j = i"
      using j(1,2) i Ri Suc.prems(3) by (metis length_map nth_eq_iff_index_eq nth_map)
    with j(3) Ri True take_drop have "Records t = map ?f (take (Suc i) R) @ drop (Suc i) R"
      by simp
    moreover have "PessimizeNode_loop nid [Suc i..<length R] True t = (c', s')"
      using Suc.prems(6) True Ri u d by (simp add: cons)
    ultimately have "weak_inv s' \<and> Records s' = map ?f R \<and> tagged_addrs s' \<subseteq> tagged_addrs t \<and>
        (True \<longrightarrow> c') \<and> (\<not> c' \<longrightarrow> s' = t)"
      using Suc.hyps(2) Suc.prems(5) i j(4) by (intro Suc.hyps(1)) auto
    with j(5) show ?thesis by blast
  next
    case False
    then have "?f (R ! i) = Records s ! i" using Ri by auto
    with take_drop have "Records s = map ?f (take (Suc i) R) @ drop (Suc i) R"
      by simp
    moreover have "PessimizeNode_loop nid [Suc i..<length R] c s = (c', s')"
      using Suc.prems(6) False Ri by (simp add: cons split: if_splits)
    ultimately show ?thesis
      using Suc.hyps(2) Suc.prems i by (intro Suc.hyps(1)) auto
  qed
qed

lemma PessimizeNode_result:
  assumes "sorter Priority srt" "elector_inv s" "nid \<noteq> 0"
  shows "elector_inv (PessimizeNode srt nid s) \<and>
    mset (Records (PessimizeNode srt nid s)) = mset (map (pessimize_if (\<lambda>r. NodeId r = nid)) (Records s)) \<and>
    tagged_addrs (PessimizeNode srt nid s) \<subseteq> tagged_addrs s"
proof -
  obtain c s' where l: "PessimizeNode_loop nid [0..<length (Records s)] False s = (c, s')"
    by (cases "PessimizeNode_loop nid [0..<length (Records s)] False s")
  have r: "weak_inv s' \<and> Records s' = map (pessimize_if (\<lambda>r. NodeId r = nid)) (Records s) \<and>
    tagged_addrs s' \<subseteq> tagged_addrs s \<and> (False \<longrightarrow> c) \<and> (\<not> c \<longrightarrow> s' = s)"
    using weak_of_elector [OF assms(2)] l
    by (intro PessimizeNode_loop_result [where i = 0]) (auto simp: weak_inv_def records_inv_def)
  show ?thesis
  proof (cases c)
    case True
    with r l assms(3) resort_inv [OF assms(1), of s'] show ?thesis
      by (simp add: PessimizeNode_def)
  next
    case False
    with r have "s' = s" "mset (map (pessimize_if (\<lambda>r. NodeId r = nid)) (Records s)) = mset (Records s)"
      by simp (metis r False)
    with False l assms(2,3) show ?thesis
      by (simp add: PessimizeNode_def)
  qed
qed

section \<open>Registries\<close>

lemma remove_from_Some:
  assumes "link_inv h" "lookup (ObjRegistry h) obj = Some a"
  shows "remove_from obj a h = Some (h\<lparr>Registries := (Registries h)[a :=
     (Registries h ! a)\<lparr>Objs := remove1 obj (Objs (Registries h ! a))\<rparr>]\<rparr>)"
  using assms by (auto simp: link_inv_def remove_from_def Remove_def)

lemma Unlink_result:
  assumes "link_inv h"
  obtains h' where "Unlink obj h = Some h'" "link_inv h'" "\<not> ObjectRegistred obj h'"
    "length (Registries h') = length (Registries h)"
    "\<And>o'. o' \<noteq> obj \<Longrightarrow> lookup (ObjRegistry h') o' = lookup (ObjRegistry h) o'"
proof (cases "lookup (ObjRegistry h) obj")
  case None
  then have "lookup (AList.delete obj (ObjRegistry h)) = lookup (ObjRegistry h)"
    by (auto simp: fun_eq_iff)
  with None assms show ?thesis
    by (intro that [of "h\<lparr>ObjRegistry := AList.delete obj (ObjRegistry h)\<rparr>"])
       (simp_all add: Unlink_def link_inv_def ObjectRegistred_def)
next
  case (Some a)
  let ?reg = "(Registries h ! a)\<lparr>Objs := remove1 obj (Objs (Registries h ! a))\<rparr>"
  let ?h = "h\<lparr>Registries := (Registries h)[a := ?reg], ObjRegistry := AList.delete obj (ObjRegistry h)\<rparr>"
  have a: "a < length (Registries h)" "obj \<in> set (Objs (Registries h ! a))"
    using Some assms by (auto simp: link_inv_def)
  have d: "distinct (Objs (Registries h ! a))" "sorted (Objs (Registries h ! a))"
    using assms a(1) by (auto simp: link_inv_def)
  have "link_inv ?h"
    unfolding link_inv_def
  proof (intro conjI ballI allI)
    fix reg assume "reg \<in> set (Registries ?h)"
    then have "reg = ?reg \<or> reg \<in> set (Registries h)"
      using set_update_subset_insert [of "Registries h" a ?reg] by auto
    then show "distinct (Objs reg)" "sorted (Objs reg)"
      using d assms by (auto simp: link_inv_def sorted_remove1)
  next
    fix o' b
    have "lookup (ObjRegistry h) o' = Some b \<longleftrightarrow> b < length (Registries h) \<and> o' \<in> set (Objs (Registries h ! b))"
      using assms by (simp add: link_inv_def)
    moreover have "lookup (ObjRegistry h) obj = Some b \<longleftrightarrow> b < length (Registries h) \<and> obj \<in> set (Objs (Registries h ! b))"
      using assms by (simp add: link_inv_def)
    ultimately show "lookup (ObjRegistry ?h) o' = Some b \<longleftrightarrow>
        b < length (Registries ?h) \<and> o' \<in> set (Objs (Registries ?h ! b))"
      using Some a d by (cases "b = a") (auto simp: nth_list_update)
  qed
  then show ?thesis
    using Some a remove_from_Some [OF assms Some]
    by (intro that [of ?h]) (simp_all add: Unlink_def ObjectRegistred_def)
qed

lemma Link_result:
  assumes inv: "link_inv h" and a: "a < length (Registries h)"
  obtains ok h' where "Link obj a h = Some (ok, h')" "link_inv h'"
    "lookup (ObjRegistry h') obj = Some a" "ok \<longleftrightarrow> lookup (ObjRegistry h) obj \<noteq> Some a"
    "length (Registries h') = length (Registries h)"
    "\<And>o'. o' \<noteq> obj \<Longrightarrow> lookup (ObjRegistry h') o' = lookup (ObjRegistry h) o'"
proof (cases "obj \<in> set (Objs (Registries h ! a))")
  case True
  then have "lookup (ObjRegistry h) obj = Some a"
    using inv a by (simp add: link_inv_def)
  with True a inv show ?thesis
    by (intro that [of False h]) (simp_all add: Link_def Add_def)
next
  case False
  obtain h0 where h0: "Unlink obj h = Some h0" "link_inv h0" "\<not> ObjectRegistred obj h0"
    "length (Registries h0) = length (Registries h)"
    "\<And>o'. o' \<noteq> obj \<Longrightarrow> lookup (ObjRegistry h0) o' = lookup (ObjRegistry h) o'"
    using Unlink_result [OF inv] by metis
  have neq: "lookup (ObjRegistry h) obj \<noteq> Some a"
    using False inv by (simp add: link_inv_def)
  define reg where "reg = (Registries h0 ! a)\<lparr>Objs := insort obj (Objs (Registries h0 ! a))\<rparr>"
  define h1 where "h1 = h0\<lparr>Registries := (Registries h0)[a := reg], ObjRegistry := AList.update obj a (ObjRegistry h)\<rparr>"
  have "Link obj a h = Some (True, h1)"
  proof (cases "lookup (ObjRegistry h) obj")
    case None
    with h0(1) have "Registries h0 = Registries h" "h0 = h\<lparr>ObjRegistry := ObjRegistry h0\<rparr>"
      by (auto simp: Unlink_def)
    with None False a show ?thesis
      by (auto simp: Link_def Add_def h1_def reg_def)
  next
    case (Some b)
    with neq have "b \<noteq> a" by simp
    let ?old = "(Registries h ! b)\<lparr>Objs := remove1 obj (Objs (Registries h ! b))\<rparr>"
    have b: "b < length (Registries h)" "obj \<in> set (Objs (Registries h ! b))"
      using Some inv by (auto simp: link_inv_def)
    have "h0 = h\<lparr>Registries := (Registries h)[b := ?old], ObjRegistry := AList.delete obj (ObjRegistry h)\<rparr>"
      using h0(1) Some remove_from_Some [OF inv Some] by (simp add: Unlink_def)
    with Some False a b \<open>b \<noteq> a\<close> show ?thesis
      by (simp add: Link_def Add_def h1_def reg_def remove_from_def Remove_def list_update_swap)
  qed
  moreover have "link_inv h1"
    unfolding link_inv_def
  proof (intro conjI ballI allI)
    fix r assume "r \<in> set (Registries h1)"
    then have "r = reg \<or> r \<in> set (Registries h0)"
      using set_update_subset_insert [of "Registries h0" a reg] by (auto simp: h1_def)
    moreover have "distinct (Objs reg)" "sorted (Objs reg)"
      using h0(2-4) a by (auto simp: reg_def link_inv_def ObjectRegistred_def distinct_insort sorted_insort)
    ultimately show "distinct (Objs r)" "sorted (Objs r)"
      using h0(2) by (auto simp: link_inv_def)
  next
    fix o' c
    have *: "lookup (ObjRegistry h0) o' = Some c \<longleftrightarrow> c < length (Registries h0) \<and> o' \<in> set (Objs (Registries h0 ! c))" for o'
      using h0(2) by (simp add: link_inv_def)
    show "lookup (ObjRegistry h1) o' = Some c \<longleftrightarrow> c < length (Registries h1) \<and> o' \<in> set (Objs (Registries h1 ! c))"
      using * [of o'] * [of obj] h0(3-5) a
      by (cases "c = a"; cases "o' = obj")
         (auto simp: h1_def reg_def nth_list_update ObjectRegistred_def set_insort_key)
  qed
  ultimately show ?thesis
    using neq h0(4) by (intro that [of True h1]) (auto simp: h1_def)
qed

lemma LinkObjToEndpoint_result:
  assumes "link_inv h" "tags_inv s h"
  obtains ok s' h' where "LinkObjToEndpoint key obj tag s h = Some (ok, s', h')" "link_inv h'" "tags_inv s' h'"
    "s' = s\<lparr>KnownEndpointsByNodeId := KnownEndpointsByNodeId s'\<rparr>"
    "elector_inv s \<longrightarrow> elector_inv s'"
    "lookup (KnownEndpointsByNodeId s) (KeyNodeId key) = None \<longrightarrow> \<not> ok \<and> s' = s \<and> h' = h"
    "lookup (KnownEndpointsByNodeId s) (KeyNodeId key) \<noteq> None \<longrightarrow> ObjectRegistred obj h'"
proof (cases "lookup (KnownEndpointsByNodeId s) (KeyNodeId key)")
  case None
  with assms show ?thesis
    by (intro that [of False s h]) (simp_all add: LinkObjToEndpoint_def)
next
  case (Some node)
  show ?thesis
  proof (cases "lookup (TaggedObjs node) tag")
    case (Some a)
    then have "a < length (Registries h)"
      using \<open>lookup (KnownEndpointsByNodeId s) _ = Some node\<close> assms(2) by (auto simp: tags_inv_def dest: map_of_SomeD)
    from Link_result [OF assms(1) this, of obj] obtain ok h' where
      "Link obj a h = Some (ok, h')" "link_inv h'" "lookup (ObjRegistry h') obj = Some a"
      "length (Registries h') = length (Registries h)" by metis
    with Some \<open>lookup (KnownEndpointsByNodeId s) _ = Some node\<close> assms(2) show ?thesis
      by (intro that [of ok s h']) (simp_all add: LinkObjToEndpoint_def tags_inv_def ObjectRegistred_def)
  next
    case None
    let ?a = "length (Registries h)"
    let ?h = "h\<lparr>Registries := Registries h @ [\<lparr>Objs = [], RegNodeId = KeyNodeId key\<rparr>]\<rparr>"
    let ?s = "s\<lparr>KnownEndpointsByNodeId := AList.update (KeyNodeId key)
       (node\<lparr>TaggedObjs := AList.update tag ?a (TaggedObjs node)\<rparr>) (KnownEndpointsByNodeId s)\<rparr>"
    have "link_inv ?h"
      using assms(1) by (auto simp: link_inv_def nth_append less_Suc_eq)
    moreover have "?a < length (Registries ?h)" by simp
    ultimately obtain ok h' where l: "Link obj ?a ?h = Some (ok, h')" "link_inv h'"
      "lookup (ObjRegistry h') obj = Some ?a" "length (Registries h') = length (Registries ?h)"
      by (rule Link_result)
    have "tags_inv ?s h'"
      using assms(2) Some l(4)
      by (auto simp: tags_inv_def less_Suc_eq split: if_splits dest!: subsetD [OF set_amap_update])
    moreover have "elector_inv s \<longrightarrow> elector_inv ?s"
      by (auto simp: elector_inv_def index_inv_def order_inv_def ratio_inv_def)
    ultimately show ?thesis
      using Some None l by (intro that [of ok ?s h']) (simp_all add: LinkObjToEndpoint_def ObjectRegistred_def Let_def)
  qed
qed

section \<open>Reachable states\<close>

type_synonym elector_sys = "TEndpointElectorSafe \<times> obj_heap"

text \<open>
  Any interleaving of the public methods, each atomic under the mutex. A discovery
  result holds \<^verbatim>\<open>int32_t\<close> priorities and fewer than $2^{31}$ records.
\<close>

inductive elector_step :: "(TEndpointRecord list \<Rightarrow> TEndpointRecord list) \<Rightarrow> elector_sys \<Rightarrow> elector_sys \<Rightarrow> bool"
  for srt where
  set_new_state: "SetNewState srt records s = Some (removed, nt, s') \<Longrightarrow> length records < 2 ^ 31 \<Longrightarrow>
     (\<forall>r \<in> set records. Priority r \<le> PessimizedPriority) \<Longrightarrow> elector_step srt (s, h) (s', h)"
| pessimize_endpoint: "elector_step srt (s, h) (PessimizeEndpoint srt endpoint s, h)"
| pessimize_node: "elector_step srt (s, h) (PessimizeNode srt nodeId s, h)"
| set_stat_collector: "elector_step srt (s, h) (SetStatCollector g1 g2 g3 s, h)"
| link_obj: "LinkObjToEndpoint key obj tag s h = Some (ok, s', h') \<Longrightarrow> elector_step srt (s, h) (s', h')"
| unlink_obj: "Unlink obj h = Some h' \<Longrightarrow> elector_step srt (s, h) (s, h')"

inductive elector_reachable :: "(TEndpointRecord list \<Rightarrow> TEndpointRecord list) \<Rightarrow> elector_sys \<Rightarrow> bool"
  for srt where
  start: "elector_reachable srt (init_elector, \<lparr>Registries = [], ObjRegistry = []\<rparr>)"
| step: "elector_reachable srt x \<Longrightarrow> elector_step srt x y \<Longrightarrow> elector_reachable srt y"

fun sys_inv :: "elector_sys \<Rightarrow> bool" where
  "sys_inv (s, h) \<longleftrightarrow> elector_inv s \<and> link_inv h \<and> tags_inv s h"

lemma tags_inv_alt: "tags_inv s h \<longleftrightarrow> tagged_addrs s \<subseteq> {..<length (Registries h)}"
  by (auto simp: tags_inv_def)

lemma tags_inv_mono:
  "tags_inv s h \<Longrightarrow> tagged_addrs s' \<subseteq> tagged_addrs s \<Longrightarrow> length (Registries h') = length (Registries h) \<Longrightarrow> tags_inv s' h'"
  unfolding tags_inv_alt by (simp only: order_trans)

lemma sys_inv_init: "sys_inv (init_elector, \<lparr>Registries = [], ObjRegistry = []\<rparr>)"
  by (simp add: init_elector_def elector_inv_def records_inv_def index_inv_def order_inv_def ratio_inv_def
      link_inv_def tags_inv_def GetBestK_def)

lemma elector_step_inv:
  assumes "sorter Priority srt" "elector_step srt x y" "sys_inv x"
  shows "sys_inv y"
  using assms(2,3)
proof (induction rule: elector_step.induct)
  case (set_new_state records s removed nt s' h)
  then have e: "elector_inv s" "link_inv h" "tags_inv s h" by simp_all
  show ?case
    by (rule SetNewState_result [OF assms(1) e(1) set_new_state(2,3)])
       (use e set_new_state(1) tags_inv_mono [OF e(3), of s' h] in auto)
next
  case (pessimize_endpoint s h endpoint)
  then show ?case
    using PessimizeEndpoint_result [OF assms(1), of s endpoint] tags_inv_mono [of s h _ h] by auto
next
  case (pessimize_node s h nodeId)
  then show ?case
    using PessimizeNode_result [OF assms(1), of s nodeId] tags_inv_mono [of s h _ h]
    by (cases "nodeId = 0") (auto simp: PessimizeNode_def [of srt 0])
next
  case (set_stat_collector s h g1 g2 g3)
  then show ?case
    by (simp add: SetStatCollector_def elector_inv_def index_inv_def order_inv_def ratio_inv_def tags_inv_def)
next
  case (link_obj key obj tag s h ok s' h')
  then have e: "elector_inv s" "link_inv h" "tags_inv s h" by simp_all
  show ?case
    by (rule LinkObjToEndpoint_result [OF e(2,3), of key obj tag]) (use e(1) link_obj(1) in simp)
next
  case (unlink_obj obj h h' s)
  then have e: "elector_inv s" "link_inv h" "tags_inv s h" by simp_all
  show ?case
    by (rule Unlink_result [OF e(2), of obj]) (use e unlink_obj(1) tags_inv_mono [OF e(3) order_refl, of h'] in simp)
qed

lemma elector_reachable_inv:
  "elector_reachable srt x \<Longrightarrow> sorter Priority srt \<Longrightarrow> sys_inv x"
proof (induction rule: elector_reachable.induct)
  case start
  show ?case by (rule sys_inv_init)
next
  case (step x y)
  from elector_step_inv [OF step.prems step.hyps(2) step.IH [OF step.prems]] show ?case .
qed

lemma for_each_defined:
  "\<forall>r \<in> set rs. lookup bn (NodeId r) \<noteq> None \<Longrightarrow> for_each maxP tag bn h rs \<noteq> None"
  by (induction rs) (auto simp: Let_def split: option.splits)

text \<open>\<^verbatim>\<open>std::sort\<close> may be any routine with the contract of the locale; a stable one is an instance.\<close>

interpretation by_priority: sorter Priority "sort_key Priority"
  by unfold_locales simp_all

lemma remove_missing_node:
  "remove_missing idx rs st = Some st' \<Longrightarrow> (\<forall>r \<in> set rs. Endpoint r \<notin> set idx \<longrightarrow> NodeId r \<noteq> n) \<Longrightarrow>
   lookup (snd (snd (snd st'))) n = lookup (snd (snd (snd st))) n"
  by (induction idx rs st rule: remove_missing.induct) (auto split: if_splits option.splits)

lemma add_records_node:
  "n \<notin> NodeId ` set rs \<Longrightarrow> lookup (snd (add_records rs known bn)) n = lookup bn n"
  by (induction rs known bn rule: add_records.induct) (auto simp: set_node_record_lookup)

lemma SetNewState_node_kept:
  assumes "sorter Priority srt" "SetNewState srt records s = Some (removed, nt, s')"
    "\<forall>r \<in> set (Records s). Endpoint r \<notin> Endpoint ` set records \<longrightarrow> NodeId r \<noteq> n" "n \<notin> NodeId ` set records"
  shows "lookup (KnownEndpointsByNodeId s') n = lookup (KnownEndpointsByNodeId s) n \<and> set (Records s') \<subseteq> set records"
proof -
  obtain idx us where u: "uniq_records [] [] records = (idx, us)" by (cases "uniq_records [] [] records")
  from uniq_records_eq [OF this] have us: "set idx = Endpoint ` set records" "set us \<subseteq> set records"
    by auto
  have su: "set (srt us) = set us"
    using assms(1) by (rule sorter.set_srt)
  from assms(2) u obtain known bn where rm: "remove_missing idx (Records s) ([], [], KnownEndpoints s, KnownEndpointsByNodeId s)
       = Some (removed, nt, known, bn)"
      and s': "KnownEndpointsByNodeId s' = snd (add_records (srt us) known bn)" "Records s' = srt us"
    by (auto simp: SetNewState_def Let_def bind_eq_Some_conv case_prod_unfold split: if_splits)
  have "lookup bn n = lookup (KnownEndpointsByNodeId s) n"
    using remove_missing_node [OF rm, of n] assms(3) us(1) by simp
  moreover have "n \<notin> NodeId ` set (srt us)"
    using assms(4) us(2) su by auto
  ultimately show ?thesis
    using s' us(2) su by (simp add: add_records_node)
qed

section \<open>Properties\<close>

text \<open>
  C16. In every reachable state of the elector the four methods that carry an internal check
  (\<^verbatim>\<open>SetNewState\<close>, \<^verbatim>\<open>LinkObjToEndpoint\<close>, \<^verbatim>\<open>Unlink\<close>, \<^verbatim>\<open>ForEachEndpoint\<close>) run without an abort, a dangling
  registry or an out-of-range lookup, whatever the sorting routine does with ties.
\<close>

theorem elector_never_aborts:
  assumes "sorter Priority srt" "elector_reachable srt (s, h)"
    "length records < 2 ^ 31" "\<forall>r \<in> set records. Priority r \<le> PessimizedPriority"
  shows "SetNewState srt records s \<noteq> None \<and> LinkObjToEndpoint key obj tag s h \<noteq> None \<and>
    Unlink obj h \<noteq> None \<and> ForEachEndpoint minPriority maxPriority tag s h \<noteq> None"
proof -
  have inv: "elector_inv s" "link_inv h" "tags_inv s h"
    using elector_reachable_inv [OF assms(2,1)] by auto
  have "SetNewState srt records s \<noteq> None"
    by (rule SetNewState_result [OF assms(1) inv(1) assms(3,4)]) simp
  moreover have "LinkObjToEndpoint key obj tag s h \<noteq> None"
    by (rule LinkObjToEndpoint_result [OF inv(2,3), of key obj tag]) simp
  moreover have "Unlink obj h \<noteq> None"
    by (rule Unlink_result [OF inv(2), of obj]) simp
  moreover have "ForEachEndpoint minPriority maxPriority tag s h \<noteq> None"
    using inv(1) unfolding ForEachEndpoint_def
    by (intro for_each_defined) (auto simp: elector_inv_def index_inv_def dest: set_dropWhileD)
  ultimately show ?thesis by simp
qed

theorem elector_never_aborts_witness:
  "SetNewState (sort_key Priority) [empty_record] init_elector \<noteq> None"
  using elector_never_aborts [OF by_priority.sorter_axioms elector_reachable.start, of "[empty_record]"]
  by (simp add: empty_record_def PessimizedPriority_def)

text \<open>
  C17. With no usable preference, \<^verbatim>\<open>GetEndpoint\<close> returns a record of the list whose priority is
  the best one, for any random number in range; in particular never a pessimized endpoint while
  another one is left.
\<close>

theorem GetEndpoint_best:
  assumes "sorter Priority srt" "elector_reachable srt (s, h)" "Records s \<noteq> []"
    and "\<forall>n > 0. RandomNumber n < n"
    and "KeyNodeId key = 0 \<or> lookup (KnownEndpointsByNodeId s) (KeyNodeId key) = None"
    and "KeyEndpoint key = [] \<or> KeyEndpoint key \<notin> Endpoint ` set (Records s)"
  shows "\<exists>r \<in> set (Records s). GetEndpoint RandomNumber key False s = Some r \<and>
    (\<forall>r' \<in> set (Records s). Priority r \<le> Priority r') \<and>
    ((\<exists>r' \<in> set (Records s). \<not> pessimized r') \<longrightarrow> \<not> pessimized r)"
proof -
  have inv: "elector_inv s" using elector_reachable_inv [OF assms(2,1)] by simp
  then have o: "sorted (map Priority (Records s))" "BestK s = GetBestK (Records s)"
     "length (Records s) < 2 ^ 31" "lookup (KnownEndpoints s) = lookup (by_endpoint (Records s))"
     "\<forall>r \<in> set (Records s). Priority r \<le> PessimizedPriority"
    by (simp_all add: elector_inv_def order_inv_def records_inv_def index_inv_def)
  obtain k where k: "GetBestK (Records s) = int k" using GetBestK_spec [OF assms(3) o(3)] by metis
  define i where "i = RandomNumber (Suc k)"
  have "i < Suc k" using assms(4) by (simp add: i_def)
  then have i: "i < length (Records s)" "\<forall>r \<in> set (Records s). Priority (Records s ! i) \<le> Priority r"
    using GetBestK_min [OF o(1) assms(3) o(3), of i] k by auto
  have "lookup (KnownEndpoints s) (KeyEndpoint key) = None \<or> KeyEndpoint key = []"
    using assms(6) o(4) by (auto simp: map_of_indexed_None)
  then have "GetEndpoint RandomNumber key False s = Some (Records s ! i)"
    using assms(5) o(2) k i(1) by (auto simp: GetEndpoint_def i_def nat_add_distrib)
  moreover have "\<not> pessimized (Records s ! i)" if "\<exists>r' \<in> set (Records s). \<not> pessimized r'"
    using that i(2) o(5) by (metis order_antisym)
  ultimately show ?thesis
    using i nth_mem [OF i(1)] by blast
qed

text \<open>A concrete elector with two endpoints, used by the witnesses.\<close>

abbreviation ep_a :: TEndpointRecord where
  "ep_a \<equiv> \<lparr>Endpoint = ''a'', Priority = 0, SslTargetNameOverride = [], NodeId = 1, Location = []\<rparr>"

abbreviation ep_b :: TEndpointRecord where
  "ep_b \<equiv> \<lparr>Endpoint = ''b'', Priority = 5, SslTargetNameOverride = [], NodeId = 2, Location = []\<rparr>"

definition ab_elector :: TEndpointElectorSafe where
  "ab_elector = \<lparr>Records = [ep_a, ep_b], KnownEndpoints = [(''a'', ep_a), (''b'', ep_b)],
     KnownEndpointsByNodeId = [(1, \<lparr>Record = ep_a, TaggedObjs = []\<rparr>), (2, \<lparr>Record = ep_b, TaggedObjs = []\<rparr>)],
     BestK = 0, PessimizationRatio = 0, EndpointCountGauge = None, PessimizationRatioGauge = None,
     EndpointActiveGauge = None\<rparr>"

lemma SetNewState_ab: "SetNewState (sort_key Priority) [ep_b, ep_a] init_elector = Some ([], [], ab_elector)"
  by (simp add: SetNewState_def init_elector_def ab_elector_def set_node_record_def GetBestK_def
      GetBestK_loop.simps SetValue_def)

lemma ab_reachable: "elector_reachable (sort_key Priority) (ab_elector, \<lparr>Registries = [], ObjRegistry = []\<rparr>)"
  by (rule elector_reachable.step [OF elector_reachable.start], rule elector_step.set_new_state, rule SetNewState_ab)
     (simp_all add: PessimizedPriority_def)

theorem GetEndpoint_best_witness:
  "\<exists>r \<in> set (Records ab_elector). GetEndpoint (\<lambda>_. 0) \<lparr>KeyEndpoint = [], KeyNodeId = 0\<rparr> False ab_elector = Some r \<and>
    (\<forall>r' \<in> set (Records ab_elector). Priority r \<le> Priority r')"
  using GetEndpoint_best [OF by_priority.sorter_axioms ab_reachable, of "\<lambda>_. 0" "\<lparr>KeyEndpoint = [], KeyNodeId = 0\<rparr>"]
  by (simp add: ab_elector_def) 

text \<open>
  C18. \<^verbatim>\<open>SetNewState\<close> from a reachable state keeps one record per endpoint name of the discovery
  result, orders them by priority, reports exactly the old endpoints that disappeared, in
  their old order, and indexes every kept record by its endpoint name.
\<close>

theorem SetNewState_functional:
  assumes "sorter Priority srt" "elector_reachable srt (s, h)"
    "length records < 2 ^ 31" "\<forall>r \<in> set records. Priority r \<le> PessimizedPriority"
  shows "\<exists>removed nt s'. SetNewState srt records s = Some (removed, nt, s') \<and>
    removed = map Endpoint (filter (\<lambda>r. Endpoint r \<notin> Endpoint ` set records) (Records s)) \<and>
    set (Records s') \<subseteq> set records \<and> Endpoint ` set (Records s') = Endpoint ` set records \<and>
    distinct (map Endpoint (Records s')) \<and> sorted (map Priority (Records s')) \<and>
    (\<forall>r \<in> set (Records s'). lookup (KnownEndpoints s') (Endpoint r) = Some r)"
proof -
  have inv: "elector_inv s"
    using elector_reachable_inv [OF assms(2,1)] by auto
  show ?thesis
    by (rule SetNewState_result [OF assms(1) inv assms(3,4)])
       (auto simp: elector_inv_def records_inv_def index_inv_def order_inv_def map_of_indexed)
qed

theorem SetNewState_functional_witness:
  "\<exists>removed nt s'. SetNewState (sort_key Priority) [ep_b] ab_elector = Some (removed, nt, s') \<and> removed = [''a''] \<and>
    Endpoint ` set (Records s') = {''b''}"
  using SetNewState_functional [OF by_priority.sorter_axioms ab_reachable, of "[ep_b]"]
  by (auto simp: ab_elector_def PessimizedPriority_def)

text \<open>
  C19. \<^verbatim>\<open>PessimizeNode\<close> of a node other than 0 gives exactly the endpoints of that node the
  pessimized priority, leaves every other record as it is and keeps the list ordered, so that the
  node's endpoints move behind every endpoint that is not pessimized.
\<close>

theorem PessimizeNode_functional:
  assumes "sorter Priority srt" "elector_reachable srt (s, h)" "nodeId \<noteq> 0"
  shows "mset (Records (PessimizeNode srt nodeId s)) =
      mset (map (\<lambda>r. if NodeId r = nodeId then r\<lparr>Priority := PessimizedPriority\<rparr> else r) (Records s)) \<and>
    sorted (map Priority (Records (PessimizeNode srt nodeId s))) \<and>
    BestK (PessimizeNode srt nodeId s) = GetBestK (Records (PessimizeNode srt nodeId s))"
proof -
  have "elector_inv s"
    using elector_reachable_inv [OF assms(2,1)] by auto
  from PessimizeNode_result [OF assms(1) this assms(3)] show ?thesis
    by (simp add: elector_inv_def order_inv_def)
qed

theorem PessimizeNode_functional_witness:
  "mset (Records (PessimizeNode (sort_key Priority) 1 ab_elector)) = {#ep_a\<lparr>Priority := PessimizedPriority\<rparr>, ep_b#}"
  using PessimizeNode_functional [OF by_priority.sorter_axioms ab_reachable, of 1]
  by (simp add: ab_elector_def)

text \<open>
  C20. The pessimization ratio stays between 0 and 100 in every reachable state, and it is a
  multiple of 100 divided by the number of endpoints, rounded down: with more than 100 endpoints
  it is 0 however many of them are pessimized.
\<close>

theorem pessimization_ratio_bounds:
  assumes "sorter Priority srt" "elector_reachable srt (s, h)"
  shows "0 \<le> GetPessimizationRatio s \<and> GetPessimizationRatio s \<le> 100 \<and>
    (length (Records s) > 100 \<longrightarrow> GetPessimizationRatio s = 0)"
proof -
  have "ratio_inv s"
    using elector_reachable_inv [OF assms(2,1)] by (simp add: elector_inv_def)
  then obtain p where p: "p \<le> length (filter pessimized (Records s))"
    "PessimizationRatio s = int (p * (100 div length (Records s)))"
    by (auto simp: ratio_inv_def)
  have "p * (100 div length (Records s)) \<le> length (Records s) * (100 div length (Records s))"
    using order_trans [OF p(1) length_filter_le] by (intro mult_right_mono) auto
  also have "\<dots> \<le> 100" by simp
  finally have "int (p * (100 div length (Records s))) \<le> 100"
    by (metis of_nat_le_iff of_nat_numeral)
  then show ?thesis by (simp add: GetPessimizationRatio_def p(2))
qed

theorem pessimization_ratio_bounds_witness:
  "GetPessimizationRatio ab_elector \<le> 100"
  using pessimization_ratio_bounds [OF by_priority.sorter_axioms ab_reachable] by simp

text \<open>
  C21. A successful \<^verbatim>\<open>LinkObjToEndpoint\<close> moves the object to the registry of the requested node: in
  every reachable state an object is listed by at most one registry, the one its own pointer
  names, and linking to a node the elector does not know changes nothing.
\<close>

theorem registry_links_consistent:
  assumes "sorter Priority srt" "elector_reachable srt (s, h)"
    "LinkObjToEndpoint key obj tag s h = Some (ok, s', h')"
  shows "(\<forall>o' a. lookup (ObjRegistry h') o' = Some a \<longleftrightarrow> a < length (Registries h') \<and> o' \<in> set (Objs (Registries h' ! a))) \<and>
    (lookup (KnownEndpointsByNodeId s) (KeyNodeId key) = None \<longrightarrow> \<not> ok \<and> s' = s \<and> h' = h) \<and>
    (lookup (KnownEndpointsByNodeId s) (KeyNodeId key) \<noteq> None \<longrightarrow> ObjectRegistred obj h')"
proof -
  have inv: "link_inv h" "tags_inv s h"
    using elector_reachable_inv [OF assms(2,1)] by auto
  show ?thesis
    by (rule LinkObjToEndpoint_result [OF inv, of key obj tag]) (use assms(3) in \<open>simp add: link_inv_def\<close>)
qed

theorem registry_links_consistent_witness:
  "\<exists>s' h'. LinkObjToEndpoint \<lparr>KeyEndpoint = [], KeyNodeId = 2\<rparr> 7 0 ab_elector \<lparr>Registries = [], ObjRegistry = []\<rparr>
       = Some (True, s', h') \<and> ObjectRegistred 7 h'"
proof -
  obtain s' h' where l: "LinkObjToEndpoint \<lparr>KeyEndpoint = [], KeyNodeId = 2\<rparr> 7 0 ab_elector \<lparr>Registries = [], ObjRegistry = []\<rparr>
       = Some (True, s', h')"
    by (simp add: LinkObjToEndpoint_def ab_elector_def Link_def Add_def Let_def)
  with registry_links_consistent [OF by_priority.sorter_axioms ab_reachable l] show ?thesis
    by (simp add: ab_elector_def)
qed

text \<open>
  When a discovery moves an endpoint to another node id, \<^verbatim>\<open>SetNewState\<close> keeps the index entry
  of the old node id: the endpoint was not removed, so the entry is never erased, and \<^verbatim>\<open>GetEndpoint\<close>
  with the old node id still returns the record of the previous discovery.
\<close>

theorem stale_node_entry:
  assumes "sorter Priority srt" "SetNewState srt records s = Some (removed, nt, s')"
    "lookup (KnownEndpointsByNodeId s) n = Some node" "n \<noteq> 0"
    "\<forall>r \<in> set (Records s). Endpoint r \<notin> Endpoint ` set records \<longrightarrow> NodeId r \<noteq> n" "n \<notin> NodeId ` set records"
  shows "n \<notin> NodeId ` set (Records s') \<and>
    GetEndpoint RandomNumber \<lparr>KeyEndpoint = endpoint, KeyNodeId = n\<rparr> onlyPreferred s' = Some (Record node)"
  using SetNewState_node_kept [OF assms(1,2,5,6)] assms(3,4,6) by (auto simp: GetEndpoint_def)

theorem stale_node_entry_witness:
  "\<exists>s'. SetNewState (sort_key Priority) [ep_a\<lparr>NodeId := 9\<rparr>, ep_b] ab_elector = Some ([], [], s') \<and>
     GetEndpoint (\<lambda>_. 0) \<lparr>KeyEndpoint = ''a'', KeyNodeId = 1\<rparr> False s' = Some ep_a"
proof -
  obtain s' where s': "SetNewState (sort_key Priority) [ep_a\<lparr>NodeId := 9\<rparr>, ep_b] ab_elector = Some ([], [], s')"
    by (simp add: SetNewState_def ab_elector_def set_node_record_def GetBestK_def GetBestK_loop.simps SetValue_def)
  with stale_node_entry [OF by_priority.sorter_axioms s', of 1] show ?thesis
    by (auto simp: ab_elector_def)
qed

end
