(* ===== verification/Session.thy ===== *)
theory Session
  imports OperationId Status Endpoints
begin

text \<open>
  A session of the query and the table service, \<^verbatim>\<open>client/impl/session/kqp_session_common.{h,cpp}\<close>: the
  state machine every holder of a session drives, with the flags the pool keeps in it. Sessions are
  objects with an address; the operations here work on the object, the pool on the heap of objects.
  Instants and durations are the unsigned microsecond counts of \<^verbatim>\<open>util/datetime/base.h\<close>. The close
  handler is the pool or nothing, a truth value.
\<close>

section \<open>Time\<close>

type_synonym TInstant = "64 word"
type_synonym TDuration = "64 word"
type_synonym TDeadline = int

definition SumWithSaturation :: "64 word \<Rightarrow> 64 word \<Rightarrow> 64 word" where
  "SumWithSaturation a b = (if - 1 - a < b then - 1 else a + b)"

definition DiffWithSaturation :: "64 word \<Rightarrow> 64 word \<Rightarrow> 64 word" where
  "DiffWithSaturation a b = (if a < b then 0 else a - b)"

section \<open>The session object\<close>

datatype EState = S_STANDALONE | S_IDLE | S_BROKEN | S_ACTIVE | S_CLOSING

record TKqpSessionCommon =
  SessionId :: string
  EndpointKey :: TEndpointKey
  IsOwnedBySessionPool :: bool
  SessionState :: EState
  CloseRequested :: bool
  TimeToTouch :: TInstant
  TimeInPast :: TInstant
  CloseHandler :: bool
  NeedUpdateActiveCounter :: bool
  PropagatedDeadline :: "TDeadline option"

definition GetNodeIdFromSession :: "(string \<Rightarrow> (string \<times> string) option) \<Rightarrow> string \<Rightarrow> 64 word" where
  "GetNodeIdFromSession uri_parse sessionId =
     (if sessionId = [] then 0
      else (case ParseOperationId uri_parse sessionId False of
          Inl _ \<Rightarrow> 0
        | Inr opId \<Rightarrow>
            (case GetValue ''node_id'' opId of
               Inl _ \<Rightarrow> 0
             | Inr nodeIds \<Rightarrow>
                 if length nodeIds \<noteq> 1 then 0 else FromStringWithDefault_ui64 (hd nodeIds) 0)))"

text \<open>The clock is read twice; the two readings are arguments.\<close>

definition new_session ::
  "(string \<Rightarrow> (string \<times> string) option) \<Rightarrow> TInstant \<Rightarrow> TInstant \<Rightarrow> string \<Rightarrow> string \<Rightarrow> bool \<Rightarrow> TKqpSessionCommon" where
  "new_session uri_parse now1 now2 sessionId endpoint isOwnedBySessionPool =
     \<lparr>SessionId = sessionId,
      EndpointKey = \<lparr>KeyEndpoint = endpoint, KeyNodeId = GetNodeIdFromSession uri_parse sessionId\<rparr>,
      IsOwnedBySessionPool = isOwnedBySessionPool, SessionState = S_STANDALONE, CloseRequested = False,
      TimeToTouch = now1, TimeInPast = now2, CloseHandler = False, NeedUpdateActiveCounter = False,
      PropagatedDeadline = None\<rparr>"

definition MarkBroken :: "TKqpSessionCommon \<Rightarrow> bool \<times> TKqpSessionCommon" where
  "MarkBroken s =
     (let firstTerminal = (\<not> CloseRequested s \<and> SessionState s \<noteq> S_BROKEN);
          s = (if SessionState s = S_ACTIVE then s\<lparr>NeedUpdateActiveCounter := True\<rparr> else s)
      in (firstTerminal, s\<lparr>SessionState := S_BROKEN\<rparr>))"

definition MarkAsClosing :: "TKqpSessionCommon \<Rightarrow> bool \<times> TKqpSessionCommon" where
  "MarkAsClosing s =
     (if CloseRequested s \<or> SessionState s = S_BROKEN then (False, s)
      else
        (let s = s\<lparr>CloseRequested := True\<rparr>
         in if SessionState s = S_IDLE then (True, s)
            else
              (let s = (if SessionState s = S_ACTIVE then s\<lparr>NeedUpdateActiveCounter := True\<rparr> else s)
               in (True, s\<lparr>SessionState := S_CLOSING\<rparr>))))"

definition MarkActive :: "TKqpSessionCommon \<Rightarrow> bool \<times> TKqpSessionCommon" where
  "MarkActive s =
     (if SessionState s = S_BROKEN \<or> SessionState s = S_CLOSING then (False, s)
      else (True, s\<lparr>SessionState := S_ACTIVE, NeedUpdateActiveCounter := False\<rparr>))"

definition MarkIdle :: "TKqpSessionCommon \<Rightarrow> bool \<times> TKqpSessionCommon" where
  "MarkIdle s =
     (if CloseRequested s \<or> SessionState s = S_BROKEN then (False, s)
      else (True, s\<lparr>SessionState := S_IDLE, NeedUpdateActiveCounter := False\<rparr>))"

definition CanReturnToPool :: "TKqpSessionCommon \<Rightarrow> bool" where
  "CanReturnToPool s \<longleftrightarrow> SessionState s = S_IDLE \<and> \<not> CloseRequested s"

definition SetNeedUpdateActiveCounter :: "bool \<Rightarrow> TKqpSessionCommon \<Rightarrow> TKqpSessionCommon" where
  "SetNeedUpdateActiveCounter flag s = s\<lparr>NeedUpdateActiveCounter := flag\<rparr>"

definition ScheduleTimeToTouch :: "TInstant \<Rightarrow> TDuration \<Rightarrow> bool \<Rightarrow> TKqpSessionCommon \<Rightarrow> TKqpSessionCommon" where
  "ScheduleTimeToTouch now interval updateTimeInPast s =
     (let s = (if updateTimeInPast then s\<lparr>TimeInPast := now\<rparr> else s)
      in s\<lparr>TimeToTouch := SumWithSaturation now interval\<rparr>)"

definition UpdateServerCloseHandler :: "bool \<Rightarrow> TKqpSessionCommon \<Rightarrow> TKqpSessionCommon" where
  "UpdateServerCloseHandler handler s = s\<lparr>CloseHandler := handler\<rparr>"

section \<open>Close commands\<close>

definition YDB_SERVER_HINTS :: string where
  "YDB_SERVER_HINTS = ''x-ydb-server-hints''"

definition YDB_SESSION_CLOSE :: string where
  "YDB_SESSION_CLOSE = ''session-close''"

definition IsSessionCloseRequested :: "TStatus \<Rightarrow> bool" where
  "IsSessionCloseRequested status \<longleftrightarrow>
     list_ex (\<lambda>v. v = YDB_SESSION_CLOSE) (mm_range YDB_SERVER_HINTS (GetResponseMetadata status))"

datatype TSessionCloseCommand =
  TSessionCloseCommand (Reason: string) (Transition: "TKqpSessionCommon \<Rightarrow> bool \<times> TKqpSessionCommon")

definition PoolIdleTimeout :: TSessionCloseCommand where
  "PoolIdleTimeout = TSessionCloseCommand ''pool_idle_timeout'' MarkBroken"
definition PoolGracefulShutdown :: TSessionCloseCommand where
  "PoolGracefulShutdown = TSessionCloseCommand ''pool_graceful_shutdown'' MarkBroken"
definition ClientTimeout :: TSessionCloseCommand where
  "ClientTimeout = TSessionCloseCommand ''client_timeout'' MarkBroken"
definition ClientCancelled :: TSessionCloseCommand where
  "ClientCancelled = TSessionCloseCommand ''client_cancelled'' MarkBroken"
definition AttachClosed :: TSessionCloseCommand where
  "AttachClosed = TSessionCloseCommand ''attach_closed'' MarkBroken"
definition TransportError :: TSessionCloseCommand where
  "TransportError = TSessionCloseCommand ''transport_error'' MarkBroken"
definition NodeShutdown :: TSessionCloseCommand where
  "NodeShutdown = TSessionCloseCommand ''node_shutdown'' MarkAsClosing"
definition SessionShutdown :: TSessionCloseCommand where
  "SessionShutdown = TSessionCloseCommand ''session_shutdown'' MarkAsClosing"
definition BadSession :: TSessionCloseCommand where
  "BadSession = TSessionCloseCommand ''bad_session'' MarkBroken"
definition SessionBusy :: TSessionCloseCommand where
  "SessionBusy = TSessionCloseCommand ''session_busy'' MarkBroken"

lemmas close_commands = PoolIdleTimeout_def PoolGracefulShutdown_def ClientTimeout_def ClientCancelled_def
  AttachClosed_def TransportError_def NodeShutdown_def SessionShutdown_def BadSession_def SessionBusy_def

definition IsBreakingTransport :: "TStatus \<Rightarrow> bool" where
  "IsBreakingTransport status \<longleftrightarrow>
     IsTransportError status \<and> GetStatus status \<noteq> CLIENT_RESOURCE_EXHAUSTED \<and> GetStatus status \<noteq> CLIENT_OUT_OF_RANGE"

definition FromStatus :: "TStatus \<Rightarrow> TSessionCloseCommand option" where
  "FromStatus status =
     map_option snd (find (\<lambda>entry. fst entry status)
       [(\<lambda>st. GetStatus st = CLIENT_DEADLINE_EXCEEDED, ClientTimeout),
        (\<lambda>st. GetStatus st = CLIENT_CANCELLED, ClientCancelled),
        (IsBreakingTransport, TransportError),
        (\<lambda>st. GetStatus st = SESSION_BUSY, SessionBusy),
        (\<lambda>st. GetStatus st = BAD_SESSION, BadSession),
        (IsSessionCloseRequested, SessionShutdown)])"

definition RandomizeThreshold :: "(64 word \<Rightarrow> 64 word) \<Rightarrow> TDuration \<Rightarrow> TDuration" where
  "RandomizeThreshold random duration =
     (let randomLimit = duration div 4
      in if randomLimit < 2 then duration else duration + random randomLimit)"

end
