(* ===== verification/SessionPool.thy ===== *)
theory SessionPool
  imports Session
begin

text \<open>
  The session pool, \<^verbatim>\<open>client/impl/session/session_pool.{h,cpp}\<close>. The state is the heap of session
  objects by address, the pool, and the log of what the pool tells its environment: the replies to the
  requests for a session and the statistics. Reading an address that is not on the heap (a session that
  was deleted), and a failed \<^verbatim>\<open>Y_ABORT_UNLESS\<close>, is \<open>None\<close>. Each operation is one transition of this
  state, the sections under the pool lock included. The operations of the client the pool calls back
  (\<^verbatim>\<open>ISessionClient\<close>) are arguments.
\<close>

section \<open>State\<close>

type_synonym addr = nat

record IGetSessionCtx =
  CtxId :: nat
  CtxDeadline :: TDeadline

record TWaitersQueue =
  MaxQueueSize :: "32 word"
  Waiters :: "(TDeadline, IGetSessionCtx) mmap"

record TSessionCounter =
  Gauge :: "int option"
  OldValue :: int

record TSessionPool =
  Closed :: bool
  Sessions :: "(TInstant, addr) mmap"
  WaitersQueue :: TWaitersQueue
  ActiveSessions :: int
  MaxActiveSessions :: "32 word"
  MinPoolSize :: "32 word"
  ActiveSessionsCounter :: TSessionCounter
  InPoolSessionsCounter :: TSessionCounter
  SessionWaiterCounter :: TSessionCounter

datatype pool_event =
    ReplySession IGetSessionCtx addr
  | ReplyError IGetSessionCtx
  | ReplyNewSession IGetSessionCtx
  | ScheduleOnDeadlineWaiterCleanup IGetSessionCtx
  | IncPendingRequests | IncConnectionTimeouts | IncFakeSessions
  | IncSessionClosed string
  | UpdateConnectionCount int int
  | PessimizeNodeId "64 word"

record pool_sys =
  Heap :: "(addr, TKqpSessionCommon) amap"
  Pool :: TSessionPool
  Log :: "pool_event list"

abbreviation waiting :: "pool_sys \<Rightarrow> (TDeadline, IGetSessionCtx) mmap" where
  "waiting s \<equiv> Waiters (WaitersQueue (Pool s))"

definition emit :: "pool_event \<Rightarrow> pool_sys \<Rightarrow> pool_sys" where
  "emit e s = s\<lparr>Log := Log s @ [e]\<rparr>"

definition on_session :: "addr \<Rightarrow> (TKqpSessionCommon \<Rightarrow> TKqpSessionCommon) \<Rightarrow> pool_sys \<Rightarrow> pool_sys option" where
  "on_session a f s =
     (case lookup (Heap s) a of None \<Rightarrow> None | Some x \<Rightarrow> Some (s\<lparr>Heap := AList.update a (f x) (Heap s)\<rparr>))"

definition call_session ::
  "addr \<Rightarrow> (TKqpSessionCommon \<Rightarrow> bool \<times> TKqpSessionCommon) \<Rightarrow> pool_sys \<Rightarrow> (bool \<times> pool_sys) option" where
  "call_session a f s =
     (case lookup (Heap s) a of
        None \<Rightarrow> None
      | Some x \<Rightarrow> Some (fst (f x), s\<lparr>Heap := AList.update a (snd (f x)) (Heap s)\<rparr>))"

definition free_session :: "addr \<Rightarrow> pool_sys \<Rightarrow> pool_sys option" where
  "free_session a s =
     (case lookup (Heap s) a of None \<Rightarrow> None | Some _ \<Rightarrow> Some (s\<lparr>Heap := AList.delete a (Heap s)\<rparr>))"

definition abort_unless :: "bool \<Rightarrow> unit option" where
  "abort_unless b = (if b then Some () else None)"

section \<open>Waiters\<close>

definition TryPush :: "IGetSessionCtx \<Rightarrow> TWaitersQueue \<Rightarrow> TWaitersQueue option" where
  "TryPush p q =
     (if length (Waiters q) < unat (MaxQueueSize q)
      then Some (q\<lparr>Waiters := mm_insert (CtxDeadline p) p (Waiters q)\<rparr>)
      else None)"

definition TryGet :: "TWaitersQueue \<Rightarrow> IGetSessionCtx option \<times> TWaitersQueue" where
  "TryGet q =
     (case Waiters q of
        [] \<Rightarrow> (None, q)
      | (d, p) # rest \<Rightarrow> (Some p, q\<lparr>Waiters := rest\<rparr>))"

fun GetOld_loop :: "TDeadline \<Rightarrow> (TDeadline, IGetSessionCtx) mmap \<Rightarrow> IGetSessionCtx list \<times> (TDeadline, IGetSessionCtx) mmap" where
  "GetOld_loop deadline [] = ([], [])"
| "GetOld_loop deadline ((d, p) # rest) =
     (if deadline < d then ([], (d, p) # rest)
      else (let (old, rest) = GetOld_loop deadline rest in (p # old, rest)))"

definition GetOld :: "TDeadline \<Rightarrow> TWaitersQueue \<Rightarrow> IGetSessionCtx list \<times> TWaitersQueue" where
  "GetOld deadline q =
     (let (old, rest) = GetOld_loop deadline (Waiters q) in (old, q\<lparr>Waiters := rest\<rparr>))"

section \<open>Statistics\<close>

definition Apply :: "int \<Rightarrow> TSessionCounter \<Rightarrow> TSessionCounter" where
  "Apply newValue c =
     (case Gauge c of
        None \<Rightarrow> c
      | Some g \<Rightarrow> c\<lparr>Gauge := Some (g + (newValue - OldValue c)), OldValue := newValue\<rparr>)"

definition UpdateStats :: "pool_sys \<Rightarrow> pool_sys" where
  "UpdateStats s =
     (let p = Pool s;
          p = p\<lparr>ActiveSessionsCounter := Apply (ActiveSessions p) (ActiveSessionsCounter p),
                InPoolSessionsCounter := Apply (int (length (Sessions p))) (InPoolSessionsCounter p),
                SessionWaiterCounter := Apply (int (length (Waiters (WaitersQueue p)))) (SessionWaiterCounter p)\<rparr>
      in emit (UpdateConnectionCount (int (length (Sessions p))) (ActiveSessions p)) (s\<lparr>Pool := p\<rparr>))"

definition RecordSessionClosed :: "string \<Rightarrow> pool_sys \<Rightarrow> pool_sys" where
  "RecordSessionClosed reason s = emit (IncSessionClosed reason) s"

definition new_pool :: "32 word \<Rightarrow> 32 word \<Rightarrow> TSessionPool" where
  "new_pool maxActiveSessions minPoolSize =
     \<lparr>Closed = False, Sessions = [], WaitersQueue = \<lparr>MaxQueueSize = maxActiveSessions * 10, Waiters = []\<rparr>,
      ActiveSessions = 0, MaxActiveSessions = maxActiveSessions, MinPoolSize = minPoolSize,
      ActiveSessionsCounter = \<lparr>Gauge = None, OldValue = 0\<rparr>, InPoolSessionsCounter = \<lparr>Gauge = None, OldValue = 0\<rparr>,
      SessionWaiterCounter = \<lparr>Gauge = None, OldValue = 0\<rparr>\<rparr>"

definition DecrementActiveCounter :: "pool_sys \<Rightarrow> pool_sys option" where
  "DecrementActiveCounter s =
     do {
       abort_unless (ActiveSessions (Pool s) \<noteq> 0);
       Some (UpdateStats (s\<lparr>Pool := (Pool s)\<lparr>ActiveSessions := ActiveSessions (Pool s) - 1\<rparr>\<rparr>))
     }"

definition IncrementActiveCounterUnsafe :: "pool_sys \<Rightarrow> pool_sys" where
  "IncrementActiveCounterUnsafe s =
     UpdateStats (s\<lparr>Pool := (Pool s)\<lparr>ActiveSessions := ActiveSessions (Pool s) + 1\<rparr>\<rparr>)"

section \<open>Requests\<close>

definition ReplySessionToUser :: "addr \<Rightarrow> IGetSessionCtx \<Rightarrow> pool_sys \<Rightarrow> pool_sys option" where
  "ReplySessionToUser a ctx s =
     do {
       x \<leftarrow> lookup (Heap s) a;
       abort_unless (SessionState x = S_IDLE);
       (marked, s) \<leftarrow> call_session a MarkActive s;
       abort_unless marked;
       s \<leftarrow> on_session a (SetNeedUpdateActiveCounter True) s;
       Some (emit (ReplySession ctx a) s)
     }"

datatype TSessionSource = FromPool | FromWaiter | FromError

text \<open>A session still owned by the local pointer is deleted with it.\<close>

definition drop_pointer :: "addr option \<Rightarrow> pool_sys \<Rightarrow> pool_sys option" where
  "drop_pointer impl s = (case impl of None \<Rightarrow> Some s | Some a \<Rightarrow> free_session a s)"

definition take_session :: "pool_sys \<Rightarrow> (addr option \<times> pool_sys) option" where
  "take_session s =
     (if Sessions (Pool s) = [] then Some (None, s)
      else
        (let a = snd (last (Sessions (Pool s)))
         in do {
              s \<leftarrow> on_session a (UpdateServerCloseHandler False) s;
              Some (Some a, s\<lparr>Pool := (Pool s)\<lparr>Sessions := butlast (Sessions (Pool s))\<rparr>\<rparr>)
            }))"

definition GetSession :: "IGetSessionCtx \<Rightarrow> pool_sys \<Rightarrow> pool_sys option" where
  "GetSession ctx s =
     (let (source, s) =
            (if MaxActiveSessions (Pool s) = 0 \<or> ActiveSessions (Pool s) < uint (MaxActiveSessions (Pool s))
             then (FromPool, IncrementActiveCounterUnsafe s)
             else (case TryPush ctx (WaitersQueue (Pool s)) of
                 Some q \<Rightarrow> (FromWaiter,
                   emit IncPendingRequests (emit (ScheduleOnDeadlineWaiterCleanup ctx)
                     (s\<lparr>Pool := (Pool s)\<lparr>WaitersQueue := q\<rparr>\<rparr>)))
               | None \<Rightarrow> (FromError, s)))
      in do {
           (impl, s) \<leftarrow> take_session s;
           let s = UpdateStats s;
           case source of
             FromWaiter \<Rightarrow> drop_pointer impl s
           | FromError \<Rightarrow> drop_pointer impl (emit (ReplyError ctx) (emit IncFakeSessions s))
           | FromPool \<Rightarrow>
               (case impl of
                  Some a \<Rightarrow> ReplySessionToUser a ctx s
                | None \<Rightarrow> Some (emit (ReplyNewSession ctx) s))
         })"

definition CheckAndFeedWaiterNewSession :: "bool \<Rightarrow> pool_sys \<Rightarrow> bool \<times> pool_sys" where
  "CheckAndFeedWaiterNewSession active s =
     (if Closed (Pool s) then (False, s)
      else (case TryGet (WaitersQueue (Pool s)) of
          (None, _) \<Rightarrow> (False, s)
        | (Some ctx, q) \<Rightarrow>
            (let s = s\<lparr>Pool := (Pool s)\<lparr>WaitersQueue := q\<rparr>\<rparr>
             in (True, emit (if \<not> active then ReplyError ctx else ReplyNewSession ctx) s))))"

fun reply_timeouts :: "IGetSessionCtx list \<Rightarrow> pool_sys \<Rightarrow> pool_sys" where
  "reply_timeouts [] s = s"
| "reply_timeouts (waiter # old) s =
     reply_timeouts old (emit (ReplyError waiter) (emit IncConnectionTimeouts (emit IncFakeSessions s)))"

definition ClearOldWaiters :: "TDeadline \<Rightarrow> pool_sys \<Rightarrow> pool_sys" where
  "ClearOldWaiters now s =
     (let (old, q) = GetOld now (WaitersQueue (Pool s));
          s = reply_timeouts old (s\<lparr>Pool := (Pool s)\<lparr>WaitersQueue := q\<rparr>\<rparr>)
      in if old \<noteq> [] then UpdateStats s else s)"

definition PoolReturnSession :: "addr \<Rightarrow> bool \<Rightarrow> pool_sys \<Rightarrow> (bool \<times> pool_sys) option" where
  "PoolReturnSession impl active s =
     (if Closed (Pool s) then Some (False, s)
      else do {
        s \<leftarrow> on_session impl (UpdateServerCloseHandler True) s;
        x \<leftarrow> lookup (Heap s) impl;
        if \<not> CanReturnToPool x then do {
          s \<leftarrow> on_session impl (UpdateServerCloseHandler False) s;
          Some (False, s)
        }
        else (case TryGet (WaitersQueue (Pool s)) of
            (Some ctx, q) \<Rightarrow> do {
              s \<leftarrow> on_session impl (UpdateServerCloseHandler False) (s\<lparr>Pool := (Pool s)\<lparr>WaitersQueue := q\<rparr>\<rparr>);
              let s = (if \<not> active then IncrementActiveCounterUnsafe s else s);
              s \<leftarrow> ReplySessionToUser impl ctx (UpdateStats s);
              Some (True, s)
            }
          | (None, _) \<Rightarrow> do {
              let s = s\<lparr>Pool := (Pool s)\<lparr>Sessions := mm_insert (TimeToTouch x) impl (Sessions (Pool s))\<rparr>\<rparr>;
              s \<leftarrow> (if active then do {
                     abort_unless (ActiveSessions (Pool s) \<noteq> 0);
                     on_session impl (SetNeedUpdateActiveCounter False)
                       (s\<lparr>Pool := (Pool s)\<lparr>ActiveSessions := ActiveSessions (Pool s) - 1\<rparr>\<rparr>)
                   } else Some s);
              Some (True, UpdateStats s)
            })
      })"

section \<open>Closing sessions\<close>

text \<open>
  The deleter of a session pointer calls the operations of the client that owns the session:
  \<open>del\<close> and \<open>ret\<close> stand for \<^verbatim>\<open>ISessionClient::DeleteSession\<close> and \<^verbatim>\<open>ReturnSession\<close>.
\<close>

definition SmartDeleter ::
  "(addr \<Rightarrow> pool_sys \<Rightarrow> pool_sys option) \<Rightarrow> (addr \<Rightarrow> pool_sys \<Rightarrow> (bool \<times> pool_sys) option)
    \<Rightarrow> addr \<Rightarrow> pool_sys \<Rightarrow> pool_sys option" where
  "SmartDeleter del ret a s =
     do {
       s \<leftarrow> on_session a (\<lambda>x. x\<lparr>PropagatedDeadline := None\<rparr>) s;
       x \<leftarrow> lookup (Heap s) a;
       case SessionState x of
         S_STANDALONE \<Rightarrow> del a s
       | S_BROKEN \<Rightarrow> del a s
       | S_CLOSING \<Rightarrow> del a s
       | S_IDLE \<Rightarrow> do { (returned, s) \<leftarrow> ret a s; if \<not> returned then del a s else Some s }
       | S_ACTIVE \<Rightarrow> do { (returned, s) \<leftarrow> ret a s; if \<not> returned then del a s else Some s }
     }"

definition CloseAndDeleteSession ::
  "(addr \<Rightarrow> pool_sys \<Rightarrow> pool_sys option) \<Rightarrow> (addr \<Rightarrow> pool_sys \<Rightarrow> (bool \<times> pool_sys) option)
    \<Rightarrow> addr \<Rightarrow> pool_sys \<Rightarrow> pool_sys option" where
  "CloseAndDeleteSession del ret a s =
     do {
       (_, s) \<leftarrow> call_session a MarkBroken s;
       SmartDeleter del ret a s
     }"

text \<open>\<open>client\<close> says whether the client pointer is set.\<close>

definition Execute :: "TSessionCloseCommand \<Rightarrow> bool \<Rightarrow> addr \<Rightarrow> pool_sys \<Rightarrow> pool_sys option" where
  "Execute command client a s =
     do {
       (first, s) \<leftarrow> call_session a (Transition command) s;
       x \<leftarrow> lookup (Heap s) a;
       Some (if first \<and> client \<and> IsOwnedBySessionPool x then RecordSessionClosed (Reason command) s else s)
     }"

text \<open>
  The search among the pooled sessions of one time to touch, which stand together in the sorted list;
  \<open>None\<close> inside is that no session has the identifier.
\<close>

fun find_pooled :: "TInstant \<Rightarrow> string \<Rightarrow> (addr, TKqpSessionCommon) amap \<Rightarrow> (TInstant, addr) mmap
    \<Rightarrow> (addr \<times> (TInstant, addr) mmap) option option" where
  "find_pooled timeToTouch sid heap [] = Some None"
| "find_pooled timeToTouch sid heap ((t, a) # rest) =
     (if t \<noteq> timeToTouch then map_option (map_option (\<lambda>(b, r). (b, (t, a) # r))) (find_pooled timeToTouch sid heap rest)
      else (case lookup heap a of
          None \<Rightarrow> None
        | Some x \<Rightarrow>
            if sid \<noteq> SessionId x
            then map_option (map_option (\<lambda>(b, r). (b, (t, a) # r))) (find_pooled timeToTouch sid heap rest)
            else Some (Some (a, rest))))"

definition OnCloseSession ::
  "(addr \<Rightarrow> pool_sys \<Rightarrow> pool_sys option) \<Rightarrow> (addr \<Rightarrow> pool_sys \<Rightarrow> (bool \<times> pool_sys) option)
    \<Rightarrow> addr \<Rightarrow> string \<Rightarrow> pool_sys \<Rightarrow> pool_sys option" where
  "OnCloseSession del ret a reason s =
     do {
       x \<leftarrow> lookup (Heap s) a;
       found \<leftarrow> find_pooled (TimeToTouch x) (SessionId x) (Heap s) (Sessions (Pool s));
       case found of
         None \<Rightarrow> Some s
       | Some (session, rest) \<Rightarrow> do {
           let s = s\<lparr>Pool := (Pool s)\<lparr>Sessions := rest\<rparr>\<rparr>;
           y \<leftarrow> lookup (Heap s) session;
           abort_unless (SessionState y = S_IDLE);
           (first, s) \<leftarrow> call_session session MarkBroken s;
           CloseAndDeleteSession del ret session (if first then RecordSessionClosed reason s else s)
         }
     }"

definition CloseFromServer ::
  "(addr \<Rightarrow> pool_sys \<Rightarrow> pool_sys option) \<Rightarrow> (addr \<Rightarrow> pool_sys \<Rightarrow> (bool \<times> pool_sys) option)
    \<Rightarrow> bool \<Rightarrow> addr \<Rightarrow> string \<Rightarrow> pool_sys \<Rightarrow> pool_sys option" where
  "CloseFromServer del ret client a reason s =
     (if \<not> client then Some s
      else do {
        x \<leftarrow> lookup (Heap s) a;
        if CloseHandler x then OnCloseSession del ret a reason s else Some s
      })"

section \<open>Periodic work and draining\<close>

text \<open>
  The scan over the oldest sessions: the entries it has passed, the ones ahead, and the sessions taken
  out for the keep-alive command and for deletion.
\<close>

fun periodic_scan ::
  "(TKqpSessionCommon \<Rightarrow> nat \<Rightarrow> bool) \<Rightarrow> bool \<Rightarrow> TInstant \<Rightarrow> nat \<Rightarrow> (TInstant, addr) mmap \<Rightarrow> (TInstant, addr) mmap
    \<Rightarrow> addr list \<Rightarrow> addr list \<Rightarrow> pool_sys \<Rightarrow> (addr list \<times> addr list \<times> pool_sys) option" where
  "periodic_scan deletePredicate cmd nowUtil 0 passed ahead touch del s =
     Some (touch, del, s\<lparr>Pool := (Pool s)\<lparr>Sessions := passed @ ahead\<rparr>\<rparr>)"
| "periodic_scan deletePredicate cmd nowUtil (Suc n) passed [] touch del s =
     Some (touch, del, s\<lparr>Pool := (Pool s)\<lparr>Sessions := passed\<rparr>\<rparr>)"
| "periodic_scan deletePredicate cmd nowUtil (Suc n) passed ((t, a) # ahead) touch del s =
     do {
       x \<leftarrow> lookup (Heap s) a;
       if nowUtil < TimeToTouch x
       then Some (touch, del, s\<lparr>Pool := (Pool s)\<lparr>Sessions := passed @ (t, a) # ahead\<rparr>\<rparr>)
       else if deletePredicate x (length passed + length ((t, a) # ahead)) then do {
         s \<leftarrow> on_session a (UpdateServerCloseHandler False) s;
         periodic_scan deletePredicate cmd nowUtil n passed ahead touch (del @ [a]) s
       }
       else if cmd then do {
         s \<leftarrow> on_session a (UpdateServerCloseHandler False) s;
         periodic_scan deletePredicate cmd nowUtil n passed ahead (touch @ [a]) del s
       }
       else periodic_scan deletePredicate cmd nowUtil n (passed @ [(t, a)]) ahead touch del s
     }"

definition PERIODIC_ACTION_BATCH_SIZE :: nat where
  "PERIODIC_ACTION_BATCH_SIZE = 10"

fun each_session :: "(addr \<Rightarrow> pool_sys \<Rightarrow> pool_sys option) \<Rightarrow> addr list \<Rightarrow> pool_sys \<Rightarrow> pool_sys option" where
  "each_session f [] s = Some s"
| "each_session f (a # as) s = do { s \<leftarrow> f a s; each_session f as s }"

definition touch_session :: "(addr \<Rightarrow> pool_sys \<Rightarrow> pool_sys option) \<Rightarrow> addr \<Rightarrow> pool_sys \<Rightarrow> pool_sys option" where
  "touch_session cmd a s =
     do {
       x \<leftarrow> lookup (Heap s) a;
       abort_unless (SessionState x = S_IDLE);
       cmd a s
     }"

definition delete_idle_session ::
  "(addr \<Rightarrow> pool_sys \<Rightarrow> pool_sys option) \<Rightarrow> (addr \<Rightarrow> pool_sys \<Rightarrow> (bool \<times> pool_sys) option)
    \<Rightarrow> addr \<Rightarrow> pool_sys \<Rightarrow> pool_sys option" where
  "delete_idle_session del ret a s =
     do {
       x \<leftarrow> lookup (Heap s) a;
       abort_unless (SessionState x = S_IDLE);
       s \<leftarrow> Execute PoolIdleTimeout True a s;
       CloseAndDeleteSession del ret a s
     }"

text \<open>
  The callback of the periodic task. Its result says whether it is to run again. The keep-alive
  command may be absent.
\<close>

definition PeriodicTask ::
  "(addr \<Rightarrow> pool_sys \<Rightarrow> pool_sys option) \<Rightarrow> (addr \<Rightarrow> pool_sys \<Rightarrow> (bool \<times> pool_sys) option)
    \<Rightarrow> (addr \<Rightarrow> pool_sys \<Rightarrow> pool_sys option) option \<Rightarrow> (TKqpSessionCommon \<Rightarrow> nat \<Rightarrow> bool)
    \<Rightarrow> bool \<Rightarrow> EStatus \<Rightarrow> TDeadline \<Rightarrow> TInstant \<Rightarrow> pool_sys \<Rightarrow> (bool \<times> pool_sys) option" where
  "PeriodicTask del ret cmd deletePredicate client status now nowUtil s =
     (if status \<noteq> SUCCESS then Some (False, s)
      else if \<not> client then Some (False, s)
      else do {
        (sessionsToTouch, sessionsToDelete, s) \<leftarrow>
          periodic_scan deletePredicate (cmd \<noteq> None) nowUtil PERIODIC_ACTION_BATCH_SIZE [] (Sessions (Pool s)) [] [] s;
        let (old, q) = GetOld now (WaitersQueue (Pool s));
        let s = UpdateStats (s\<lparr>Pool := (Pool s)\<lparr>WaitersQueue := q\<rparr>\<rparr>);
        s \<leftarrow> (case cmd of None \<Rightarrow> Some s | Some c \<Rightarrow> each_session (touch_session c) sessionsToTouch s);
        s \<leftarrow> each_session (delete_idle_session del ret) sessionsToDelete s;
        Some (True, reply_timeouts old s)
      })"

fun drain_sessions :: "(addr \<Rightarrow> pool_sys \<Rightarrow> (bool \<times> pool_sys) option) \<Rightarrow> (TInstant, addr) mmap \<Rightarrow> pool_sys \<Rightarrow> pool_sys option" where
  "drain_sessions cb [] s = Some (s\<lparr>Pool := (Pool s)\<lparr>Sessions := []\<rparr>\<rparr>)"
| "drain_sessions cb ((t, a) # rest) s =
     do {
       s \<leftarrow> on_session a (UpdateServerCloseHandler False) s;
       (cont, s) \<leftarrow> cb a s;
       if \<not> cont then Some (s\<lparr>Pool := (Pool s)\<lparr>Sessions := rest\<rparr>\<rparr>) else drain_sessions cb rest s
     }"

fun reply_errors :: "IGetSessionCtx list \<Rightarrow> pool_sys \<Rightarrow> pool_sys" where
  "reply_errors [] s = s"
| "reply_errors (waiter # ws) s = reply_errors ws (emit (ReplyError waiter) (emit IncFakeSessions s))"

definition Drain :: "(addr \<Rightarrow> pool_sys \<Rightarrow> (bool \<times> pool_sys) option) \<Rightarrow> bool \<Rightarrow> pool_sys \<Rightarrow> pool_sys option" where
  "Drain cb close s =
     do {
       let s = s\<lparr>Pool := (Pool s)\<lparr>Closed := close\<rparr>\<rparr>;
       s \<leftarrow> drain_sessions cb (Sessions (Pool s)) s;
       let waiters = (if close then map snd (Waiters (WaitersQueue (Pool s))) else []);
       let q = (if close then (WaitersQueue (Pool s))\<lparr>Waiters := []\<rparr> else WaitersQueue (Pool s));
       Some (reply_errors waiters (UpdateStats (s\<lparr>Pool := (Pool s)\<lparr>WaitersQueue := q\<rparr>\<rparr>)))
     }"

definition PoolSetStatCollector :: "int option \<Rightarrow> int option \<Rightarrow> int option \<Rightarrow> pool_sys \<Rightarrow> pool_sys" where
  "PoolSetStatCollector active inPool waiters s =
     (let p = Pool s;
          p = p\<lparr>ActiveSessionsCounter := (ActiveSessionsCounter p)\<lparr>Gauge := active\<rparr>,
                InPoolSessionsCounter := (InPoolSessionsCounter p)\<lparr>Gauge := inPool\<rparr>,
                SessionWaiterCounter := (SessionWaiterCounter p)\<lparr>Gauge := waiters\<rparr>\<rparr>
      in emit (UpdateConnectionCount (int (length (Sessions p))) (ActiveSessions p)) (s\<lparr>Pool := p\<rparr>))"

section \<open>Responses\<close>

text \<open>
  What the interception of a response does to its session: \<open>Inl\<close> is a response that holds an exception.
\<close>

definition InterceptStatus ::
  "(64 word \<Rightarrow> 64 word) \<Rightarrow> TInstant \<Rightarrow> bool \<Rightarrow> TDuration \<Rightarrow> bool \<Rightarrow> addr \<Rightarrow> unit + TStatus \<Rightarrow> pool_sys \<Rightarrow> pool_sys option" where
  "InterceptStatus random now updateTimeout timeout client a response s =
     (case response of
        Inl _ \<Rightarrow> Execute TransportError client a s
      | Inr status \<Rightarrow>
          (case FromStatus status of
             Some command \<Rightarrow> Execute command client a s
           | None \<Rightarrow>
               if updateTimeout \<and> GetStatus status \<noteq> CLIENT_RESOURCE_EXHAUSTED then do {
                 x \<leftarrow> lookup (Heap s) a;
                 on_session a (ScheduleTimeToTouch now (RandomizeThreshold random timeout) (SessionState x = S_ACTIVE)) s
               } else Some s))"

section \<open>Invariant\<close>

text \<open>The replies in a log: sessions handed out, sessions to be created, and the requests answered so.\<close>

definition replied :: "pool_event list \<Rightarrow> addr list" where
  "replied l = List.map_filter (\<lambda>e. case e of ReplySession _ a \<Rightarrow> Some a | _ \<Rightarrow> None) l"

definition to_create :: "pool_event list \<Rightarrow> IGetSessionCtx list" where
  "to_create l = List.map_filter (\<lambda>e. case e of ReplyNewSession ctx \<Rightarrow> Some ctx | _ \<Rightarrow> None) l"

definition answered :: "pool_event list \<Rightarrow> IGetSessionCtx list" where
  "answered l = List.map_filter (\<lambda>e. case e of ReplySession ctx _ \<Rightarrow> Some ctx | ReplyError ctx \<Rightarrow> Some ctx | _ \<Rightarrow> None) l"

lemmas log_defs = replied_def to_create_def answered_def

definition held_ok :: "TKqpSessionCommon \<Rightarrow> bool" where
  "held_ok x \<longleftrightarrow> IsOwnedBySessionPool x \<and> NeedUpdateActiveCounter x \<and> \<not> CloseHandler x \<and>
     SessionState x \<in> {S_ACTIVE, S_CLOSING, S_BROKEN}"

definition pooled_ok :: "TInstant \<Rightarrow> TKqpSessionCommon \<Rightarrow> bool" where
  "pooled_ok t x \<longleftrightarrow> IsOwnedBySessionPool x \<and> \<not> NeedUpdateActiveCounter x \<and> CloseHandler x \<and>
     SessionState x = S_IDLE \<and> TimeToTouch x = t"

text \<open>
  Every session on the heap is in exactly one place: in the hand of a running handler (with the
  information whether it is counted as active), with a user, or in the pool.
\<close>

fun place_ok ::
  "addr list \<Rightarrow> addr list \<Rightarrow> (TInstant, addr) mmap \<Rightarrow> addr \<Rightarrow> TKqpSessionCommon option \<Rightarrow> bool" where
  "place_ok I R S a None = (a \<notin> set I \<and> a \<notin> set R \<and> a \<notin> snd ` set S)"
| "place_ok I R S a (Some x) =
     (if a \<in> set I then IsOwnedBySessionPool x
      else if a \<in> set R then held_ok x
      else a \<in> snd ` set S \<and> (\<forall>t. (t, a) \<in> set S \<longrightarrow> pooled_ok t x))"

definition heap_inv ::
  "(addr, TKqpSessionCommon) amap \<Rightarrow> addr list \<Rightarrow> addr list \<Rightarrow> (TInstant, addr) mmap \<Rightarrow> bool" where
  "heap_inv heap I R S \<longleftrightarrow> distinct (I @ R @ map snd S) \<and> (\<forall>a. place_ok I R S a (lookup heap a))"

text \<open>
  The counters: active sessions are those with the users, those being created and the counted ones in
  hand; with a limit, active and pooled sessions together stay within it, and a request only waits
  while the limit is reached.
\<close>

definition count_inv :: "int \<Rightarrow> int \<Rightarrow> nat \<Rightarrow> nat \<Rightarrow> bool" where
  "count_inv active limit pooled queued \<longleftrightarrow>
     0 \<le> active \<and> (limit \<noteq> 0 \<longrightarrow> int pooled + active \<le> limit) \<and>
     (queued \<noteq> 0 \<longrightarrow> limit \<noteq> 0 \<and> active = limit)"

definition queue_inv :: "TWaitersQueue \<Rightarrow> bool" where
  "queue_inv q \<longleftrightarrow> mm_sorted (Waiters q) \<and> length (Waiters q) \<le> unat (MaxQueueSize q) \<and>
     (\<forall>(d, ctx) \<in> set (Waiters q). d = CtxDeadline ctx)"

definition pool_inv :: "(addr \<times> bool) list \<Rightarrow> addr list \<Rightarrow> nat \<Rightarrow> IGetSessionCtx multiset \<Rightarrow> pool_sys \<Rightarrow> bool" where
  "pool_inv E H n M s \<longleftrightarrow>
     \<not> Closed (Pool s) \<and> mm_sorted (Sessions (Pool s)) \<and> queue_inv (WaitersQueue (Pool s)) \<and>
     heap_inv (Heap s) (map fst E) (replied (Log s) @ H) (Sessions (Pool s)) \<and>
     ActiveSessions (Pool s) =
       int (length (replied (Log s)) + length H + length (to_create (Log s)) + n + length (filter snd E)) \<and>
     count_inv (ActiveSessions (Pool s)) (uint (MaxActiveSessions (Pool s))) (length (Sessions (Pool s)))
       (length (waiting s)) \<and>
     M = mset (map snd (waiting s)) + mset (to_create (Log s)) + mset (answered (Log s))"

section \<open>The log\<close>

lemma log_snoc [simp]:
  "replied (l @ [e]) = replied l @ (case e of ReplySession _ a \<Rightarrow> [a] | _ \<Rightarrow> [])"
  "to_create (l @ [e]) = to_create l @ (case e of ReplyNewSession ctx \<Rightarrow> [ctx] | _ \<Rightarrow> [])"
  "answered (l @ [e]) = answered l @ (case e of ReplySession ctx _ \<Rightarrow> [ctx] | ReplyError ctx \<Rightarrow> [ctx] | _ \<Rightarrow> [])"
  by (auto simp: log_defs List.map_filter_def split: pool_event.split)

lemma log_Nil [simp]: "replied [] = []" "to_create [] = []" "answered [] = []"
  by (simp_all add: log_defs List.map_filter_def)

lemma emit_simps [simp]:
  "Heap (emit e s) = Heap s" "Pool (emit e s) = Pool s" "Log (emit e s) = Log s @ [e]"
  by (simp_all add: emit_def)

lemma pool_inv_emit [simp]:
  "e \<in> {IncPendingRequests, IncConnectionTimeouts, IncFakeSessions} \<union> range IncSessionClosed
     \<union> range PessimizeNodeId \<union> range ScheduleOnDeadlineWaiterCleanup \<union> {UpdateConnectionCount i j |i j. True}
   \<Longrightarrow> pool_inv E H n M (emit e s) = pool_inv E H n M s"
  by (auto simp: pool_inv_def)

lemma pool_inv_stats [simp]: "pool_inv E H n M (UpdateStats s) = pool_inv E H n M s"
  by (simp add: UpdateStats_def Let_def pool_inv_def)

lemma stats_simps [simp]:
  "Heap (UpdateStats s) = Heap s" "Sessions (Pool (UpdateStats s)) = Sessions (Pool s)"
  "WaitersQueue (Pool (UpdateStats s)) = WaitersQueue (Pool s)" "Closed (Pool (UpdateStats s)) = Closed (Pool s)"
  "ActiveSessions (Pool (UpdateStats s)) = ActiveSessions (Pool s)"
  "MaxActiveSessions (Pool (UpdateStats s)) = MaxActiveSessions (Pool s)"
  "replied (Log (UpdateStats s)) = replied (Log s)" "to_create (Log (UpdateStats s)) = to_create (Log s)"
  "answered (Log (UpdateStats s)) = answered (Log s)"
  by (simp_all add: UpdateStats_def Let_def)

section \<open>Moving a session\<close>

text \<open>A change at one address keeps every other session in its place.\<close>

lemma heap_inv_move:
  assumes "heap_inv heap I R S"
    and "distinct (I' @ R' @ map snd S')"
    and "\<And>b. b \<noteq> a \<Longrightarrow> lookup heap' b = lookup heap b"
    and "set I' - {a} = set I - {a}" "set R' - {a} = set R - {a}"
    and "\<And>t b. b \<noteq> a \<Longrightarrow> (t, b) \<in> set S' \<longleftrightarrow> (t, b) \<in> set S"
    and "place_ok I' R' S' a (lookup heap' a)"
  shows "heap_inv heap' I' R' S'"
proof -
  have "place_ok I' R' S' b (lookup heap' b)" for b
  proof (cases "b = a")
    case False
    then have m: "b \<in> set I' \<longleftrightarrow> b \<in> set I" "b \<in> set R' \<longleftrightarrow> b \<in> set R"
        "b \<in> snd ` set S' \<longleftrightarrow> b \<in> snd ` set S" "\<And>t. (t, b) \<in> set S' \<longleftrightarrow> (t, b) \<in> set S"
      using assms(4,5,6) by (blast, blast, force, blast)
    have "place_ok I R S b (lookup heap b)"
      using assms(1) by (simp add: heap_inv_def)
    then show ?thesis
      using m assms(3) [OF False] by (cases "lookup heap b") (auto simp only: place_ok.simps)
  qed (use assms(7) in simp)
  then show ?thesis
    using assms(2) by (simp add: heap_inv_def)
qed

lemma heap_inv_placed:
  assumes "heap_inv heap I R S"
  shows "distinct (I @ R @ map snd S)" "place_ok I R S a (lookup heap a)"
  using assms by (simp_all add: heap_inv_def)

lemma heap_inv_E:
  assumes "heap_inv heap (a # I) R S"
  obtains x where "lookup heap a = Some x" "IsOwnedBySessionPool x"
proof (cases "lookup heap a")
  case None
  then show ?thesis
    using heap_inv_placed(2) [OF assms, of a] by simp
next
  case (Some x)
  then show ?thesis
    using heap_inv_placed(2) [OF assms, of a] that [of x] by simp
qed

lemma heap_inv_R:
  assumes "heap_inv heap I R S" "a \<in> set R"
  obtains x where "lookup heap a = Some x" "held_ok x" "a \<notin> set I" "a \<notin> snd ` set S"
proof (cases "lookup heap a")
  case None
  then show ?thesis
    using heap_inv_placed(2) [OF assms(1), of a] assms(2) by simp
next
  case (Some x)
  have "a \<notin> set I" "a \<notin> snd ` set S"
    using heap_inv_placed(1) [OF assms(1)] assms(2) by auto
  then show ?thesis
    using Some heap_inv_placed(2) [OF assms(1), of a] assms(2) that [of x] by simp
qed

lemma heap_inv_S:
  assumes "heap_inv heap I R S" "(t, a) \<in> set S"
  obtains x where "lookup heap a = Some x" "pooled_ok t x" "a \<notin> set I" "a \<notin> set R"
    "\<And>t'. (t', a) \<in> set S \<Longrightarrow> t' = t"
proof -
  have S: "a \<in> snd ` set S"
    using assms(2) by force
  have n: "a \<notin> set I" "a \<notin> set R" "inj_on snd (set S)"
    using heap_inv_placed(1) [OF assms(1)] S by (auto simp: distinct_map)
  have u: "t' = t" if "(t', a) \<in> set S" for t'
    using assms(2) that inj_onD [OF n(3), of "(t', a)" "(t, a)"] by simp
  show ?thesis
  proof (cases "lookup heap a")
    case None
    then show ?thesis
      using heap_inv_placed(2) [OF assms(1), of a] S by simp
  next
    case (Some x)
    then have "pooled_ok t x"
      using heap_inv_placed(2) [OF assms(1), of a] n assms(2) by simp
    then show ?thesis
      using that [OF Some _ n(1,2)] u by blast
  qed
qed

lemma heap_inv_updateE:
  assumes "heap_inv heap (a # I) R S" "IsOwnedBySessionPool x"
  shows "heap_inv (AList.update a x heap) (a # I) R S"
  using heap_inv_placed(1) [OF assms(1)] assms(2) by (intro heap_inv_move [OF assms(1), where a = a]) simp_all

lemma heap_inv_updateR:
  assumes "heap_inv heap I R S" "a \<in> set R" "held_ok x"
  shows "heap_inv (AList.update a x heap) I R S"
proof (rule heap_inv_R [OF assms(1,2)])
  assume "a \<notin> set I" "a \<notin> snd ` set S"
  then show ?thesis
    using heap_inv_placed(1) [OF assms(1)] assms(2,3) by (intro heap_inv_move [OF assms(1), where a = a]) simp_all
qed

lemma heap_inv_updateS:
  assumes "heap_inv heap I R S" "(t, a) \<in> set S" "pooled_ok t x"
  shows "heap_inv (AList.update a x heap) I R S"
proof (rule heap_inv_S [OF assms(1,2)])
  assume n: "a \<notin> set I" "a \<notin> set R" "\<And>t'. (t', a) \<in> set S \<Longrightarrow> t' = t"
  have "a \<in> snd ` set S"
    using assms(2) by force
  then have "place_ok I R S a (Some x)"
    using n assms(3) by auto
  then show ?thesis
    using heap_inv_placed(1) [OF assms(1)] by (intro heap_inv_move [OF assms(1), where a = a]) simp_all
qed

lemma heap_inv_takeS:
  assumes "heap_inv heap I R (l @ (t, a) # r)"
  shows "heap_inv heap (a # I) R (l @ r)"
proof (rule heap_inv_S [OF assms, of t a])
  fix y
  assume "lookup heap a = Some y" "pooled_ok t y"
  then have "place_ok (a # I) R (l @ r) a (lookup heap a)"
    by (simp add: pooled_ok_def)
  then show ?thesis
    using heap_inv_placed(1) [OF assms]
    by (intro heap_inv_move [OF assms, where a = a]) auto
qed simp

lemma heap_inv_giveR:
  assumes "heap_inv heap (a # I) (R1 @ R2) S" "held_ok x"
  shows "heap_inv (AList.update a x heap) I (R1 @ a # R2) S"
proof -
  have "a \<notin> set I"
    using heap_inv_placed(1) [OF assms(1)] by simp
  then have "place_ok I (R1 @ a # R2) S a (Some x)"
    using assms(2) by simp
  then show ?thesis
    using heap_inv_placed(1) [OF assms(1)]
    by (intro heap_inv_move [OF assms(1), where a = a]) auto
qed

lemma heap_inv_giveS:
  assumes "heap_inv heap (a # I) R S" "pooled_ok t x"
  shows "heap_inv (AList.update a x heap) I R (mm_insert t a S)"
proof -
  have n: "a \<notin> set I" "a \<notin> set R" "a \<notin> snd ` set S"
    using heap_inv_placed(1) [OF assms(1)] by auto
  then have "place_ok I R (mm_insert t a S) a (Some x)"
    using assms(2) by force
  moreover have "distinct (map snd (mm_insert t a S))"
  proof -
    have "distinct (map snd S)"
      using heap_inv_placed(1) [OF assms(1)] by simp
    then have "distinct (a # map snd S)"
      using n by simp
    moreover have "mset (map snd (mm_insert t a S)) = mset (a # map snd S)"
      by simp
    ultimately show ?thesis
      by (metis mset_eq_imp_distinct_iff)
  qed
  ultimately show ?thesis
    using heap_inv_placed(1) [OF assms(1)] n
    by (intro heap_inv_move [OF assms(1), where a = a]) auto
qed

lemma heap_inv_free:
  assumes "heap_inv heap (a # I) R S"
  shows "heap_inv (AList.delete a heap) I R S"
  using heap_inv_placed(1) [OF assms] by (intro heap_inv_move [OF assms, where a = a]) auto

lemma heap_inv_takeR:
  assumes "heap_inv heap I (R1 @ R2) S" "a \<in> set R2"
  shows "heap_inv heap (a # I) (R1 @ remove1 a R2) S"
proof (rule heap_inv_R [OF assms(1), of a])
  fix x
  assume "lookup heap a = Some x" "held_ok x"
  then have "place_ok (a # I) (R1 @ remove1 a R2) S a (lookup heap a)"
    by (simp add: held_ok_def)
  then show ?thesis
    using heap_inv_placed(1) [OF assms(1)] assms(2)
    by (intro heap_inv_move [OF assms(1), where a = a]) auto
qed (use assms(2) in simp)

lemma heap_inv_new:
  assumes "heap_inv heap I R S" "lookup heap a = None" "held_ok x"
  shows "heap_inv (AList.update a x heap) I (a # R) S"
proof -
  have n: "a \<notin> set I" "a \<notin> set R" "a \<notin> snd ` set S"
    using heap_inv_placed(2) [OF assms(1), of a] assms(2) by auto
  then show ?thesis
    using heap_inv_placed(1) [OF assms(1)] assms(3)
    by (intro heap_inv_move [OF assms(1), where a = a]) auto
qed

section \<open>The operations keep the invariant\<close>

text \<open>A change of the session in hand.\<close>

lemma on_session_hand:
  assumes "pool_inv ((a, c) # E) H n M s" "\<And>x. IsOwnedBySessionPool (f x) = IsOwnedBySessionPool x"
  shows "\<exists>x. lookup (Heap s) a = Some x \<and> on_session a f s = Some (s\<lparr>Heap := AList.update a (f x) (Heap s)\<rparr>)
    \<and> pool_inv ((a, c) # E) H n M (s\<lparr>Heap := AList.update a (f x) (Heap s)\<rparr>)"
proof -
  have h: "heap_inv (Heap s) (a # map fst E) (replied (Log s) @ H) (Sessions (Pool s))"
    using assms(1) by (simp add: pool_inv_def)
  obtain x where x: "lookup (Heap s) a = Some x" "IsOwnedBySessionPool x"
    using heap_inv_E [OF h] .
  then show ?thesis
    using heap_inv_updateE [OF h, of "f x"] assms by (auto simp: on_session_def pool_inv_def)
qed

lemma DecrementActiveCounter_ok:
  assumes "pool_inv ((a, True) # E) H n M s" "waiting s = []"
  shows "\<exists>s'. DecrementActiveCounter s = Some s' \<and> pool_inv ((a, False) # E) H n M s' \<and> Heap s' = Heap s
    \<and> waiting s' = waiting s"
proof -
  have "ActiveSessions (Pool s) \<noteq> 0"
    using assms(1) by (simp add: pool_inv_def)
  then show ?thesis
    using assms by (auto simp: DecrementActiveCounter_def abort_unless_def pool_inv_def count_inv_def)
qed

lemma TryGet_cases:
  assumes "queue_inv q"
  obtains (empty) "Waiters q = []" "TryGet q = (None, q)"
  | (waiter) d ctx rest where "Waiters q = (d, ctx) # rest" "TryGet q = (Some ctx, q\<lparr>Waiters := rest\<rparr>)"
      "queue_inv (q\<lparr>Waiters := rest\<rparr>)"
proof (cases "Waiters q")
  case Nil
  then show ?thesis
    using empty by (simp add: TryGet_def)
next
  case (Cons e rest)
  then show ?thesis
    using waiter [of "fst e" "snd e" rest] assms
    by (cases e) (auto simp: TryGet_def queue_inv_def mm_sorted_def)
qed

lemma CheckAndFeed_ok:
  assumes "pool_inv ((a, c) # E) H n M s"
  shows "(waiting s = [] \<and> CheckAndFeedWaiterNewSession c s = (False, s)) \<or>
    (\<exists>s'. CheckAndFeedWaiterNewSession c s = (True, s') \<and> pool_inv ((a, False) # E) H n M s' \<and> Heap s' = Heap s
      \<and> waiting s' = tl (waiting s))"
proof -
  have q: "queue_inv (WaitersQueue (Pool s))" and cl: "\<not> Closed (Pool s)"
    using assms by (simp_all add: pool_inv_def)
  from q show ?thesis
  proof (cases rule: TryGet_cases)
    case empty
    then show ?thesis
      using cl by (simp add: CheckAndFeedWaiterNewSession_def)
  next
    case (waiter d ctx rest)
    then show ?thesis
      using cl assms by (auto simp: CheckAndFeedWaiterNewSession_def Let_def pool_inv_def count_inv_def)
  qed
qed

lemma free_session_ok:
  assumes "pool_inv ((a, False) # E) H n M s"
  shows "\<exists>s'. free_session a s = Some s' \<and> pool_inv E H n M s' \<and> Heap s' = AList.delete a (Heap s)
    \<and> Pool s' = Pool s"
proof -
  have h: "heap_inv (Heap s) (a # map fst E) (replied (Log s) @ H) (Sessions (Pool s))"
    using assms by (simp add: pool_inv_def)
  obtain x where "lookup (Heap s) a = Some x"
    using heap_inv_E [OF h] by blast
  then show ?thesis
    using heap_inv_free [OF h] assms by (auto simp: free_session_def pool_inv_def)
qed

lemma ReplySessionToUser_ok:
  assumes "pool_inv ((a, True) # E) H n M s" "lookup (Heap s) a = Some x" "SessionState x = S_IDLE" "\<not> CloseHandler x"
  shows "\<exists>s' y. ReplySessionToUser a ctx s = Some s' \<and> pool_inv E H n (add_mset ctx M) s'
    \<and> Heap s' = AList.update a y (Heap s) \<and> Pool s' = Pool s"
proof -
  define y where "y = SetNeedUpdateActiveCounter True (snd (MarkActive x))"
  have h: "heap_inv (Heap s) (a # map fst E) (replied (Log s) @ H) (Sessions (Pool s))"
    using assms(1) by (simp add: pool_inv_def)
  have "held_ok y"
    using heap_inv_E [OF h] assms(2-4)
    by (auto simp: y_def held_ok_def MarkActive_def SetNeedUpdateActiveCounter_def)
  from heap_inv_giveR [OF h this]
  have "heap_inv (AList.update a y (Heap s)) (map fst E) (replied (Log s) @ a # H) (Sessions (Pool s))" .
  moreover have "ReplySessionToUser a ctx s =
      Some (emit (ReplySession ctx a) (s\<lparr>Heap := AList.update a y (AList.update a (snd (MarkActive x)) (Heap s))\<rparr>))"
    using assms(2-4) by (simp add: ReplySessionToUser_def abort_unless_def call_session_def on_session_def
        MarkActive_def y_def)
  moreover have "AList.update a y (AList.update a z m) = AList.update a y m" for z and m :: "(addr, TKqpSessionCommon) amap"
    by (induction m) auto
  ultimately show ?thesis
    using assms(1) by (auto simp: pool_inv_def)
qed

lemma pool_inv_ReplyError:
  "pool_inv E H n M s \<Longrightarrow> pool_inv E H n (add_mset ctx M) (emit (ReplyError ctx) s)"
  by (auto simp: pool_inv_def)

lemma pool_inv_ReplyNewSession:
  "pool_inv E H (Suc n) M s \<Longrightarrow> pool_inv E H n (add_mset ctx M) (emit (ReplyNewSession ctx) s)"
  by (auto simp: pool_inv_def)

lemma take_session_last:
  assumes "Sessions (Pool s) = l @ [(t, a)]" "lookup (Heap s) a = Some x"
  shows "take_session s = Some (Some a, s\<lparr>Heap := AList.update a (UpdateServerCloseHandler False x) (Heap s),
    Pool := (Pool s)\<lparr>Sessions := l\<rparr>\<rparr>)"
  using assms by (simp add: take_session_def on_session_def)

lemma GetSession_full:
  assumes "pool_inv [] H n M s"
    and "\<not> (MaxActiveSessions (Pool s) = 0 \<or> ActiveSessions (Pool s) < uint (MaxActiveSessions (Pool s)))"
  shows "\<exists>s'. GetSession ctx s = Some s' \<and> pool_inv [] H n (add_mset ctx M) s'"
proof -
  have full: "Sessions (Pool s) = []" "ActiveSessions (Pool s) = uint (MaxActiveSessions (Pool s))"
      "uint (MaxActiveSessions (Pool s)) \<noteq> 0"
  proof -
    have c: "count_inv (ActiveSessions (Pool s)) (uint (MaxActiveSessions (Pool s))) (length (Sessions (Pool s)))
        (length (waiting s))"
      using assms(1) by (auto simp: pool_inv_def)
    show nz: "uint (MaxActiveSessions (Pool s)) \<noteq> 0"
      using assms(2) by (simp add: unsigned_eq_0_iff)
    have le: "int (length (Sessions (Pool s))) + ActiveSessions (Pool s) \<le> uint (MaxActiveSessions (Pool s))"
      using c nz unfolding count_inv_def by blast
    have ge: "uint (MaxActiveSessions (Pool s)) \<le> ActiveSessions (Pool s)"
      using assms(2) by simp
    show "ActiveSessions (Pool s) = uint (MaxActiveSessions (Pool s))"
      using le ge by linarith
    have "int (length (Sessions (Pool s))) \<le> 0"
      using le ge by linarith
    then show "Sessions (Pool s) = []"
      by (simp only: of_nat_le_0_iff length_0_conv)
  qed
  show ?thesis
  proof (cases "TryPush ctx (WaitersQueue (Pool s))")
    case None
    then have "GetSession ctx s = Some (emit (ReplyError ctx) (emit IncFakeSessions (UpdateStats s)))"
      using assms(2) full by (simp add: GetSession_def take_session_def drop_pointer_def)
    then show ?thesis
      using assms(1) by (simp add: pool_inv_ReplyError)
  next
    case (Some q)
    then have q: "queue_inv q" "mset (map snd (Waiters q)) = add_mset ctx (mset (map snd (waiting s)))"
        "length (Waiters q) \<noteq> 0"
      using assms mm_insert_not_Nil by (auto simp: TryPush_def pool_inv_def queue_inv_def split: if_splits)
    have "pool_inv [] H n (add_mset ctx M) (s\<lparr>Pool := (Pool s)\<lparr>WaitersQueue := q\<rparr>\<rparr>)"
      using assms(1) full q by (simp add: pool_inv_def count_inv_def del: mset_map)
    moreover have "GetSession ctx s = Some (UpdateStats (emit IncPendingRequests
        (emit (ScheduleOnDeadlineWaiterCleanup ctx) (s\<lparr>Pool := (Pool s)\<lparr>WaitersQueue := q\<rparr>\<rparr>))))"
      using assms(2) full Some by (simp add: GetSession_def take_session_def drop_pointer_def)
    ultimately show ?thesis
      by simp
  qed
qed

lemma GetSession_free:
  assumes "pool_inv [] H n M s"
    and "MaxActiveSessions (Pool s) = 0 \<or> ActiveSessions (Pool s) < uint (MaxActiveSessions (Pool s))"
  shows "\<exists>s'. GetSession ctx s = Some s' \<and> pool_inv [] H n (add_mset ctx M) s'"
proof -
  have none: "waiting s = []"
    using assms by (auto simp: pool_inv_def count_inv_def unsigned_eq_0_iff)
  have room: "uint (MaxActiveSessions (Pool s)) \<noteq> 0 \<Longrightarrow> ActiveSessions (Pool s) < uint (MaxActiveSessions (Pool s))"
    using assms(2) by (auto simp: unsigned_eq_0_iff)
  define i where "i = IncrementActiveCounterUnsafe s"
  have get: "GetSession ctx s = do {
      (impl, s) \<leftarrow> take_session i;
      case impl of Some a \<Rightarrow> ReplySessionToUser a ctx (UpdateStats s)
        | None \<Rightarrow> Some (emit (ReplyNewSession ctx) (UpdateStats s)) }"
    using assms(2) by (simp add: GetSession_def i_def Let_def)
  show ?thesis
  proof (cases "Sessions (Pool s) = []")
    case True
    then have "take_session i = Some (None, i)"
      by (simp add: take_session_def i_def IncrementActiveCounterUnsafe_def)
    moreover have "pool_inv [] H (Suc n) M i"
      using assms(1) True none room by (auto simp: i_def IncrementActiveCounterUnsafe_def pool_inv_def count_inv_def)
    ultimately show ?thesis
      using get pool_inv_ReplyNewSession by simp
  next
    case False
    then obtain l t a where l: "Sessions (Pool s) = l @ [(t, a)]"
      by (metis append_butlast_last_id surj_pair)
    have h: "heap_inv (Heap s) [] (replied (Log s) @ H) (l @ (t, a) # [])"
      using assms l by (simp add: pool_inv_def)
    obtain x where x: "lookup (Heap s) a = Some x" "pooled_ok t x"
      by (rule heap_inv_S [OF h, of t a]) auto
    define y where "y = UpdateServerCloseHandler False x"
    have y: "IsOwnedBySessionPool y" "SessionState y = S_IDLE" "\<not> CloseHandler y"
      using x by (simp_all add: y_def UpdateServerCloseHandler_def pooled_ok_def)
    have hi: "heap_inv (AList.update a y (Heap s)) [a] (replied (Log s) @ H) l"
      using heap_inv_updateE [OF heap_inv_takeS [OF h] y(1)] by simp
    define j where "j = i\<lparr>Heap := AList.update a y (Heap i), Pool := (Pool i)\<lparr>Sessions := l\<rparr>\<rparr>"
    have "take_session i = Some (Some a, j)"
      using l x unfolding j_def y_def by (intro take_session_last) (simp_all add: i_def IncrementActiveCounterUnsafe_def)
    moreover have "pool_inv [(a, True)] H n M j"
      using assms(1) l hi none room
      by (auto simp: j_def i_def IncrementActiveCounterUnsafe_def pool_inv_def count_inv_def mm_sorted_def sorted_append)
    moreover have "lookup (Heap j) a = Some y"
      by (simp add: j_def)
    ultimately show ?thesis
      using get ReplySessionToUser_ok [of a "[]" H n M "UpdateStats j" y ctx] y by auto
  qed
qed

lemma GetSession_ok:
  "pool_inv [] H n M s \<Longrightarrow> \<exists>s'. GetSession ctx s = Some s' \<and> pool_inv [] H n (add_mset ctx M) s'"
  using GetSession_full GetSession_free by blast

lemma PoolReturnSession_ok:
  assumes "pool_inv ((a, True) # E) H n M s" "lookup (Heap s) a = Some x" "CanReturnToPool x"
    and "\<not> NeedUpdateActiveCounter x"
  shows "\<exists>s' y. PoolReturnSession a True s = Some (True, s') \<and> pool_inv E H n M s' \<and> Heap s' = AList.update a y (Heap s)
    \<and> waiting s' = tl (waiting s)"
proof -
  have q: "queue_inv (WaitersQueue (Pool s))" and cl: "\<not> Closed (Pool s)"
    using assms by (simp_all add: pool_inv_def)
  have h: "heap_inv (Heap s) (a # map fst E) (replied (Log s) @ H) (Sessions (Pool s))"
    using assms(1) by (simp add: pool_inv_def)
  have own: "IsOwnedBySessionPool x"
    by (rule heap_inv_E [OF h]) (use assms(2) in simp)
  have upd: "AList.update a y (AList.update a z m) = AList.update a y m" for y z and m :: "(addr, TKqpSessionCommon) amap"
    by (induction m) auto
  from q show ?thesis
  proof (cases rule: TryGet_cases)
    case (waiter d ctx rest)
    define y where "y = x\<lparr>CloseHandler := False\<rparr>"
    define t where "t = s\<lparr>Pool := (Pool s)\<lparr>WaitersQueue := (WaitersQueue (Pool s))\<lparr>Waiters := rest\<rparr>\<rparr>, Heap := AList.update a y (Heap s)\<rparr>"
    have "PoolReturnSession a True s = map_option (Pair True) (ReplySessionToUser a ctx (UpdateStats t))"
      using cl assms(2,3) waiter(2)
      by (simp add: PoolReturnSession_def on_session_def CanReturnToPool_def UpdateServerCloseHandler_def upd
          t_def y_def map_conv_bind_option comp_def)
    moreover have "pool_inv ((a, True) # E) H n (M - {#ctx#}) t"
      using assms(1) waiter heap_inv_updateE [OF h, of y] own
      by (auto simp: t_def y_def pool_inv_def count_inv_def)
    moreover have "M = add_mset ctx (M - {#ctx#})"
      using assms(1) waiter by (auto simp: pool_inv_def)
    ultimately show ?thesis
      using ReplySessionToUser_ok [of a E H n "M - {#ctx#}" "UpdateStats t" y ctx] assms(3)
      by (auto simp: t_def y_def CanReturnToPool_def upd waiter(1))
  next
    case empty
    define y where "y = x\<lparr>CloseHandler := True, NeedUpdateActiveCounter := False\<rparr>"
    have y: "pooled_ok (TimeToTouch x) y"
      using own assms(3,4) by (simp add: y_def pooled_ok_def CanReturnToPool_def)
    have act: "ActiveSessions (Pool s) \<noteq> 0"
      using assms(1) by (simp add: pool_inv_def)
    define t where "t = s\<lparr>
      Pool := (Pool s)\<lparr>Sessions := mm_insert (TimeToTouch x) a (Sessions (Pool s)),
        ActiveSessions := ActiveSessions (Pool s) - 1\<rparr>,
      Heap := AList.update a y (Heap s)\<rparr>"
    have "PoolReturnSession a True s = Some (True, UpdateStats t)"
      using cl assms(2,3,4) empty act
      by (simp add: PoolReturnSession_def on_session_def CanReturnToPool_def UpdateServerCloseHandler_def upd
          t_def y_def abort_unless_def SetNeedUpdateActiveCounter_def)
    moreover have "pool_inv E H n M t"
      using assms(1) empty heap_inv_giveS [OF h y] by (auto simp: t_def pool_inv_def count_inv_def)
    ultimately show ?thesis
      by (auto simp: t_def empty(1))
  qed
qed

lemma reply_timeouts_ok:
  "pool_inv E H n M s \<Longrightarrow> pool_inv E H n (M + mset old) (reply_timeouts old s) \<and> Heap (reply_timeouts old s) = Heap s"
proof (induction old arbitrary: M s)
  case (Cons w old)
  have "pool_inv E H n (add_mset w M) (emit (ReplyError w) (emit IncConnectionTimeouts (emit IncFakeSessions s)))"
    using Cons.prems by (intro pool_inv_ReplyError) simp
  from Cons.IH [OF this] show ?case
    by simp
qed simp

lemma GetOld_loop_split:
  assumes "GetOld_loop now ws = (old, rest)"
  shows "\<exists>l. ws = l @ rest \<and> old = map snd l \<and> (\<forall>e \<in> set l. fst e \<le> now) \<and> (rest = [] \<or> now < fst (hd rest))"
  using assms
proof (induction now ws arbitrary: old rest rule: GetOld_loop.induct)
  case (2 now d p ws)
  show ?case
  proof (cases "now < d")
    case True
    then show ?thesis
      using 2(2) by auto
  next
    case False
    obtain o' where o: "GetOld_loop now ws = (o', rest)" "old = p # o'"
      using 2(2) False by (auto split: prod.splits)
    from 2(1) [OF False o(1)] obtain l where
        "ws = l @ rest" "o' = map snd l" "\<forall>e \<in> set l. fst e \<le> now" "rest = [] \<or> now < fst (hd rest)"
      by blast
    then show ?thesis
      using o(2) False by (intro exI [of _ "(d, p) # l"]) auto
  qed
qed simp

lemma GetOld_ok:
  assumes "queue_inv q" "GetOld now q = (old, q')"
  shows "queue_inv q'" "mset (map snd (Waiters q)) = mset old + mset (map snd (Waiters q'))"
    "MaxQueueSize q' = MaxQueueSize q" "length (Waiters q') \<le> length (Waiters q)"
    "\<forall>e \<in> set (Waiters q'). now < fst e" "\<forall>ctx \<in> set old. CtxDeadline ctx \<le> now"
proof -
  obtain rest where g: "GetOld_loop now (Waiters q) = (old, rest)" "q' = q\<lparr>Waiters := rest\<rparr>"
    using assms(2) by (auto simp: GetOld_def split: prod.splits)
  obtain l where l: "Waiters q = l @ rest" "old = map snd l" "\<forall>e \<in> set l. fst e \<le> now"
      "rest = [] \<or> now < fst (hd rest)"
    using GetOld_loop_split [OF g(1)] by blast
  have s: "mm_sorted rest" "\<forall>(d, ctx) \<in> set (Waiters q). d = CtxDeadline ctx"
    using assms(1) l(1) by (auto simp: queue_inv_def mm_sorted_def sorted_append)
  show "queue_inv q'" "mset (map snd (Waiters q)) = mset old + mset (map snd (Waiters q'))"
    "MaxQueueSize q' = MaxQueueSize q" "length (Waiters q') \<le> length (Waiters q)"
    using assms(1) l s g(2) by (auto simp: queue_inv_def)
  show "\<forall>e \<in> set (Waiters q'). now < fst e"
    using l(4) mm_sorted_hd [OF s(1)] g(2) by (cases rest) (auto intro: less_le_trans)
  show "\<forall>ctx \<in> set old. CtxDeadline ctx \<le> now"
  proof
    fix ctx
    assume "ctx \<in> set old"
    then obtain d where "(d, ctx) \<in> set l"
      using l(2) by auto
    then show "CtxDeadline ctx \<le> now"
      using l(1,3) s(2) by force
  qed
qed

lemma pool_inv_GetOld:
  assumes "pool_inv E H n M s" "GetOld now (WaitersQueue (Pool s)) = (old, q)"
  shows "\<exists>M'. M = M' + mset old \<and> pool_inv E H n M' (s\<lparr>Pool := (Pool s)\<lparr>WaitersQueue := q\<rparr>\<rparr>)"
proof -
  have "queue_inv (WaitersQueue (Pool s))"
    using assms(1) by (simp add: pool_inv_def)
  note g = GetOld_ok [OF this assms(2)]
  show ?thesis
    using assms(1) g(1,2,4)
    by (intro exI [of _ "mset (map snd (Waiters q)) + mset (to_create (Log s)) + mset (answered (Log s))"])
      (auto simp: pool_inv_def count_inv_def)
qed

lemma ClearOldWaiters_ok:
  assumes "pool_inv E H n M s"
  shows "pool_inv E H n M (ClearOldWaiters now s)"
    "\<forall>e \<in> set (Waiters (WaitersQueue (Pool (ClearOldWaiters now s)))). now < fst e"
proof -
  obtain old q where g: "GetOld now (WaitersQueue (Pool s)) = (old, q)"
    by fastforce
  obtain M' where M: "M = M' + mset old" "pool_inv E H n M' (s\<lparr>Pool := (Pool s)\<lparr>WaitersQueue := q\<rparr>\<rparr>)"
    using pool_inv_GetOld [OF assms g] by blast
  show "pool_inv E H n M (ClearOldWaiters now s)"
    using reply_timeouts_ok [OF M(2), of old] M by (simp add: ClearOldWaiters_def g Let_def)
  have "WaitersQueue (Pool (reply_timeouts old s)) = WaitersQueue (Pool s)" for old s
    by (induction old s rule: reply_timeouts.induct) auto
  then have "WaitersQueue (Pool (ClearOldWaiters now s)) = q"
    by (simp add: ClearOldWaiters_def g Let_def)
  then show "\<forall>e \<in> set (Waiters (WaitersQueue (Pool (ClearOldWaiters now s)))). now < fst e"
    using GetOld_ok(5) [OF _ g] assms by (simp add: pool_inv_def)
qed

section \<open>The owner of the sessions\<close>

text \<open>
  What the pool and the deleter of session pointers rely on: deleting a session in hand never aborts,
  gives back its place among the active sessions when it had one, and touches no other session;
  returning an active one either hands it over or leaves it in hand unchanged in that respect.
\<close>

definition elsewhere :: "addr \<Rightarrow> pool_sys \<Rightarrow> pool_sys \<Rightarrow> bool" where
  "elsewhere a s s' \<longleftrightarrow> (\<forall>b. b \<noteq> a \<longrightarrow> lookup (Heap s') b = lookup (Heap s) b)"

lemma elsewhere_trans: "elsewhere a s t \<Longrightarrow> elsewhere a t u \<Longrightarrow> elsewhere a s u"
  by (simp add: elsewhere_def)

lemma find_pooled_ok:
  assumes "\<forall>e \<in> set S. lookup heap (snd e) \<noteq> None"
  obtains (nothing) "find_pooled t sid heap S = Some None"
  | (found) b l t' r where "find_pooled t sid heap S = Some (Some (b, l @ r))" "S = l @ (t', b) # r"
  using assms
proof (induction S arbitrary: thesis)
  case Nil
  then show ?case
    by simp
next
  case (Cons e S)
  obtain t1 a where e: "e = (t1, a)"
    by fastforce
  obtain x where x: "lookup heap a = Some x"
    using Cons.prems(3) e by auto
  show ?case
  proof (cases "t1 = t \<and> sid = SessionId x")
    case True
    then show ?thesis
      using Cons.prems(2) [of a "[]" S t1] e x by simp
  next
    case False
    then have "find_pooled t sid heap (e # S) = map_option (map_option (\<lambda>(b, r). (b, e # r))) (find_pooled t sid heap S)"
      using e x by auto
    then show ?thesis
      using Cons.IH [of thesis] Cons.prems by (metis (no_types, lifting) append_Cons list.set_intros(2) option.simps(9) option.map(1) case_prod_conv)
  qed
qed

lemma pool_inv_perm:
  assumes "mset E = mset E'" "pool_inv E H n M s"
  shows "pool_inv E' H n M s"
proof -
  have m: "mset (map fst E @ R) = mset (map fst E' @ R)" "length (filter snd E) = length (filter snd E')"
      "set (map fst E) = set (map fst E')" for R
    using assms(1) by (auto dest: mset_eq_setD) (metis assms(1) mset_filter size_mset)
  have "heap_inv h (map fst E) R S = heap_inv h (map fst E') R S" for h R S
  proof -
    have "place_ok (map fst E) R S a x = place_ok (map fst E') R S a x" for a x
      using m(3) by (cases x) simp_all
    then show ?thesis
      unfolding heap_inv_def using m(1) [of "R @ map snd S"] by (metis mset_eq_imp_distinct_iff)
  qed
  then show ?thesis
    using assms(2) m(2) by (auto simp: pool_inv_def)
qed

definition all_idle :: "addr list \<Rightarrow> pool_sys \<Rightarrow> bool" where
  "all_idle as s \<longleftrightarrow>
     (\<forall>a \<in> set as. \<exists>x. lookup (Heap s) a = Some x \<and> \<not> NeedUpdateActiveCounter x \<and> SessionState x = S_IDLE)"

lemma pool_inv_takeS:
  assumes "pool_inv E H n M s" "Sessions (Pool s) = l @ (t, a) # r"
  shows "\<exists>x. lookup (Heap s) a = Some x \<and> \<not> NeedUpdateActiveCounter x \<and> SessionState x = S_IDLE
    \<and> pool_inv ((a, False) # E) H n M (s\<lparr>Pool := (Pool s)\<lparr>Sessions := l @ r\<rparr>\<rparr>)"
proof -
  have h: "heap_inv (Heap s) (map fst E) (replied (Log s) @ H) (l @ (t, a) # r)"
    using assms by (auto simp: pool_inv_def)
  obtain x where x: "lookup (Heap s) a = Some x" "pooled_ok t x"
    by (rule heap_inv_S [OF h, of t a]) auto
  have "mm_sorted (l @ r)"
    using assms by (auto simp: pool_inv_def mm_sorted_def sorted_append)
  then have "pool_inv ((a, False) # E) H n M (s\<lparr>Pool := (Pool s)\<lparr>Sessions := l @ r\<rparr>\<rparr>)"
    using heap_inv_takeS [OF h] assms by (auto simp: pool_inv_def count_inv_def)
  then show ?thesis
    using x by (auto simp: pooled_ok_def)
qed

lemma pooled_lookup:
  assumes "pool_inv E H n M s" "(t, a) \<in> set (Sessions (Pool s))"
  shows "\<exists>x. lookup (Heap s) a = Some x"
proof -
  have h: "heap_inv (Heap s) (map fst E) (replied (Log s) @ H) (Sessions (Pool s))"
    using assms by (auto simp: pool_inv_def)
  show ?thesis
    by (rule heap_inv_S [OF h assms(2)]) blast
qed

lemma periodic_scan_ok:
  assumes "pool_inv (map (\<lambda>a. (a, False)) del) H n M (s\<lparr>Pool := (Pool s)\<lparr>Sessions := passed @ ahead\<rparr>\<rparr>)"
    and "all_idle del s"
  shows "\<exists>del' s'. periodic_scan p False now k passed ahead [] del s = Some ([], del', s') \<and>
    pool_inv (map (\<lambda>a. (a, False)) del') H n M s' \<and> all_idle del' s'"
  using assms
proof (induction k arbitrary: passed ahead del s)
  case 0
  then show ?case
    by (simp add: all_idle_def)
next
  case (Suc k)
  show ?case
  proof (cases ahead)
    case Nil
    then show ?thesis
      using Suc.prems by (simp add: all_idle_def)
  next
    case (Cons e rest)
    obtain t a where e: "e = (t, a)"
      by fastforce
    define s1 where "s1 = s\<lparr>Pool := (Pool s)\<lparr>Sessions := passed @ (t, a) # rest\<rparr>\<rparr>"
    have i: "pool_inv (map (\<lambda>a. (a, False)) del) H n M s1"
      using Suc.prems(1) by (simp add: s1_def Cons e)
    obtain x where x: "lookup (Heap s) a = Some x" "\<not> NeedUpdateActiveCounter x" "SessionState x = S_IDLE"
        "pool_inv ((a, False) # map (\<lambda>a. (a, False)) del) H n M (s\<lparr>Pool := (Pool s)\<lparr>Sessions := passed @ rest\<rparr>\<rparr>)"
      using pool_inv_takeS [OF i, of passed t a rest] by (auto simp: s1_def)
    define y where "y = UpdateServerCloseHandler False x"
    define s2 where "s2 = s\<lparr>Heap := AList.update a y (Heap s)\<rparr>"
    have "pool_inv ((a, False) # map (\<lambda>a. (a, False)) del) H n M (s2\<lparr>Pool := (Pool s2)\<lparr>Sessions := passed @ rest\<rparr>\<rparr>)"
      using on_session_hand [OF x(4), of "UpdateServerCloseHandler False"] x(1)
      by (auto simp: s2_def y_def UpdateServerCloseHandler_def pool_inv_def)
    then have "pool_inv (map (\<lambda>a. (a, False)) (del @ [a])) H n M (s2\<lparr>Pool := (Pool s2)\<lparr>Sessions := passed @ rest\<rparr>\<rparr>)"
      by (rule pool_inv_perm [rotated]) simp
    moreover have "all_idle (del @ [a]) s2"
      using Suc.prems(2) x by (auto simp: all_idle_def s2_def y_def UpdateServerCloseHandler_def)
    ultimately have "\<exists>del' s'. periodic_scan p False now k passed rest [] (del @ [a]) s2 = Some ([], del', s') \<and>
        pool_inv (map (\<lambda>a. (a, False)) del') H n M s' \<and> all_idle del' s'"
      by (rule Suc.IH)
    moreover have "\<exists>del' s'. periodic_scan p False now k (passed @ [(t, a)]) rest [] del s = Some ([], del', s') \<and>
        pool_inv (map (\<lambda>a. (a, False)) del') H n M s' \<and> all_idle del' s'"
      using Suc.prems by (intro Suc.IH) (simp_all add: Cons e)
    moreover have "on_session a (UpdateServerCloseHandler False) s = Some s2"
      using x(1) by (simp add: on_session_def s2_def y_def)
    ultimately show ?thesis
      using Suc.prems i x(1) by (auto simp: Cons e s1_def all_idle_def)
  qed
qed

locale session_owner =
  fixes del :: "addr \<Rightarrow> pool_sys \<Rightarrow> pool_sys option"
    and ret :: "addr \<Rightarrow> pool_sys \<Rightarrow> (bool \<times> pool_sys) option"
  assumes del_ok:
    "\<lbrakk>pool_inv ((a, NeedUpdateActiveCounter x) # E) H n M s; lookup (Heap s) a = Some x\<rbrakk>
      \<Longrightarrow> \<exists>s'. del a s = Some s' \<and> pool_inv E H n M s' \<and> elsewhere a s s' \<and> waiting s' = tl (waiting s)"
  and ret_ok:
    "\<lbrakk>pool_inv ((a, True) # E) H n M s; lookup (Heap s) a = Some x; NeedUpdateActiveCounter x; SessionState x = S_ACTIVE\<rbrakk>
      \<Longrightarrow> \<exists>r s'. ret a s = Some (r, s') \<and> elsewhere a s s' \<and>
        (if r then pool_inv E H n M s' \<and> waiting s' = tl (waiting s)
         else pool_inv ((a, True) # E) H n M s' \<and> waiting s' = waiting s \<and>
           (\<exists>y. lookup (Heap s') a = Some y \<and> NeedUpdateActiveCounter y))"
begin

lemma SmartDeleter_held:
  assumes "pool_inv ((a, True) # E) H n M s" "lookup (Heap s) a = Some x" "held_ok x"
  shows "\<exists>s'. SmartDeleter del ret a s = Some s' \<and> pool_inv E H n M s' \<and> elsewhere a s s'
    \<and> waiting s' = tl (waiting s)"
proof -
  define y where "y = x\<lparr>PropagatedDeadline := None\<rparr>"
  define t where "t = s\<lparr>Heap := AList.update a y (Heap s)\<rparr>"
  have t: "on_session a (\<lambda>x. x\<lparr>PropagatedDeadline := None\<rparr>) s = Some t" "pool_inv ((a, True) # E) H n M t"
    using on_session_hand [OF assms(1), of "\<lambda>x. x\<lparr>PropagatedDeadline := None\<rparr>"] assms(2) by (auto simp: t_def y_def)
  have y: "lookup (Heap t) a = Some y" "NeedUpdateActiveCounter y" "SessionState y = SessionState x" "elsewhere a s t"
      "waiting t = waiting s"
    using assms(3) by (simp_all add: t_def y_def held_ok_def elsewhere_def)
  obtain s' where d: "del a t = Some s'" "pool_inv E H n M s'" "elsewhere a s s'" "waiting s' = tl (waiting s)"
    using del_ok [of a y E H n M t] t(2) y elsewhere_trans by auto
  show ?thesis
  proof (cases "SessionState x = S_ACTIVE")
    case False
    then have "SessionState y = S_CLOSING \<or> SessionState y = S_BROKEN"
      using assms(3) y(3) by (auto simp: held_ok_def)
    then show ?thesis
      using d t(1) y(1) by (auto simp: SmartDeleter_def)
  next
    case True
    obtain r u where r: "ret a t = Some (r, u)" "elsewhere a t u"
        "if r then pool_inv E H n M u \<and> waiting u = tl (waiting t)
         else pool_inv ((a, True) # E) H n M u \<and> waiting u = waiting t \<and> (\<exists>y. lookup (Heap u) a = Some y \<and> NeedUpdateActiveCounter y)"
      using ret_ok [OF t(2) y(1,2)] y(3) True by auto
    have *: "SmartDeleter del ret a s = (if \<not> r then del a u else Some u)"
      using t(1) y(1,3) True r(1) by (simp add: SmartDeleter_def)
    show ?thesis
    proof (cases r)
      case True
      then show ?thesis
        using * r y(5) elsewhere_trans [OF y(4)] by auto
    next
      case False
      then obtain z where "lookup (Heap u) a = Some z" "NeedUpdateActiveCounter z" "pool_inv ((a, True) # E) H n M u"
          "waiting u = waiting s"
        using r(3) y(5) by auto
      then obtain v where "del a u = Some v" "pool_inv E H n M v" "elsewhere a u v" "waiting v = tl (waiting s)"
        using del_ok [of a z E H n M u] by auto
      then show ?thesis
        using * False elsewhere_trans [OF y(4) elsewhere_trans [OF r(2)]] by auto
    qed
  qed
qed

lemma CloseAndDeleteSession_ok:
  assumes "pool_inv ((a, False) # E) H n M s" "lookup (Heap s) a = Some x" "\<not> NeedUpdateActiveCounter x"
    and "SessionState x \<noteq> S_ACTIVE"
  shows "\<exists>s'. CloseAndDeleteSession del ret a s = Some s' \<and> pool_inv E H n M s' \<and> elsewhere a s s'"
proof -
  define y where "y = x\<lparr>SessionState := S_BROKEN, PropagatedDeadline := None\<rparr>"
  define t where "t = s\<lparr>Heap := AList.update a y (Heap s)\<rparr>"
  have "AList.update a y (AList.update a z m) = AList.update a y m" for z and m :: "(addr, TKqpSessionCommon) amap"
    by (induction m) auto
  then have "CloseAndDeleteSession del ret a s = del a t"
    using assms(2-4)
    by (simp add: CloseAndDeleteSession_def SmartDeleter_def call_session_def MarkBroken_def on_session_def t_def y_def)
  moreover have "pool_inv ((a, False) # E) H n M t"
    using on_session_hand [OF assms(1), of "\<lambda>x. x\<lparr>SessionState := S_BROKEN, PropagatedDeadline := None\<rparr>"] assms(2)
    by (auto simp: t_def y_def)
  moreover have "lookup (Heap t) a = Some y" "\<not> NeedUpdateActiveCounter y" "elsewhere a s t"
    using assms(3) by (simp_all add: t_def y_def elsewhere_def)
  ultimately show ?thesis
    using del_ok [of a y E H n M t] elsewhere_trans by auto
qed

lemma delete_idle_ok:
  assumes "pool_inv ((a, False) # E) H n M s" "lookup (Heap s) a = Some x" "\<not> NeedUpdateActiveCounter x"
    and "SessionState x = S_IDLE"
  shows "\<exists>s'. delete_idle_session del ret a s = Some s' \<and> pool_inv E H n M s' \<and> elsewhere a s s'"
proof -
  define y where "y = x\<lparr>SessionState := S_BROKEN\<rparr>"
  define t where "t = s\<lparr>Heap := AList.update a y (Heap s)\<rparr>"
  define t' where "t' = (if \<not> CloseRequested x \<and> IsOwnedBySessionPool x then RecordSessionClosed ''pool_idle_timeout'' t else t)"
  have "delete_idle_session del ret a s = CloseAndDeleteSession del ret a t'"
    using assms(2-4)
    by (simp add: delete_idle_session_def abort_unless_def Execute_def close_commands call_session_def MarkBroken_def
        t_def t'_def y_def)
  moreover have "pool_inv ((a, False) # E) H n M t"
    using on_session_hand [OF assms(1), of "\<lambda>x. x\<lparr>SessionState := S_BROKEN\<rparr>"] assms(2) by (auto simp: t_def y_def)
  then have "pool_inv ((a, False) # E) H n M t'"
    by (simp add: t'_def RecordSessionClosed_def)
  moreover have "lookup (Heap t') a = Some y" "\<not> NeedUpdateActiveCounter y" "SessionState y \<noteq> S_ACTIVE" "elsewhere a s t'"
    using assms(3) by (simp_all add: t_def t'_def y_def elsewhere_def RecordSessionClosed_def)
  ultimately show ?thesis
    using CloseAndDeleteSession_ok [of a E H n M t' y] elsewhere_trans by auto
qed

lemma delete_each_ok:
  assumes "pool_inv (map (\<lambda>a. (a, False)) as) H n M s"
    and "all_idle as s"
  shows "\<exists>s'. each_session (delete_idle_session del ret) as s = Some s' \<and> pool_inv [] H n M s'"
  using assms
proof (induction as arbitrary: s)
  case (Cons a as)
  obtain x where x: "lookup (Heap s) a = Some x" "\<not> NeedUpdateActiveCounter x" "SessionState x = S_IDLE"
    using Cons.prems(2) by (auto simp: all_idle_def)
  have "a \<notin> set as"
    using Cons.prems(1) by (auto simp: pool_inv_def heap_inv_def comp_def)
  obtain t where t: "delete_idle_session del ret a s = Some t" "pool_inv (map (\<lambda>a. (a, False)) as) H n M t" "elsewhere a s t"
    using delete_idle_ok [OF Cons.prems(1) [simplified] x] by blast
  have "all_idle as t"
    using Cons.prems(2) t(3) \<open>a \<notin> set as\<close> by (auto simp: elsewhere_def all_idle_def)
  from Cons.IH [OF t(2) this] show ?case
    using t(1) by auto
qed simp

lemma OnCloseSession_ok:
  assumes "pool_inv [] H n M s" "lookup (Heap s) a = Some x"
  shows "\<exists>s'. OnCloseSession del ret a reason s = Some s' \<and> pool_inv [] H n M s'"
proof -
  have "\<forall>e \<in> set (Sessions (Pool s)). lookup (Heap s) (snd e) \<noteq> None"
    using pooled_lookup [OF assms(1)] by force
  then show ?thesis
  proof (cases rule: find_pooled_ok [of "Sessions (Pool s)" "Heap s" "TimeToTouch x" "SessionId x"])
    case nothing
    then show ?thesis
      using assms by (auto simp: OnCloseSession_def)
  next
    case (found b l t r)
    obtain y where y: "lookup (Heap s) b = Some y" "\<not> NeedUpdateActiveCounter y" "SessionState y = S_IDLE"
        "pool_inv [(b, False)] H n M (s\<lparr>Pool := (Pool s)\<lparr>Sessions := l @ r\<rparr>\<rparr>)"
      using pool_inv_takeS [OF assms(1) found(2)] by auto
    define z where "z = y\<lparr>SessionState := S_BROKEN\<rparr>"
    define u where "u = s\<lparr>Pool := (Pool s)\<lparr>Sessions := l @ r\<rparr>, Heap := AList.update b z (Heap s)\<rparr>"
    define u' where "u' = (if \<not> CloseRequested y then RecordSessionClosed reason u else u)"
    have "OnCloseSession del ret a reason s = CloseAndDeleteSession del ret b u'"
      using assms(2) found(1) y(1-3)
      by (simp add: OnCloseSession_def abort_unless_def call_session_def MarkBroken_def z_def u_def u'_def)
    moreover have "pool_inv [(b, False)] H n M u"
      using on_session_hand [OF y(4), of "\<lambda>x. x\<lparr>SessionState := S_BROKEN\<rparr>"] y(1) by (simp add: u_def z_def)
    then have "pool_inv [(b, False)] H n M u'"
      by (simp add: u'_def RecordSessionClosed_def)
    moreover have "lookup (Heap u') b = Some z" "\<not> NeedUpdateActiveCounter z" "SessionState z \<noteq> S_ACTIVE"
      using y(2) by (simp_all add: u_def u'_def z_def RecordSessionClosed_def)
    ultimately show ?thesis
      using CloseAndDeleteSession_ok [of b "[]" H n M u' z] by auto
  qed
qed

lemma CloseFromServer_ok:
  assumes "pool_inv [] H n M s" "lookup (Heap s) a = Some x"
  shows "\<exists>s'. CloseFromServer del ret client a reason s = Some s' \<and> pool_inv [] H n M s'"
  using OnCloseSession_ok [OF assms, of reason] assms by (auto simp: CloseFromServer_def)

lemma PeriodicTask_ok:
  assumes "pool_inv [] H n M s"
  shows "\<exists>r s'. PeriodicTask del ret None p client status now nowUtil s = Some (r, s') \<and> pool_inv [] H n M s'"
proof (cases "status = SUCCESS \<and> client")
  case False
  then show ?thesis
    using assms by (auto simp: PeriodicTask_def)
next
  case True
  obtain ds s1 where sc: "periodic_scan p False nowUtil PERIODIC_ACTION_BATCH_SIZE [] (Sessions (Pool s)) [] [] s = Some ([], ds, s1)"
      "pool_inv (map (\<lambda>a. (a, False)) ds) H n M s1" "all_idle ds s1"
    using periodic_scan_ok [where del = "[]" and s = s and passed = "[]" and ahead = "Sessions (Pool s)" and H = H and n = n and M = M]
      assms by (force simp: all_idle_def [of "[]"])
  obtain old q where g: "GetOld now (WaitersQueue (Pool s1)) = (old, q)"
    by fastforce
  define s2 where "s2 = UpdateStats (s1\<lparr>Pool := (Pool s1)\<lparr>WaitersQueue := q\<rparr>\<rparr>)"
  obtain M' where M: "M = M' + mset old" "pool_inv (map (\<lambda>a. (a, False)) ds) H n M' s2"
    using pool_inv_GetOld [OF sc(2) g] by (auto simp: s2_def)
  have "all_idle ds s2"
    using sc(3) by (simp add: all_idle_def s2_def)
  from delete_each_ok [OF M(2) this] obtain s3 where
      "each_session (delete_idle_session del ret) ds s2 = Some s3" "pool_inv [] H n M' s3"
    by blast
  then show ?thesis
    using True sc(1) g reply_timeouts_ok [of "[]" H n M' s3 old] M(1)
    by (auto simp: PeriodicTask_def s2_def)
qed

end

end
