(* ===== verification/QueryClient.thy ===== *)
theory QueryClient
  imports SessionPool
begin

text \<open>
  The query client as the owner of a session pool: \<^verbatim>\<open>DeleteSession\<close>, \<^verbatim>\<open>ReturnSession\<close>, \<^verbatim>\<open>GetSession\<close> and the
  periodic task of \<^verbatim>\<open>client/query/client.cpp\<close>, the session object and its attach stream of
  \<^verbatim>\<open>client/query/impl/client_session.cpp\<close> and \<^verbatim>\<open>session_state_handler.cpp\<close>. The step relation runs these
  handlers in any order, with any answers of the server; what the users hold and which sessions are
  being created is part of its state.
\<close>

section \<open>The client\<close>

definition DeleteSession :: "addr \<Rightarrow> pool_sys \<Rightarrow> pool_sys option" where
  "DeleteSession a s =
     do {
       x \<leftarrow> lookup (Heap s) a;
       s \<leftarrow> (if IsOwnedBySessionPool x then
                (case CheckAndFeedWaiterNewSession (NeedUpdateActiveCounter x) s of
                   (True, s) \<Rightarrow> on_session a (SetNeedUpdateActiveCounter False) s
                 | (False, s) \<Rightarrow> Some s)
              else Some s);
       x \<leftarrow> lookup (Heap s) a;
       s \<leftarrow> (if NeedUpdateActiveCounter x then DecrementActiveCounter s else Some s);
       free_session a s
     }"

definition ReturnSession :: "addr \<Rightarrow> pool_sys \<Rightarrow> (bool \<times> pool_sys) option" where
  "ReturnSession a s =
     do {
       x \<leftarrow> lookup (Heap s) a;
       if SessionState x \<noteq> S_ACTIVE \<and> SessionState x \<noteq> S_IDLE then Some (False, s)
       else do {
         let needUpdateCounter = NeedUpdateActiveCounter x;
         (marked, s) \<leftarrow> call_session a MarkIdle s;
         if \<not> marked then Some (False, s)
         else do {
           (returned, s) \<leftarrow> PoolReturnSession a needUpdateCounter s;
           if \<not> returned then do {
             s \<leftarrow> on_session a (SetNeedUpdateActiveCounter needUpdateCounter) s;
             Some (False, s)
           }
           else Some (True, s)
         }
       }
     }"

text \<open>A session object is created with the stream of its attachment, or without one after a failure.\<close>

definition new_impl ::
  "(string \<Rightarrow> (string \<times> string) option) \<Rightarrow> TInstant \<Rightarrow> TInstant \<Rightarrow> bool \<Rightarrow> string \<Rightarrow> string \<Rightarrow> TKqpSessionCommon" where
  "new_impl uri_parse now1 now2 stream sessionId endpoint =
     (let x = new_session uri_parse now1 now2 sessionId endpoint True
      in SetNeedUpdateActiveCounter True (snd (if stream then MarkActive x else MarkBroken x)))"

definition deletePredicate :: "TDuration \<Rightarrow> nat \<Rightarrow> TKqpSessionCommon \<Rightarrow> nat \<Rightarrow> bool" where
  "deletePredicate closeIdleThreshold minPoolSize x sessionsCount =
     (let spentTime = DiffWithSaturation (TimeToTouch x) (TimeInPast x)
      in closeIdleThreshold \<le> spentTime \<and> minPoolSize < sessionsCount)"

record attach_state =
  has_session_shutdown :: bool
  has_node_shutdown :: bool

text \<open>The result says whether the stream is read on.\<close>

definition HandleAttachSessionState :: "attach_state \<Rightarrow> addr \<Rightarrow> bool \<Rightarrow> pool_sys \<Rightarrow> (bool \<times> pool_sys) option" where
  "HandleAttachSessionState st a client s =
     (if has_session_shutdown st \<or> has_node_shutdown st then do {
        let closeCommand = (if has_node_shutdown st then NodeShutdown else SessionShutdown);
        x \<leftarrow> lookup (Heap s) a;
        let nodeId = KeyNodeId (EndpointKey x);
        let s = (if has_node_shutdown st \<and> nodeId \<noteq> 0 \<and> client then emit (PessimizeNodeId nodeId) s else s);
        s \<leftarrow> Execute closeCommand client a s;
        s \<leftarrow> (if client then CloseFromServer DeleteSession ReturnSession client a (Reason closeCommand) s else Some s);
        Some (False, s)
      }
      else Some (True, s))"

definition AttachReadCallback :: "grpc_code \<Rightarrow> attach_state \<Rightarrow> addr \<Rightarrow> bool \<Rightarrow> pool_sys \<Rightarrow> pool_sys option" where
  "AttachReadCallback code st a client s =
     (if code = GRPC_OK then map_option snd (HandleAttachSessionState st a client s)
      else
        (let closeCommand = (if code = GRPC_OUT_OF_RANGE then AttachClosed else TransportError)
         in CloseFromServer DeleteSession ReturnSession client a (Reason closeCommand) s))"

section \<open>The system\<close>

text \<open>
  \<open>Submitted\<close> are the requests for a session so far and \<open>Answered\<close> those whose promise is set. The users hold
  sessions. A request the pool answered with \<^verbatim>\<open>ReplyNewSession\<close> has a session being created; the flag says
  that its promise was set before, by the deadline of a deferred creation.
\<close>

record query_sys =
  Sys :: pool_sys
  Held :: "addr list"
  Creating :: "(IGetSessionCtx \<times> bool) list"
  Answered :: "IGetSessionCtx list"
  Submitted :: "IGetSessionCtx list"

definition new_client :: "32 word \<Rightarrow> 32 word \<Rightarrow> query_sys" where
  "new_client maxActiveSessions minPoolSize =
     \<lparr>Sys = \<lparr>Heap = [], Pool = new_pool maxActiveSessions minPoolSize, Log = []\<rparr>,
      Held = [], Creating = [], Answered = [], Submitted = []\<rparr>"

text \<open>The replies a handler logged are carried out.\<close>

definition handled :: "pool_sys \<Rightarrow> query_sys \<Rightarrow> query_sys" where
  "handled s q =
     q\<lparr>Sys := s\<lparr>Log := []\<rparr>,
       Held := replied (Log s) @ Held q,
       Creating := map (\<lambda>ctx. (ctx, False)) (to_create (Log s)) @ Creating q,
       Answered := answered (Log s) @ Answered q\<rparr>"

text \<open>
  The creation of a session ends with a session object in every case: attached to the server, with the
  identifier and the endpoint, or broken, without them. The object is the value of the promise; when the
  promise was set before, it is dropped.
\<close>

definition created_impl ::
  "(string \<Rightarrow> (string \<times> string) option) \<Rightarrow> TInstant \<Rightarrow> TInstant \<Rightarrow> (string \<times> string) option \<Rightarrow> TKqpSessionCommon" where
  "created_impl uri_parse now1 now2 outcome =
     (case outcome of
        Some (sessionId, endpoint) \<Rightarrow> new_impl uri_parse now1 now2 True sessionId endpoint
      | None \<Rightarrow> new_impl uri_parse now1 now2 False [] [])"

definition create_done :: "IGetSessionCtx \<Rightarrow> bool \<Rightarrow> addr \<Rightarrow> TKqpSessionCommon \<Rightarrow> query_sys \<Rightarrow> query_sys option" where
  "create_done ctx late a x q =
     (let s = (Sys q)\<lparr>Heap := AList.update a x (Heap (Sys q))\<rparr>;
          q = q\<lparr>Creating := remove1 (ctx, late) (Creating q)\<rparr>
      in if late then map_option (\<lambda>s. handled s q) (SmartDeleter DeleteSession ReturnSession a s)
         else Some (q\<lparr>Sys := s, Held := a # Held q, Answered := ctx # Answered q\<rparr>))"

definition create_deadline :: "IGetSessionCtx \<Rightarrow> query_sys \<Rightarrow> query_sys" where
  "create_deadline ctx q =
     q\<lparr>Creating := (ctx, True) # remove1 (ctx, False) (Creating q), Answered := ctx # Answered q\<rparr>"

text \<open>
  What can happen: a request, the end of a creation with an object at a free address, the deadline
  of a deferred creation, the release of the last pointer to a session, a response on a held session, a
  message or the end of an attach stream, the timer of the waiters, the periodic task, and new metrics.
\<close>

datatype query_event =
    AskSession IGetSessionCtx
  | CreateDone IGetSessionCtx bool addr TInstant TInstant "(string \<times> string) option"
  | CreateDeadline IGetSessionCtx
  | Release addr
  | Respond addr TInstant bool TDuration bool "unit + TStatus"
  | AttachRead addr grpc_code attach_state bool
  | WaiterTimer TDeadline
  | PeriodicTimer TDuration nat bool EStatus TDeadline TInstant
  | SetStatCollector "int option" "int option" "int option"

fun enabled :: "query_event \<Rightarrow> query_sys \<Rightarrow> bool" where
  "enabled (CreateDone ctx late a now1 now2 outcome) q =
     ((ctx, late) \<in> set (Creating q) \<and> lookup (Heap (Sys q)) a = None)"
| "enabled (CreateDeadline ctx) q = ((ctx, False) \<in> set (Creating q))"
| "enabled (Release a) q = (a \<in> set (Held q))"
| "enabled (Respond a now updateTimeout timeout client response) q = (a \<in> set (Held q))"
| "enabled (AttachRead a code st client) q = (lookup (Heap (Sys q)) a \<noteq> None)"
| "enabled _ q = True"

fun handle ::
  "(string \<Rightarrow> (string \<times> string) option) \<Rightarrow> (64 word \<Rightarrow> 64 word) \<Rightarrow> query_event \<Rightarrow> query_sys \<Rightarrow> query_sys option" where
  "handle uri_parse random (AskSession ctx) q =
     map_option (\<lambda>s. handled s (q\<lparr>Submitted := ctx # Submitted q\<rparr>)) (GetSession ctx (Sys q))"
| "handle uri_parse random (CreateDone ctx late a now1 now2 outcome) q =
     create_done ctx late a (created_impl uri_parse now1 now2 outcome) q"
| "handle uri_parse random (CreateDeadline ctx) q = Some (create_deadline ctx q)"
| "handle uri_parse random (Release a) q =
     map_option (\<lambda>s. handled s (q\<lparr>Held := remove1 a (Held q)\<rparr>)) (SmartDeleter DeleteSession ReturnSession a (Sys q))"
| "handle uri_parse random (Respond a now updateTimeout timeout client response) q =
     map_option (\<lambda>s. handled s q) (InterceptStatus random now updateTimeout timeout client a response (Sys q))"
| "handle uri_parse random (AttachRead a code st client) q =
     map_option (\<lambda>s. handled s q) (AttachReadCallback code st a client (Sys q))"
| "handle uri_parse random (WaiterTimer now) q = Some (handled (ClearOldWaiters now (Sys q)) q)"
| "handle uri_parse random (PeriodicTimer closeIdleThreshold minPoolSize client status now nowUtil) q =
     map_option (\<lambda>(_, s). handled s q)
       (PeriodicTask DeleteSession ReturnSession None (deletePredicate closeIdleThreshold minPoolSize) client status now nowUtil (Sys q))"
| "handle uri_parse random (SetStatCollector active inPool waiters) q =
     Some (handled (PoolSetStatCollector active inPool waiters (Sys q)) q)"

inductive reachable ::
  "(string \<Rightarrow> (string \<times> string) option) \<Rightarrow> (64 word \<Rightarrow> 64 word) \<Rightarrow> 32 word \<Rightarrow> 32 word \<Rightarrow> query_sys \<Rightarrow> bool"
  for uri_parse random maxActiveSessions minPoolSize where
  start: "reachable uri_parse random maxActiveSessions minPoolSize (new_client maxActiveSessions minPoolSize)"
| step: "\<lbrakk>reachable uri_parse random maxActiveSessions minPoolSize q; enabled e q; handle uri_parse random e q = Some q'\<rbrakk>
    \<Longrightarrow> reachable uri_parse random maxActiveSessions minPoolSize q'"

section \<open>The contract of a session owner\<close>

lemma DeleteSession_ok:
  assumes "pool_inv ((a, NeedUpdateActiveCounter x) # E) H n M s" "lookup (Heap s) a = Some x"
  shows "\<exists>s'. DeleteSession a s = Some s' \<and> pool_inv E H n M s' \<and> elsewhere a s s' \<and> waiting s' = tl (waiting s)"
proof -
  have o: "IsOwnedBySessionPool x"
    using heap_inv_E [of "Heap s" a "map fst E" "replied (Log s) @ H" "Sessions (Pool s)"] assms
    by (fastforce simp: pool_inv_def)
  consider (none) "waiting s = []" "CheckAndFeedWaiterNewSession (NeedUpdateActiveCounter x) s = (False, s)"
    | (fed) s1 where "CheckAndFeedWaiterNewSession (NeedUpdateActiveCounter x) s = (True, s1)"
        "pool_inv ((a, False) # E) H n M s1" "Heap s1 = Heap s" "waiting s1 = tl (waiting s)"
    using CheckAndFeed_ok [OF assms(1)] by blast
  then show ?thesis
  proof cases
    case none
    show ?thesis
    proof (cases "NeedUpdateActiveCounter x")
      case True
      then obtain s2 where d: "DecrementActiveCounter s = Some s2" "pool_inv ((a, False) # E) H n M s2" "Heap s2 = Heap s" "waiting s2 = []"
        using DecrementActiveCounter_ok [of a E H n M s] assms(1) none(1) by auto
      then show ?thesis
        using free_session_ok [OF d(2)] o none assms(2) True
        by (auto simp: DeleteSession_def elsewhere_def delete_conv)
    next
      case False
      then show ?thesis
        using free_session_ok [of a E H n M s] o none assms
        by (auto simp: DeleteSession_def elsewhere_def delete_conv)
    qed
  next
    case fed
    define y where "y = SetNeedUpdateActiveCounter False x"
    define s2 where "s2 = s1\<lparr>Heap := AList.update a y (Heap s1)\<rparr>"
    have s2: "on_session a (SetNeedUpdateActiveCounter False) s1 = Some s2" "pool_inv ((a, False) # E) H n M s2"
      using on_session_hand [OF fed(2), of "SetNeedUpdateActiveCounter False"] fed(3) assms(2)
      by (auto simp: s2_def y_def SetNeedUpdateActiveCounter_def)
    moreover have "lookup (Heap s2) a = Some y" "\<not> NeedUpdateActiveCounter y"
      by (simp_all add: s2_def y_def SetNeedUpdateActiveCounter_def)
    ultimately show ?thesis
      using free_session_ok [OF s2(2)] o fed assms(2)
      by (auto simp: DeleteSession_def elsewhere_def delete_conv update_conv s2_def)
  qed
qed

lemma ReturnSession_ok:
  assumes "pool_inv ((a, True) # E) H n M s" "lookup (Heap s) a = Some x" "NeedUpdateActiveCounter x"
    and "SessionState x = S_ACTIVE"
  shows "\<exists>r s'. ReturnSession a s = Some (r, s') \<and> elsewhere a s s' \<and>
    (if r then pool_inv E H n M s' \<and> waiting s' = tl (waiting s)
     else pool_inv ((a, True) # E) H n M s' \<and> waiting s' = waiting s \<and> (\<exists>y. lookup (Heap s') a = Some y \<and> NeedUpdateActiveCounter y))"
proof (cases "CloseRequested x")
  case True
  then have "ReturnSession a s = Some (False, s\<lparr>Heap := AList.update a x (Heap s)\<rparr>)"
    using assms by (simp add: ReturnSession_def call_session_def MarkIdle_def)
  then show ?thesis
    using on_session_hand [OF assms(1), of id] assms(2,3) by (auto simp: elsewhere_def update_conv)
next
  case False
  define y where "y = x\<lparr>SessionState := S_IDLE, NeedUpdateActiveCounter := False\<rparr>"
  define s1 where "s1 = s\<lparr>Heap := AList.update a y (Heap s)\<rparr>"
  have "pool_inv ((a, True) # E) H n M s1"
    using on_session_hand [OF assms(1), of "\<lambda>x. x\<lparr>SessionState := S_IDLE, NeedUpdateActiveCounter := False\<rparr>"] assms(2)
    by (auto simp: s1_def y_def)
  then obtain s' z where r: "PoolReturnSession a True s1 = Some (True, s')" "pool_inv E H n M s'"
      "Heap s' = AList.update a z (Heap s1)" "waiting s' = tl (waiting s1)"
    using PoolReturnSession_ok [of a E H n M s1 y] False by (auto simp: s1_def y_def CanReturnToPool_def)
  have "ReturnSession a s = Some (True, s')"
    using False assms(2-4) r(1) by (simp add: ReturnSession_def call_session_def MarkIdle_def s1_def y_def)
  then show ?thesis
    using r(2-4) by (auto simp: elsewhere_def s1_def update_conv)
qed

interpretation query_owner: session_owner DeleteSession ReturnSession
  using DeleteSession_ok ReturnSession_ok by unfold_locales blast+

section \<open>The invariant of the system\<close>

definition unanswered :: "(IGetSessionCtx \<times> bool) list \<Rightarrow> IGetSessionCtx multiset" where
  "unanswered cs = mset (map fst (filter (\<lambda>c. \<not> snd c) cs))"

definition query_inv :: "query_sys \<Rightarrow> bool" where
  "query_inv q \<longleftrightarrow>
     Log (Sys q) = [] \<and> pool_inv [] (Held q) (length (Creating q)) (mset (map snd (waiting (Sys q)))) (Sys q) \<and>
     mset (Submitted q) = mset (map snd (waiting (Sys q))) + unanswered (Creating q) + mset (Answered q)"

lemma query_inv_handled:
  assumes "pool_inv [] (Held q) (length (Creating q)) M s"
    and "mset (Submitted q) = M + unanswered (Creating q) + mset (Answered q)"
  shows "query_inv (handled s q)"
proof -
  have "unanswered (map (\<lambda>ctx. (ctx, False)) l @ c) = mset l + unanswered c" for l c
    by (induction l) (simp_all add: unanswered_def)
  then show ?thesis
    using assms by (auto simp: query_inv_def handled_def pool_inv_def ac_simps)
qed

lemma unanswered_remove:
  "c \<in> set cs \<Longrightarrow> unanswered cs = unanswered (remove1 c cs) + (if snd c then {#} else {#fst c#})"
  by (induction cs) (auto simp: unanswered_def)

lemma length_remove1_Suc: "x \<in> set l \<Longrightarrow> length l = Suc (length (remove1 x l))"
  by (induction l) auto

lemma query_inv_start: "query_inv (new_client maxActiveSessions minPoolSize)"
  by (simp add: query_inv_def new_client_def new_pool_def pool_inv_def queue_inv_def heap_inv_def count_inv_def
      mm_sorted_def unanswered_def)

lemma held_transition:
  assumes "held_ok x" "f = MarkBroken \<or> f = MarkAsClosing"
  shows "held_ok (snd (f x))" "IsOwnedBySessionPool (snd (f x))"
  using assms by (auto simp: held_ok_def MarkBroken_def MarkAsClosing_def split: if_splits)

lemma close_transitions:
  assumes "FromStatus status = Some command"
  shows "Transition command = MarkBroken \<or> Transition command = MarkAsClosing"
  using assms by (auto simp: FromStatus_def close_commands split: if_splits)

lemma held_update:
  assumes "pool_inv [] H n M s" "a \<in> set H" "lookup (Heap s) a = Some x" "held_ok y"
  shows "pool_inv [] H n M (s\<lparr>Heap := AList.update a y (Heap s)\<rparr>)"
  using assms heap_inv_updateR [of "Heap s" "[]" "replied (Log s) @ H" "Sessions (Pool s)" a y]
  by (auto simp: pool_inv_def)

lemma held_lookup:
  assumes "pool_inv [] H n M s" "a \<in> set H"
  obtains x where "lookup (Heap s) a = Some x" "held_ok x"
proof -
  have h: "heap_inv (Heap s) [] (replied (Log s) @ H) (Sessions (Pool s))"
    using assms(1) by (simp add: pool_inv_def)
  show ?thesis
    by (rule heap_inv_R [OF h, of a]) (use assms(2) that in auto)
qed

lemma Execute_held:
  assumes "pool_inv [] H n M s" "a \<in> set H" "Transition command = MarkBroken \<or> Transition command = MarkAsClosing"
  shows "\<exists>s'. Execute command client a s = Some s' \<and> pool_inv [] H n M s'"
proof (rule held_lookup [OF assms(1,2)])
  fix x
  assume x: "lookup (Heap s) a = Some x" "held_ok x"
  have "pool_inv [] H n M (s\<lparr>Heap := AList.update a (snd (Transition command x)) (Heap s)\<rparr>)"
    using held_update [OF assms(1,2) x(1)] held_transition(1) [OF x(2) assms(3)] by blast
  then show ?thesis
    using x(1) by (simp add: Execute_def call_session_def RecordSessionClosed_def)
qed

lemma InterceptStatus_held:
  assumes "pool_inv [] H n M s" "a \<in> set H"
  shows "\<exists>s'. InterceptStatus random now updateTimeout timeout client a response s = Some s' \<and> pool_inv [] H n M s'"
proof (cases "case response of Inl _ \<Rightarrow> Some TransportError | Inr status \<Rightarrow> FromStatus status")
  case None
  then obtain status where r: "response = Inr status" "FromStatus status = None"
    by (auto split: sum.splits)
  show ?thesis
  proof (rule held_lookup [OF assms])
    fix x
    assume x: "lookup (Heap s) a = Some x" "held_ok x"
    have "held_ok (ScheduleTimeToTouch now d b x)" for d b
      using x(2) by (simp add: held_ok_def ScheduleTimeToTouch_def Let_def)
    then show ?thesis
      using held_update [OF assms x(1)] assms(1) x(1) by (simp add: InterceptStatus_def r on_session_def)
  qed
next
  case (Some command)
  then have "InterceptStatus random now updateTimeout timeout client a response s = Execute command client a s"
    by (auto simp: InterceptStatus_def split: sum.splits)
  moreover have "Transition command = MarkBroken \<or> Transition command = MarkAsClosing"
    using Some close_transitions by (auto simp: close_commands split: sum.splits)
  ultimately show ?thesis
    using Execute_held [OF assms] by simp
qed

lemma live_cases:
  assumes "pool_inv [] H n M s" "replied (Log s) = []" "lookup (Heap s) a = Some x"
  obtains (held) "a \<in> set H" | (pooled) t where "(t, a) \<in> set (Sessions (Pool s))" "pooled_ok t x"
  using assms heap_inv_placed(2) [of "Heap s" "[]" H "Sessions (Pool s)" a]
  by (fastforce simp: pool_inv_def split: if_splits)

lemma Execute_live: "Execute command client a s = Some s' \<Longrightarrow> \<exists>y. lookup (Heap s') a = Some y"
  by (auto simp: Execute_def call_session_def RecordSessionClosed_def split: option.splits if_splits)

lemma Execute_closing:
  assumes "pool_inv [] H n M s" "replied (Log s) = []" "lookup (Heap s) a = Some x" "Transition command = MarkAsClosing"
  shows "\<exists>s' y. Execute command client a s = Some s' \<and> pool_inv [] H n M s' \<and> lookup (Heap s') a = Some y"
  using assms(1-3)
proof (cases rule: live_cases)
  case held
  then show ?thesis
    using Execute_held [OF assms(1) held, of command] assms(4) Execute_live by blast
next
  case (pooled t)
  have h: "heap_inv (Heap s) [] H (Sessions (Pool s))"
    using assms(1,2) by (simp add: pool_inv_def)
  have "pooled_ok t (snd (MarkAsClosing x))"
    using pooled(2) by (simp add: pooled_ok_def MarkAsClosing_def)
  from heap_inv_updateS [OF h pooled(1) this]
  have "pool_inv [] H n M (s\<lparr>Heap := AList.update a (snd (MarkAsClosing x)) (Heap s)\<rparr>)"
    using assms(1,2) by (auto simp: pool_inv_def)
  then show ?thesis
    using assms(3,4) by (simp add: Execute_def call_session_def RecordSessionClosed_def)
qed

lemma AttachReadCallback_ok:
  assumes "pool_inv [] H n M s" "replied (Log s) = []" "lookup (Heap s) a = Some x"
  shows "\<exists>s'. AttachReadCallback code st a client s = Some s' \<and> pool_inv [] H n M s'"
proof (cases "code = GRPC_OK \<and> (has_session_shutdown st \<or> has_node_shutdown st)")
  case False
  then show ?thesis
    using assms(1) query_owner.CloseFromServer_ok [OF assms(1,3)]
    by (auto simp: AttachReadCallback_def HandleAttachSessionState_def Let_def)
next
  case True
  define command where "command = (if has_node_shutdown st then NodeShutdown else SessionShutdown)"
  define s1 where "s1 = (if has_node_shutdown st \<and> KeyNodeId (EndpointKey x) \<noteq> 0 \<and> client
    then emit (PessimizeNodeId (KeyNodeId (EndpointKey x))) s else s)"
  have "Transition command = MarkAsClosing"
    by (simp add: command_def close_commands)
  moreover have "pool_inv [] H n M s1" "replied (Log s1) = []" "lookup (Heap s1) a = Some x"
    using assms by (simp_all add: s1_def)
  ultimately obtain s2 y where s2: "Execute command client a s1 = Some s2" "pool_inv [] H n M s2" "lookup (Heap s2) a = Some y"
    using Execute_closing [of H n M s1 a x command client] by blast
  have "AttachReadCallback code st a client s = map_option snd (do {
      s \<leftarrow> Execute command client a s1;
      s \<leftarrow> (if client then CloseFromServer DeleteSession ReturnSession client a (Reason command) s else Some s);
      Some (False, s) })"
    using True assms(3)
    by (cases "has_node_shutdown st") (simp_all add: AttachReadCallback_def HandleAttachSessionState_def command_def s1_def
        cong: if_cong)
  then show ?thesis
    using query_owner.CloseFromServer_ok [OF s2(2,3), of client "Reason command"] s2(1,2) by auto
qed

lemma created_held: "held_ok (created_impl uri_parse now1 now2 outcome)"
  by (simp add: created_impl_def new_impl_def new_session_def MarkActive_def MarkBroken_def
      SetNeedUpdateActiveCounter_def held_ok_def split: option.split prod.split)

lemma create_done_ok:
  assumes "query_inv q" "(ctx, late) \<in> set (Creating q)" "lookup (Heap (Sys q)) a = None" "held_ok x"
  shows "\<exists>q'. create_done ctx late a x q = Some q' \<and> query_inv q'"
proof -
  define s where "s = (Sys q)\<lparr>Heap := AList.update a x (Heap (Sys q))\<rparr>"
  define c where "c = remove1 (ctx, late) (Creating q)"
  have h: "heap_inv (Heap (Sys q)) [] (Held q) (Sessions (Pool (Sys q)))" and log: "Log (Sys q) = []"
    using assms(1) by (auto simp: query_inv_def pool_inv_def)
  have n: "length (Creating q) = Suc (length c)"
    using length_remove1_Suc [OF assms(2)] by (simp add: c_def)
  have u: "unanswered (Creating q) = unanswered c + (if late then {#} else {#ctx#})"
    using unanswered_remove [OF assms(2)] by (simp add: c_def)
  have i: "pool_inv [] (a # Held q) (length c) (mset (map snd (waiting (Sys q)))) s"
    using heap_inv_new [OF h assms(3,4)] assms(1) n by (auto simp: query_inv_def pool_inv_def s_def)
  show ?thesis
  proof (cases late)
    case False
    then show ?thesis
      using i u assms(1) by (simp add: create_done_def query_inv_def s_def c_def)
  next
    case True
    have "pool_inv [(a, True)] (Held q) (length c) (mset (map snd (waiting (Sys q)))) s"
      using i log heap_inv_takeR [of "Heap s" "[]" "[]" "a # Held q" "Sessions (Pool s)" a] by (auto simp: pool_inv_def s_def)
    then obtain s' where "SmartDeleter DeleteSession ReturnSession a s = Some s'"
        "pool_inv [] (Held q) (length c) (mset (map snd (waiting (Sys q)))) s'"
      using query_owner.SmartDeleter_held [of a "[]" "Held q" "length c" _ s x] assms(4) by (auto simp: s_def)
    moreover from this have "query_inv (handled s' (q\<lparr>Creating := c\<rparr>))"
      using True u assms(1) by (intro query_inv_handled) (simp_all add: query_inv_def)
    ultimately show ?thesis
      using True by (simp add: create_done_def s_def c_def)
  qed
qed

lemma create_deadline_ok:
  assumes "query_inv q" "(ctx, False) \<in> set (Creating q)"
  shows "query_inv (create_deadline ctx q)"
proof -
  have "length (Creating q) = Suc (length (remove1 (ctx, False) (Creating q)))"
    by (rule length_remove1_Suc [OF assms(2)])
  then show ?thesis
    using assms(1) unanswered_remove [OF assms(2)]
    by (auto simp: query_inv_def create_deadline_def unanswered_def)
qed

lemma release_ok:
  assumes "query_inv q" "a \<in> set (Held q)"
  shows "\<exists>s. SmartDeleter DeleteSession ReturnSession a (Sys q) = Some s \<and>
    pool_inv [] (remove1 a (Held q)) (length (Creating q)) (mset (map snd (waiting (Sys q)))) s \<and>
    waiting s = tl (waiting (Sys q))"
proof (rule held_lookup [of "Held q" _ _ "Sys q" a])
  show p: "pool_inv [] (Held q) (length (Creating q)) (mset (map snd (waiting (Sys q)))) (Sys q)"
    using assms(1) by (simp add: query_inv_def)
  fix x
  assume x: "lookup (Heap (Sys q)) a = Some x" "held_ok x"
  have "length (Held q) = Suc (length (remove1 a (Held q)))"
    by (rule length_remove1_Suc [OF assms(2)])
  then have "pool_inv [(a, True)] (remove1 a (Held q)) (length (Creating q)) (mset (map snd (waiting (Sys q)))) (Sys q)"
    using p assms(1) heap_inv_takeR [of "Heap (Sys q)" "[]" "[]" "Held q" "Sessions (Pool (Sys q))" a] assms(2)
    by (auto simp: pool_inv_def query_inv_def)
  from query_owner.SmartDeleter_held [OF this x] show ?thesis
    by blast
qed (use assms(2) in simp)

lemma handle_ok:
  assumes "query_inv q" "enabled e q"
  shows "\<exists>q'. handle uri_parse random e q = Some q' \<and> query_inv q'"
proof -
  have p: "pool_inv [] (Held q) (length (Creating q)) (mset (map snd (waiting (Sys q)))) (Sys q)"
      "replied (Log (Sys q)) = []"
    and sub: "mset (Submitted q) = mset (map snd (waiting (Sys q))) + unanswered (Creating q) + mset (Answered q)"
    using assms(1) by (simp_all add: query_inv_def)
  note ok = query_inv_handled [OF _ sub]
  show ?thesis
  proof (cases e)
    case (AskSession ctx)
    show ?thesis
      using GetSession_ok [OF p(1), of ctx] sub
      by (auto simp: AskSession intro!: query_inv_handled)
  next
    case (CreateDone ctx late a now1 now2 outcome)
    then show ?thesis
      using create_done_ok [OF assms(1), of ctx late a] assms(2) created_held by simp
  next
    case (CreateDeadline ctx)
    then show ?thesis
      using create_deadline_ok [OF assms(1)] assms(2) by simp
  next
    case (Release a)
    then show ?thesis
      using release_ok [OF assms(1), of a] assms(2) sub by (auto intro!: query_inv_handled)
  next
    case (Respond a now updateTimeout timeout client response)
    then show ?thesis
      using InterceptStatus_held [OF p(1), of a random now updateTimeout timeout client response] assms(2) ok by auto
  next
    case (AttachRead a code st client)
    then show ?thesis
      using AttachReadCallback_ok [OF p, of a _ code st client] assms(2) ok by auto
  next
    case (WaiterTimer now)
    then show ?thesis
      using ClearOldWaiters_ok(1) [OF p(1)] ok by auto
  next
    case (PeriodicTimer closeIdleThreshold minPoolSize client status now nowUtil)
    then show ?thesis
      using query_owner.PeriodicTask_ok [OF p(1)] ok by fastforce
  next
    case (SetStatCollector active inPool waiters)
    have "pool_inv [] (Held q) (length (Creating q)) (mset (map snd (waiting (Sys q)))) (PoolSetStatCollector active inPool waiters (Sys q))"
      using p(1) by (auto simp: PoolSetStatCollector_def Let_def pool_inv_def)
    then show ?thesis
      using ok by (simp add: SetStatCollector)
  qed
qed

lemma reachable_inv: "reachable uri_parse random maxActiveSessions minPoolSize q \<Longrightarrow> query_inv q"
proof (induction rule: reachable.induct)
  case start
  show ?case
    by (rule query_inv_start)
next
  case (step q e q')
  then show ?case
    using handle_ok [of q e uri_parse random] by auto
qed

section \<open>Properties\<close>

fun run ::
  "(string \<Rightarrow> (string \<times> string) option) \<Rightarrow> (64 word \<Rightarrow> 64 word) \<Rightarrow> query_event list \<Rightarrow> query_sys \<Rightarrow> query_sys option" where
  "run uri_parse random [] q = Some q"
| "run uri_parse random (e # es) q =
     (if enabled e q then handle uri_parse random e q \<bind> run uri_parse random es else None)"

lemma reachable_run:
  assumes "reachable uri_parse random maxActiveSessions minPoolSize q" "run uri_parse random es q = Some q'"
  shows "reachable uri_parse random maxActiveSessions minPoolSize q'"
  using assms
proof (induction es arbitrary: q)
  case (Cons e es)
  then show ?case
    by (auto split: if_splits bind_splits intro: reachable.step)
qed simp

text \<open>A client with two sessions at most: three requests, one session in use, one pooled.\<close>

definition ctx_at :: "nat \<Rightarrow> TDeadline \<Rightarrow> IGetSessionCtx" where
  "ctx_at i d = \<lparr>CtxId = i, CtxDeadline = d\<rparr>"

definition sample_events :: "query_event list" where
  "sample_events =
     [AskSession (ctx_at 1 10), CreateDone (ctx_at 1 10) False 100 5 5 (Some (''s1'', ''host:1'')),
      AskSession (ctx_at 2 10), AskSession (ctx_at 3 9),
      CreateDone (ctx_at 2 10) False 101 6 6 None, AskSession (ctx_at 4 8)]"

definition sample :: query_sys where
  "sample = the (run (\<lambda>_. None) (\<lambda>_. 0) sample_events (new_client 2 0))"

lemmas sample_simps = sample_def sample_events_def ctx_at_def new_client_def new_pool_def GetSession_def TryPush_def
  IncrementActiveCounterUnsafe_def UpdateStats_def Apply_def emit_def take_session_def drop_pointer_def handled_def
  create_done_def created_impl_def new_impl_def new_session_def MarkActive_def MarkBroken_def SetNeedUpdateActiveCounter_def
  GetNodeIdFromSession_def log_defs

lemma sample_run: "run (\<lambda>_. None) (\<lambda>_. 0) sample_events (new_client 2 0) = Some sample"
  by (simp add: sample_simps List.map_filter_def)

lemma sample_facts:
  "Held sample = [101, 100]" "Creating sample = []" "waiting (Sys sample) = [(8, ctx_at 4 8), (9, ctx_at 3 9)]"
  "Answered sample = [ctx_at 2 10, ctx_at 1 10]" "ActiveSessions (Pool (Sys sample)) = 2"
  "MaxActiveSessions (Pool (Sys sample)) = 2" "Sessions (Pool (Sys sample)) = []"
  "Submitted sample = [ctx_at 4 8, ctx_at 3 9, ctx_at 2 10, ctx_at 1 10]"
  by (simp_all add: sample_simps List.map_filter_def mm_insert_def)

lemma sample_reachable: "reachable (\<lambda>_. None) (\<lambda>_. 0) 2 0 sample"
  by (rule reachable_run [OF reachable.start sample_run])

text \<open>
  C1. Memory safety and absence of aborts of the query client and its session pool: in every state that
  any sequence of requests, creations, releases, responses, stream messages and timers can reach, every
  handler that can run next completes. No \<^verbatim>\<open>Y_ABORT_UNLESS\<close> fails and no deleted session is touched.
\<close>

theorem query_client_never_aborts:
  assumes "reachable uri_parse random maxActiveSessions minPoolSize q" "enabled e q"
  shows "\<exists>q'. handle uri_parse random e q = Some q'"
  using handle_ok [OF reachable_inv [OF assms(1)] assms(2)] by blast

theorem query_client_never_aborts_witness:
  "enabled (Release 100) sample \<and> (\<exists>q'. handle (\<lambda>_. None) (\<lambda>_. 0) (Release 100) sample = Some q')"
  using query_client_never_aborts [OF sample_reachable, of "Release 100"] by (simp add: sample_facts)



text \<open>
  C4. Every session object that lives is in exactly one place. It is held by one user, counted as active,
  not registered with the pool for closing and not idle; or it is in the pool, idle, not counted, and filed
  under its time to touch.
\<close>

theorem sessions_have_one_place:
  assumes "reachable uri_parse random maxActiveSessions minPoolSize q"
  shows "distinct (Held q @ map snd (Sessions (Pool (Sys q)))) \<and>
    dom (lookup (Heap (Sys q))) = set (Held q) \<union> snd ` set (Sessions (Pool (Sys q))) \<and>
    (\<forall>a \<in> set (Held q). \<exists>x. lookup (Heap (Sys q)) a = Some x \<and> NeedUpdateActiveCounter x \<and> \<not> CloseHandler x \<and>
      SessionState x \<in> {S_ACTIVE, S_CLOSING, S_BROKEN}) \<and>
    (\<forall>(t, a) \<in> set (Sessions (Pool (Sys q))). \<exists>x. lookup (Heap (Sys q)) a = Some x \<and> \<not> NeedUpdateActiveCounter x \<and>
      CloseHandler x \<and> SessionState x = S_IDLE \<and> TimeToTouch x = t)"
proof -
  have h: "heap_inv (Heap (Sys q)) [] (Held q) (Sessions (Pool (Sys q)))"
    using reachable_inv [OF assms] by (auto simp: query_inv_def pool_inv_def)
  have d: "a \<in> dom (lookup (Heap (Sys q))) \<longleftrightarrow> a \<in> set (Held q) \<union> snd ` set (Sessions (Pool (Sys q)))" for a
    using heap_inv_placed(2) [OF h, of a] by (cases "lookup (Heap (Sys q)) a") (auto split: if_splits)
  have r: "\<exists>x. lookup (Heap (Sys q)) a = Some x \<and> held_ok x" if "a \<in> set (Held q)" for a
    using heap_inv_R [OF h that] by blast
  have p: "\<exists>x. lookup (Heap (Sys q)) a = Some x \<and> pooled_ok t x" if "(t, a) \<in> set (Sessions (Pool (Sys q)))" for t a
    using heap_inv_S [OF h that] by blast
  show ?thesis
  proof (intro conjI)
    show "dom (lookup (Heap (Sys q))) = set (Held q) \<union> snd ` set (Sessions (Pool (Sys q)))"
      using d by blast
    show "distinct (Held q @ map snd (Sessions (Pool (Sys q))))"
      using heap_inv_placed(1) [OF h] by simp
  qed (use r p in \<open>(unfold held_ok_def pooled_ok_def, blast)+\<close>)
qed

theorem sessions_have_one_place_witness: "dom (lookup (Heap (Sys sample))) = {100, 101}"
  using sessions_have_one_place [OF sample_reachable] by (auto simp: sample_facts)

text \<open>
  C3. No request is lost and none is answered twice: the requests made are, with their multiplicity, those that
  wait in the pool, those whose session is being created and whose promise is not set, and those answered.
\<close>

theorem requests_conserved:
  assumes "reachable uri_parse random maxActiveSessions minPoolSize q"
  shows "mset (Submitted q) =
    mset (map snd (waiting (Sys q))) + mset (map fst (filter (\<lambda>c. \<not> snd c) (Creating q))) + mset (Answered q)"
  using reachable_inv [OF assms] by (simp add: query_inv_def unanswered_def)

theorem requests_conserved_witness:
  "mset (Submitted sample) = mset (map snd (waiting (Sys sample))) + mset (Answered sample)"
  using requests_conserved [OF sample_reachable] by (simp add: sample_facts)

text \<open>
  C5. Releasing a session while requests wait serves the one with the earliest deadline: it leaves the queue,
  and either has its answer or a session is being created for it. Nothing else is answered.
\<close>

theorem release_serves_waiter:
  assumes "reachable uri_parse random maxActiveSessions minPoolSize q" "a \<in> set (Held q)"
    and "waiting (Sys q) = (d, ctx) # rest"
  shows "(\<forall>e \<in> set rest. d \<le> fst e) \<and> (\<exists>q'. handle uri_parse random (Release a) q = Some q' \<and> waiting (Sys q') = rest \<and>
    mset (Answered q') + mset (map fst (Creating q')) =
      add_mset ctx (mset (Answered q) + mset (map fst (Creating q))))"
proof -
  have i: "query_inv q"
    by (rule reachable_inv [OF assms(1)])
  have "queue_inv (WaitersQueue (Pool (Sys q)))"
    using i by (auto simp: query_inv_def pool_inv_def)
  then have "\<forall>e \<in> set rest. d \<le> fst e"
    using assms(3) by (auto simp: queue_inv_def mm_sorted_def)
  moreover obtain s where s: "SmartDeleter DeleteSession ReturnSession a (Sys q) = Some s" "waiting s = rest"
      "pool_inv [] (remove1 a (Held q)) (length (Creating q)) (mset (map snd (waiting (Sys q)))) s"
    using release_ok [OF i assms(2)] assms(3) by auto
  moreover have "{#ctx#} = mset (to_create (Log s)) + mset (answered (Log s))"
    using s(2,3) assms(3) by (simp add: pool_inv_def)
  then have "mset (answered (Log s) @ Answered q) + mset (to_create (Log s) @ map fst (Creating q)) =
      add_mset ctx (mset (Answered q) + mset (map fst (Creating q)))"
    by (subst add_mset_add_single) (simp add: ac_simps)
  ultimately show ?thesis
    by (simp add: handled_def multiset.map_comp comp_def)
qed

theorem release_serves_waiter_witness:
  "\<exists>q'. handle (\<lambda>_. None) (\<lambda>_. 0) (Release 100) sample = Some q' \<and> waiting (Sys q') = [(9, ctx_at 3 9)] \<and>
    mset (Answered q') + mset (map fst (Creating q')) = {#ctx_at 4 8, ctx_at 2 10, ctx_at 1 10#}"
  using release_serves_waiter [OF sample_reachable, of 100 8 "ctx_at 4 8" "[(9, ctx_at 3 9)]"] by (simp add: sample_facts)

lemma reply_timeouts_log [simp]:
  "Heap (reply_timeouts old s) = Heap s" "Pool (reply_timeouts old s) = Pool s" "replied (Log (reply_timeouts old s)) = replied (Log s)"
  "to_create (Log (reply_timeouts old s)) = to_create (Log s)"
  "answered (Log (reply_timeouts old s)) = answered (Log s) @ old"
  by (induction old arbitrary: s) (simp_all add: log_defs List.map_filter_def)

text \<open>
  C6. The timer of the waiters answers every request whose deadline has passed, in the order of the
  deadlines, and only those; the other requests stay in the queue and nothing else changes hands.
\<close>

theorem timer_answers_overdue:
  assumes "reachable uri_parse random maxActiveSessions minPoolSize q"
  shows "\<exists>q'. handle uri_parse random (WaiterTimer now) q = Some q' \<and>
    waiting (Sys q') = filter (\<lambda>e. now < fst e) (waiting (Sys q)) \<and>
    Answered q' = map snd (filter (\<lambda>e. fst e \<le> now) (waiting (Sys q))) @ Answered q \<and>
    Held q' = Held q \<and> Creating q' = Creating q \<and> Heap (Sys q') = Heap (Sys q)"
proof -
  have i: "query_inv q"
    by (rule reachable_inv [OF assms])
  have log: "Log (Sys q) = []" and qi: "queue_inv (WaitersQueue (Pool (Sys q)))"
    using i by (auto simp: query_inv_def pool_inv_def)
  obtain old rest where g: "GetOld_loop now (waiting (Sys q)) = (old, rest)"
    by fastforce
  obtain l where l: "waiting (Sys q) = l @ rest" "old = map snd l" "\<forall>e \<in> set l. fst e \<le> now"
    using GetOld_loop_split [OF g] by blast
  have "\<forall>e \<in> set rest. now < fst e"
    using GetOld_ok(5) [OF qi, of now] g by (simp add: GetOld_def)
  then have f: "filter (\<lambda>e. now < fst e) (waiting (Sys q)) = rest" "filter (\<lambda>e. fst e \<le> now) (waiting (Sys q)) = l"
    using l by (force simp: filter_id_conv filter_empty_conv)+
  show ?thesis
    unfolding f using g log l(2)
    by (simp add: ClearOldWaiters_def GetOld_def handled_def Let_def)
qed

theorem timer_answers_overdue_witness:
  "\<exists>q'. handle (\<lambda>_. None) (\<lambda>_. 0) (WaiterTimer 8) sample = Some q' \<and> waiting (Sys q') = [(9, ctx_at 3 9)] \<and>
    Answered q' = [ctx_at 4 8, ctx_at 2 10, ctx_at 1 10]"
  using timer_answers_overdue [OF sample_reachable, of 8] by (auto simp: sample_facts)

lemma DeleteSession_frees: "DeleteSession a s = Some s' \<Longrightarrow> lookup (Heap s') a = None"
  by (auto simp: DeleteSession_def free_session_def delete_conv split: bind_splits option.splits)

lemma SmartDeleter_closed:
  assumes "SmartDeleter DeleteSession ReturnSession a s = Some s'" "lookup (Heap s) a = Some x"
    and "CloseRequested x \<or> SessionState x = S_BROKEN" "SessionState x \<noteq> S_IDLE"
  shows "lookup (Heap s') a = None"
  using assms DeleteSession_frees
  by (auto simp: SmartDeleter_def on_session_def ReturnSession_def call_session_def MarkIdle_def split: EState.splits bind_splits)

lemma Execute_closes:
  assumes "Execute command client a s = Some s'" "lookup (Heap s) a = Some x" "held_ok x"
    and "Transition command = MarkBroken \<or> Transition command = MarkAsClosing"
  shows "\<exists>y. lookup (Heap s') a = Some y \<and> (CloseRequested y \<or> SessionState y = S_BROKEN) \<and> SessionState y \<noteq> S_IDLE"
  using assms by (auto simp: Execute_def call_session_def RecordSessionClosed_def MarkBroken_def MarkAsClosing_def
      held_ok_def split: if_splits)

text \<open>
  C7. A session is not used again after a response that breaks or closes it: once the response with such a
  status is intercepted and its user releases it, the session object is gone, and so it neither returns
  to the pool nor goes to another user.
\<close>

theorem closed_session_is_deleted:
  assumes "reachable uri_parse random maxActiveSessions minPoolSize q" "a \<in> set (Held q)"
    and "FromStatus status = Some command"
  shows "\<exists>q'. run uri_parse random [Respond a now updateTimeout timeout client (Inr status), Release a] q = Some q' \<and>
    lookup (Heap (Sys q')) a = None"
proof -
  have i: "query_inv q"
    by (rule reachable_inv [OF assms(1)])
  then have p: "pool_inv [] (Held q) (length (Creating q)) (mset (map snd (waiting (Sys q)))) (Sys q)" "Log (Sys q) = []"
    by (simp_all add: query_inv_def)
  obtain x where x: "lookup (Heap (Sys q)) a = Some x" "held_ok x"
    using held_lookup [OF p(1) assms(2)] .
  obtain s where s: "Execute command client a (Sys q) = Some s"
    using Execute_held [OF p(1) assms(2) close_transitions [OF assms(3)]] by blast
  define q1 where "q1 = handled s q"
  have q1: "handle uri_parse random (Respond a now updateTimeout timeout client (Inr status)) q = Some q1"
    using s assms(3) by (simp add: InterceptStatus_def q1_def)
  have h1: "a \<in> set (Held q1)"
    using assms(2) by (simp add: q1_def handled_def)
  have "query_inv q1"
    using handle_ok [OF i, of "Respond a now updateTimeout timeout client (Inr status)" uri_parse random] q1 assms(2) by auto
  from release_ok [OF this h1] obtain t where t: "SmartDeleter DeleteSession ReturnSession a (Sys q1) = Some t"
    by blast
  obtain y where "lookup (Heap (Sys q1)) a = Some y" "CloseRequested y \<or> SessionState y = S_BROKEN" "SessionState y \<noteq> S_IDLE"
    using Execute_closes [OF s x close_transitions [OF assms(3)]] by (auto simp: q1_def handled_def)
  then have "lookup (Heap t) a = None"
    by (rule SmartDeleter_closed [OF t])
  moreover have "handle uri_parse random (Release a) q1 = Some (handled t (q1\<lparr>Held := remove1 a (Held q1)\<rparr>))"
    using t by simp
  ultimately show ?thesis
    using q1 h1 assms(2) by (simp add: handled_def [of t] del: handle.simps)
qed

theorem closed_session_is_deleted_witness:
  "\<exists>q'. run (\<lambda>_. None) (\<lambda>_. 0) [Respond 100 7 True 60 True
      (Inr \<lparr>StatusCode = BAD_SESSION, Issues = [], StatusEndpoint = [], Metadata = [], ConsumedUnits = 0\<rparr>), Release 100] sample = Some q' \<and>
    lookup (Heap (Sys q')) 100 = None"
  by (rule closed_session_is_deleted [OF sample_reachable, where command = BadSession])
    (simp_all add: sample_facts FromStatus_def GetStatus_def IsBreakingTransport_def IsTransportError_def status_codes)

text \<open>
  The gauge of pooled sessions is not updated when the pool drops a session the server closed: after the end
  of the attach stream of the only pooled session it still shows one session.
\<close>

lemma closing_leaves_gauge:
  "map_option (\<lambda>q. (Gauge (InPoolSessionsCounter (Pool (Sys q))), Sessions (Pool (Sys q))))
     (run (\<lambda>_. None) (\<lambda>_. 0)
       [SetStatCollector (Some 0) (Some 0) (Some 0), AskSession (ctx_at 1 10),
        CreateDone (ctx_at 1 10) False 100 5 5 (Some (''s1'', ''host:1'')), Release 100,
        AttachRead 100 GRPC_OUT_OF_RANGE \<lparr>has_session_shutdown = False, has_node_shutdown = False\<rparr> True]
       (new_client 2 0)) = Some (Some 1, [])"
  by code_simp

end
