(* ===== verification/Ieee.thy ===== *)
theory Ieee
  imports Prelude "HOL-Library.Log_Nat"
begin

text \<open>
  Rounding of IEEE 754 binary floating point numbers to nearest, ties to even, on rationals. A format is
  given by its precision and the exponent of its smallest subnormal number. The largest finite number is
  not modelled: the code that uses these numbers clamps them far below it.
\<close>

definition ilog2 :: "rat \<Rightarrow> int" where
  "ilog2 x = (if 1 \<le> x then int (floorlog 2 (nat \<lfloor>x\<rfloor>)) - 1 else - int (floorlog 2 (nat (\<lceil>1 / x\<rceil> - 1))))"

definition half_even :: "rat \<Rightarrow> int" where
  "half_even x =
     (let f = \<lfloor>x\<rfloor>; d = x - of_int f in
      if d < 1 / 2 then f else if 1 / 2 < d then f + 1 else if even f then f else f + 1)"

definition ulp :: "int \<Rightarrow> int \<Rightarrow> rat \<Rightarrow> int" where
  "ulp p emin x = max emin (ilog2 \<bar>x\<bar> - (p - 1))"

definition fl :: "int \<Rightarrow> int \<Rightarrow> rat \<Rightarrow> rat" where
  "fl p emin x = (if x = 0 then 0 else of_int (half_even (x / 2 powi ulp p emin x)) * 2 powi ulp p emin x)"

definition trunc :: "rat \<Rightarrow> int" where
  "trunc x = (if x < 0 then \<lceil>x\<rceil> else \<lfloor>x\<rfloor>)"

definition round32 :: "rat \<Rightarrow> rat" where "round32 = fl 24 (-149)"

definition round64 :: "rat \<Rightarrow> rat" where "round64 = fl 53 (-1074)"

section \<open>Rounding to an integer\<close>

lemma half_even_int [simp]: "half_even (of_int n) = n"
  by (simp add: half_even_def)

lemma half_even_floor: "\<lfloor>x\<rfloor> \<le> half_even x \<and> half_even x \<le> \<lfloor>x\<rfloor> + 1"
  by (simp add: half_even_def Let_def)

lemma half_even_mono: "x \<le> y \<Longrightarrow> half_even x \<le> half_even y"
proof (cases "\<lfloor>x\<rfloor> = \<lfloor>y\<rfloor>")
  case True
  assume "x \<le> y"
  with True show ?thesis by (auto simp: half_even_def Let_def)
next
  case False
  assume "x \<le> y"
  with False have "\<lfloor>x\<rfloor> + 1 \<le> \<lfloor>y\<rfloor>" using floor_mono [of x y] by linarith
  then show ?thesis using half_even_floor [of x] half_even_floor [of y] by linarith
qed

lemma half_even_uminus: "half_even (- x) = - half_even x"
proof (cases "x = of_int \<lfloor>x\<rfloor>")
  case True
  then show ?thesis by (metis half_even_int of_int_minus)
next
  case False
  define f d where "f = \<lfloor>x\<rfloor>" and "d = x - of_int f"
  have "of_int f \<le> x" "x < of_int f + 1" unfolding f_def by linarith+
  then have "\<lfloor>- x\<rfloor> = - f - 1" using False by (intro floor_unique) (simp_all add: f_def less_le)
  then have "- x - of_int \<lfloor>- x\<rfloor> = 1 - d" by (simp add: d_def)
  then show ?thesis
    using \<open>\<lfloor>- x\<rfloor> = - f - 1\<close> by (auto simp: half_even_def Let_def f_def [symmetric] d_def [symmetric])
qed

section \<open>The exponent\<close>

lemma floorlog_power:
  assumes "0 < n"
  shows "(2::rat) powi (int (floorlog 2 n) - 1) \<le> of_nat n" "of_nat n < (2::rat) powi int (floorlog 2 n)"
proof -
  have b: "2 ^ (floorlog 2 n - 1) \<le> n" "n < 2 ^ floorlog 2 n"
    using floorlog_bounds [of n 2] assms by auto
  moreover have "0 < floorlog 2 n"
    using b assms by (cases "floorlog 2 n") auto
  then have e: "int (floorlog 2 n) - 1 = int (floorlog 2 n - 1)"
    by simp
  ultimately have "(2::rat) ^ (floorlog 2 n - 1) \<le> of_nat n" "of_nat n < (2::rat) ^ floorlog 2 n"
    by (metis of_nat_le_iff of_nat_numeral of_nat_power, metis of_nat_less_iff of_nat_numeral of_nat_power)
  then show "(2::rat) powi (int (floorlog 2 n) - 1) \<le> of_nat n" "of_nat n < (2::rat) powi int (floorlog 2 n)"
    by (simp_all only: e power_int_of_nat)
qed

lemma ilog2_bounds:
  assumes "0 < x"
  shows "2 powi ilog2 x \<le> x" "x < 2 powi (ilog2 x + 1)"
proof -
  have "2 powi ilog2 x \<le> x \<and> x < 2 powi (ilog2 x + 1)"
  proof (cases "1 \<le> x")
    case True
    define n where "n = nat \<lfloor>x\<rfloor>"
    have n: "0 < n" "of_nat n \<le> x" "x < of_nat n + 1"
      using True by (simp_all add: n_def) linarith
    have "of_nat n + 1 \<le> (2::rat) powi int (floorlog 2 n)"
      using floorlog_power(2) [OF n(1)] by (simp add: power_int_of_nat) (metis Suc_leI of_nat_Suc of_nat_le_iff of_nat_less_iff of_nat_numeral of_nat_power add.commute)
    then show ?thesis
      using n floorlog_power(1) [OF n(1)] True by (simp add: ilog2_def n_def [symmetric])
  next
    case False
    define k where "k = nat (\<lceil>1 / x\<rceil> - 1)"
    have x: "1 < 1 / x" using False assms by simp
    then have k: "0 < k" "of_nat k < 1 / x" "1 / x \<le> of_nat k + 1"
      by (simp_all add: k_def) linarith+
    have "of_nat k + 1 \<le> (2::rat) powi int (floorlog 2 k)"
      using floorlog_power(2) [OF k(1)] by (simp add: power_int_of_nat) (metis Suc_leI of_nat_Suc of_nat_le_iff of_nat_less_iff of_nat_numeral of_nat_power add.commute)
    then have "1 / x \<le> 2 powi int (floorlog 2 k)" "2 powi (int (floorlog 2 k) - 1) < 1 / x"
      using k floorlog_power(1) [OF k(1)] by linarith+
    then have "1 / 2 powi int (floorlog 2 k) \<le> x" "x < 1 / 2 powi (int (floorlog 2 k) - 1)"
      using assms by (simp_all add: field_simps)
    then show ?thesis
      using False by (simp add: ilog2_def k_def [symmetric] power_int_minus power_int_diff field_simps)
  qed
  then show "2 powi ilog2 x \<le> x" "x < 2 powi (ilog2 x + 1)" by simp_all
qed

lemma ilog2_less:
  assumes "0 < x" "x < 2 powi k"
  shows "ilog2 x < k"
proof (rule ccontr)
  assume "\<not> ilog2 x < k"
  then have "(2::rat) powi k \<le> 2 powi ilog2 x" by (intro power_int_increasing) simp_all
  then show False using ilog2_bounds(1) [OF assms(1)] assms(2) by linarith
qed

lemma ilog2_mono:
  assumes "0 < x" "x \<le> y"
  shows "ilog2 x \<le> ilog2 y"
  using ilog2_less [OF assms(1), of "ilog2 y + 1"] ilog2_bounds(2) [of y] assms by linarith

lemma ilog2_power: "ilog2 (2 powi k) = k"
proof -
  have "ilog2 (2 powi k) < k + 1"
    by (rule ilog2_less) (simp_all add: power_int_add)
  moreover have "\<not> ilog2 (2 powi k) + 1 \<le> k"
    using ilog2_bounds(2) [of "2 powi k"] power_int_increasing [of "ilog2 (2 powi k) + 1" k "2::rat"] by auto
  ultimately show ?thesis by simp
qed

section \<open>Rounding to a format\<close>

lemma fl_0 [simp]: "fl p emin 0 = 0"
  by (simp add: fl_def)

lemma fl_uminus: "fl p emin (- x) = - fl p emin x"
  by (simp add: fl_def ulp_def half_even_uminus)

lemma scaled_bound:
  assumes "x \<noteq> 0"
  shows "\<bar>x / 2 powi ulp p emin x\<bar> < 2 powi p"
proof -
  have "\<bar>x\<bar> < 2 powi (ilog2 \<bar>x\<bar> + 1)"
    using ilog2_bounds(2) [of "\<bar>x\<bar>"] assms by simp
  also have "\<dots> \<le> 2 powi (p + ulp p emin x)"
    by (intro power_int_increasing) (simp_all add: ulp_def)
  finally show ?thesis
    by (simp add: abs_divide power_int_add divide_less_eq)
qed

lemma half_even_bound:
  assumes "\<bar>x\<bar> \<le> of_int n"
  shows "\<bar>half_even x\<bar> \<le> n"
  using half_even_mono [of x "of_int n"] half_even_mono [of "- x" "of_int n"] assms
  by (auto simp: half_even_uminus abs_le_iff)

text \<open>A number of at most \<open>p\<close> significant bits is kept.\<close>

lemma fl_exact:
  assumes "\<bar>m\<bar> \<le> 2 ^ p" "emin \<le> e" "0 < p"
  shows "fl (int p) emin (of_int m * 2 powi e) = of_int m * 2 powi e"
proof (cases "m = 0")
  case False
  define x :: rat where "x = of_int m * 2 powi e"
  define u where "u = ulp (int p) emin x"
  have ax: "\<bar>x\<bar> = of_int \<bar>m\<bar> * 2 powi e" "0 < \<bar>x\<bar>" using False by (simp_all add: x_def abs_mult)
  have "\<exists>k. x / 2 powi u = of_int k"
  proof (cases "\<bar>m\<bar> = 2 ^ p")
    case True
    then have "\<bar>x\<bar> = 2 powi (int p + e)" by (simp add: ax power_int_add)
    then have "u = e + 1" using assms(2) by (simp add: u_def ulp_def ilog2_power)
    moreover obtain m' where "m = 2 * m'"
      using True assms(3) by (metis dvd_def dvd_power even_abs_add_iff abs_dvd_iff dvd_abs_iff)
    ultimately have "x / 2 powi u = of_int m'"
      by (simp add: x_def power_int_add)
    then show ?thesis by blast
  next
    case less: False
    then have "of_int \<bar>m\<bar> < (2::rat) ^ p"
      using assms(1) by (metis le_less of_int_less_iff of_int_numeral of_int_power)
    then have "\<bar>x\<bar> < 2 powi (int p + e)"
      by (simp add: ax power_int_add)
    then have "u \<le> e" using ilog2_less [OF ax(2)] assms(2) by (fastforce simp: u_def ulp_def)
    then have "x / 2 powi u = of_int (m * 2 ^ nat (e - u))"
      by (simp add: x_def power_int_diff [symmetric] flip: power_int_of_nat times_divide_eq_right)
    then show ?thesis by blast
  qed
  then obtain k where "x / 2 powi u = of_int k" by blast
  then have "fl (int p) emin x = of_int k * 2 powi u"
    using ax(2) by (simp add: fl_def u_def [symmetric])
  moreover have "x = of_int k * 2 powi u"
    using \<open>x / 2 powi u = of_int k\<close> by (simp add: divide_eq_eq)
  ultimately have "fl (int p) emin x = x" by simp
  then show ?thesis by (simp add: x_def [symmetric])
qed simp

lemma fl_form:
  assumes "x \<noteq> 0"
  obtains m where "fl (int p) emin x = of_int m * 2 powi ulp (int p) emin x" "\<bar>m\<bar> \<le> 2 ^ p"
    "m = half_even (x / 2 powi ulp (int p) emin x)"
proof
  show "fl (int p) emin x = of_int (half_even (x / 2 powi ulp (int p) emin x)) * 2 powi ulp (int p) emin x"
    using assms by (simp add: fl_def)
  show "\<bar>half_even (x / 2 powi ulp (int p) emin x)\<bar> \<le> 2 ^ p"
    using scaled_bound [OF assms, of "int p" emin] by (intro half_even_bound) simp
qed simp

lemma fl_idem:
  assumes "0 < p"
  shows "fl (int p) emin (fl (int p) emin x) = fl (int p) emin x"
proof (cases "x = 0")
  case False
  then obtain m where m: "fl (int p) emin x = of_int m * 2 powi ulp (int p) emin x" "\<bar>m\<bar> \<le> 2 ^ p"
    by (rule fl_form)
  then show ?thesis using fl_exact [OF m(2) _ assms, of emin "ulp (int p) emin x"] by (simp add: ulp_def)
qed simp

lemma fl_of_int:
  assumes "\<bar>n\<bar> \<le> 2 ^ p" "emin \<le> 0" "0 < p"
  shows "fl (int p) emin (of_int n) = of_int n"
  using fl_exact [OF assms] by simp

lemma fl_nonneg: "0 \<le> x \<Longrightarrow> 0 \<le> fl p emin x"
  using half_even_mono [of 0 "x / 2 powi ulp p emin x"] half_even_int [of 0] by (simp add: fl_def)

lemma fl_mono_pos:
  assumes "0 < x" "x \<le> y" "0 < p"
  shows "fl (int p) emin x \<le> fl (int p) emin y"
proof (cases "ulp (int p) emin x = ulp (int p) emin y")
  case True
  have "half_even (x / 2 powi ulp (int p) emin x) \<le> half_even (y / 2 powi ulp (int p) emin y)"
    using assms(2) unfolding True by (intro half_even_mono divide_right_mono) simp_all
  then show ?thesis using assms True by (simp add: fl_def)
next
  case False
  then have less: "ulp (int p) emin x < ulp (int p) emin y" "ulp (int p) emin y = ilog2 y - (int p - 1)"
    using ilog2_mono [OF assms(1,2)] assms(1,2) by (auto simp: ulp_def)
  obtain m where m: "fl (int p) emin x = of_int m * 2 powi ulp (int p) emin x" "\<bar>m\<bar> \<le> 2 ^ p"
    using fl_form [of x] assms(1) by (metis less_irrefl)
  have "fl (int p) emin x \<le> 2 powi (int p + ulp (int p) emin x)"
    using m by (simp add: power_int_add)
  also have "\<dots> \<le> 2 powi (int p - 1) * 2 powi ulp (int p) emin y"
    using less(1) by (simp flip: power_int_add) (intro power_int_increasing; simp)
  also have "\<dots> \<le> fl (int p) emin y"
  proof -
    have "of_int (2 ^ (p - 1)) \<le> y / 2 powi ulp (int p) emin y"
      using ilog2_bounds(1) [of y] assms less(2)
      by (simp add: le_divide_eq flip: power_int_of_nat power_int_add)
    then have "2 ^ (p - 1) \<le> half_even (y / 2 powi ulp (int p) emin y)"
      using half_even_mono half_even_int by metis
    then have "(2::rat) ^ (p - 1) \<le> of_int (half_even (y / 2 powi ulp (int p) emin y))"
      by (metis of_int_le_iff of_int_numeral of_int_power)
    moreover have "(2::rat) powi (int p - 1) = 2 ^ (p - 1)"
      using assms(3) by (simp add: of_nat_diff flip: power_int_of_nat)
    ultimately show ?thesis using assms by (simp add: fl_def)
  qed
  finally show ?thesis .
qed

lemma fl_mono:
  assumes "x \<le> y" "0 < p"
  shows "fl (int p) emin x \<le> fl (int p) emin y"
proof -
  consider "0 < x" | "x \<le> 0" "0 \<le> y" | "y < 0" by linarith
  then show ?thesis
  proof cases
    case 1
    then show ?thesis using assms by (rule fl_mono_pos)
  next
    case 2
    then show ?thesis using fl_nonneg [of y "int p" emin] fl_nonneg [of "- x" "int p" emin] by (simp add: fl_uminus)
  next
    case 3
    then show ?thesis using fl_mono_pos [of "- y" "- x" p emin] assms by (simp add: fl_uminus)
  qed
qed

section \<open>The two formats\<close>

locale rounding =
  fixes rnd :: "rat \<Rightarrow> rat"
  assumes rnd_mono: "x \<le> y \<Longrightarrow> rnd x \<le> rnd y"
    and rnd_idem: "rnd (rnd x) = rnd x"
    and rnd_of_int: "\<bar>n\<bar> \<le> 2 ^ 24 \<Longrightarrow> rnd (of_int n) = of_int n"
begin

lemma rnd_0: "rnd 0 = 0"
  using rnd_of_int [of 0] by simp

lemma rnd_1: "rnd 1 = 1"
  using rnd_of_int [of 1] by simp

lemma rnd_nonneg: "0 \<le> x \<Longrightarrow> 0 \<le> rnd x"
  using rnd_mono [of 0 x] by (simp add: rnd_0)

lemma rnd_le: "x \<le> rnd y \<Longrightarrow> rnd x \<le> rnd y"
  using rnd_mono [of x "rnd y"] by (simp add: rnd_idem)

lemma rnd_le_int: "x \<le> of_int n \<Longrightarrow> \<bar>n\<bar> \<le> 2 ^ 24 \<Longrightarrow> rnd x \<le> of_int n"
  using rnd_mono [of x "of_int n"] by (simp add: rnd_of_int)

lemma rnd_ge_int: "of_int n \<le> x \<Longrightarrow> \<bar>n\<bar> \<le> 2 ^ 24 \<Longrightarrow> of_int n \<le> rnd x"
  using rnd_mono [of "of_int n" x] by (simp add: rnd_of_int)

end

interpretation binary32: rounding round32
  using fl_mono [of _ _ 24 "-149"] fl_idem [of 24 "-149"] fl_of_int [of _ 24 "-149"]
  by unfold_locales (simp_all add: round32_def)

interpretation binary64: rounding round64
proof
  show "round64 (of_int n) = of_int n" if "\<bar>n\<bar> \<le> 2 ^ 24" for n
  proof -
    have "\<bar>n\<bar> \<le> 2 ^ 53" using that by (rule order_trans) simp
    then show ?thesis using fl_of_int [of n 53 "-1074"] by (simp add: round64_def)
  qed
qed (use fl_mono [of _ _ 53 "-1074"] fl_idem [of 53 "-1074"] in \<open>simp_all add: round64_def\<close>)

lemma trunc_mono: "x \<le> y \<Longrightarrow> trunc x \<le> trunc y"
  by (auto simp: trunc_def ceiling_mono floor_mono intro: order_trans [of _ 0]) 

lemma trunc_of_int [simp]: "trunc (of_int n) = n"
  by (simp add: trunc_def)

lemma round64_of_int: "\<bar>n\<bar> \<le> 2 ^ 53 \<Longrightarrow> round64 (of_int n) = of_int n"
  using fl_of_int [of n 53 "-1074"] by (simp add: round64_def)

lemma trunc_nonneg: "0 \<le> x \<Longrightarrow> 0 \<le> trunc x"
  using trunc_mono [of 0 x] trunc_of_int [of 0] by simp

end
