(* ===== verification/EndpointPool.thy ===== *)
theory EndpointPool
  imports Endpoints IntCast Status Ieee
begin

text \<open>
  The endpoint pool of \<^verbatim>\<open>impl/internal/db_driver_state/endpoint_pool.{h,cpp}\<close>: the conversion of a discovery
  result into endpoint records, the protocol of the asynchronous update around the elector of \<open>Endpoints\<close>,
  and the balancing policies. A discovery call is identified by the promise it was started for. Its handler
  runs on another thread and takes two locks, so it is split at them: a new elector state, the swap of the
  promise, the value of the promise. \<open>None\<close> is an abort, an exception or undefined behaviour.
\<close>

section \<open>Load factors\<close>

datatype float32 = Finite rat | PlusInf | MinusInf | NaN

fun float_less :: "float32 \<Rightarrow> float32 \<Rightarrow> bool" where
  "float_less (Finite a) (Finite b) \<longleftrightarrow> a < b"
| "float_less MinusInf (Finite b) \<longleftrightarrow> True"
| "float_less MinusInf PlusInf \<longleftrightarrow> True"
| "float_less (Finite a) PlusInf \<longleftrightarrow> True"
| "float_less _ _ \<longleftrightarrow> False"

definition float_max :: "float32 \<Rightarrow> float32 \<Rightarrow> float32" where
  "float_max a b = (if float_less a b then b else a)"

definition float_min :: "float32 \<Rightarrow> float32 \<Rightarrow> float32" where
  "float_min a b = (if float_less b a then b else a)"

fun float_times :: "rat \<Rightarrow> float32 \<Rightarrow> float32" where
  "float_times a (Finite b) = Finite (round32 (a * b))"
| "float_times a PlusInf = (if 0 < a then PlusInf else if a < 0 then MinusInf else NaN)"
| "float_times a MinusInf = (if 0 < a then MinusInf else if a < 0 then PlusInf else NaN)"
| "float_times a NaN = NaN"

text \<open>The conversion to a 32-bit integer truncates; out of range it is undefined.\<close>

fun float_to_int32 :: "float32 \<Rightarrow> int option" where
  "float_to_int32 (Finite a) = (if - (2 ^ 31) \<le> trunc a \<and> trunc a < 2 ^ 31 then Some (trunc a) else None)"
| "float_to_int32 _ = None"

section \<open>Messages and policies\<close>

record EndpointInfo =
  Address :: string
  Port :: "32 word"
  LoadFactor :: float32
  Ssl :: bool
  InfoLocation :: string
  InfoNodeId :: "32 word"
  IpV4 :: "string list"
  IpV6 :: "string list"
  InfoSslTargetNameOverride :: string
  BridgePileName :: string

text \<open>The state of a pile is an open enum: any 32-bit number can arrive.\<close>

record PileStateMessage =
  PileName :: string
  PileStateNumber :: int

record ListEndpointsResult =
  EndpointInfos :: "EndpointInfo list"
  SelfLocation :: string
  PileStates :: "PileStateMessage list"

datatype EPileState =
    UNSPECIFIED | PRIMARY | PROMOTED | SYNCHRONIZED | NOT_SYNCHRONIZED | SUSPENDED | DISCONNECTED | INACTIVE

datatype EPolicyType = UseAllNodes | UsePreferableLocation | UsePreferablePileState

record TBalancingPolicy =
  PolicyType :: EPolicyType
  PolicyLocation :: "string option"
  PolicyPileState :: EPileState

definition policy_UseAllNodes :: TBalancingPolicy where
  "policy_UseAllNodes = \<lparr>PolicyType = UseAllNodes, PolicyLocation = None, PolicyPileState = UNSPECIFIED\<rparr>"

definition policy_UsePreferableLocation :: "string option \<Rightarrow> TBalancingPolicy" where
  "policy_UsePreferableLocation location =
     \<lparr>PolicyType = UsePreferableLocation, PolicyLocation = location, PolicyPileState = UNSPECIFIED\<rparr>"

definition policy_UsePreferablePileState :: "EPileState \<Rightarrow> TBalancingPolicy" where
  "policy_UsePreferablePileState pileState =
     \<lparr>PolicyType = UsePreferablePileState, PolicyLocation = None, PolicyPileState = pileState\<rparr>"

text \<open>A number outside the enum reaches the end of the function without a value.\<close>

definition GetPileState :: "int \<Rightarrow> EPileState option" where
  "GetPileState state =
     (if state = 1 then Some PRIMARY
      else if state = 2 then Some PROMOTED
      else if state = 3 then Some SYNCHRONIZED
      else if state = 4 then Some NOT_SYNCHRONIZED
      else if state = 5 then Some SUSPENDED
      else if state = 6 then Some DISCONNECTED
      else if state = 7 then Some INACTIVE
      else if state = 0 \<or> state = - (2 ^ 31) \<or> state = 2 ^ 31 - 1 then Some UNSPECIFIED
      else None)"

definition IsPreferredEndpoint ::
  "TBalancingPolicy \<Rightarrow> EndpointInfo \<Rightarrow> string \<Rightarrow> (string, PileStateMessage) amap \<Rightarrow> bool option" where
  "IsPreferredEndpoint policy endpoint selfLocation pileStates =
     (case PolicyType policy of
        UseAllNodes \<Rightarrow> Some True
      | UsePreferableLocation \<Rightarrow>
          Some (InfoLocation endpoint = (case PolicyLocation policy of Some l \<Rightarrow> l | None \<Rightarrow> selfLocation))
      | UsePreferablePileState \<Rightarrow>
          (case lookup pileStates (BridgePileName endpoint) of
             Some pile \<Rightarrow> do { state \<leftarrow> GetPileState (PileStateNumber pile); Some (state = PolicyPileState policy) }
           | None \<Rightarrow> Some True))"

section \<open>Records of a discovery result\<close>

definition LoadMax :: rat where "LoadMax = 100"
definition LoadMin :: rat where "LoadMin = -100"
definition Multiplicator :: rat where "Multiplicator = 10"

definition GetLocalityShift :: int where
  "GetLocalityShift = trunc (round32 (LoadMax * Multiplicator))"

definition load_priority :: "float32 \<Rightarrow> int option" where
  "load_priority load =
     float_to_int32 (float_times Multiplicator (float_min (Finite LoadMax) (float_max (Finite LoadMin) load)))"

definition ipv6_endpoint :: "string \<Rightarrow> 32 word \<Rightarrow> string" where
  "ipv6_endpoint addr port =
     ''ipv6:'' @ (if hd addr \<noteq> CHR ''['' then ''['' else []) @ addr @
     (if last addr \<noteq> CHR '']'' then '']'' else []) @ '':'' @ show_ui32 port"

definition ipv4_endpoint :: "string \<Rightarrow> 32 word \<Rightarrow> string" where
  "ipv4_endpoint addr port = ''ipv4:'' @ addr @ '':'' @ show_ui32 port"

definition ip_ssl_target :: "EndpointInfo \<Rightarrow> string" where
  "ip_ssl_target endpoint =
     (if InfoSslTargetNameOverride endpoint \<noteq> [] then InfoSslTargetNameOverride endpoint
      else if Ssl endpoint then Address endpoint else [])"

definition endpoint_records :: "int \<Rightarrow> EndpointInfo \<Rightarrow> TEndpointRecord list" where
  "endpoint_records loadFactor endpoint =
     (let record_of = (\<lambda>name ssl. \<lparr>Endpoint = name, Priority = loadFactor, SslTargetNameOverride = ssl,
                                    NodeId = ucast (InfoNodeId endpoint), Location = InfoLocation endpoint\<rparr>);
          ips = map (\<lambda>addr. record_of (ipv6_endpoint addr (Port endpoint)) (ip_ssl_target endpoint))
                  (filter (\<lambda>addr. addr \<noteq> []) (IpV6 endpoint)) @
                map (\<lambda>addr. record_of (ipv4_endpoint addr (Port endpoint)) (ip_ssl_target endpoint))
                  (filter (\<lambda>addr. addr \<noteq> []) (IpV4 endpoint))
      in if ips = [] then [record_of (Address endpoint @ '':'' @ show_ui32 (Port endpoint))
                             (InfoSslTargetNameOverride endpoint)]
         else ips)"

fun records_of_infos :: "TBalancingPolicy \<Rightarrow> string \<Rightarrow> (string, PileStateMessage) amap \<Rightarrow> EndpointInfo list
    \<Rightarrow> TEndpointRecord list option" where
  "records_of_infos policy selfLocation pileStates [] = Some []"
| "records_of_infos policy selfLocation pileStates (endpoint # endpoints) =
     do {
       loadFactor \<leftarrow> load_priority (LoadFactor endpoint);
       preferred \<leftarrow> IsPreferredEndpoint policy endpoint selfLocation pileStates;
       let loadFactor = (if \<not> preferred then loadFactor + GetLocalityShift else loadFactor);
       records \<leftarrow> records_of_infos policy selfLocation pileStates endpoints;
       Some (endpoint_records loadFactor endpoint @ records)
     }"

definition pile_index :: "PileStateMessage list \<Rightarrow> (string, PileStateMessage) amap" where
  "pile_index piles = fold (\<lambda>pile. AList.update (PileName pile) pile) piles []"

definition records_of_result :: "TBalancingPolicy \<Rightarrow> ListEndpointsResult \<Rightarrow> TEndpointRecord list option" where
  "records_of_result policy result =
     records_of_infos policy (SelfLocation result) (pile_index (PileStates result)) (EndpointInfos result)"

section \<open>The pool\<close>

record TListEndpointsResult =
  Result :: ListEndpointsResult
  ListStatus :: TPlainStatus

record TEndpointUpdateResult =
  Removed :: "string list"
  UpdateStatus :: TPlainStatus

text \<open>Where the handler of a discovery call is.\<close>

datatype handler =
    AwaitsList
  | StateSet "string list" TPlainStatus
  | PromiseSwapped nat "string list" TPlainStatus

record TEndpointPool =
  Elector :: TEndpointElectorSafe
  PoolObjs :: obj_heap
  DiscoveryPromise :: "nat option"
  LastUpdateTime :: "64 word"
  BalancingPolicy :: TBalancingPolicy
  Handlers :: "(nat, handler) amap"
  Values :: "(nat, TEndpointUpdateResult) amap"
  NextPromise :: nat

definition new_endpoint_pool :: "TBalancingPolicy \<Rightarrow> TEndpointPool" where
  "new_endpoint_pool policy =
     \<lparr>Elector = init_elector, PoolObjs = \<lparr>Registries = [], ObjRegistry = []\<rparr>, DiscoveryPromise = None,
      LastUpdateTime = 0, BalancingPolicy = policy, Handlers = [], Values = [], NextPromise = 0\<rparr>"

text \<open>The future is named by its promise; the flag tells the caller that started the discovery.\<close>

definition UpdateAsync :: "TEndpointPool \<Rightarrow> (nat \<times> bool) \<times> TEndpointPool" where
  "UpdateAsync s =
     (case DiscoveryPromise s of
        Some p \<Rightarrow> ((p, False), s)
      | None \<Rightarrow>
          (let p = NextPromise s in
           ((p, True), s\<lparr>DiscoveryPromise := Some p, NextPromise := p + 1,
                         Handlers := AList.update p AwaitsList (Handlers s)\<rparr>)))"

definition handle_list :: "(TEndpointRecord list \<Rightarrow> TEndpointRecord list) \<Rightarrow> 64 word \<Rightarrow> TListEndpointsResult
    \<Rightarrow> nat \<Rightarrow> TEndpointPool \<Rightarrow> TEndpointPool option" where
  "handle_list srt now result d s =
     (if StatusCode (ListStatus result) = SUCCESS then do {
        records \<leftarrow> records_of_result (BalancingPolicy s) (Result result);
        (removed, notified, elector) \<leftarrow> SetNewState srt records (Elector s);
        Some (s\<lparr>LastUpdateTime := now, Elector := elector,
                Handlers := AList.update d (StateSet removed (ListStatus result)) (Handlers s)\<rparr>)
      }
      else Some (s\<lparr>Handlers := AList.update d (StateSet [] (ListStatus result)) (Handlers s)\<rparr>))"

definition swap_promise :: "string list \<Rightarrow> TPlainStatus \<Rightarrow> nat \<Rightarrow> TEndpointPool \<Rightarrow> TEndpointPool option" where
  "swap_promise removed status d s =
     do {
       promise \<leftarrow> DiscoveryPromise s;
       Some (s\<lparr>DiscoveryPromise := None,
               Handlers := AList.update d (PromiseSwapped promise removed status) (Handlers s)\<rparr>)
     }"

definition set_value :: "nat \<Rightarrow> string list \<Rightarrow> TPlainStatus \<Rightarrow> nat \<Rightarrow> TEndpointPool \<Rightarrow> TEndpointPool option" where
  "set_value promise removed status d s =
     (if lookup (Values s) promise \<noteq> None then None
      else Some (s\<lparr>Values := AList.update promise \<lparr>Removed = removed, UpdateStatus = status\<rparr> (Values s),
                   Handlers := AList.delete d (Handlers s)\<rparr>))"

definition PoolGetEndpoint :: "(nat \<Rightarrow> nat) \<Rightarrow> TEndpointKey \<Rightarrow> bool \<Rightarrow> TEndpointPool \<Rightarrow> TEndpointRecord option" where
  "PoolGetEndpoint RandomNumber preferredEndpoint onlyPreferred s =
     GetEndpoint RandomNumber preferredEndpoint onlyPreferred (Elector s)"

text \<open>\<open>now - LastUpdateTime\<close> wraps: a clock that went back gives a huge time.\<close>

definition TimeSinceLastUpdate :: "64 word \<Rightarrow> TEndpointPool \<Rightarrow> 64 word" where
  "TimeSinceLastUpdate now s = now - LastUpdateTime s"

definition BanEndpoint :: "(TEndpointRecord list \<Rightarrow> TEndpointRecord list) \<Rightarrow> string \<Rightarrow> TEndpointPool \<Rightarrow> TEndpointPool" where
  "BanEndpoint srt endpoint s = s\<lparr>Elector := PessimizeEndpoint srt endpoint (Elector s)\<rparr>"

definition BanNodeId :: "(TEndpointRecord list \<Rightarrow> TEndpointRecord list) \<Rightarrow> 64 word \<Rightarrow> TEndpointPool \<Rightarrow> TEndpointPool" where
  "BanNodeId srt nodeId s = s\<lparr>Elector := PessimizeNode srt nodeId (Elector s)\<rparr>"

definition PoolGetPessimizationRatio :: "TEndpointPool \<Rightarrow> int" where
  "PoolGetPessimizationRatio s = GetPessimizationRatio (Elector s)"

definition PoolLinkObjToEndpoint :: "TEndpointKey \<Rightarrow> nat \<Rightarrow> nat \<Rightarrow> TEndpointPool \<Rightarrow> (bool \<times> TEndpointPool) option" where
  "PoolLinkObjToEndpoint endpoint obj tag s =
     do {
       (ok, elector, objs) \<leftarrow> LinkObjToEndpoint endpoint obj tag (Elector s) (PoolObjs s);
       Some (ok, s\<lparr>Elector := elector, PoolObjs := objs\<rparr>)
     }"

definition PoolForEachEndpoint :: "nat \<Rightarrow> TEndpointPool \<Rightarrow> (64 word \<times> nat) list option" where
  "PoolForEachEndpoint tag s = ForEachEndpoint 0 (2 ^ 31 - 1) tag (Elector s) (PoolObjs s)"

definition ForEachLocalEndpoint :: "nat \<Rightarrow> TEndpointPool \<Rightarrow> (64 word \<times> nat) list option" where
  "ForEachLocalEndpoint tag s = ForEachEndpoint 0 (GetLocalityShift - 1) tag (Elector s) (PoolObjs s)"

definition ForEachForeignEndpoint :: "nat \<Rightarrow> TEndpointPool \<Rightarrow> (64 word \<times> nat) list option" where
  "ForEachForeignEndpoint tag s = ForEachEndpoint GetLocalityShift (2 ^ 31 - 1 - 1) tag (Elector s) (PoolObjs s)"

definition GetBalancingPolicyType :: "TEndpointPool \<Rightarrow> EPolicyType" where
  "GetBalancingPolicyType s = PolicyType (BalancingPolicy s)"

text \<open>The gauges of the collector, or nothing while it does not collect.\<close>

definition PoolSetStatCollector :: "(int option \<times> int option \<times> int option) option \<Rightarrow> TEndpointPool \<Rightarrow> TEndpointPool" where
  "PoolSetStatCollector collector s =
     (case collector of
        None \<Rightarrow> s
      | Some (endpointCount, ratio, active) \<Rightarrow> s\<lparr>Elector := SetStatCollector endpointCount ratio active (Elector s)\<rparr>)"

section \<open>Priorities\<close>

lemma GetLocalityShift [simp]: "GetLocalityShift = 1000"
  using binary32.rnd_of_int [of 1000] trunc_of_int [of 1000]
  by (simp add: GetLocalityShift_def LoadMax_def Multiplicator_def)

lemma trunc_round32:
  assumes "of_int a \<le> x" "x \<le> of_int b" "\<bar>a\<bar> \<le> 2 ^ 24" "\<bar>b\<bar> \<le> 2 ^ 24"
  shows "a \<le> trunc (round32 x) \<and> trunc (round32 x) \<le> b"
  using trunc_mono [OF binary32.rnd_ge_int [OF assms(1,3)]] trunc_mono [OF binary32.rnd_le_int [OF assms(2,4)]]
  by simp

lemma clamped_load:
  obtains x where "float_min (Finite LoadMax) (float_max (Finite LoadMin) load) = Finite x" "-100 \<le> x" "x \<le> 100"
    "\<And>y. load = Finite y \<Longrightarrow> -100 \<le> y \<Longrightarrow> y \<le> 100 \<Longrightarrow> x = y"
proof (cases load)
  case (Finite y)
  then have "float_min (Finite LoadMax) (float_max (Finite LoadMin) load) = Finite (min 100 (max (-100) y))"
    by (simp add: float_min_def float_max_def LoadMin_def LoadMax_def min_def max_def)
  with Finite that show ?thesis by fastforce
qed (use that in \<open>auto simp: float_min_def float_max_def LoadMin_def LoadMax_def\<close>)

lemma load_priority_bounds: "\<exists>n. load_priority load = Some n \<and> -1000 \<le> n \<and> n \<le> 1000"
proof -
  obtain x where x: "float_min (Finite LoadMax) (float_max (Finite LoadMin) load) = Finite x" "-100 \<le> x" "x \<le> 100"
    by (rule clamped_load)
  then show ?thesis
    using trunc_round32 [of "-1000" "10 * x" 1000] by (simp add: load_priority_def Multiplicator_def)
qed

lemma load_priority_regular:
  assumes "0 \<le> x" "x \<le> 999 / 10"
  shows "\<exists>n. load_priority (Finite x) = Some n \<and> 0 \<le> n \<and> n < 1000"
proof -
  have "float_min (Finite LoadMax) (float_max (Finite LoadMin) (Finite x)) = Finite x"
    using assms clamped_load [of "Finite x"] by fastforce
  then show ?thesis
    using trunc_round32 [of 0 "10 * x" 999] assms by (simp add: load_priority_def Multiplicator_def)
qed

section \<open>Records\<close>

lemma endpoint_records_not_empty: "endpoint_records n e \<noteq> []"
  by (simp add: endpoint_records_def Let_def)

lemma endpoint_records_fields:
  "r \<in> set (endpoint_records n e) \<Longrightarrow> Priority r = n \<and> NodeId r = ucast (InfoNodeId e) \<and> Location r = InfoLocation e"
  by (auto simp: endpoint_records_def Let_def split: if_splits)

lemma length_endpoint_records: "length (endpoint_records n e) \<le> 1 + length (IpV4 e) + length (IpV6 e)"
proof -
  have "length (filter P xs) + length (filter P ys) \<le> Suc (length ys + length xs)" for P :: "string \<Rightarrow> bool" and xs ys
    using length_filter_le [of P xs] length_filter_le [of P ys] by linarith
  then show ?thesis by (simp add: endpoint_records_def Let_def)
qed

text \<open>The number of records a result can give, and the results whose pile states are of the enum.\<close>

definition result_size :: "ListEndpointsResult \<Rightarrow> nat" where
  "result_size result = (\<Sum>e \<leftarrow> EndpointInfos result. 1 + length (IpV4 e) + length (IpV6 e))"

definition known_piles :: "ListEndpointsResult \<Rightarrow> bool" where
  "known_piles result \<longleftrightarrow> (\<forall>pile \<in> set (PileStates result). GetPileState (PileStateNumber pile) \<noteq> None)"

lemma pile_index_known: "lookup (pile_index piles) name = Some pile \<Longrightarrow> pile \<in> set piles"
proof -
  have "lookup (fold (\<lambda>pile. AList.update (PileName pile) pile) piles m) name = Some pile \<Longrightarrow>
      pile \<in> set piles \<or> lookup m name = Some pile" for m
  proof (induction piles arbitrary: m)
    case (Cons p piles)
    then show ?case using Cons.IH [of "AList.update (PileName p) p m"] by (auto split: if_splits)
  qed simp
  then show "lookup (pile_index piles) name = Some pile \<Longrightarrow> pile \<in> set piles"
    by (fastforce simp: pile_index_def)
qed

lemma IsPreferredEndpoint_known:
  "known_piles result \<Longrightarrow> IsPreferredEndpoint policy e self (pile_index (PileStates result)) \<noteq> None"
  using pile_index_known [of "PileStates result" "BridgePileName e"]
  by (auto simp: IsPreferredEndpoint_def known_piles_def bind_eq_None_conv split: EPolicyType.split option.split
      simp del: not_None_eq)

text \<open>The priority of the records of an endpoint.\<close>

definition info_priority :: "TBalancingPolicy \<Rightarrow> ListEndpointsResult \<Rightarrow> EndpointInfo \<Rightarrow> int" where
  "info_priority policy result e =
     the (load_priority (LoadFactor e)) +
     (if IsPreferredEndpoint policy e (SelfLocation result) (pile_index (PileStates result)) = Some True then 0 else 1000)"

lemma info_priority_bounds: "-1000 \<le> info_priority policy result e" "info_priority policy result e \<le> 2000"
  using load_priority_bounds [of "LoadFactor e"] by (auto simp: info_priority_def)

lemma records_of_infos_concat:
  assumes "known_piles result"
  shows "records_of_infos policy (SelfLocation result) (pile_index (PileStates result)) es =
    Some (concat (map (\<lambda>e. endpoint_records (info_priority policy result e) e) es))"
proof (induction es)
  case (Cons e es)
  obtain n where "load_priority (LoadFactor e) = Some n" using load_priority_bounds by blast
  moreover obtain b where "IsPreferredEndpoint policy e (SelfLocation result) (pile_index (PileStates result)) = Some b"
    using IsPreferredEndpoint_known [OF assms] by fast
  ultimately show ?case using Cons.IH by (simp add: info_priority_def Let_def)
qed simp

lemma records_of_result_concat:
  "known_piles result \<Longrightarrow> records_of_result policy result =
     Some (concat (map (\<lambda>e. endpoint_records (info_priority policy result e) e) (EndpointInfos result)))"
  by (simp add: records_of_result_def records_of_infos_concat)

lemma records_of_result_ok:
  assumes "known_piles result" "records_of_result policy result = Some records"
  shows "length records \<le> result_size result" "r \<in> set records \<Longrightarrow> -1000 \<le> Priority r \<and> Priority r \<le> 2000"
proof -
  have eq: "records = concat (map (\<lambda>e. endpoint_records (info_priority policy result e) e) (EndpointInfos result))"
    using records_of_result_concat [OF assms(1), of policy] assms(2) by simp
  have "length (concat (map (\<lambda>e. endpoint_records (f e) e) es)) \<le> (\<Sum>e \<leftarrow> es. 1 + length (IpV4 e) + length (IpV6 e))" for f es
  proof (induction es)
    case (Cons e es)
    then show ?case using length_endpoint_records [of "f e" e] by simp
  qed simp
  then show "length records \<le> result_size result" by (simp only: eq result_size_def)
  show "r \<in> set records \<Longrightarrow> -1000 \<le> Priority r \<and> Priority r \<le> 2000"
    using info_priority_bounds by (auto simp: eq dest!: endpoint_records_fields)
qed

section \<open>Runs of the pool\<close>

datatype pool_event =
    CallUpdateAsync
  | ListReady "64 word" TListEndpointsResult nat
  | SwapPromise nat
  | SetPromise nat
  | CallBanEndpoint string
  | CallBanNodeId "64 word"
  | CallLinkObj TEndpointKey nat nat
  | UnlinkObj nat
  | CallSetStatCollector "(int option \<times> int option \<times> int option) option"

text \<open>A discovery of more than \<open>2 ^ 31\<close> records does not fit into a message.\<close>

fun enabled_event :: "pool_event \<Rightarrow> TEndpointPool \<Rightarrow> bool" where
  "enabled_event (ListReady now result d) s \<longleftrightarrow> lookup (Handlers s) d = Some AwaitsList \<and>
     known_piles (Result result) \<and> result_size (Result result) < 2 ^ 31"
| "enabled_event (SwapPromise d) s \<longleftrightarrow>
     (case lookup (Handlers s) d of Some (StateSet _ _) \<Rightarrow> True | _ \<Rightarrow> False)"
| "enabled_event (SetPromise d) s \<longleftrightarrow>
     (case lookup (Handlers s) d of Some (PromiseSwapped _ _ _) \<Rightarrow> True | _ \<Rightarrow> False)"
| "enabled_event _ s \<longleftrightarrow> True"

fun pool_handle :: "(TEndpointRecord list \<Rightarrow> TEndpointRecord list) \<Rightarrow> pool_event \<Rightarrow> TEndpointPool
    \<Rightarrow> TEndpointPool option" where
  "pool_handle srt CallUpdateAsync s = Some (snd (UpdateAsync s))"
| "pool_handle srt (ListReady now result d) s = handle_list srt now result d s"
| "pool_handle srt (SwapPromise d) s =
     (case lookup (Handlers s) d of
        Some (StateSet removed status) \<Rightarrow> swap_promise removed status d s
      | _ \<Rightarrow> Some s)"
| "pool_handle srt (SetPromise d) s =
     (case lookup (Handlers s) d of
        Some (PromiseSwapped promise removed status) \<Rightarrow> set_value promise removed status d s
      | _ \<Rightarrow> Some s)"
| "pool_handle srt (CallBanEndpoint endpoint) s = Some (BanEndpoint srt endpoint s)"
| "pool_handle srt (CallBanNodeId nodeId) s = Some (BanNodeId srt nodeId s)"
| "pool_handle srt (CallLinkObj key obj tag) s = map_option snd (PoolLinkObjToEndpoint key obj tag s)"
| "pool_handle srt (UnlinkObj obj) s =
     do { objs \<leftarrow> Unlink obj (PoolObjs s); Some (s\<lparr>PoolObjs := objs\<rparr>) }"
| "pool_handle srt (CallSetStatCollector collector) s = Some (PoolSetStatCollector collector s)"

inductive pool_reachable ::
  "(TEndpointRecord list \<Rightarrow> TEndpointRecord list) \<Rightarrow> TBalancingPolicy \<Rightarrow> TEndpointPool \<Rightarrow> bool"
  for srt policy where
  pool_start: "pool_reachable srt policy (new_endpoint_pool policy)"
| pool_event: "pool_reachable srt policy s \<Longrightarrow> enabled_event ev s \<Longrightarrow> pool_handle srt ev s = Some s' \<Longrightarrow>
    pool_reachable srt policy s'"

section \<open>The update protocol\<close>

text \<open>
  A promise is fulfilled, or the call it was made for is on its way; the pool holds the promise of the
  one call that has not swapped it out yet.
\<close>

fun promise_ok :: "bool \<Rightarrow> handler option \<Rightarrow> nat option \<Rightarrow> nat \<Rightarrow> nat \<Rightarrow> bool" where
  "promise_ok fulfilled None held next p \<longleftrightarrow> (fulfilled \<longleftrightarrow> p < next) \<and> held \<noteq> Some p"
| "promise_ok fulfilled (Some (PromiseSwapped q _ _)) held next p \<longleftrightarrow>
     \<not> fulfilled \<and> p < next \<and> q = p \<and> held \<noteq> Some p"
| "promise_ok fulfilled (Some h) held next p \<longleftrightarrow> \<not> fulfilled \<and> p < next \<and> held = Some p"

definition update_inv :: "TEndpointPool \<Rightarrow> bool" where
  "update_inv s \<longleftrightarrow> (\<forall>p. promise_ok (lookup (Values s) p \<noteq> None) (lookup (Handlers s) p) (DiscoveryPromise s) (NextPromise s) p)"

definition pool_inv :: "(TEndpointRecord list \<Rightarrow> TEndpointRecord list) \<Rightarrow> TEndpointPool \<Rightarrow> bool" where
  "pool_inv srt s \<longleftrightarrow> update_inv s \<and> elector_reachable srt (Elector s, PoolObjs s)"

lemma update_inv_new: "update_inv (new_endpoint_pool policy)"
  by (simp add: update_inv_def new_endpoint_pool_def)

lemma promise_ok_cases:
  assumes "promise_ok v h held next p"
  obtains "h = None" "v \<longleftrightarrow> p < next" "held \<noteq> Some p"
  | r st where "h = Some (PromiseSwapped p r st)" "\<not> v" "p < next" "held \<noteq> Some p"
  | "h = Some AwaitsList" "\<not> v" "p < next" "held = Some p"
  | r st where "h = Some (StateSet r st)" "\<not> v" "p < next" "held = Some p"
  using assms by (cases "(v, h, held, next, p)" rule: promise_ok.cases) auto

text \<open>An operation on the promise \<open>d\<close> keeps the others.\<close>

lemma update_inv_change:
  assumes "update_inv s"
    and "promise_ok (lookup (Values s') d \<noteq> None) (lookup (Handlers s') d) (DiscoveryPromise s') (NextPromise s') d"
    and "\<And>p. p \<noteq> d \<Longrightarrow> lookup (Values s') p = lookup (Values s) p \<and> lookup (Handlers s') p = lookup (Handlers s) p"
    and "DiscoveryPromise s' \<in> {DiscoveryPromise s, None, Some d}" "DiscoveryPromise s \<in> {DiscoveryPromise s', None, Some d}"
    and "\<And>p. p \<noteq> d \<Longrightarrow> p < NextPromise s' \<longleftrightarrow> p < NextPromise s"
  shows "update_inv s'"
  unfolding update_inv_def
proof
  fix p
  show "promise_ok (lookup (Values s') p \<noteq> None) (lookup (Handlers s') p) (DiscoveryPromise s') (NextPromise s') p"
  proof (cases "p = d")
    case False
    have "promise_ok (lookup (Values s) p \<noteq> None) (lookup (Handlers s) p) (DiscoveryPromise s) (NextPromise s) p"
      using assms(1) by (simp add: update_inv_def)
    moreover have "DiscoveryPromise s' = Some p \<longleftrightarrow> DiscoveryPromise s = Some p"
      using False assms(4,5) by auto
    ultimately show ?thesis
      using assms(3,6) [OF False] by (elim promise_ok_cases) simp_all
  qed (use assms(2) in simp)
qed

lemma UpdateAsync_inv: "update_inv s \<Longrightarrow> update_inv (snd (UpdateAsync s))"
proof (cases "DiscoveryPromise s")
  case None
  assume inv: "update_inv s"
  then have "promise_ok (lookup (Values s) p \<noteq> None) (lookup (Handlers s) p) (DiscoveryPromise s) (NextPromise s) p" for p
    by (simp add: update_inv_def)
  from this [of "NextPromise s"] have "lookup (Values s) (NextPromise s) = None"
    by (elim promise_ok_cases) simp_all
  then show ?thesis
    using inv None by (intro update_inv_change [OF inv, of _ "NextPromise s"]) (auto simp: UpdateAsync_def Let_def)
qed (simp add: UpdateAsync_def)

lemma handler_set_inv:
  assumes "update_inv s" "lookup (Handlers s) d = Some AwaitsList" "Values s' = Values s"
    "Handlers s' = AList.update d (StateSet r st) (Handlers s)" "DiscoveryPromise s' = DiscoveryPromise s"
    "NextPromise s' = NextPromise s"
  shows "update_inv s'"
proof (rule update_inv_change [OF assms(1), of s' d])
  have "promise_ok (lookup (Values s) d \<noteq> None) (Some AwaitsList) (DiscoveryPromise s) (NextPromise s) d"
    using assms(1,2) by (metis update_inv_def)
  then show "promise_ok (lookup (Values s') d \<noteq> None) (lookup (Handlers s') d) (DiscoveryPromise s') (NextPromise s') d"
    using assms by simp
qed (simp_all add: assms)

lemma swap_promise_ok:
  assumes "update_inv s" "lookup (Handlers s) d = Some (StateSet r st)"
  shows "\<exists>s'. swap_promise r st d s = Some s' \<and> update_inv s' \<and> Elector s' = Elector s \<and> PoolObjs s' = PoolObjs s"
proof -
  have ok: "promise_ok (lookup (Values s) d \<noteq> None) (Some (StateSet r st)) (DiscoveryPromise s) (NextPromise s) d"
    using assms by (metis update_inv_def)
  show ?thesis
    using ok update_inv_change [OF assms(1), of _ d] by (auto simp: swap_promise_def)
qed

lemma set_value_ok:
  assumes "update_inv s" "lookup (Handlers s) d = Some (PromiseSwapped p r st)"
  shows "\<exists>s'. set_value p r st d s = Some s' \<and> update_inv s' \<and> Elector s' = Elector s \<and> PoolObjs s' = PoolObjs s"
proof -
  have ok: "promise_ok (lookup (Values s) d \<noteq> None) (Some (PromiseSwapped p r st)) (DiscoveryPromise s) (NextPromise s) d"
    using assms by (metis update_inv_def)
  show ?thesis
    using ok update_inv_change [OF assms(1), of _ d] by (auto simp: set_value_def)
qed

section \<open>Invariant of the pool\<close>

lemma handle_list_ok:
  assumes "sorter Priority srt" "pool_inv srt s" "enabled_event (ListReady now result d) s"
  shows "\<exists>s'. handle_list srt now result d s = Some s' \<and> pool_inv srt s'"
proof (cases "StatusCode (ListStatus result) = SUCCESS")
  case False
  then show ?thesis
    using assms(2,3) handler_set_inv [of s d] by (simp add: handle_list_def pool_inv_def)
next
  case True
  have inv: "update_inv s" "elector_reachable srt (Elector s, PoolObjs s)" using assms(2) by (simp_all add: pool_inv_def)
  have d: "lookup (Handlers s) d = Some AwaitsList" "known_piles (Result result)" "result_size (Result result) < 2 ^ 31"
    using assms(3) by simp_all
  obtain records where r: "records_of_result (BalancingPolicy s) (Result result) = Some records"
    using records_of_result_concat [OF d(2)] by blast
  have len: "length records < 2 ^ 31" and prio: "\<forall>r \<in> set records. Priority r \<le> PessimizedPriority"
    using records_of_result_ok [OF d(2) r] d(3) by (simp, fastforce simp: PessimizedPriority_def)
  have e: "elector_inv (Elector s)" using elector_reachable_inv [OF inv(2) assms(1)] by simp
  have "SetNewState srt records (Elector s) \<noteq> None"
    by (rule SetNewState_result [OF assms(1) e len prio]) simp
  then obtain removed nt e' where s': "SetNewState srt records (Elector s) = Some (removed, nt, e')"
    by auto
  have "elector_reachable srt (e', PoolObjs s)"
    by (rule elector_reachable.step [OF inv(2) elector_step.set_new_state [OF s' len prio]])
  then show ?thesis
    using True r s' handler_set_inv [OF inv(1) d(1)] by (simp add: handle_list_def pool_inv_def)
qed

lemma pool_handle_ok:
  assumes "sorter Priority srt" "pool_inv srt s" "enabled_event ev s"
  shows "\<exists>s'. pool_handle srt ev s = Some s' \<and> pool_inv srt s'"
proof -
  have inv: "update_inv s" and reach: "elector_reachable srt (Elector s, PoolObjs s)"
    using assms(2) by (simp_all add: pool_inv_def)
  have sys: "elector_inv (Elector s)" "link_inv (PoolObjs s)" "tags_inv (Elector s) (PoolObjs s)"
    using elector_reachable_inv [OF reach assms(1)] by simp_all
  have keep: "update_inv (s\<lparr>Elector := e, PoolObjs := h\<rparr>)" for e h
    using inv by (simp add: update_inv_def)
  have step: "pool_inv srt (s\<lparr>Elector := e, PoolObjs := h\<rparr>)"
    if "elector_step srt (Elector s, PoolObjs s) (e, h)" for e h
    using keep elector_reachable.step [OF reach that] by (simp add: pool_inv_def)
  show ?thesis
  proof (cases ev)
    case (CallLinkObj key obj tag)
    have "LinkObjToEndpoint key obj tag (Elector s) (PoolObjs s) \<noteq> None"
      by (rule LinkObjToEndpoint_result [OF sys(2,3), of key obj tag]) simp
    then obtain ok e h where "LinkObjToEndpoint key obj tag (Elector s) (PoolObjs s) = Some (ok, e, h)"
      by auto
    then show ?thesis
      using CallLinkObj step elector_step.link_obj by (fastforce simp: PoolLinkObjToEndpoint_def)
  next
    case (UnlinkObj obj)
    have "Unlink obj (PoolObjs s) \<noteq> None" by (rule Unlink_result [OF sys(2), of obj]) simp
    then obtain h where "Unlink obj (PoolObjs s) = Some h" by auto
    then show ?thesis using UnlinkObj step [of "Elector s" h] elector_step.unlink_obj by fastforce
  next
    case (CallBanEndpoint endpoint)
    then show ?thesis
      using step [OF elector_step.pessimize_endpoint] by (simp add: BanEndpoint_def)
  next
    case (CallBanNodeId nodeId)
    then show ?thesis
      using step [OF elector_step.pessimize_node] by (simp add: BanNodeId_def)
  next
    case (CallSetStatCollector c)
    then show ?thesis
      using step [OF elector_step.set_stat_collector] assms(2)
      by (cases c) (auto simp: PoolSetStatCollector_def)
  next
    case CallUpdateAsync
    then show ?thesis using UpdateAsync_inv [OF inv] reach
      by (auto simp: pool_inv_def UpdateAsync_def Let_def split: option.splits)
  next
    case (ListReady now result d)
    then show ?thesis using handle_list_ok [OF assms(1,2)] assms(3) by simp
  next
    case (SwapPromise d)
    then show ?thesis using assms(3) swap_promise_ok [OF inv, of d] reach
      by (auto simp: pool_inv_def split: option.splits handler.splits)
  next
    case (SetPromise d)
    then show ?thesis using assms(3) set_value_ok [OF inv, of d] reach
      by (auto simp: pool_inv_def split: option.splits handler.splits)
  qed
qed

lemma pool_reachable_inv:
  assumes "sorter Priority srt"
  shows "pool_reachable srt policy s \<Longrightarrow> pool_inv srt s"
proof (induction rule: pool_reachable.induct)
  case pool_start
  then show ?case
    using update_inv_new [of policy] elector_reachable.start by (simp add: pool_inv_def new_endpoint_pool_def)
next
  case (pool_event s ev s')
  then show ?case using pool_handle_ok [OF assms, of s ev] by simp
qed

section \<open>Iteration\<close>

lemma for_each_nodes:
  assumes "sorted (map Priority rs)" "for_each maxP tag bn h rs = Some cbs"
  shows "map fst cbs = map NodeId (filter (\<lambda>r. Priority r \<le> maxP) rs)"
  using assms
proof (induction rs arbitrary: cbs)
  case (Cons r rs)
  show ?case
  proof (cases "Priority r > maxP")
    case True
    then have "filter (\<lambda>r. Priority r \<le> maxP) rs = []"
      using Cons.prems(1) by (auto simp: filter_empty_conv)
    then show ?thesis using True Cons.prems(2) by auto
  qed (use Cons in \<open>auto simp: Let_def bind_eq_Some_conv split: option.splits\<close>)
qed simp

lemma dropWhile_sorted_filter:
  fixes rs :: "TEndpointRecord list"
  shows "sorted (map Priority rs) \<Longrightarrow> dropWhile (\<lambda>r. Priority r < n) rs = filter (\<lambda>r. n \<le> Priority r) rs"
proof (induction rs)
  case (Cons r rs)
  show ?case
  proof (cases "Priority r < n")
    case False
    then have "filter (\<lambda>r. n \<le> Priority r) rs = rs" using Cons.prems by (auto simp: filter_id_conv)
    with False show ?thesis by simp
  qed (use Cons in simp)
qed simp

lemma ForEachEndpoint_nodes:
  assumes "elector_inv s" "ForEachEndpoint minP maxP tag s h = Some cbs"
  shows "map fst cbs = map NodeId (filter (\<lambda>r. minP \<le> Priority r \<and> Priority r \<le> maxP) (Records s))"
proof -
  have "sorted (map Priority (Records s))" using assms(1) by (simp add: elector_inv_def order_inv_def)
  then show ?thesis
    using for_each_nodes [OF _ assms(2) [unfolded ForEachEndpoint_def]]
    by (simp add: dropWhile_sorted_filter sorted_filter conj_commute)
qed

lemma ForEachEndpoint_result:
  assumes "elector_inv s"
  obtains cbs where "ForEachEndpoint minP maxP tag s h = Some cbs"
    "map fst cbs = map NodeId (filter (\<lambda>r. minP \<le> Priority r \<and> Priority r \<le> maxP) (Records s))"
proof -
  have "ForEachEndpoint minP maxP tag s h \<noteq> None"
    using assms unfolding ForEachEndpoint_def
    by (intro for_each_defined) (auto simp: elector_inv_def index_inv_def dest: set_dropWhileD)
  then show ?thesis using that ForEachEndpoint_nodes [OF assms] by blast
qed

text \<open>The usual results: load factors that are not negative and below the shift.\<close>

definition regular_loads :: "ListEndpointsResult \<Rightarrow> bool" where
  "regular_loads result \<longleftrightarrow>
     (\<forall>e \<in> set (EndpointInfos result). \<exists>x. LoadFactor e = Finite x \<and> 0 \<le> x \<and> x \<le> 999 / 10)"

abbreviation preferred_info :: "TBalancingPolicy \<Rightarrow> ListEndpointsResult \<Rightarrow> EndpointInfo \<Rightarrow> bool" where
  "preferred_info policy result e \<equiv>
     IsPreferredEndpoint policy e (SelfLocation result) (pile_index (PileStates result)) = Some True"

lemma regular_priority:
  assumes "regular_loads result" "e \<in> set (EndpointInfos result)"
  shows "0 \<le> info_priority policy result e" "info_priority policy result e < 1000 \<longleftrightarrow> preferred_info policy result e"
    "info_priority policy result e < 2000"
proof -
  obtain x n where "LoadFactor e = Finite x" "load_priority (Finite x) = Some n" "0 \<le> n" "n < 1000"
    using assms load_priority_regular by (metis regular_loads_def)
  then show "0 \<le> info_priority policy result e" "info_priority policy result e < 1000 \<longleftrightarrow> preferred_info policy result e"
    "info_priority policy result e < 2000"
    by (auto simp: info_priority_def)
qed

lemma GetEndpoint_head:
  assumes "elector_inv s" "Records s \<noteq> []" "\<forall>n > 0. RandomNumber n < n"
  shows "\<exists>r \<in> set (Records s). GetEndpoint RandomNumber \<lparr>KeyEndpoint = [], KeyNodeId = 0\<rparr> False s = Some r \<and>
    (\<forall>r' \<in> set (Records s). Priority r \<le> Priority r')"
proof -
  have o: "sorted (map Priority (Records s))" "BestK s = GetBestK (Records s)" "length (Records s) < 2 ^ 31"
    using assms(1) by (simp_all add: elector_inv_def order_inv_def records_inv_def)
  obtain k where k: "GetBestK (Records s) = int k" "k < length (Records s)"
    "\<And>i. i \<le> k \<Longrightarrow> Priority (Records s ! i) = Priority (Records s ! 0)"
    using GetBestK_spec [OF assms(2) o(3)] by metis
  define i where "i = RandomNumber (nat (BestK s + 1))"
  have i: "i < Suc k" using assms(3) by (simp add: i_def o(2) k(1) nat_add_distrib)
  have "Priority (Records s ! i) \<le> Priority r'" if "r' \<in> set (Records s)" for r'
    using that k(3) [of i] i o(1) by (auto simp: in_set_conv_nth sorted_iff_nth_mono less_Suc_eq_le)
  moreover have "GetEndpoint RandomNumber \<lparr>KeyEndpoint = [], KeyNodeId = 0\<rparr> False s = Some (Records s ! i)"
    using i k(2) by (simp add: GetEndpoint_def Let_def i_def o(2) k(1))
  ultimately show ?thesis using i k(2) by (auto intro: nth_mem)
qed

lemma pool_handle_policy: "pool_handle srt ev s = Some s' \<Longrightarrow> BalancingPolicy s' = BalancingPolicy s"
  by (cases ev)
     (auto simp: UpdateAsync_def Let_def handle_list_def swap_promise_def set_value_def BanEndpoint_def BanNodeId_def
        PoolLinkObjToEndpoint_def PoolSetStatCollector_def bind_eq_Some_conv split: option.splits handler.splits if_splits)

lemma pool_reachable_policy: "pool_reachable srt policy s \<Longrightarrow> BalancingPolicy s = policy"
  by (induction rule: pool_reachable.induct) (simp_all add: new_endpoint_pool_def pool_handle_policy)

lemma set_of_same_names:
  assumes "A \<subseteq> B" "f ` A = f ` B" "inj_on f B"
  shows "A = B"
  using assms by (metis inj_on_image_eq_iff order_refl)

text \<open>What a successful discovery leaves in the elector.\<close>

lemma handle_list_records:
  assumes "sorter Priority srt" "pool_inv srt s" "enabled_event (ListReady now result d) s"
    "StatusCode (ListStatus result) = SUCCESS"
    "records_of_result (BalancingPolicy s) (Result result) = Some records" "distinct (map Endpoint records)"
  obtains s' where "handle_list srt now result d s = Some s'" "elector_inv (Elector s')"
    "set (Records (Elector s')) = set records"
proof -
  have en: "known_piles (Result result)" "result_size (Result result) < 2 ^ 31" using assms(3) by simp_all
  have len: "length records < 2 ^ 31" and prio: "\<forall>r \<in> set records. Priority r \<le> PessimizedPriority"
    using records_of_result_ok [OF en(1) assms(5)] en(2) by (simp, fastforce simp: PessimizedPriority_def)
  have e: "elector_inv (Elector s)"
    using elector_reachable_inv [OF _ assms(1)] assms(2) by (metis pool_inv_def sys_inv.simps)
  show thesis
  proof (rule SetNewState_result [OF assms(1) e len prio])
    fix nt s'
    assume s': "SetNewState srt records (Elector s) =
         Some (map Endpoint (filter (\<lambda>r. Endpoint r \<notin> Endpoint ` set records) (Records (Elector s))), nt, s')"
      "elector_inv s'" "set (Records s') \<subseteq> set records" "Endpoint ` set (Records s') = Endpoint ` set records"
    have "set (Records s') = set records"
      using s'(3,4) assms(6) by (intro set_of_same_names [of _ _ Endpoint]) (simp_all add: distinct_map)
    then show thesis
      using that s'(1,2) assms(4,5) by (simp add: handle_list_def)
  qed
qed

lemma info_records:
  assumes "regular_loads result" "e \<in> set (EndpointInfos result)" "r \<in> set (endpoint_records (info_priority policy result e) e)"
  shows "0 \<le> Priority r" "Priority r < 2000" "Priority r < 1000 \<longleftrightarrow> preferred_info policy result e" "NodeId r = ucast (InfoNodeId e)"
  using regular_priority [OF assms(1,2), of policy] endpoint_records_fields [OF assms(3)] by simp_all

text \<open>The iterations over local and foreign endpoints split records of regular priorities at the shift.\<close>

lemma local_and_foreign:
  assumes "elector_inv (Elector s)" "\<And>r. r \<in> set (Records (Elector s)) \<Longrightarrow> 0 \<le> Priority r \<and> Priority r < 2000"
  obtains local foreign where "ForEachLocalEndpoint tag s = Some local" "ForEachForeignEndpoint tag s = Some foreign"
    "map fst local = map NodeId (filter (\<lambda>r. Priority r < 1000) (Records (Elector s)))"
    "map fst foreign = map NodeId (filter (\<lambda>r. \<not> Priority r < 1000) (Records (Elector s)))"
proof -
  obtain local where l: "ForEachEndpoint 0 (GetLocalityShift - 1) tag (Elector s) (PoolObjs s) = Some local"
    "map fst local = map NodeId (filter (\<lambda>r. 0 \<le> Priority r \<and> Priority r \<le> GetLocalityShift - 1) (Records (Elector s)))"
    by (rule ForEachEndpoint_result [OF assms(1)])
  obtain foreign where f: "ForEachEndpoint GetLocalityShift (2 ^ 31 - 1 - 1) tag (Elector s) (PoolObjs s) = Some foreign"
    "map fst foreign = map NodeId (filter (\<lambda>r. GetLocalityShift \<le> Priority r \<and> Priority r \<le> 2 ^ 31 - 1 - 1) (Records (Elector s)))"
    by (rule ForEachEndpoint_result [OF assms(1)])
  have "filter (\<lambda>r. 0 \<le> Priority r \<and> Priority r \<le> GetLocalityShift - 1) (Records (Elector s)) =
      filter (\<lambda>r. Priority r < 1000) (Records (Elector s))"
    "filter (\<lambda>r. GetLocalityShift \<le> Priority r \<and> Priority r \<le> 2 ^ 31 - 1 - 1) (Records (Elector s)) =
      filter (\<lambda>r. \<not> Priority r < 1000) (Records (Elector s))"
    using assms(2) by (intro filter_cong; force)+
  with l f show ?thesis
    by (intro that) (simp_all only: ForEachLocalEndpoint_def ForEachForeignEndpoint_def)
qed

section \<open>An example\<close>

definition plain_info :: "string \<Rightarrow> string \<Rightarrow> 32 word \<Rightarrow> rat \<Rightarrow> EndpointInfo" where
  "plain_info address location node load =
     \<lparr>Address = address, Port = 2135, LoadFactor = Finite load, Ssl = False, InfoLocation = location,
      InfoNodeId = node, IpV4 = [], IpV6 = [], InfoSslTargetNameOverride = [], BridgePileName = []\<rparr>"

definition example_list :: "rat \<Rightarrow> rat \<Rightarrow> TListEndpointsResult" where
  "example_list near far =
     \<lparr>Result = \<lparr>EndpointInfos = [plain_info ''far'' ''there'' 2 far, plain_info ''near'' ''here'' 1 near],
                SelfLocation = ''here'', PileStates = []\<rparr>,
      ListStatus = \<lparr>StatusCode = SUCCESS, Issues = [], StatusEndpoint = [], Metadata = [], ConsumedUnits = 0\<rparr>\<rparr>"

definition example_pool :: TEndpointPool where
  "example_pool = snd (UpdateAsync (new_endpoint_pool (policy_UsePreferableLocation None)))"

lemma example_pool_reachable: "pool_reachable (sort_key Priority) (policy_UsePreferableLocation None) example_pool"
  unfolding example_pool_def by (rule pool_event [OF pool_start, of CallUpdateAsync]) simp_all

lemma example_enabled: "enabled_event (ListReady now (example_list near far) 0) example_pool"
  by (simp add: example_pool_def UpdateAsync_def new_endpoint_pool_def example_list_def known_piles_def result_size_def
      plain_info_def)

lemmas example_simps = example_list_def plain_info_def IsPreferredEndpoint_def policy_UsePreferableLocation_def
  endpoint_records_def pile_index_def

lemma example_records:
  "records_of_result (policy_UsePreferableLocation None) (Result (example_list near far)) = Some records \<Longrightarrow>
   distinct (map Endpoint records)"
  by (simp add: records_of_result_concat known_piles_def example_simps) auto

section \<open>Properties\<close>



text \<open>
  C10. After a successful discovery with load factors from 0 to 99.9, an endpoint without preference is an endpoint that
  the balancing policy prefers, if there is one; the local endpoints are of preferred nodes, the foreign ones of the
  others, and together they are all the records.
\<close>

theorem discovery_local_first:
  assumes "sorter Priority srt" "pool_reachable srt policy s" "enabled_event (ListReady now result d) s"
    and "StatusCode (ListStatus result) = SUCCESS" "regular_loads (Result result)"
    and "records_of_result policy (Result result) = Some records" "distinct (map Endpoint records)"
    and "\<exists>e \<in> set (EndpointInfos (Result result)). preferred_info policy (Result result) e"
    and "\<forall>n > 0. RandomNumber n < n"
  shows "\<exists>s' r local foreign. handle_list srt now result d s = Some s' \<and>
    PoolGetEndpoint RandomNumber \<lparr>KeyEndpoint = [], KeyNodeId = 0\<rparr> False s' = Some r \<and>
    (\<exists>e \<in> set (EndpointInfos (Result result)). preferred_info policy (Result result) e \<and>
       r \<in> set (endpoint_records (info_priority policy (Result result) e) e)) \<and>
    ForEachLocalEndpoint tag s' = Some local \<and> ForEachForeignEndpoint tag s' = Some foreign \<and>
    fst ` set local \<subseteq> (\<lambda>e. ucast (InfoNodeId e)) ` {e \<in> set (EndpointInfos (Result result)). preferred_info policy (Result result) e} \<and>
    fst ` set foreign \<subseteq> (\<lambda>e. ucast (InfoNodeId e)) ` {e \<in> set (EndpointInfos (Result result)). \<not> preferred_info policy (Result result) e} \<and>
    mset (map fst local) + mset (map fst foreign) = mset (map NodeId (Records (Elector s')))"
proof -
  define infos where "infos = EndpointInfos (Result result)"
  have inv: "pool_inv srt s" and pol: "BalancingPolicy s = policy"
    using pool_reachable_inv [OF assms(1,2)] pool_reachable_policy [OF assms(2)] by simp_all
  obtain s' where s': "handle_list srt now result d s = Some s'" "elector_inv (Elector s')" "set (Records (Elector s')) = set records"
    using handle_list_records [OF assms(1) inv assms(3,4) _ assms(7)] pol assms(6) by metis
  have recs: "r \<in> set (Records (Elector s')) \<longleftrightarrow>
      (\<exists>e \<in> set infos. r \<in> set (endpoint_records (info_priority policy (Result result) e) e))" for r
    using records_of_result_concat [of "Result result" policy] assms(3,6) s'(3) by (auto simp: infos_def)
  note info = info_records [OF assms(5), folded infos_def]
  obtain e where e: "e \<in> set infos" "preferred_info policy (Result result) e"
    using assms(8) by (auto simp: infos_def)
  obtain r0 where r0: "r0 \<in> set (endpoint_records (info_priority policy (Result result) e) e)"
    using endpoint_records_not_empty list.set_sel(1) by blast
  then have r0': "r0 \<in> set (Records (Elector s'))" "Priority r0 < 1000"
    using e recs info(3) [OF e(1) r0] by auto
  then obtain r where r: "r \<in> set (Records (Elector s'))" "Priority r \<le> Priority r0"
    "PoolGetEndpoint RandomNumber \<lparr>KeyEndpoint = [], KeyNodeId = 0\<rparr> False s' = Some r"
    using GetEndpoint_head [OF s'(2) _ assms(9)] by (metis PoolGetEndpoint_def empty_iff empty_set)
  have "\<exists>e \<in> set infos. preferred_info policy (Result result) e \<and> r \<in> set (endpoint_records (info_priority policy (Result result) e) e)"
    using r(1,2) r0'(2) recs info(3) by (meson order_le_less_trans)
  moreover have bounds: "0 \<le> Priority r \<and> Priority r < 2000" if "r \<in> set (Records (Elector s'))" for r
    using that recs info(1,2) by blast
  obtain local foreign where lf: "ForEachLocalEndpoint tag s' = Some local" "ForEachForeignEndpoint tag s' = Some foreign"
    "map fst local = map NodeId (filter (\<lambda>r. Priority r < 1000) (Records (Elector s')))"
    "map fst foreign = map NodeId (filter (\<lambda>r. \<not> Priority r < 1000) (Records (Elector s')))"
    by (rule local_and_foreign [OF s'(2) bounds])
  moreover have "fst ` set local \<subseteq> (\<lambda>e. ucast (InfoNodeId e)) ` {e \<in> set infos. preferred_info policy (Result result) e}"
    "fst ` set foreign \<subseteq> (\<lambda>e. ucast (InfoNodeId e)) ` {e \<in> set infos. \<not> preferred_info policy (Result result) e}"
    using lf(3,4) [THEN arg_cong [where f = set]] by (auto simp: recs info(3,4))
  moreover have "mset (map fst local) + mset (map fst foreign) = mset (map NodeId (Records (Elector s')))"
    unfolding lf(3,4) by (simp only: mset_map mset_filter flip: image_mset_union) (simp flip: multiset_partition)
  ultimately show ?thesis
    using s'(1) r(3) by (simp add: infos_def del: mset_map)
qed

theorem discovery_local_first_witness:
  "\<exists>s' r local foreign. handle_list (sort_key Priority) 5 (example_list 50 0) 0 example_pool = Some s' \<and>
    PoolGetEndpoint (\<lambda>_. 0) \<lparr>KeyEndpoint = [], KeyNodeId = 0\<rparr> False s' = Some r \<and> NodeId r = 1 \<and>
    ForEachLocalEndpoint 0 s' = Some local \<and> ForEachForeignEndpoint 0 s' = Some foreign \<and>
    fst ` set local \<subseteq> {1} \<and> fst ` set foreign \<subseteq> {2}"
proof -
  obtain records where r: "records_of_result (policy_UsePreferableLocation None) (Result (example_list 50 0)) = Some records"
    using records_of_result_concat by (auto simp: known_piles_def example_list_def)
  have "regular_loads (Result (example_list 50 0))"
    by (simp add: regular_loads_def example_list_def plain_info_def)
  moreover have "\<exists>e \<in> set (EndpointInfos (Result (example_list 50 0))).
      preferred_info (policy_UsePreferableLocation None) (Result (example_list 50 0)) e"
    by (simp add: example_simps)
  ultimately obtain s' r local foreign where
    "handle_list (sort_key Priority) 5 (example_list 50 0) 0 example_pool = Some s'"
    "PoolGetEndpoint (\<lambda>_. 0) \<lparr>KeyEndpoint = [], KeyNodeId = 0\<rparr> False s' = Some r"
    "\<exists>e \<in> set (EndpointInfos (Result (example_list 50 0))).
       preferred_info (policy_UsePreferableLocation None) (Result (example_list 50 0)) e \<and>
       r \<in> set (endpoint_records (info_priority (policy_UsePreferableLocation None) (Result (example_list 50 0)) e) e)"
    "ForEachLocalEndpoint 0 s' = Some local" "ForEachForeignEndpoint 0 s' = Some foreign"
    "fst ` set local \<subseteq> (\<lambda>e. ucast (InfoNodeId e)) ` {e \<in> set (EndpointInfos (Result (example_list 50 0))).
       preferred_info (policy_UsePreferableLocation None) (Result (example_list 50 0)) e}"
    "fst ` set foreign \<subseteq> (\<lambda>e. ucast (InfoNodeId e)) ` {e \<in> set (EndpointInfos (Result (example_list 50 0))).
       \<not> preferred_info (policy_UsePreferableLocation None) (Result (example_list 50 0)) e}"
    using discovery_local_first [OF by_priority.sorter_axioms example_pool_reachable example_enabled _ _ r example_records [OF r],
        of "\<lambda>_. 0" 5 0] by (auto simp: example_list_def)
  then show ?thesis by (auto simp: example_simps)
qed

text \<open>
  With negative load factors the shift does not separate local and foreign endpoints: the near endpoint of priority -10
  is in neither iteration, and the far one of priority 500 counts as local.
\<close>

lemma load_priority_example: "load_priority (Finite (-1)) = Some (-10)" "load_priority (Finite (-50)) = Some (-500)"
  using binary32.rnd_of_int [of "-10"] trunc_of_int [of "-10"] binary32.rnd_of_int [of "-500"] trunc_of_int [of "-500"]
  by (simp_all add: load_priority_def float_min_def float_max_def LoadMin_def LoadMax_def Multiplicator_def)

lemma negative_load_misplaced:
  "\<exists>s'. handle_list (sort_key Priority) 5 (example_list (-1) (-50)) 0 example_pool = Some s' \<and>
    map NodeId (Records (Elector s')) = [1, 2] \<and>
    PoolForEachEndpoint 0 s' = Some [(2, 0)] \<and> ForEachLocalEndpoint 0 s' = Some [(2, 0)] \<and>
    ForEachForeignEndpoint 0 s' = Some []"
  by (simp add: handle_list_def records_of_result_def example_simps load_priority_example example_pool_def UpdateAsync_def
      new_endpoint_pool_def SetNewState_def init_elector_def set_node_record_def PoolForEachEndpoint_def
      ForEachLocalEndpoint_def ForEachForeignEndpoint_def ForEachEndpoint_def Let_def)

end
