(* ===== verification/DriverState.thy ===== *)
theory DriverState
  imports EndpointPool Quote
begin

text \<open>
  The driver state of a database, \<^verbatim>\<open>impl/internal/db_driver_state/state.{h,cpp}\<close>: the tracker that shares one
  state between all the clients of a key, with its locks and weak pointers, and the periodic discovery task.

  A call of \<^verbatim>\<open>GetDriverState\<close> runs on its own thread and is split where it takes or releases the lock. The number of
  strong pointers to a state is the number of calls and users that hold one; the last one to let go runs the
  deleter. \<open>None\<close> is a failed check or the use of a reference to an erased entry.
\<close>

section \<open>The tracker\<close>

datatype EDiscoveryMode = Sync | Async | Off

record TSslCredentials =
  IsEnabled :: bool
  CaCert :: string
  Cert :: string
  PrivateKey :: string

record TStateKey =
  KeyDatabase :: string
  KeyDiscoveryEndpoint :: string
  KeyClientIdentity :: string
  KeyDiscoveryMode :: EDiscoveryMode
  KeySslCredentials :: TSslCredentials

definition state_key :: "string \<Rightarrow> string \<Rightarrow> string \<Rightarrow> EDiscoveryMode \<Rightarrow> TSslCredentials \<Rightarrow> TStateKey" where
  "state_key database discoveryEndpoint clientIdentity discoveryMode sslCredentials =
     \<lparr>KeyDatabase = Quote database ''/'', KeyDiscoveryEndpoint = discoveryEndpoint,
      KeyClientIdentity = clientIdentity, KeyDiscoveryMode = discoveryMode, KeySslCredentials = sslCredentials\<rparr>"

text \<open>
  Where a call is: before the shared lock, before the exclusive lock, building a state for the entry with the given
  address, with the state built, before the lock that publishes it, in the handler of an exception, leaving with an
  exception, holding the result, and in the deleter.
\<close>

datatype driver_call =
    Entered TStateKey
  | Missed TStateKey
  | Building TStateKey nat
  | Initializing TStateKey nat nat
  | Publishing TStateKey nat nat
  | Failed TStateKey nat "nat option"
  | Unwinding "nat option"
  | Holding nat
  | Deleting TStateKey nat

text \<open>An entry is its address and its weak pointer; \<open>StateKeys\<close> is the key the deleter of a state has captured.\<close>

record TDbDriverStateTracker =
  States :: "(TStateKey, nat \<times> nat option) amap"
  StateKeys :: "(nat, TStateKey) amap"
  Calls :: "(nat, driver_call) amap"
  Fresh :: nat

definition new_tracker :: TDbDriverStateTracker where
  "new_tracker = \<lparr>States = [], StateKeys = [], Calls = [], Fresh = 0\<rparr>"

fun held :: "driver_call \<Rightarrow> nat option" where
  "held (Initializing _ _ p) = Some p"
| "held (Publishing _ _ p) = Some p"
| "held (Failed _ _ p) = p"
| "held (Unwinding p) = p"
| "held (Holding p) = Some p"
| "held _ = None"

definition use_count :: "nat \<Rightarrow> TDbDriverStateTracker \<Rightarrow> nat" where
  "use_count p s = length (filter (\<lambda>(t, c). held c = Some p) (Calls s))"

definition lock_weak :: "nat option \<Rightarrow> TDbDriverStateTracker \<Rightarrow> nat option" where
  "lock_weak weak s = (case weak of Some p \<Rightarrow> if use_count p s \<noteq> 0 then Some p else None | None \<Rightarrow> None)"

abbreviation goto :: "nat \<Rightarrow> driver_call \<Rightarrow> TDbDriverStateTracker \<Rightarrow> TDbDriverStateTracker" where
  "goto t c s \<equiv> s\<lparr>Calls := AList.update t c (Calls s)\<rparr>"

definition finish :: "nat \<Rightarrow> TDbDriverStateTracker \<Rightarrow> TDbDriverStateTracker" where
  "finish t s = s\<lparr>Calls := AList.delete t (Calls s)\<rparr>"

definition find_shared :: "nat \<Rightarrow> TStateKey \<Rightarrow> TDbDriverStateTracker \<Rightarrow> TDbDriverStateTracker" where
  "find_shared t key s =
     (case lookup (States s) key of
        Some (_, weak) \<Rightarrow> (case lock_weak weak s of Some p \<Rightarrow> goto t (Holding p) s | None \<Rightarrow> goto t (Missed key) s)
      | None \<Rightarrow> goto t (Missed key) s)"

text \<open>The condition of the wait: there is no entry, or its state is alive.\<close>

definition wait_over :: "TStateKey \<Rightarrow> TDbDriverStateTracker \<Rightarrow> bool" where
  "wait_over key s =
     (case lookup (States s) key of
        None \<Rightarrow> True
      | Some (_, weak) \<Rightarrow> lock_weak weak s \<noteq> None)"

definition emplace :: "nat \<Rightarrow> TStateKey \<Rightarrow> TDbDriverStateTracker \<Rightarrow> TDbDriverStateTracker option" where
  "emplace t key s =
     (case lookup (States s) key of
        None \<Rightarrow> Some (goto t (Building key (Fresh s))
                   (s\<lparr>States := AList.update key (Fresh s, None) (States s), Fresh := Fresh s + 1\<rparr>))
      | Some (_, weak) \<Rightarrow> map_option (\<lambda>p. goto t (Holding p) s) (lock_weak weak s))"

definition construct :: "nat \<Rightarrow> TStateKey \<Rightarrow> nat \<Rightarrow> bool \<Rightarrow> TDbDriverStateTracker \<Rightarrow> TDbDriverStateTracker" where
  "construct t key node ok s =
     (if ok then goto t (Initializing key node (Fresh s))
        (s\<lparr>StateKeys := AList.update (Fresh s) key (StateKeys s), Fresh := Fresh s + 1\<rparr>)
      else goto t (Failed key node None) s)"

definition initialize :: "nat \<Rightarrow> TStateKey \<Rightarrow> nat \<Rightarrow> nat \<Rightarrow> bool \<Rightarrow> TDbDriverStateTracker \<Rightarrow> TDbDriverStateTracker" where
  "initialize t key node p ok s =
     (if ok then goto t (Publishing key node p) s else goto t (Failed key node (Some p)) s)"

text \<open>The entry a call has inserted, if the reference to it is still valid and its pointer is expired.\<close>

definition expired_entry :: "TStateKey \<Rightarrow> nat \<Rightarrow> TDbDriverStateTracker \<Rightarrow> bool" where
  "expired_entry key node s =
     (case lookup (States s) key of
        Some (n, weak) \<Rightarrow> n = node \<and> lock_weak weak s = None
      | None \<Rightarrow> False)"

definition publish :: "nat \<Rightarrow> TStateKey \<Rightarrow> nat \<Rightarrow> nat \<Rightarrow> TDbDriverStateTracker \<Rightarrow> TDbDriverStateTracker option" where
  "publish t key node p s =
     (if expired_entry key node s
      then Some (goto t (Holding p) (s\<lparr>States := AList.update key (node, Some p) (States s)\<rparr>))
      else None)"

definition catch_exception :: "nat \<Rightarrow> TStateKey \<Rightarrow> nat \<Rightarrow> nat option \<Rightarrow> TDbDriverStateTracker \<Rightarrow> TDbDriverStateTracker option" where
  "catch_exception t key node p s =
     (if expired_entry key node s
      then Some (goto t (Unwinding p) (s\<lparr>States := AList.delete key (States s)\<rparr>))
      else None)"

definition release :: "nat \<Rightarrow> nat \<Rightarrow> TDbDriverStateTracker \<Rightarrow> TDbDriverStateTracker option" where
  "release t p s =
     (let s = finish t s in
      if use_count p s \<noteq> 0 then Some s
      else do {
        key \<leftarrow> lookup (StateKeys s) p;
        Some (goto t (Deleting key p) s)
      })"

definition run_deleter :: "nat \<Rightarrow> TStateKey \<Rightarrow> nat \<Rightarrow> TDbDriverStateTracker \<Rightarrow> TDbDriverStateTracker" where
  "run_deleter t key p s =
     finish t (s\<lparr>States := AList.delete key (States s), StateKeys := AList.delete p (StateKeys s)\<rparr>)"

text \<open>One step of a call; the flag is the outcome of the code that may throw.\<close>

fun call_step :: "nat \<Rightarrow> bool \<Rightarrow> driver_call \<Rightarrow> TDbDriverStateTracker \<Rightarrow> TDbDriverStateTracker option" where
  "call_step t ok (Entered key) s = Some (find_shared t key s)"
| "call_step t ok (Missed key) s = (if wait_over key s then emplace t key s else Some s)"
| "call_step t ok (Building key node) s = Some (construct t key node ok s)"
| "call_step t ok (Initializing key node p) s = Some (initialize t key node p ok s)"
| "call_step t ok (Publishing key node p) s = publish t key node p s"
| "call_step t ok (Failed key node p) s = catch_exception t key node p s"
| "call_step t ok (Unwinding None) s = Some (finish t s)"
| "call_step t ok (Unwinding (Some p)) s = release t p s"
| "call_step t ok (Holding p) s = release t p s"
| "call_step t ok (Deleting key p) s = Some (run_deleter t key p s)"

datatype tracker_event =
    GetDriverState nat TStateKey
  | Advance nat bool
  | CopyPointer nat nat

text \<open>A new call or copy has a thread of its own; a pointer is copied by one who holds it and is not leaving.\<close>

fun tracker_enabled :: "bool \<Rightarrow> tracker_event \<Rightarrow> TDbDriverStateTracker \<Rightarrow> bool" where
  "tracker_enabled init_throws (GetDriverState t key) s \<longleftrightarrow> lookup (Calls s) t = None"
| "tracker_enabled init_throws (Advance t ok) s \<longleftrightarrow>
     (case lookup (Calls s) t of
        Some (Initializing _ _ _) \<Rightarrow> ok \<or> init_throws
      | Some _ \<Rightarrow> True
      | None \<Rightarrow> False)"
| "tracker_enabled init_throws (CopyPointer t t') s \<longleftrightarrow> lookup (Calls s) t' = None \<and>
     (case lookup (Calls s) t of
        Some (Initializing _ _ _) \<Rightarrow> True
      | Some (Publishing _ _ _) \<Rightarrow> True
      | Some (Holding _) \<Rightarrow> True
      | _ \<Rightarrow> False)"

fun tracker_handle :: "tracker_event \<Rightarrow> TDbDriverStateTracker \<Rightarrow> TDbDriverStateTracker option" where
  "tracker_handle (GetDriverState t key) s = Some (goto t (Entered key) s)"
| "tracker_handle (Advance t ok) s =
     (case lookup (Calls s) t of Some c \<Rightarrow> call_step t ok c s | None \<Rightarrow> Some s)"
| "tracker_handle (CopyPointer t t') s =
     (case lookup (Calls s) t of
        Some c \<Rightarrow> (case held c of Some p \<Rightarrow> Some (goto t' (Holding p) s) | None \<Rightarrow> Some s)
      | None \<Rightarrow> Some s)"

inductive tracker_reachable :: "bool \<Rightarrow> TDbDriverStateTracker \<Rightarrow> bool" for init_throws where
  tracker_start: "tracker_reachable init_throws new_tracker"
| tracker_event: "tracker_reachable init_throws s \<Longrightarrow> tracker_enabled init_throws ev s \<Longrightarrow>
    tracker_handle ev s = Some s' \<Longrightarrow> tracker_reachable init_throws s'"

fun tracker_run :: "bool \<Rightarrow> tracker_event list \<Rightarrow> TDbDriverStateTracker \<Rightarrow> TDbDriverStateTracker option" where
  "tracker_run init_throws [] s = Some s"
| "tracker_run init_throws (ev # evs) s =
     (if tracker_enabled init_throws ev s
      then do { s \<leftarrow> tracker_handle ev s; tracker_run init_throws evs s }
      else None)"

section \<open>Discovery\<close>

text \<open>
  The part of a driver state the discovery works on. \<open>Subscribed\<close> holds the futures with the callback of the periodic task and
  \<open>Signalling\<close> those with the callback of \<^verbatim>\<open>GetDriverState\<close>; \<open>DeletedChannels\<close> are the channels the client was told to delete.
\<close>

record TDbDriverState =
  DiscoveryMode :: EDiscoveryMode
  EndpointPool :: TEndpointPool
  LastDiscoveryStatus :: "TPlainStatus option"
  DiscoveryCompleted :: bool
  DiscoveryDuePessimization :: nat
  DiscoveryDueExpiration :: nat
  Subscribed :: "nat list"
  Signalling :: "nat list"
  DeletedChannels :: "string list"

definition new_driver_state :: "EDiscoveryMode \<Rightarrow> TBalancingPolicy \<Rightarrow> TDbDriverState" where
  "new_driver_state discoveryMode policy =
     \<lparr>DiscoveryMode = discoveryMode, EndpointPool = new_endpoint_pool policy, LastDiscoveryStatus = None,
      DiscoveryCompleted = False, DiscoveryDuePessimization = 0, DiscoveryDueExpiration = 0,
      Subscribed = [], Signalling = [], DeletedChannels = []\<rparr>"

definition PESSIMIZATION_DISCOVERY_THRESHOLD :: int where "PESSIMIZATION_DISCOVERY_THRESHOLD = 50"

text \<open>In microseconds.\<close>

definition ENDPOINT_UPDATE_PERIOD :: "64 word" where "ENDPOINT_UPDATE_PERIOD = 60000000"

text \<open>The body of the periodic task; the flag tells that the task goes on. A state that is gone is \<open>None\<close>.\<close>

definition periodic_discovery :: "EStatus \<Rightarrow> 64 word \<Rightarrow> TDbDriverState option \<Rightarrow> bool \<times> TDbDriverState option" where
  "periodic_discovery status now strong =
     (if status \<noteq> SUCCESS then (False, strong)
      else (case strong of
          None \<Rightarrow> (False, None)
        | Some s \<Rightarrow>
            (let pessThreshold = PoolGetPessimizationRatio (EndpointPool s) > PESSIMIZATION_DISCOVERY_THRESHOLD;
                 expiration = TimeSinceLastUpdate now (EndpointPool s) > ENDPOINT_UPDATE_PERIOD;
                 s = (if pessThreshold then s\<lparr>DiscoveryDuePessimization := DiscoveryDuePessimization s + 1\<rparr> else s);
                 s = (if expiration then s\<lparr>DiscoveryDueExpiration := DiscoveryDueExpiration s + 1\<rparr> else s)
             in if pessThreshold \<or> expiration then
                  (let ((future, first), pool) = UpdateAsync (EndpointPool s); s = s\<lparr>EndpointPool := pool\<rparr>
                   in (True, Some (if first then s\<lparr>Subscribed := Subscribed s @ [future]\<rparr> else s)))
                else (True, Some s))))"

text \<open>The callback of the periodic task, when its future has a value.\<close>

definition update_callback :: "TEndpointUpdateResult \<Rightarrow> TDbDriverState \<Rightarrow> TDbDriverState" where
  "update_callback updateResult s =
     (let s = s\<lparr>DeletedChannels := DeletedChannels s @ Removed updateResult\<rparr> in
      if DiscoveryMode s = Sync then s\<lparr>LastDiscoveryStatus := Some (UpdateStatus updateResult)\<rparr> else s)"

definition SignalDiscoveryCompleted :: "TDbDriverState \<Rightarrow> TDbDriverState" where
  "SignalDiscoveryCompleted s = s\<lparr>DiscoveryCompleted := True\<rparr>"

text \<open>The end of \<^verbatim>\<open>GetDriverState\<close> for a state it has published: the future it waits for in the mode \<open>Sync\<close>, and the rest of it.\<close>

definition start_discovery :: "TDbDriverState \<Rightarrow> (nat \<times> bool) option \<times> TDbDriverState" where
  "start_discovery s =
     (if DiscoveryMode s \<noteq> Off then
        (let ((future, first), pool) = UpdateAsync (EndpointPool s);
             s = s\<lparr>EndpointPool := pool\<rparr>;
             s = (if first then s\<lparr>Signalling := Signalling s @ [future]\<rparr> else s)
         in (if DiscoveryMode s = Sync then Some (future, first) else None, s))
      else (None, s))"

definition sync_result :: "bool \<Rightarrow> TEndpointUpdateResult \<Rightarrow> TDbDriverState \<Rightarrow> TDbDriverState" where
  "sync_result first updateResult s =
     (if first then s\<lparr>LastDiscoveryStatus := Some (UpdateStatus updateResult)\<rparr> else s)"

section \<open>The calls of a key\<close>

fun call_key :: "(nat, TStateKey) amap \<Rightarrow> driver_call \<Rightarrow> TStateKey option" where
  "call_key keys (Building key _) = Some key"
| "call_key keys (Initializing key _ _) = Some key"
| "call_key keys (Publishing key _ _) = Some key"
| "call_key keys (Failed key _ _) = Some key"
| "call_key keys (Deleting key _) = Some key"
| "call_key keys (Unwinding (Some p)) = lookup keys p"
| "call_key keys (Holding p) = lookup keys p"
| "call_key keys _ = None"

definition calls_in :: "(nat, driver_call) amap \<Rightarrow> (nat, TStateKey) amap \<Rightarrow> TStateKey \<Rightarrow> nat \<Rightarrow> driver_call option" where
  "calls_in calls keys key t =
     (case lookup calls t of
        Some c \<Rightarrow> (if call_key keys c = Some key then Some c else None)
      | None \<Rightarrow> None)"

abbreviation calls_of :: "TDbDriverStateTracker \<Rightarrow> TStateKey \<Rightarrow> nat \<Rightarrow> driver_call option" where
  "calls_of s \<equiv> calls_in (Calls s) (StateKeys s)"

fun builds :: "nat \<Rightarrow> driver_call \<Rightarrow> nat option \<Rightarrow> bool" where
  "builds node (Building _ n) p \<longleftrightarrow> n = node \<and> p = None"
| "builds node (Initializing _ n q) p \<longleftrightarrow> n = node \<and> p = Some q"
| "builds node (Publishing _ n q) p \<longleftrightarrow> n = node \<and> p = Some q"
| "builds node (Failed _ n q) p \<longleftrightarrow> n = node \<and> p = None \<and> q = None"
| "builds node _ p \<longleftrightarrow> False"

text \<open>
  The entry of a key and the calls of the key: without an entry there are none; an empty pointer has one call that
  builds the state, and the others hold that state; a published state is held by all of them, or is being deleted by the
  only one.
\<close>

fun slot_ok :: "TStateKey \<Rightarrow> (nat \<times> nat option) option \<Rightarrow> (nat \<Rightarrow> driver_call option) \<Rightarrow> bool" where
  "slot_ok key None calls \<longleftrightarrow> (\<forall>t. calls t = None)"
| "slot_ok key (Some (node, None)) calls \<longleftrightarrow>
     (\<exists>t c p. calls t = Some c \<and> builds node c p \<and>
        (\<forall>t' c'. t' \<noteq> t \<longrightarrow> calls t' = Some c' \<longrightarrow> (\<exists>q. p = Some q \<and> c' = Holding q)))"
| "slot_ok key (Some (node, Some p)) calls \<longleftrightarrow>
     (\<exists>t. calls t \<noteq> None) \<and>
     ((\<forall>t c. calls t = Some c \<longrightarrow> c = Holding p) \<or>
      (\<exists>t. calls t = Some (Deleting key p) \<and> (\<forall>t'. t' \<noteq> t \<longrightarrow> calls t' = None)))"

lemma slot_cases:
  assumes "slot_ok key e calls"
  obtains "e = None" "\<And>t. calls t = None"
  | node t c p where "e = Some (node, None)" "calls t = Some c" "builds node c p"
      "\<And>t' c'. t' \<noteq> t \<Longrightarrow> calls t' = Some c' \<Longrightarrow> \<exists>q. p = Some q \<and> c' = Holding q"
  | node p t where "e = Some (node, Some p)" "calls t = Some (Holding p)"
      "\<And>t' c'. calls t' = Some c' \<Longrightarrow> c' = Holding p"
  | node p t where "e = Some (node, Some p)" "calls t = Some (Deleting key p)" "\<And>t'. t' \<noteq> t \<Longrightarrow> calls t' = None"
proof (cases e)
  case None
  then show thesis using assms that(1) by simp
next
  case (Some e')
  obtain node weak where e: "e = Some (node, weak)" using Some by (cases e') simp
  show thesis
  proof (cases weak)
    case None
    then obtain t c p where "calls t = Some c" "builds node c p"
      "\<forall>t' c'. t' \<noteq> t \<longrightarrow> calls t' = Some c' \<longrightarrow> (\<exists>q. p = Some q \<and> c' = Holding q)"
      using assms e by auto
    with that(2) [of node t c p] e None show thesis by blast
  next
    case (Some p)
    then have "\<exists>t. calls t \<noteq> None" and *: "(\<forall>t c. calls t = Some c \<longrightarrow> c = Holding p) \<or>
        (\<exists>t. calls t = Some (Deleting key p) \<and> (\<forall>t'. t' \<noteq> t \<longrightarrow> calls t' = None))"
      using assms e by simp_all
    then obtain t c where t: "calls t = Some c" by blast
    from * show thesis
    proof (elim disjE exE conjE)
      assume "\<forall>t c. calls t = Some c \<longrightarrow> c = Holding p"
      with that(3) [of node p t] e Some t show thesis by blast
    next
      fix t' assume "calls t' = Some (Deleting key p)" "\<forall>t''. t'' \<noteq> t' \<longrightarrow> calls t'' = None"
      with that(4) [of node p t'] e Some show thesis by blast
    qed
  qed
qed

lemma slot_building:
  assumes "calls t = Some c" "builds node c p"
    "\<And>t' c'. t' \<noteq> t \<Longrightarrow> calls t' = Some c' \<Longrightarrow> \<exists>q. p = Some q \<and> c' = Holding q"
  shows "slot_ok key (Some (node, None)) calls"
  using assms by simp blast

lemma slot_published:
  assumes "calls t = Some c" "\<And>t' c'. calls t' = Some c' \<Longrightarrow> c' = Holding p"
  shows "slot_ok key (Some (node, Some p)) calls"
  using assms by auto

fun pointer_ok :: "(nat, TStateKey) amap \<Rightarrow> driver_call \<Rightarrow> bool" where
  "pointer_ok keys (Initializing key _ p) \<longleftrightarrow> lookup keys p = Some key"
| "pointer_ok keys (Publishing key _ p) \<longleftrightarrow> lookup keys p = Some key"
| "pointer_ok keys (Failed key _ p) \<longleftrightarrow> p = None"
| "pointer_ok keys (Unwinding p) \<longleftrightarrow> p = None"
| "pointer_ok keys (Holding p) \<longleftrightarrow> lookup keys p \<noteq> None"
| "pointer_ok keys (Deleting key p) \<longleftrightarrow> lookup keys p = Some key"
| "pointer_ok keys _ \<longleftrightarrow> True"

definition tracker_inv :: "TDbDriverStateTracker \<Rightarrow> bool" where
  "tracker_inv s \<longleftrightarrow> wf_amap (Calls s) \<and> (\<forall>t c. lookup (Calls s) t = Some c \<longrightarrow> pointer_ok (StateKeys s) c) \<and>
     (\<forall>p. lookup (StateKeys s) p \<noteq> None \<longrightarrow> p < Fresh s) \<and>
     (\<forall>key. slot_ok key (lookup (States s) key) (calls_of s key))"

lemma held_key: "pointer_ok keys c \<Longrightarrow> held c = Some p \<Longrightarrow> \<exists>key. lookup keys p = Some key \<and> call_key keys c = Some key"
  by (cases c) auto

lemma use_count_zero:
  assumes "wf_amap (Calls s)"
  shows "use_count p s = 0 \<longleftrightarrow> (\<forall>t c. lookup (Calls s) t = Some c \<longrightarrow> held c \<noteq> Some p)"
  using assms by (auto simp: use_count_def filter_empty_conv wf_amap_def)

text \<open>A step of the call \<open>t\<close> on the key \<open>k\<close> keeps the calls of the other keys.\<close>

lemma tracker_inv_step:
  assumes inv: "tracker_inv s" and wf: "wf_amap (Calls s')"
    and calls: "\<And>t'. t' \<noteq> t \<Longrightarrow> lookup (Calls s') t' = lookup (Calls s) t'"
    and states: "\<And>key. key \<noteq> k \<Longrightarrow> lookup (States s') key = lookup (States s) key"
    and old: "\<And>c. lookup (Calls s) t = Some c \<Longrightarrow> call_key (StateKeys s) c \<in> {None, Some k}"
    and new: "\<And>c. lookup (Calls s') t = Some c \<Longrightarrow> pointer_ok (StateKeys s') c \<and> call_key (StateKeys s') c \<in> {None, Some k}"
    and keys: "\<And>t' c. t' \<noteq> t \<Longrightarrow> lookup (Calls s) t' = Some c \<Longrightarrow>
       pointer_ok (StateKeys s') c \<and> call_key (StateKeys s') c = call_key (StateKeys s) c"
    and fresh: "\<And>p. lookup (StateKeys s') p \<noteq> None \<Longrightarrow> p < Fresh s'"
    and slot: "slot_ok k (lookup (States s') k) (calls_of s' k)"
  shows "tracker_inv s'"
proof -
  have "pointer_ok (StateKeys s') c" if "lookup (Calls s') t' = Some c" for t' c
    using that new keys calls by (cases "t' = t") auto
  moreover have "slot_ok key (lookup (States s') key) (calls_of s' key)" for key
  proof (cases "key = k")
    case False
    have "calls_of s' key = calls_of s key"
    proof
      fix t'
      show "calls_of s' key t' = calls_of s key t'"
        using False old new keys calls by (cases "t' = t") (auto simp: calls_in_def split: option.split)
    qed
    then show ?thesis using inv states [OF False] by (simp add: tracker_inv_def)
  qed (use slot in simp)
  ultimately show ?thesis using wf fresh by (simp add: tracker_inv_def)
qed

lemma calls_in_update [simp]:
  "calls_in (AList.update t c calls) keys key =
     (calls_in calls keys key)(t := if call_key keys c = Some key then Some c else None)"
  by (rule ext) (simp add: calls_in_def)

lemma calls_in_delete [simp]: "calls_in (AList.delete t calls) keys key = (calls_in calls keys key)(t := None)"
  by (rule ext) (simp add: calls_in_def)

lemma finish_simps [simp]:
  "Calls (finish t s) = AList.delete t (Calls s)" "States (finish t s) = States s"
  "StateKeys (finish t s) = StateKeys s" "Fresh (finish t s) = Fresh s"
  by (simp_all add: finish_def)

lemma tracker_inv_keep:
  assumes "tracker_inv s" "wf_amap (Calls s')" "StateKeys s' = StateKeys s" "Fresh s \<le> Fresh s'"
    and "\<And>t'. t' \<noteq> t \<Longrightarrow> lookup (Calls s') t' = lookup (Calls s) t'"
    and "\<And>key. key \<noteq> k \<Longrightarrow> lookup (States s') key = lookup (States s) key"
    and "\<And>c. lookup (Calls s) t = Some c \<Longrightarrow> call_key (StateKeys s) c \<in> {None, Some k}"
    and "\<And>c. lookup (Calls s') t = Some c \<Longrightarrow> pointer_ok (StateKeys s) c \<and> call_key (StateKeys s) c \<in> {None, Some k}"
    and "slot_ok k (lookup (States s') k) (calls_of s' k)"
  shows "tracker_inv s'"
proof (rule tracker_inv_step [of s s' t k])
  show "p < Fresh s'" if "lookup (StateKeys s') p \<noteq> None" for p
    using assms(1,3,4) that by (auto simp: tracker_inv_def intro: less_le_trans)
qed (use assms in \<open>auto simp: tracker_inv_def\<close>)

lemma tracker_invD:
  assumes "tracker_inv s"
  shows "wf_amap (Calls s)" "lookup (Calls s) t = Some c \<Longrightarrow> pointer_ok (StateKeys s) c"
    "lookup (StateKeys s) p = Some k' \<Longrightarrow> p < Fresh s" "slot_ok key (lookup (States s) key) (calls_of s key)"
  using assms by (auto simp: tracker_inv_def)

lemma calls_of_Some:
  "lookup (Calls s) t = Some c \<Longrightarrow> call_key (StateKeys s) c = Some key \<Longrightarrow> calls_of s key t = Some c"
  by (simp add: calls_in_def)

lemma calls_of_D:
  "calls_of s key t = Some c \<Longrightarrow> lookup (Calls s) t = Some c \<and> call_key (StateKeys s) c = Some key"
  by (auto simp: calls_in_def split: option.splits if_splits)

text \<open>The locked pointer is held by the calls of the key.\<close>

lemma lock_weak_Some:
  assumes "tracker_inv s" "lookup (States s) key = Some (node, weak)" "lock_weak weak s = Some p"
  shows "weak = Some p" "lookup (StateKeys s) p = Some key" "\<And>t c. calls_of s key t = Some c \<Longrightarrow> c = Holding p"
proof -
  show w: "weak = Some p"
    using assms(3) by (auto simp: lock_weak_def split: option.splits if_splits)
  have "use_count p s \<noteq> 0" using assms(3) w by (auto simp: lock_weak_def split: if_splits)
  then obtain t c where tc: "lookup (Calls s) t = Some c" "held c = Some p"
    using use_count_zero [OF tracker_invD(1) [OF assms(1)]] by auto
  obtain key' where key': "lookup (StateKeys s) p = Some key'" "call_key (StateKeys s) c = Some key'"
    using held_key [OF tracker_invD(2) [OF assms(1) tc(1)] tc(2)] by blast
  have slot: "slot_ok key (Some (node, Some p)) (calls_of s key)"
    using tracker_invD(4) [OF assms(1), of key] assms(2) w by simp
  show k: "lookup (StateKeys s) p = Some key"
    using slot tracker_invD(2) [OF assms(1)] by (fastforce simp: calls_in_def split: option.splits if_splits)
  then have "calls_of s key t = Some c"
    using key' calls_of_Some [OF tc(1)] by simp
  then show "\<And>t c. calls_of s key t = Some c \<Longrightarrow> c = Holding p"
    using slot tc(2) by auto (metis held.simps option.distinct(1) option.inject)
qed

section \<open>Every step keeps the invariant\<close>

lemma find_shared_inv:
  assumes "tracker_inv s" "lookup (Calls s) t = Some (Entered key)"
  shows "tracker_inv (find_shared t key s)"
proof -
  have free: "calls_of s k t = None" for k using assms(2) by (simp add: calls_in_def)
  have missed: "tracker_inv (goto t (Missed key) s)"
    using assms tracker_invD(1,4) [OF assms(1)] free
    by (intro tracker_inv_keep [OF assms(1), of _ t key]) (auto simp: fun_upd_idem)
  show ?thesis
  proof (cases "lookup (States s) key")
    case (Some e)
    obtain node weak where e: "e = (node, weak)" by (cases e)
    show ?thesis
    proof (cases "lock_weak weak s")
      case (Some p)
      note l = lock_weak_Some [OF assms(1) \<open>lookup (States s) key = Some e\<close> [unfolded e] Some]
      have "tracker_inv (goto t (Holding p) s)"
        using assms tracker_invD(1) [OF assms(1)] l(1,2) \<open>lookup (States s) key = Some e\<close> e
        by (intro tracker_inv_keep [OF assms(1), of _ t key]) (auto dest: l(3))
      then show ?thesis using \<open>lookup (States s) key = Some e\<close> e Some by (simp add: find_shared_def)
    qed (use missed \<open>lookup (States s) key = Some e\<close> e in \<open>simp add: find_shared_def\<close>)
  qed (use missed in \<open>simp add: find_shared_def\<close>)
qed

lemma emplace_inv:
  assumes "tracker_inv s" "lookup (Calls s) t = Some (Missed key)" "wait_over key s"
  shows "\<exists>s'. emplace t key s = Some s' \<and> tracker_inv s'"
proof (cases "lookup (States s) key")
  case None
  then have none: "calls_of s key t' = None" for t'
    using tracker_invD(4) [OF assms(1), of key] by simp
  have "tracker_inv (goto t (Building key (Fresh s))
      (s\<lparr>States := AList.update key (Fresh s, None) (States s), Fresh := Fresh s + 1\<rparr>))"
    using assms tracker_invD(1) [OF assms(1)] none
    by (intro tracker_inv_keep [OF assms(1), of _ t key]) (auto intro: exI [of _ t])
  then show ?thesis using None by (simp add: emplace_def)
next
  case (Some e)
  obtain node weak where e: "e = (node, weak)" by (cases e)
  obtain p where p: "lock_weak weak s = Some p" using assms(3) Some e by (auto simp: wait_over_def)
  note l = lock_weak_Some [OF assms(1) Some [unfolded e] p]
  have "tracker_inv (goto t (Holding p) s)"
    using assms tracker_invD(1) [OF assms(1)] l(1,2) Some e
    by (intro tracker_inv_keep [OF assms(1), of _ t key]) (auto dest: l(3))
  then show ?thesis using Some e p by (simp add: emplace_def)
qed

lemma builds_unique: "builds n c p \<Longrightarrow> builds n' c p' \<Longrightarrow> n = n' \<and> p = p'"
  by (cases c) auto

lemma builder_slot:
  assumes "tracker_inv s" "lookup (Calls s) t = Some c" "call_key (StateKeys s) c = Some key" "builds node c p"
  shows "lookup (States s) key = Some (node, None)"
    "t' \<noteq> t \<Longrightarrow> calls_of s key t' = Some c' \<Longrightarrow> \<exists>q. p = Some q \<and> c' = Holding q"
proof -
  have c: "calls_of s key t = Some c" by (rule calls_of_Some [OF assms(2,3)])
  have slot: "slot_ok key (lookup (States s) key) (calls_of s key)" by (rule tracker_invD(4) [OF assms(1)])
  have not_user: "c \<noteq> Holding q" "c \<noteq> Deleting k' q" for q k' using assms(4) by auto
  obtain n t0 c0 p0 where e: "lookup (States s) key = Some (n, None)" and t0: "calls_of s key t0 = Some c0" "builds n c0 p0"
    "\<And>t' c'. t' \<noteq> t0 \<Longrightarrow> calls_of s key t' = Some c' \<Longrightarrow> \<exists>q. p0 = Some q \<and> c' = Holding q"
    using slot
  proof (cases rule: slot_cases)
    case (4 node q t1)
    then show thesis using c not_user(2) [of key q] by (cases "t = t1") auto
  qed (use c not_user in auto)
  have "t = t0" using t0(3) [OF _ c] not_user by blast
  with t0 c builds_unique [OF assms(4)] have "n = node" "p0 = p" by auto
  with e t0(3) \<open>t = t0\<close> show "lookup (States s) key = Some (node, None)"
    "t' \<noteq> t \<Longrightarrow> calls_of s key t' = Some c' \<Longrightarrow> \<exists>q. p = Some q \<and> c' = Holding q"
    by auto
qed

lemma lone_builder:
  assumes "tracker_inv s" "lookup (Calls s) t = Some c" "call_key (StateKeys s) c = Some key" "builds node c None" "t' \<noteq> t"
  shows "calls_of s key t' = None"
  using builder_slot(2) [OF assms] by (cases "calls_of s key t'") auto

lemma fresh_key:
  assumes "pointer_ok keys c" "lookup keys q = None"
  shows "pointer_ok (AList.update q k keys) c" "call_key (AList.update q k keys) c = call_key keys c"
  using assms by (cases "(keys, c)" rule: pointer_ok.cases; auto)+

lemma construct_inv:
  assumes "tracker_inv s" "lookup (Calls s) t = Some (Building key node)"
  shows "tracker_inv (construct t key node ok s)"
proof -
  note b = builder_slot [OF assms, of key node None, simplified]
  note lone = lone_builder [OF assms, of key node, simplified]
  have wf: "wf_amap (Calls s)" by (rule tracker_invD(1) [OF assms(1)])
  have fresh: "lookup (StateKeys s) (Fresh s) = None"
    using tracker_invD(3) [OF assms(1)] by (metis less_irrefl not_None_eq)
  show ?thesis
  proof (cases ok)
    case False
    have "tracker_inv (goto t (Failed key node None) s)"
      using assms wf b(1) lone by (intro tracker_inv_keep [OF assms(1), of _ t key]) (auto intro!: exI [of _ t])
    then show ?thesis using False by (simp add: construct_def)
  next
    case True
    define s' where "s' = construct t key node True s"
    have s': "Calls s' = AList.update t (Initializing key node (Fresh s)) (Calls s)" "States s' = States s"
      "StateKeys s' = AList.update (Fresh s) key (StateKeys s)" "Fresh s' = Suc (Fresh s)"
      by (simp_all add: s'_def construct_def)
    have "tracker_inv s'"
    proof (rule tracker_inv_step [OF assms(1), of s' t key])
      show "pointer_ok (StateKeys s') c \<and> call_key (StateKeys s') c = call_key (StateKeys s) c"
        if "lookup (Calls s) t' = Some c" for t' c
        using fresh_key [OF tracker_invD(2) [OF assms(1) that] fresh] by (simp add: s')
      show "p < Fresh s'" if "lookup (StateKeys s') p \<noteq> None" for p
        using that tracker_invD(3) [OF assms(1)] by (fastforce simp: s' less_Suc_eq split: if_splits)
      have "calls_in (Calls s) (StateKeys s') key t' = calls_of s key t'" for t'
        using fresh_key(2) [OF tracker_invD(2) [OF assms(1)] fresh]
        by (auto simp: s' calls_in_def split: option.split)
      then show "slot_ok key (lookup (States s') key) (calls_of s' key)"
        using b(1) lone by (auto simp: s' intro!: exI [of _ t])
    qed (use wf assms in \<open>auto simp: s'\<close>)
    then show ?thesis using True by (simp add: s'_def)
  qed
qed

lemma initialize_inv:
  assumes "tracker_inv s" "lookup (Calls s) t = Some (Initializing key node p)"
  shows "tracker_inv (initialize t key node p True s)"
  using assms tracker_invD(1) [OF assms(1)] tracker_invD(2) [OF assms] builder_slot [OF assms, of key node "Some p", simplified]
  unfolding initialize_def by (intro tracker_inv_keep [OF assms(1), of _ t key]) (auto intro!: exI [of _ t])

lemma publish_inv:
  assumes "tracker_inv s" "lookup (Calls s) t = Some (Publishing key node p)"
  shows "\<exists>s'. publish t key node p s = Some s' \<and> tracker_inv s'"
proof -
  note b = builder_slot [OF assms, of key node "Some p", simplified]
  have "tracker_inv (goto t (Holding p) (s\<lparr>States := AList.update key (node, Some p) (States s)\<rparr>))"
    using assms tracker_invD(1) [OF assms(1)] tracker_invD(2) [OF assms] b
    by (intro tracker_inv_keep [OF assms(1), of _ t key]) auto
  then show ?thesis using b(1) by (simp add: publish_def expired_entry_def lock_weak_def)
qed

lemma catch_exception_inv:
  assumes "tracker_inv s" "lookup (Calls s) t = Some (Failed key node p)"
  shows "\<exists>s'. catch_exception t key node p s = Some s' \<and> tracker_inv s'"
proof -
  have p: "p = None" using tracker_invD(2) [OF assms] by simp
  note b = builder_slot(1) [OF assms, of key node None, simplified p, simplified]
    lone_builder [OF assms, of key node, simplified p, simplified]
  have "tracker_inv (goto t (Unwinding None) (s\<lparr>States := AList.delete key (States s)\<rparr>))"
    using assms tracker_invD(1) [OF assms(1)] b by (intro tracker_inv_keep [OF assms(1), of _ t key]) auto
  then show ?thesis using b(1) p by (simp add: catch_exception_def expired_entry_def lock_weak_def)
qed

lemma finish_unwinding_inv:
  assumes "tracker_inv s" "lookup (Calls s) t = Some (Unwinding None)"
  shows "tracker_inv (finish t s)"
  using assms tracker_invD(1,4) [OF assms(1)]
  by (intro tracker_inv_keep [OF assms(1), of _ t undefined]) (auto simp: calls_in_def fun_upd_idem)

text \<open>A pointer can be let go or copied.\<close>

lemma held_slot:
  assumes "tracker_inv s" "lookup (Calls s) t = Some c" "held c = Some p"
  obtains key node where "lookup (StateKeys s) p = Some key" "calls_of s key t = Some c"
    "lookup (States s) key = Some (node, Some p)" "c = Holding p" "\<And>t' c'. calls_of s key t' = Some c' \<Longrightarrow> c' = Holding p"
  | key node t0 c0 where "lookup (StateKeys s) p = Some key" "calls_of s key t = Some c"
    "lookup (States s) key = Some (node, None)" "calls_of s key t0 = Some c0" "builds node c0 (Some p)"
    "\<And>t' c'. t' \<noteq> t0 \<Longrightarrow> calls_of s key t' = Some c' \<Longrightarrow> c' = Holding p"
proof -
  obtain key where key: "lookup (StateKeys s) p = Some key" "call_key (StateKeys s) c = Some key"
    using held_key [OF tracker_invD(2) [OF assms(1,2)] assms(3)] by blast
  have c: "calls_of s key t = Some c" by (rule calls_of_Some [OF assms(2) key(2)])
  have slot: "slot_ok key (lookup (States s) key) (calls_of s key)" by (rule tracker_invD(4) [OF assms(1)])
  from slot show thesis
  proof (cases rule: slot_cases)
    case (2 node t0 c0 p0)
    have "p0 = Some p"
    proof (cases "t = t0")
      case True
      then have "c0 = c" using 2(2) c by simp
      then show ?thesis using 2(3) assms(3) tracker_invD(2) [OF assms(1,2)] by (cases c) auto
    qed (use 2(4) [OF _ c] assms(3) in auto)
    then have "c' = Holding p" if "t' \<noteq> t0" "calls_of s key t' = Some c'" for t' c'
      using 2(4) [OF that] by simp
    then show thesis using that(2) [OF key(1) c 2(1,2)] 2(3) \<open>p0 = Some p\<close> by blast
  next
    case (3 node q t0)
    then have "c = Holding q" using c by blast
    then have "q = p" using assms(3) by simp
    then show thesis using that(1) [OF key(1) c] 3 \<open>c = Holding q\<close> by blast
  next
    case (4 node q t0)
    then show thesis using c assms(3) by (cases "t = t0") auto
  qed (use c in simp)
qed

lemma release_inv:
  assumes "tracker_inv s" "lookup (Calls s) t = Some (Holding p)"
  shows "\<exists>s'. release t p s = Some s' \<and> tracker_inv s'"
proof -
  have wf: "wf_amap (Calls (finish t s))" using tracker_invD(1) [OF assms(1)] by simp
  have count: "use_count p (finish t s) = 0 \<longleftrightarrow> (\<forall>t' c. t' \<noteq> t \<longrightarrow> lookup (Calls s) t' = Some c \<longrightarrow> held c \<noteq> Some p)"
    using use_count_zero [OF wf] by auto
  have h: "held (Holding p) = Some p" by simp
  show ?thesis
  proof (cases rule: held_slot [OF assms h])
    case (1 key node)
    show ?thesis
    proof (cases "use_count p (finish t s) = 0")
      case True
      then have none: "calls_of s key t' = None" if "t' \<noteq> t" for t'
        using that 1(5) [of t'] count by (cases "calls_of s key t'") (auto simp: calls_in_def split: option.splits if_splits)
      then have "slot_ok key (Some (node, Some p)) ((calls_of s key)(t := Some (Deleting key p)))"
        by (auto intro!: exI [of _ t])
      then have "tracker_inv (goto t (Deleting key p) (finish t s))"
        using assms(2) wf 1(1,3) by (intro tracker_inv_keep [OF assms(1), of _ t key]) (auto simp del: slot_ok.simps)
      then show ?thesis using True 1(1) by (simp add: release_def)
    next
      case False
      then obtain t' c where "t' \<noteq> t" "lookup (Calls s) t' = Some c" "held c = Some p"
        using count by auto
      then have "calls_of s key t' = Some c"
        using held_key [OF tracker_invD(2) [OF assms(1)]] 1(1) by (fastforce intro: calls_of_Some)
      then have "slot_ok key (Some (node, Some p)) ((calls_of s key)(t := None))"
        using \<open>t' \<noteq> t\<close> 1(5) by (intro slot_published [of _ t' c]) (auto split: if_splits)
      then have "tracker_inv (finish t s)"
        using assms(2) wf 1(1,3) by (intro tracker_inv_keep [OF assms(1), of _ t key]) (auto simp del: slot_ok.simps)
      then show ?thesis using False by (simp add: release_def)
    qed
  next
    case (2 key node t0 c0)
    have "t0 \<noteq> t" using 2(2,4,5) by auto
    have "lookup (Calls s) t0 = Some c0" using calls_of_D [OF 2(4)] by simp
    moreover have "held c0 = Some p" using 2(5) by (cases c0) auto
    ultimately have "use_count p (finish t s) \<noteq> 0" using count \<open>t0 \<noteq> t\<close> by auto
    moreover have "slot_ok key (Some (node, None)) ((calls_of s key)(t := None))"
      using \<open>t0 \<noteq> t\<close> 2(4,5,6) by (intro slot_building [of _ t0 c0 _ "Some p"]) (auto split: if_splits)
    then have "tracker_inv (finish t s)"
      using assms(2) wf 2(1,3) by (intro tracker_inv_keep [OF assms(1), of _ t key]) (auto simp del: slot_ok.simps)
    ultimately show ?thesis by (simp add: release_def)
  qed
qed

lemma run_deleter_inv:
  assumes "tracker_inv s" "lookup (Calls s) t = Some (Deleting key p)"
  shows "tracker_inv (run_deleter t key p s)"
proof -
  have p: "lookup (StateKeys s) p = Some key" using tracker_invD(2) [OF assms] by simp
  have c: "calls_of s key t = Some (Deleting key p)" using assms(2) by (simp add: calls_in_def)
  have none: "calls_of s key t' = None" if "t' \<noteq> t" for t'
    using tracker_invD(4) [OF assms(1), of key]
  proof (cases rule: slot_cases)
    case (2 node t0 c0 p0)
    then show ?thesis using c by (cases "t = t0") auto
  next
    case (4 node q t0)
    then show ?thesis using c that by (cases "t = t0") auto
  qed (use c in auto)
  define s' where "s' = run_deleter t key p s"
  have s': "Calls s' = AList.delete t (Calls s)" "States s' = AList.delete key (States s)"
    "StateKeys s' = AList.delete p (StateKeys s)" "Fresh s' = Fresh s"
    by (simp_all add: s'_def run_deleter_def)
  have keep: "pointer_ok (StateKeys s') c \<and> call_key (StateKeys s') c = call_key (StateKeys s) c"
    if "t' \<noteq> t" "lookup (Calls s) t' = Some c" for t' c
  proof -
    have "call_key (StateKeys s) c \<noteq> Some key" using none [OF that(1)] that(2) by (simp add: calls_in_def split: if_splits)
    then show ?thesis
      using tracker_invD(2) [OF assms(1) that(2)] p by (cases "(StateKeys s, c)" rule: pointer_ok.cases) (auto simp: s')
  qed
  have "tracker_inv s'"
  proof (rule tracker_inv_step [OF assms(1), of s' t key])
    have "calls_of s' key t' = None" for t'
      using none [of t'] keep [of t'] by (cases "t' = t") (auto simp: s' calls_in_def split: option.splits if_splits)
    then show "slot_ok key (lookup (States s') key) (calls_of s' key)"
      by (simp add: s')
    show "q < Fresh s'" if "lookup (StateKeys s') q \<noteq> None" for q
      using that tracker_invD(3) [OF assms(1)] by (auto simp: s' split: if_splits)
  qed (use tracker_invD(1) [OF assms(1)] assms(2) keep in \<open>auto simp: s'\<close>)
  then show ?thesis by (simp add: s'_def)
qed

lemma copy_inv:
  assumes "tracker_inv s" "lookup (Calls s) t = Some c" "held c = Some p" "lookup (Calls s) t' = None"
  shows "tracker_inv (goto t' (Holding p) s)"
proof (cases rule: held_slot [OF assms(1,2,3)])
  case (1 key node)
  have "slot_ok key (Some (node, Some p)) ((calls_of s key)(t' := Some (Holding p)))"
    using 1(5) by auto
  then show ?thesis
    using assms(4) tracker_invD(1) [OF assms(1)] 1(1,3) by (intro tracker_inv_keep [OF assms(1), of _ t' key]) (auto simp del: slot_ok.simps)
next
  case (2 key node t0 c0)
  moreover have "t0 \<noteq> t'" using 2(4) assms(4) by (auto simp: calls_in_def)
  ultimately have "slot_ok key (Some (node, None)) ((calls_of s key)(t' := Some (Holding p)))"
    by (intro slot_building [of _ t0 c0 _ "Some p"]) (auto split: if_splits)
  then show ?thesis
    using assms(4) tracker_invD(1) [OF assms(1)] 2(1,3) by (intro tracker_inv_keep [OF assms(1), of _ t' key]) (auto simp del: slot_ok.simps)
qed

lemma call_step_inv:
  assumes "tracker_inv s" "lookup (Calls s) t = Some c" "ok \<or> (\<forall>key node p. c \<noteq> Initializing key node p)"
  shows "\<exists>s'. call_step t ok c s = Some s' \<and> tracker_inv s'"
proof (cases c)
  case (Missed key)
  then show ?thesis using emplace_inv [OF assms(1)] assms by simp
next
  case (Unwinding p)
  then have "p = None" using tracker_invD(2) [OF assms(1,2)] by simp
  then show ?thesis using Unwinding finish_unwinding_inv [OF assms(1)] assms(2) by simp
qed (use assms find_shared_inv [OF assms(1)] construct_inv [OF assms(1)] initialize_inv [OF assms(1)]
      publish_inv [OF assms(1)] catch_exception_inv [OF assms(1)] release_inv [OF assms(1)] run_deleter_inv [OF assms(1)]
    in auto)

lemma tracker_handle_inv:
  assumes "tracker_inv s" "tracker_enabled False ev s"
  shows "\<exists>s'. tracker_handle ev s = Some s' \<and> tracker_inv s'"
proof (cases ev)
  case (GetDriverState t key)
  then have "calls_of s k t = None" for k using assms(2) by (simp add: calls_in_def)
  then have "(calls_of s k)(t := None) = calls_of s k" for k by (simp add: fun_upd_idem)
  then have "tracker_inv (goto t (Entered key) s)"
    using assms(2) GetDriverState tracker_invD(1,4) [OF assms(1)]
    by (intro tracker_inv_keep [OF assms(1), of _ t key]) (auto simp del: slot_ok.simps)
  then show ?thesis using GetDriverState by simp
next
  case (Advance t ok)
  then obtain c where "lookup (Calls s) t = Some c" using assms(2) by (auto split: option.splits)
  then show ?thesis
    using Advance assms call_step_inv [OF assms(1), of t c ok] by (auto split: driver_call.splits)
next
  case (CopyPointer t t')
  then obtain c p where "lookup (Calls s) t = Some c" "held c = Some p" "lookup (Calls s) t' = None"
    using assms(2) by (auto split: option.splits driver_call.splits)
  then show ?thesis using CopyPointer copy_inv [OF assms(1)] by simp
qed

lemma tracker_inv_new: "tracker_inv new_tracker"
  by (simp add: tracker_inv_def new_tracker_def calls_in_def)

lemma tracker_reachable_inv: "tracker_reachable False s \<Longrightarrow> tracker_inv s"
proof (induction rule: tracker_reachable.induct)
  case (tracker_event s ev s')
  then show ?case using tracker_handle_inv [of s ev] by simp
qed (rule tracker_inv_new)

lemma tracker_run_reachable:
  "tracker_run b evs s = Some s' \<Longrightarrow> tracker_reachable b s \<Longrightarrow> tracker_reachable b s'"
  by (induction evs arbitrary: s) (auto simp: bind_eq_Some_conv split: if_splits intro: tracker_reachable.tracker_event)

text \<open>Whoever waits for a key waits for a call that will publish or remove the entry.\<close>

fun unfinished :: "TStateKey \<Rightarrow> driver_call \<Rightarrow> bool" where
  "unfinished key (Building k _) \<longleftrightarrow> k = key"
| "unfinished key (Initializing k _ _) \<longleftrightarrow> k = key"
| "unfinished key (Publishing k _ _) \<longleftrightarrow> k = key"
| "unfinished key (Failed k _ _) \<longleftrightarrow> k = key"
| "unfinished key (Deleting k _) \<longleftrightarrow> k = key"
| "unfinished key _ \<longleftrightarrow> False"

lemma blocked_by:
  assumes "tracker_inv s" "\<not> wait_over key s"
  shows "\<exists>t c. lookup (Calls s) t = Some c \<and> unfinished key c"
proof -
  have "slot_ok key (lookup (States s) key) (calls_of s key)" by (rule tracker_invD(4) [OF assms(1)])
  then show ?thesis
  proof (cases rule: slot_cases)
    case (2 node t c p)
    have "lookup (Calls s) t = Some c" "call_key (StateKeys s) c = Some key"
      using calls_of_D [OF 2(2)] by simp_all
    moreover from this 2(3) have "unfinished key c" by (cases c) auto
    ultimately show ?thesis by blast
  next
    case (3 node p t)
    have "lookup (Calls s) t = Some (Holding p)" using calls_of_D [OF 3(2)] by simp
    then have "use_count p s \<noteq> 0" using use_count_zero [OF tracker_invD(1) [OF assms(1)], of p] by fastforce
    then show ?thesis using assms(2) 3(1) by (simp add: wait_over_def lock_weak_def)
  next
    case (4 node p t)
    have "lookup (Calls s) t = Some (Deleting key p)" using calls_of_D [OF 4(2)] by simp
    then show ?thesis by (intro exI [of _ t] exI [of _ "Deleting key p"]) simp
  qed (use assms(2) in \<open>simp add: wait_over_def\<close>)
qed

lemma slot_one_pointer:
  assumes "slot_ok key e calls" "calls t = Some c" "held c = Some p" "calls t' = Some c'" "held c' = Some p'"
  shows "p = p'"
  using assms(1)
proof (cases rule: slot_cases)
  case (2 node t0 c0 q)
  have "q = Some r" if "calls u = Some d" "held d = Some r" for u d r
    using 2(4) [of u d] 2(2,3) that by (cases "u = t0"; cases c0) auto
  then show ?thesis using assms(2-5) by (metis option.inject)
next
  case (3 node q t0)
  then have "c = Holding q" "c' = Holding q" using assms(2,4) by blast+
  then show ?thesis using assms(3,5) by simp
next
  case (4 node q t0)
  have "held d = None" if "calls u = Some d" for u d
    using 4(2) 4(3) [of u] that by (cases "u = t0") auto
  then show ?thesis using assms(2,3) by force
qed (use assms(2) in simp)

lemma one_state:
  assumes "tracker_inv s" "lookup (Calls s) t = Some c" "held c = Some p" "lookup (Calls s) t' = Some c'" "held c' = Some p'"
    "lookup (StateKeys s) p = Some key" "lookup (StateKeys s) p' = Some key"
  shows "p = p'"
proof -
  have "calls_of s key t = Some c" "calls_of s key t' = Some c'"
    using held_key [OF tracker_invD(2) [OF assms(1,2)] assms(3)] held_key [OF tracker_invD(2) [OF assms(1,4)] assms(5)]
      assms by (auto intro: calls_of_Some)
  then show ?thesis using slot_one_pointer [OF tracker_invD(4) [OF assms(1)]] assms(3,5) by blast
qed

text \<open>Databases with different names have different keys.\<close>

lemma Quote_inject: "Quote x ''/'' = Quote y ''/'' \<longleftrightarrow> x = y"
proof -
  have "quote_map ''/'' ! 37" "quote_map ''/'' ! 43"
    using url_escape_marks by (simp_all add: quote_map_def foldl_update_const length_url_escape)
  then show ?thesis by (metis Quote_def Unescape_Escape)
qed

lemma state_key_inject:
  "state_key d e i m c = state_key d' e' i' m' c' \<longleftrightarrow> d = d' \<and> e = e' \<and> i = i' \<and> m = m' \<and> c = c'"
  by (auto simp: state_key_def Quote_inject)

section \<open>Properties\<close>

text \<open>
  C8. While the credentials of a new state are created without an exception, the checks of \<^verbatim>\<open>GetDriverState\<close> never
  fail and no call uses the reference to an erased entry, whatever the interleaving of the calls, the copies of pointers
  and the deleters; all the pointers of one key are pointers to one state; and a call that waits for a key waits for
  a call that is going to publish or to remove the entry.
\<close>

theorem tracker_safe:
  assumes "tracker_reachable False s"
  shows "(\<forall>ev. tracker_enabled False ev s \<longrightarrow> tracker_handle ev s \<noteq> None) \<and>
    (\<forall>t t' c c' p p' key. lookup (Calls s) t = Some c \<longrightarrow> held c = Some p \<longrightarrow> lookup (Calls s) t' = Some c' \<longrightarrow>
       held c' = Some p' \<longrightarrow> lookup (StateKeys s) p = Some key \<longrightarrow> lookup (StateKeys s) p' = Some key \<longrightarrow> p = p') \<and>
    (\<forall>key. wait_over key s \<or> (\<exists>t c. lookup (Calls s) t = Some c \<and> unfinished key c))"
proof -
  have inv: "tracker_inv s" by (rule tracker_reachable_inv [OF assms])
  show ?thesis
    using tracker_handle_inv [OF inv] one_state [OF inv] blocked_by [OF inv] by (metis option.distinct(1))
qed

definition sample_key :: "string \<Rightarrow> TStateKey" where
  "sample_key database = state_key database ''localhost:2136'' [] Sync \<lparr>IsEnabled = False, CaCert = [], Cert = [], PrivateKey = []\<rparr>"

definition build_calls :: "nat \<Rightarrow> TStateKey \<Rightarrow> tracker_event list" where
  "build_calls t key = [GetDriverState t key, Advance t True, Advance t True, Advance t True, Advance t True]"

lemma build_calls_run:
  "tracker_run False (build_calls 1 (sample_key ''/local'')) new_tracker =
     Some \<lparr>States = [(sample_key ''/local'', 0, None)], StateKeys = [(1, sample_key ''/local'')],
           Calls = [(1, Publishing (sample_key ''/local'') 0 1)], Fresh = 2\<rparr>"
  by code_simp

theorem tracker_safe_witness:
  "tracker_handle (Advance 1 True)
     \<lparr>States = [(sample_key ''/local'', 0, None)], StateKeys = [(1, sample_key ''/local'')],
      Calls = [(1, Publishing (sample_key ''/local'') 0 1)], Fresh = 2\<rparr> \<noteq> None"
  using tracker_safe [OF tracker_run_reachable [OF build_calls_run tracker_start]]
  by (auto dest!: spec [of _ "Advance 1 True"] simp del: tracker_handle.simps)

text \<open>The call 1 fails after the state was built; the call 2 runs until it is about to publish; then 1 lets its state go.\<close>

definition race_events :: "TStateKey \<Rightarrow> tracker_event list" where
  "race_events key =
     [GetDriverState 1 key, Advance 1 True, Advance 1 True, Advance 1 True, Advance 1 False, Advance 1 True] @
     build_calls 2 key @ [Advance 1 True, Advance 1 True]"


text \<open>
  C11. A run of the periodic task leaves a discovery in flight if the endpoints are older than a minute or the pessimization
  ratio is above the threshold, and starts one only if none is in flight; but with more than 100 endpoints that are not
  older than a minute it does nothing, however many of them are pessimized.
\<close>

theorem periodic_discovery_runs:
  assumes "sorter Priority srt" "pool_reachable srt policy (EndpointPool s)"
  shows "\<exists>s'. periodic_discovery SUCCESS now (Some s) = (True, Some s') \<and> pool_reachable srt policy (EndpointPool s') \<and>
    (now - LastUpdateTime (EndpointPool s) > ENDPOINT_UPDATE_PERIOD \<or> GetPessimizationRatio (Elector (EndpointPool s)) > 50 \<longrightarrow>
       DiscoveryPromise (EndpointPool s') \<noteq> None) \<and>
    (DiscoveryPromise (EndpointPool s) \<noteq> None \<longrightarrow> EndpointPool s' = EndpointPool s \<and> Subscribed s' = Subscribed s) \<and>
    (length (Records (Elector (EndpointPool s))) > 100 \<and> now - LastUpdateTime (EndpointPool s) \<le> ENDPOINT_UPDATE_PERIOD \<longrightarrow> s' = s)"
proof -
  have "elector_inv (Elector (EndpointPool s))"
    using pool_reachable_inv [OF assms] elector_reachable_inv [OF _ assms(1)] by (metis pool_inv_def sys_inv.simps)
  then have ratio: "PessimizationRatio (Elector (EndpointPool s)) = 0" if "length (Records (Elector (EndpointPool s))) > 100"
    using that by (auto simp: elector_inv_def ratio_inv_def)
  have "pool_reachable srt policy (snd (UpdateAsync (EndpointPool s)))"
    using pool_reachable.pool_event [OF assms(2), of CallUpdateAsync] by simp
  then show ?thesis
    using assms(2) ratio
    by (auto simp: periodic_discovery_def Let_def PoolGetPessimizationRatio_def TimeSinceLastUpdate_def UpdateAsync_def
        PESSIMIZATION_DISCOVERY_THRESHOLD_def GetPessimizationRatio_def not_less split: option.split prod.split)
qed

theorem periodic_discovery_runs_witness:
  "\<exists>s'. periodic_discovery SUCCESS 60000001 (Some (new_driver_state Sync policy_UseAllNodes)) = (True, Some s') \<and>
    DiscoveryPromise (EndpointPool s') \<noteq> None"
  using periodic_discovery_runs [OF by_priority.sorter_axioms, of policy_UseAllNodes "new_driver_state Sync policy_UseAllNodes" 60000001]
    pool_start [of "sort_key Priority" policy_UseAllNodes]
  by (auto simp: new_driver_state_def new_endpoint_pool_def ENDPOINT_UPDATE_PERIOD_def)

end
