(* ===== verification/Retry.thy ===== *)
theory Retry
  imports Status Ieee "HOL-Library.Word"
begin

text \<open>
  Retries of \<^verbatim>\<open>impl/internal/retry/{retry.h,retry.cpp,retry_sync.h,retry_async.h,retry_settings.h}\<close>: the decision
  for a status, the backoff times in the arithmetic of the code, and the loop of attempts with its sessions, which the
  synchronous and the asynchronous context share. Durations are numbers of microseconds.

  The environment of a loop is what is decided outside it: the outcomes of \<^verbatim>\<open>GetSession\<close> and of the operation, the stop token, the
  clock and the random numbers, each by the number of the attempt. A session is named by the attempt that has got it.
\<close>

section \<open>Settings\<close>

record TBackoffSettings =
  SlotDuration :: "64 word"
  Ceiling :: "32 word"
  UncertainRatio :: rat

record TRetryOperationSettings =
  MaxRetries :: "32 word"
  RetryNotFound :: bool
  GetSessionClientTimeout :: "64 word"
  MaxTimeout :: "64 word"
  FastBackoffSettings :: TBackoffSettings
  SlowBackoffSettings :: TBackoffSettings
  Idempotent :: bool
  IdempotentWasSet :: bool
  Verbose :: bool
  RetryUndefined :: bool
  StopToken :: bool

definition DurationMax :: "64 word" where "DurationMax = -1"

definition DefaultFastBackoffSettings :: TBackoffSettings where
  "DefaultFastBackoffSettings = \<lparr>SlotDuration = 5000, Ceiling = 10, UncertainRatio = 1 / 2\<rparr>"

definition DefaultSlowBackoffSettings :: TBackoffSettings where
  "DefaultSlowBackoffSettings = \<lparr>SlotDuration = 1000000, Ceiling = 6, UncertainRatio = 1 / 2\<rparr>"

definition default_settings :: TRetryOperationSettings where
  "default_settings =
     \<lparr>MaxRetries = 10, RetryNotFound = True, GetSessionClientTimeout = 5000000, MaxTimeout = DurationMax,
      FastBackoffSettings = DefaultFastBackoffSettings, SlowBackoffSettings = DefaultSlowBackoffSettings,
      Idempotent = False, IdempotentWasSet = False, Verbose = False, RetryUndefined = False, StopToken = False\<rparr>"

definition set_Idempotent :: "bool \<Rightarrow> TRetryOperationSettings \<Rightarrow> TRetryOperationSettings" where
  "set_Idempotent value s = s\<lparr>Idempotent := value, IdempotentWasSet := True\<rparr>"

definition IsRetryEnabled :: "TRetryOperationSettings \<Rightarrow> bool" where
  "IsRetryEnabled settings \<longleftrightarrow> 0 < MaxRetries settings"

definition ResolveRetrySettings :: "TRetryOperationSettings \<Rightarrow> TRetryOperationSettings option
    \<Rightarrow> TRetryOperationSettings option \<Rightarrow> 64 word \<Rightarrow> bool \<Rightarrow> TRetryOperationSettings" where
  "ResolveRetrySettings clientDefault operationOverride explicitOverride operationClientTimeout idempotentDefault =
     (let settings = (case explicitOverride of
                        Some s \<Rightarrow> s
                      | None \<Rightarrow> (case operationOverride of Some s \<Rightarrow> s | None \<Rightarrow> clientDefault));
          settings = (if operationClientTimeout \<noteq> DurationMax \<and>
                         (MaxTimeout settings = DurationMax \<or> operationClientTimeout < MaxTimeout settings)
                      then settings\<lparr>MaxTimeout := operationClientTimeout\<rparr> else settings)
      in if explicitOverride = None \<and> operationOverride = None \<and> idempotentDefault \<and> \<not> IdempotentWasSet clientDefault
         then set_Idempotent True settings else settings)"

section \<open>Decisions\<close>

datatype NextStep = RetryImmediately | RetryFastBackoff | RetrySlowBackoff | Finish

record TRetryDecision =
  Step :: NextStep
  ResetSession :: bool

definition GetRetryDecision :: "EStatus \<Rightarrow> TRetryOperationSettings \<Rightarrow> TRetryDecision" where
  "GetRetryDecision status settings =
     (if status = SUCCESS \<or> status = CLIENT_CANCELLED then \<lparr>Step = Finish, ResetSession = False\<rparr>
      else if status = ABORTED then \<lparr>Step = RetryImmediately, ResetSession = False\<rparr>
      else if status = OVERLOADED \<or> status = CLIENT_RESOURCE_EXHAUSTED
        then \<lparr>Step = RetrySlowBackoff, ResetSession = False\<rparr>
      else if status = UNAVAILABLE then \<lparr>Step = RetryFastBackoff, ResetSession = False\<rparr>
      else if status = BAD_SESSION \<or> status = SESSION_BUSY then \<lparr>Step = RetryImmediately, ResetSession = True\<rparr>
      else if status = NOT_FOUND
        then \<lparr>Step = (if RetryNotFound settings then RetryImmediately else Finish), ResetSession = False\<rparr>
      else if status = UNDETERMINED \<or> status = TRANSPORT_UNAVAILABLE
        then \<lparr>Step = (if Idempotent settings then RetryFastBackoff else Finish),
              ResetSession = (Idempotent settings \<and> status = TRANSPORT_UNAVAILABLE)\<rparr>
      else if status = CLIENT_DEADLINE_EXCEEDED
        then \<lparr>Step = (if RetryUndefined settings then RetrySlowBackoff else Finish), ResetSession = True\<rparr>
      else \<lparr>Step = (if RetryUndefined settings then RetrySlowBackoff else Finish), ResetSession = False\<rparr>)"

definition ShouldRetryStatus :: "EStatus \<Rightarrow> TRetryOperationSettings \<Rightarrow> bool" where
  "ShouldRetryStatus status settings \<longleftrightarrow> Step (GetRetryDecision status settings) \<noteq> Finish"

section \<open>Backoff\<close>

definition clamp :: "rat \<Rightarrow> rat \<Rightarrow> rat \<Rightarrow> rat" where
  "clamp v lo hi = (if v < lo then lo else if hi < v then hi else v)"

definition maxBackoff :: rat where "maxBackoff = 3600000000"

text \<open>A shift by 32 or more is undefined: \<open>None\<close>.\<close>

definition CalcBackoffTime :: "rat \<Rightarrow> TBackoffSettings \<Rightarrow> 32 word \<Rightarrow> int option" where
  "CalcBackoffTime random settings retryNumber =
     (let shift = min retryNumber (Ceiling settings) in
      if \<not> shift < 32 then None
      else
        (let slots = push_bit (unat shift) (1 :: 32 word);
             maxDuration = round64 (of_nat (unat (SlotDuration settings * ucast slots)));
             uncertainty = clamp (UncertainRatio settings) 0 1;
             multiplier = round64 (round64 (round64 (random * uncertainty) - uncertainty) + 1)
         in Some (trunc (clamp (round64 (maxDuration * multiplier)) 0 maxBackoff))))"

section \<open>The loop of attempts\<close>

text \<open>What an attempt gives, and what the loop gives in the end.\<close>

datatype 'r outcome = Returned 'r | RangeError EStatus | Threw nat

datatype session_outcome = SessionReady | SessionFailed EStatus | SessionThrew nat

datatype 'r final = Result 'r | Exception nat | UndefinedDelay

datatype check = BeforeAttempt | AfterSession | AfterAttempt

record 'r retry_env =
  WithSession :: bool
  GetRetryStatus :: "'r \<Rightarrow> EStatus"
  MakeRetryResultFromStatus :: "EStatus \<Rightarrow> 'r"
  StopRequested :: "nat \<Rightarrow> check \<Rightarrow> bool"
  GetSession :: "nat \<Rightarrow> session_outcome"
  Operation :: "nat \<Rightarrow> 'r outcome"
  Elapsed :: "nat \<Rightarrow> 64 word"
  RandomNumber :: "nat \<Rightarrow> rat"

text \<open>
  \<open>Log\<close> has the status and the delay of every attempt that was retried, \<open>Runs\<close> the attempts that ran the operation, with the
  session they ran it on.
\<close>

record retry_context =
  RetryNumber :: "32 word"
  RetrySession :: "nat option"
  Log :: "(EStatus \<times> int) list"
  Runs :: "(nat \<times> nat option) list"

definition new_context :: retry_context where
  "new_context = \<lparr>RetryNumber = 0, RetrySession = None, Log = [], Runs = []\<rparr>"

abbreviation attempt :: "retry_context \<Rightarrow> nat" where "attempt c \<equiv> unat (RetryNumber c)"

definition stopped :: "'r retry_env \<Rightarrow> TRetryOperationSettings \<Rightarrow> check \<Rightarrow> retry_context \<Rightarrow> bool" where
  "stopped env settings point c \<longleftrightarrow> StopToken settings \<and> StopRequested env (attempt c) point"

definition cancelled :: "'r retry_env \<Rightarrow> 'r final" where
  "cancelled env = Result (MakeRetryResultFromStatus env CLIENT_CANCELLED)"

text \<open>The operation runs; an error of its range of statuses is a result, any other exception ends the loop.\<close>

definition run_operation :: "'r retry_env \<Rightarrow> retry_context \<Rightarrow> ('r final + 'r) \<times> retry_context" where
  "run_operation env c =
     (let c' = c\<lparr>Runs := Runs c @ [(attempt c, RetrySession c)]\<rparr> in
      case Operation env (attempt c) of
        Returned r \<Rightarrow> (Inr r, c')
      | RangeError status \<Rightarrow> (Inr (MakeRetryResultFromStatus env status), c')
      | Threw e \<Rightarrow> (Inl (Exception e), c'))"

definition execute :: "'r retry_env \<Rightarrow> TRetryOperationSettings \<Rightarrow> retry_context \<Rightarrow> ('r final + 'r) \<times> retry_context" where
  "execute env settings c =
     (if \<not> WithSession env \<or> RetrySession c \<noteq> None then run_operation env c
      else (case GetSession env (attempt c) of
          SessionFailed status \<Rightarrow> (Inr (MakeRetryResultFromStatus env status), c)
        | SessionThrew e \<Rightarrow> (Inl (Exception e), c)
        | SessionReady \<Rightarrow>
            (let c = c\<lparr>RetrySession := Some (attempt c)\<rparr> in
             if stopped env settings AfterSession c then (Inl (cancelled env), c)
             else run_operation env c)))"

definition RunAttempt :: "'r retry_env \<Rightarrow> TRetryOperationSettings \<Rightarrow> retry_context \<Rightarrow> ('r final + 'r) \<times> retry_context" where
  "RunAttempt env settings c =
     (if stopped env settings BeforeAttempt c then (Inl (cancelled env), c) else execute env settings c)"

text \<open>The asynchronous context counts its delays from one.\<close>

definition GetRetryDelay :: "bool \<Rightarrow> rat \<Rightarrow> NextStep \<Rightarrow> TRetryOperationSettings \<Rightarrow> 32 word \<Rightarrow> int option" where
  "GetRetryDelay async random step settings retryNumber =
     (if step = RetryImmediately then Some 0
      else CalcBackoffTime random
        (if step = RetryFastBackoff then FastBackoffSettings settings else SlowBackoffSettings settings)
        (if async then retryNumber + 1 else retryNumber))"

text \<open>The end of the loop, or nothing and the context of the next attempt.\<close>

definition DoNext :: "bool \<Rightarrow> 'r retry_env \<Rightarrow> TRetryOperationSettings \<Rightarrow> 'r \<Rightarrow> retry_context
    \<Rightarrow> 'r final option \<times> retry_context" where
  "DoNext async env settings result c =
     (let status = GetRetryStatus env result in
      if stopped env settings AfterAttempt c then (Some (cancelled env), c)
      else if status = SUCCESS \<or> MaxRetries settings \<le> RetryNumber c \<or> MaxTimeout settings \<le> Elapsed env (attempt c)
        then (Some (Result result), c)
      else
        (let decision = GetRetryDecision status settings;
             c = (if ResetSession decision then c\<lparr>RetrySession := None\<rparr> else c)
         in if Step decision = Finish then (Some (Result result), c)
            else (case GetRetryDelay async (RandomNumber env (attempt c)) (Step decision) settings (RetryNumber c) of
                None \<Rightarrow> (Some UndefinedDelay, c)
              | Some delay \<Rightarrow>
                  (None, c\<lparr>RetryNumber := RetryNumber c + 1, Log := Log c @ [(status, delay)]\<rparr>))))"

lemma run_operation_context:
  "run_operation env c = (x, c') \<Longrightarrow> c' = c\<lparr>Runs := Runs c @ [(attempt c, RetrySession c)]\<rparr>"
  by (auto simp: run_operation_def Let_def split: outcome.splits)

text \<open>An attempt may get a session and may run the operation.\<close>

lemma RunAttempt_context:
  assumes "RunAttempt env settings c = (x, c')"
  shows "RetryNumber c' = RetryNumber c" "Log c' = Log c" "RetrySession c' \<in> {RetrySession c, Some (attempt c)}"
    "RetrySession c \<noteq> None \<Longrightarrow> RetrySession c' = RetrySession c"
    "Runs c' = Runs c \<or> Runs c' = Runs c @ [(attempt c, RetrySession c')]"
  using assms by (auto simp: RunAttempt_def execute_def Let_def dest!: run_operation_context
      split: if_splits session_outcome.splits)

lemma DoNext_continues:
  assumes "DoNext async env settings result c = (None, c')"
  shows "attempt c < unat (MaxRetries settings) \<and> attempt c' = Suc (attempt c)"
proof -
  have "RetryNumber c < MaxRetries settings" "RetryNumber c' = RetryNumber c + 1"
    using assms by (auto simp: DoNext_def Let_def not_le split: if_splits option.splits)
  moreover from this(1) have "1 + RetryNumber c \<noteq> 0"
    by (metis add.commute eq_neg_iff_add_eq_0 not_le word_n1_ge)
  then have "unat (RetryNumber c + 1) = Suc (unat (RetryNumber c))"
    by (metis add.commute unatSuc)
  ultimately show ?thesis
    by (simp_all add: word_less_nat_alt)
qed

function Retry :: "bool \<Rightarrow> 'r retry_env \<Rightarrow> TRetryOperationSettings \<Rightarrow> retry_context \<Rightarrow> 'r final \<times> retry_context" where
  "Retry async env settings c =
     (case RunAttempt env settings c of
        (Inl final, c) \<Rightarrow> (final, c)
      | (Inr result, c) \<Rightarrow>
          (case DoNext async env settings result c of
             (Some final, c) \<Rightarrow> (final, c)
           | (None, c) \<Rightarrow> Retry async env settings c))"
  by pat_completeness auto
termination
  by (relation "measure (\<lambda>(_, _, settings, c). unat (MaxRetries settings) - attempt c)")
     (auto dest!: sym [of _ "RunAttempt _ _ _"] sym [of _ "DoNext _ _ _ _ _"] DoNext_continues RunAttempt_context(1))

declare Retry.simps [simp del]

text \<open>The plan of a unary call: run it once with a timeout, or retry it with a timeout for every attempt.\<close>

datatype unary_plan = RunOnce "64 word" | RunRetry TRetryOperationSettings "64 word \<Rightarrow> 64 word"

definition RunUnaryWithRetry :: "bool \<Rightarrow> TRetryOperationSettings \<Rightarrow> unary_plan" where
  "RunUnaryWithRetry nested settings =
     (if \<not> StopToken settings \<and> (nested \<or> \<not> IsRetryEnabled settings)
      then RunOnce (if nested then DurationMax else MaxTimeout settings)
      else RunRetry (if nested then settings\<lparr>MaxRetries := 0\<rparr> else settings)
             (\<lambda>remainingTimeout. if nested then DurationMax else remainingTimeout))"

section \<open>Backoff times\<close>

lemma slots_value: "n < 32 \<Longrightarrow> unat (push_bit n (1 :: 32 word)) = 2 ^ n"
  using power_strict_increasing [of n 32 "2::nat"]
  by (subst unsigned_push_bit_eq) (simp add: push_bit_eq_mult take_bit_nat_eq_self)

lemma max_duration:
  assumes "n < 32" "unat slot * 2 ^ n < 2 ^ 64"
  shows "unat ((slot :: 64 word) * ucast (push_bit n (1 :: 32 word))) = unat slot * 2 ^ n"
proof -
  have "unat (ucast (push_bit n (1 :: 32 word)) :: 64 word) = 2 ^ n"
    using assms(1) power_strict_increasing [of n 64 "2::nat"]
    by (subst unsigned_ucast_eq) (simp add: slots_value take_bit_nat_eq_self del: push_bit_of_1)
  then show ?thesis using assms(2) by (simp add: unat_mult_lem [THEN iffD1])
qed

lemma multiplier_bounds:
  assumes "0 \<le> random" "random \<le> 1" "0 \<le> u" "u \<le> 1" "round64 u = u"
  shows "0 \<le> round64 (round64 (round64 (random * u) - u) + 1)" "round64 (round64 (round64 (random * u) - u) + 1) \<le> 1"
proof -
  have "round64 (random * u) \<le> u"
    using binary64.rnd_le [of "random * u" u] assms by (simp add: mult_left_le_one_le)
  moreover have "0 \<le> round64 (random * u)" using assms by (intro binary64.rnd_nonneg) simp
  ultimately have "round64 (round64 (random * u) - u) \<le> 0" "-1 \<le> round64 (round64 (random * u) - u)"
    using binary64.rnd_le_int [of "round64 (random * u) - u" 0] binary64.rnd_ge_int [of "-1" "round64 (random * u) - u"] assms
    by simp_all
  then show "0 \<le> round64 (round64 (round64 (random * u) - u) + 1)" "round64 (round64 (round64 (random * u) - u) + 1) \<le> 1"
    using binary64.rnd_le_int [of "round64 (round64 (random * u) - u) + 1" 1] by (simp_all add: binary64.rnd_nonneg)
qed

lemma multiplier_lower:
  assumes "0 \<le> random" "0 \<le> u" "u \<le> 1" "round64 u = u"
  shows "round64 (1 - u) \<le> round64 (round64 (round64 (random * u) - u) + 1)"
proof -
  have "round64 (- u) = - u" using assms(4) by (simp add: round64_def fl_uminus)
  moreover have "0 \<le> round64 (random * u)" using assms by (intro binary64.rnd_nonneg) simp
  ultimately have "- u \<le> round64 (round64 (random * u) - u)"
    using binary64.rnd_mono [of "- u" "round64 (random * u) - u"] by simp
  then show ?thesis by (intro binary64.rnd_mono) simp
qed

lemma clamp_mono: "x \<le> y \<Longrightarrow> lo \<le> hi \<Longrightarrow> clamp x lo hi \<le> clamp y lo hi"
  by (auto simp: clamp_def)

lemma clamp_bounds: "lo \<le> hi \<Longrightarrow> lo \<le> clamp v lo hi" "lo \<le> hi \<Longrightarrow> clamp v lo hi \<le> hi" "clamp v lo hi \<le> max lo v"
  by (auto simp: clamp_def)

lemma CalcBackoffTime_range:
  "CalcBackoffTime random settings retryNumber = Some delay \<Longrightarrow> 0 \<le> delay \<and> delay \<le> 3600000000"
proof -
  have "0 \<le> trunc (clamp x 0 maxBackoff) \<and> trunc (clamp x 0 maxBackoff) \<le> 3600000000" for x
    using trunc_mono [of 0 "clamp x 0 maxBackoff"] trunc_mono [of "clamp x 0 maxBackoff" "of_int 3600000000"]
      trunc_of_int [of 0] trunc_of_int [of 3600000000] clamp_bounds [of 0 maxBackoff x] by (simp add: maxBackoff_def)
  then show "CalcBackoffTime random settings retryNumber = Some delay \<Longrightarrow> 0 \<le> delay \<and> delay \<le> 3600000000"
    by (auto simp: CalcBackoffTime_def Let_def split: if_splits)
qed

section \<open>Invariants of the loop\<close>

abbreviation resets :: "TRetryOperationSettings \<Rightarrow> EStatus \<Rightarrow> bool" where
  "resets settings status \<equiv> ResetSession (GetRetryDecision status settings)"

text \<open>A session that the attempt \<open>i\<close> uses was got by an attempt, and no status in between has reset it.\<close>

definition session_kept :: "TRetryOperationSettings \<Rightarrow> retry_context \<Rightarrow> nat \<Rightarrow> nat option \<Rightarrow> bool" where
  "session_kept settings c i session \<longleftrightarrow>
     (case session of None \<Rightarrow> True
      | Some a \<Rightarrow> a \<le> i \<and> (\<forall>k. a \<le> k \<longrightarrow> k < i \<longrightarrow> \<not> resets settings (fst (Log c ! k))))"

definition loop_inv :: "TRetryOperationSettings \<Rightarrow> retry_context \<Rightarrow> bool" where
  "loop_inv settings c \<longleftrightarrow>
     length (Log c) = attempt c \<and> attempt c \<le> unat (MaxRetries settings) \<and>
     (\<forall>(status, delay) \<in> set (Log c). ShouldRetryStatus status settings \<and> 0 \<le> delay \<and> delay \<le> 3600000000) \<and>
     (\<forall>(i, session) \<in> set (Runs c). i \<le> attempt c \<and> session_kept settings c i session) \<and>
     session_kept settings c (attempt c) (RetrySession c)"

text \<open>The attempts that ran the operation, before and after the current one has run.\<close>

definition runs_before :: "retry_context \<Rightarrow> bool" where
  "runs_before c \<longleftrightarrow> sorted_wrt (<) (map fst (Runs c)) \<and> (\<forall>i \<in> set (map fst (Runs c)). i < attempt c)"

definition runs_upto :: "retry_context \<Rightarrow> bool" where
  "runs_upto c \<longleftrightarrow> sorted_wrt (<) (map fst (Runs c)) \<and> (\<forall>i \<in> set (map fst (Runs c)). i \<le> attempt c)"

lemma RunAttempt_inv:
  assumes "RunAttempt env settings c = (x, c')" "loop_inv settings c" "runs_before c"
  shows "loop_inv settings c'" "runs_upto c'"
proof -
  note r = RunAttempt_context [OF assms(1)]
  have kept: "session_kept settings c' i session = session_kept settings c i session" for i session
    by (simp add: session_kept_def r(2) split: option.split)
  have "session_kept settings c (attempt c) (RetrySession c')"
    using r(3) assms(2) by (auto simp: session_kept_def loop_inv_def)
  then show "loop_inv settings c'"
    using assms(2) r(1,2,5) by (auto simp: loop_inv_def kept)
  show "runs_upto c'"
    using assms(3) r(1,5) by (fastforce simp: runs_upto_def runs_before_def sorted_wrt_append)
qed

lemma DoNext_inv:
  assumes "DoNext async env settings result c = (None, c')" "loop_inv settings c" "runs_upto c"
  shows "loop_inv settings c'" "runs_before c'"
proof -
  have n: "attempt c < unat (MaxRetries settings)" "attempt c' = Suc (attempt c)"
    using DoNext_continues [OF assms(1)] by simp_all
  define status where "status = GetRetryStatus env result"
  obtain delay where d: "GetRetryDelay async (RandomNumber env (attempt c)) (Step (GetRetryDecision status settings)) settings (RetryNumber c) = Some delay"
    "Step (GetRetryDecision status settings) \<noteq> Finish" "Log c' = Log c @ [(status, delay)]" "Runs c' = Runs c"
    "RetrySession c' = (if resets settings status then None else RetrySession c)"
    using assms(1) by (auto simp: DoNext_def Let_def status_def split: if_splits option.splits)
  have delay: "0 \<le> delay" "delay \<le> 3600000000"
    using d(1) CalcBackoffTime_range by (auto simp: GetRetryDelay_def split: if_splits)
  have len: "length (Log c) = attempt c" using assms(2) by (simp add: loop_inv_def)
  have kept: "session_kept settings c' i session" if "i \<le> attempt c" "session_kept settings c i session" for i session
    using that by (auto simp: session_kept_def d(3) len nth_append split: option.splits)
  have "session_kept settings c' (attempt c') (RetrySession c')"
    using assms(2) by (auto simp: session_kept_def d(3,5) n(2) len nth_append loop_inv_def less_Suc_eq split: option.splits)
  then show "loop_inv settings c'"
    using assms(2) n delay d(2,3,4) kept by (fastforce simp: loop_inv_def ShouldRetryStatus_def)
  show "runs_before c'"
    using assms(3) by (auto simp: runs_before_def runs_upto_def d(4) n(2) less_Suc_eq_le)
qed

text \<open>The result of an attempt, and why the loop ends with it.\<close>

definition attempt_result :: "'r retry_env \<Rightarrow> nat \<Rightarrow> 'r \<Rightarrow> bool" where
  "attempt_result env n result \<longleftrightarrow>
     Operation env n = Returned result \<or>
     (\<exists>status. result = MakeRetryResultFromStatus env status \<and>
        (Operation env n = RangeError status \<or> GetSession env n = SessionFailed status))"

definition ends_with :: "'r retry_env \<Rightarrow> TRetryOperationSettings \<Rightarrow> retry_context \<Rightarrow> 'r final \<Rightarrow> bool" where
  "ends_with env settings c final \<longleftrightarrow>
     (final = cancelled env \<and> StopToken settings \<and> (\<exists>point. StopRequested env (attempt c) point)) \<or>
     (case final of
        Result result \<Rightarrow> attempt_result env (attempt c) result \<and>
          (\<not> ShouldRetryStatus (GetRetryStatus env result) settings \<or> attempt c = unat (MaxRetries settings) \<or>
           MaxTimeout settings \<le> Elapsed env (attempt c))
      | Exception e \<Rightarrow> Operation env (attempt c) = Threw e \<or> GetSession env (attempt c) = SessionThrew e
      | UndefinedDelay \<Rightarrow> 32 \<le> Ceiling (FastBackoffSettings settings) \<or> 32 \<le> Ceiling (SlowBackoffSettings settings))"

lemma RunAttempt_result:
  assumes "RunAttempt env settings c = (Inr result, c')"
  shows "attempt_result env (attempt c) result"
  using assms by (auto simp: RunAttempt_def execute_def run_operation_def attempt_result_def Let_def
      split: if_splits session_outcome.splits outcome.splits)

lemma RunAttempt_final:
  assumes "RunAttempt env settings c = (Inl final, c')"
  shows "ends_with env settings c' final"
  using assms by (auto simp: RunAttempt_def execute_def run_operation_def ends_with_def stopped_def Let_def
      split: if_splits session_outcome.splits outcome.splits)

lemma DoNext_final:
  assumes "DoNext async env settings result c = (Some final, c')" "attempt_result env (attempt c) result"
    "attempt c \<le> unat (MaxRetries settings)"
  shows "ends_with env settings c' final \<and> attempt c' = attempt c \<and> Log c' = Log c \<and> Runs c' = Runs c \<and>
    RetrySession c' \<in> {None, RetrySession c}"
proof -
  have "MaxRetries settings \<le> RetryNumber c \<Longrightarrow> attempt c = unat (MaxRetries settings)"
    using assms(3) by (simp add: word_le_nat_alt)
  moreover have "CalcBackoffTime x b k = None \<Longrightarrow> 32 \<le> Ceiling b" for x b k
    by (auto simp: CalcBackoffTime_def Let_def min_def not_less split: if_splits)
  moreover have "\<not> ShouldRetryStatus SUCCESS settings"
    by (simp add: ShouldRetryStatus_def GetRetryDecision_def)
  ultimately show ?thesis
    using assms(1,2)
    by (auto simp: DoNext_def Let_def ends_with_def stopped_def ShouldRetryStatus_def GetRetryDelay_def
        split: if_splits option.splits)
qed

lemma Retry_result:
  assumes "Retry async env settings c = (final, c')" "loop_inv settings c" "runs_before c"
  shows "ends_with env settings c' final \<and> loop_inv settings c' \<and> runs_upto c'"
  using assms
proof (induction async env settings c arbitrary: final c' rule: Retry.induct)
  case (1 async env settings c)
  obtain x c1 where a: "RunAttempt env settings c = (x, c1)" by (cases "RunAttempt env settings c")
  note inv = RunAttempt_inv [OF a 1(3,4)]
  show ?case
  proof (cases x)
    case (Inl f)
    then show ?thesis using 1(2) a inv RunAttempt_final by (simp add: Retry.simps)
  next
    case (Inr result)
    have r: "attempt_result env (attempt c1) result"
      using RunAttempt_result [of env settings c result c1] RunAttempt_context(1) [OF a] a Inr by simp
    obtain y c2 where d: "DoNext async env settings result c1 = (y, c2)" by (cases "DoNext async env settings result c1")
    show ?thesis
    proof (cases y)
      case (Some f)
      have "attempt c1 \<le> unat (MaxRetries settings)" using inv(1) by (simp add: loop_inv_def)
      note e = DoNext_final [OF d [unfolded Some] r this]
      have "loop_inv settings c2" "runs_upto c2"
        using inv e by (auto simp: loop_inv_def runs_upto_def session_kept_def split: option.splits)
      then show ?thesis using 1(2) a d Inr Some e by (simp add: Retry.simps)
    next
      case None
      have "Retry async env settings c2 = (final, c')"
        using 1(2) a d Inr None by (simp add: Retry.simps [of async env settings c])
      then show ?thesis
        using 1(1) [OF a [symmetric] Inr d [symmetric] None] DoNext_inv [OF d [unfolded None] inv] by blast
    qed
  qed
qed

lemma new_context_inv: "loop_inv settings new_context" "runs_before new_context"
  by (simp_all add: loop_inv_def runs_before_def new_context_def session_kept_def)

lemma sorted_bound:
  "sorted_wrt (<) ns \<Longrightarrow> \<forall>i \<in> set ns. i \<le> (n::nat) \<Longrightarrow> length ns \<le> Suc n"
  using card_mono [of "{..n}" "set ns"] distinct_card [of ns] strict_sorted_iff [of ns] by (auto simp: subset_iff)

text \<open>The statuses after which the operation has certainly not been executed, or may be executed again.\<close>

definition safe_status :: "EStatus \<Rightarrow> bool" where
  "safe_status status \<longleftrightarrow> status \<in> {ABORTED, OVERLOADED, CLIENT_RESOURCE_EXHAUSTED, UNAVAILABLE, BAD_SESSION, SESSION_BUSY, NOT_FOUND}"

lemma retried_is_safe:
  "ShouldRetryStatus status settings \<Longrightarrow> \<not> RetryUndefined settings \<Longrightarrow>
   safe_status status \<or> Idempotent settings \<and> status \<in> {UNDETERMINED, TRANSPORT_UNAVAILABLE}"
  by (auto simp: ShouldRetryStatus_def GetRetryDecision_def safe_status_def split: if_splits)

section \<open>An example\<close>

definition example_env :: "EStatus retry_env" where
  "example_env = \<lparr>WithSession = True, GetRetryStatus = id, MakeRetryResultFromStatus = id, StopRequested = (\<lambda>_ _. False),
     GetSession = (\<lambda>_. SessionReady),
     Operation = (\<lambda>n. Returned (if n = 0 then ABORTED else if n = 1 then BAD_SESSION else SUCCESS)),
     Elapsed = (\<lambda>_. 0), RandomNumber = (\<lambda>_. 0)\<rparr>"

lemmas attempt_defs = RunAttempt_def execute_def run_operation_def DoNext_def stopped_def GetRetryDelay_def GetRetryDecision_def
  example_env_def default_settings_def status_codes

lemma example_run:
  "Retry False example_env default_settings new_context =
     (Result SUCCESS, \<lparr>RetryNumber = 2, RetrySession = Some 2, Log = [(ABORTED, 0), (BAD_SESSION, 0)],
                       Runs = [(0, Some 0), (1, Some 0), (2, Some 2)]\<rparr>)"
proof -
  have le: "\<not> (10 :: 32 word) \<le> 1" by (simp add: word_le_nat_alt)
  have "Retry False example_env default_settings new_context =
      Retry False example_env default_settings
        \<lparr>RetryNumber = 1, RetrySession = Some 0, Log = [(ABORTED, 0)], Runs = [(0, Some 0)]\<rparr>"
    by (subst Retry.simps) (simp add: attempt_defs new_context_def DurationMax_def)
  also have "\<dots> = Retry False example_env default_settings
        \<lparr>RetryNumber = 2, RetrySession = None, Log = [(ABORTED, 0), (BAD_SESSION, 0)], Runs = [(0, Some 0), (1, Some 0)]\<rparr>"
    by (subst Retry.simps) (simp add: attempt_defs DurationMax_def le)
  also have "\<dots> = (Result SUCCESS, \<lparr>RetryNumber = 2, RetrySession = Some 2, Log = [(ABORTED, 0), (BAD_SESSION, 0)],
                       Runs = [(0, Some 0), (1, Some 0), (2, Some 2)]\<rparr>)"
    by (subst Retry.simps) (simp add: attempt_defs)
  finally show ?thesis .
qed

section \<open>Properties\<close>

text \<open>
  C13. The loop of attempts ends for every environment, after at most one attempt more than the retries allowed, each attempt
  running the operation at most once. Every attempt but the last had a status that the settings retry, and was followed by a
  delay of at most one hour. The loop ends with a cancellation that was requested, with the exception of its last attempt, or
  with the result of its last attempt: one that is not to be retried, or the retries or the time are used up.
\<close>

theorem retry_bounded:
  assumes "Retry async env settings new_context = (final, c)"
  shows "length (Runs c) \<le> Suc (unat (MaxRetries settings)) \<and> distinct (map fst (Runs c)) \<and>
    length (Log c) = attempt c \<and> attempt c \<le> unat (MaxRetries settings) \<and>
    (\<forall>(status, delay) \<in> set (Log c). ShouldRetryStatus status settings \<and> 0 \<le> delay \<and> delay \<le> 3600000000) \<and>
    ends_with env settings c final"
proof -
  have r: "ends_with env settings c final" "loop_inv settings c" "runs_upto c"
    using Retry_result [OF assms new_context_inv] by simp_all
  then have "length (map fst (Runs c)) \<le> Suc (attempt c)"
    by (intro sorted_bound) (simp_all add: runs_upto_def)
  then show ?thesis
    using r by (auto simp: loop_inv_def runs_upto_def strict_sorted_iff)
qed

theorem retry_bounded_witness:
  "ends_with example_env default_settings
     \<lparr>RetryNumber = 2, RetrySession = Some 2, Log = [(ABORTED, 0), (BAD_SESSION, 0)],
      Runs = [(0, Some 0), (1, Some 0), (2, Some 2)]\<rparr> (Result SUCCESS)"
  using retry_bounded [OF example_run] by simp



text \<open>
  C15. The backoff before a retry is at most the slots of the retry and at most one hour, and at least the share of it that is certain;
  the number of slots doubles with every retry up to the ceiling.
\<close>

theorem backoff_bounds:
  assumes "0 \<le> random" "random \<le> 1" "round64 (UncertainRatio settings) = UncertainRatio settings"
    and "min retryNumber (Ceiling settings) < 32"
    and "unat (SlotDuration settings) * 2 ^ unat (min retryNumber (Ceiling settings)) \<le> 2 ^ 53"
  shows "\<exists>delay. CalcBackoffTime random settings retryNumber = Some delay \<and> 0 \<le> delay \<and>
    delay \<le> min (int (unat (SlotDuration settings) * 2 ^ unat (min retryNumber (Ceiling settings)))) 3600000000 \<and>
    trunc (clamp (round64 (of_nat (unat (SlotDuration settings) * 2 ^ unat (min retryNumber (Ceiling settings))) *
      round64 (1 - clamp (UncertainRatio settings) 0 1))) 0 maxBackoff) \<le> delay"
proof -
  define n where "n = unat (min retryNumber (Ceiling settings))"
  define total where "total = unat (SlotDuration settings) * 2 ^ n"
  define u where "u = clamp (UncertainRatio settings) 0 1"
  define multiplier where "multiplier = round64 (round64 (round64 (random * u) - u) + 1)"
  define delay where "delay = trunc (clamp (round64 (of_nat total * multiplier)) 0 maxBackoff)"
  have n: "n < 32" using assms(4) by (simp add: n_def word_less_nat_alt)
  have total: "total \<le> 2 ^ 53" using assms(5) by (simp add: total_def n_def)
  then have t: "round64 (of_nat total) = of_nat total"
    using round64_of_int [of "int total"] by simp
  have "unat (SlotDuration settings * ucast (push_bit n (1 :: 32 word))) = total"
    unfolding total_def using total n by (intro max_duration) (simp_all add: total_def)
  then have "(unsigned (SlotDuration settings * ucast (push_bit n (1 :: 32 word))) :: rat) = of_nat total"
    by (metis of_nat_unat)
  then have calc: "CalcBackoffTime random settings retryNumber = Some delay"
    using assms(4)
    by (simp add: CalcBackoffTime_def Let_def n_def [symmetric] u_def [symmetric] multiplier_def [symmetric] t delay_def
        del: push_bit_of_1)
  have u: "0 \<le> u" "u \<le> 1" "round64 u = u"
    using assms(3) binary64.rnd_0 binary64.rnd_1 by (auto simp: u_def clamp_def)
  have m: "0 \<le> multiplier" "multiplier \<le> 1"
    using multiplier_bounds [OF assms(1,2) u] by (simp_all add: multiplier_def)
  have p: "round64 (of_nat total * multiplier) \<le> of_nat total"
    using binary64.rnd_le [of "of_nat total * multiplier" "of_nat total"] m by (simp add: t mult_left_le)
  have "0 \<le> delay" by (simp add: delay_def trunc_nonneg clamp_bounds maxBackoff_def)
  moreover have "clamp (round64 (of_nat total * multiplier)) 0 maxBackoff \<le> of_int (int total)"
    using p by (auto simp: clamp_def maxBackoff_def)
  then have "delay \<le> int total"
    using trunc_mono [of "clamp (round64 (of_nat total * multiplier)) 0 maxBackoff" "of_int (int total)"]
    by (simp only: delay_def trunc_of_int)
  moreover have "clamp (round64 (of_nat total * multiplier)) 0 maxBackoff \<le> of_int 3600000000"
    by (simp add: clamp_def maxBackoff_def)
  then have "delay \<le> 3600000000"
    using trunc_mono [of "clamp (round64 (of_nat total * multiplier)) 0 maxBackoff" "of_int 3600000000"]
    by (simp only: delay_def trunc_of_int)
  moreover have "round64 (1 - u) \<le> multiplier"
    using multiplier_lower [OF assms(1) u] by (simp add: multiplier_def)
  then have "clamp (round64 (of_nat total * round64 (1 - u))) 0 maxBackoff \<le> clamp (round64 (of_nat total * multiplier)) 0 maxBackoff"
    by (intro clamp_mono binary64.rnd_mono mult_left_mono) (simp_all add: maxBackoff_def)
  then have "trunc (clamp (round64 (of_nat total * round64 (1 - u))) 0 maxBackoff) \<le> delay"
    by (simp add: delay_def trunc_mono)
  ultimately show ?thesis using calc by (auto simp: total_def n_def u_def)
qed

theorem backoff_bounds_witness:
  "\<exists>delay. CalcBackoffTime 1 DefaultSlowBackoffSettings 3 = Some delay \<and> 0 \<le> delay \<and> delay \<le> 8000000"
proof -
  have "round64 (1 / 2) = 1 / 2"
    using fl_exact [of 1 53 "-1074" "-1"] by (simp add: round64_def)
  then show ?thesis
    using backoff_bounds [of 1 DefaultSlowBackoffSettings 3] by (auto simp: DefaultSlowBackoffSettings_def min_def)
qed

end
