(* ===== verification/Paths.thy ===== *)
theory Paths
  imports Main
begin

text \<open>
  Pointers into a tree of messages. A pointer that the code keeps into a message under construction is the
  list of steps from the root; what it reads and what a write through it changes depend only on how one step
  selects and replaces a part. The laws of one step give the laws of pointers once for all kinds of messages.
\<close>

fun get_path :: "('i \<Rightarrow> 'a \<Rightarrow> 'a option) \<Rightarrow> 'i list \<Rightarrow> 'a \<Rightarrow> 'a option" where
  "get_path part [] t = Some t"
| "get_path part (i # a) t = (case part i t of None \<Rightarrow> None | Some u \<Rightarrow> get_path part a u)"

fun update_path ::
  "('i \<Rightarrow> 'a \<Rightarrow> 'a option) \<Rightarrow> ('i \<Rightarrow> 'a \<Rightarrow> 'a \<Rightarrow> 'a) \<Rightarrow> 'i list \<Rightarrow> ('a \<Rightarrow> 'a) \<Rightarrow> 'a \<Rightarrow> 'a" where
  "update_path part set_part [] f t = f t"
| "update_path part set_part (i # a) f t =
     (case part i t of None \<Rightarrow> t | Some u \<Rightarrow> set_part i (update_path part set_part a f u) t)"

locale message_tree =
  fixes part :: "'i \<Rightarrow> 'a \<Rightarrow> 'a option" and set_part :: "'i \<Rightarrow> 'a \<Rightarrow> 'a \<Rightarrow> 'a"
  assumes part_set: "part i t = Some u \<Longrightarrow> part i (set_part i v t) = Some v"
    and set_set: "part i t = Some u \<Longrightarrow> set_part i w (set_part i v t) = set_part i w t"
    and set_same: "part i t = Some u \<Longrightarrow> set_part i u t = t"
begin

lemma get_append: "get_path part (a @ a') t = (case get_path part a t of None \<Rightarrow> None | Some u \<Rightarrow> get_path part a' u)"
  by (induction a arbitrary: t) (auto split: option.splits)

lemma get_update: "get_path part a t = Some u \<Longrightarrow> get_path part a (update_path part set_part a f t) = Some (f u)"
  by (induction a arbitrary: t) (auto simp: part_set split: option.splits)

lemma update_cong:
  "get_path part a t = Some u \<Longrightarrow> update_path part set_part a f t = update_path part set_part a (\<lambda>_. f u) t"
  by (induction a arbitrary: t) (auto split: option.splits)

lemma update_twice:
  "get_path part a t = Some u \<Longrightarrow>
     update_path part set_part a g (update_path part set_part a f t) = update_path part set_part a (\<lambda>_. g (f u)) t"
proof (induction a arbitrary: t)
  case (Cons i a)
  then obtain v where v: "part i t = Some v" "get_path part a v = Some u"
    by (auto split: option.splits)
  then show ?case
    using Cons.IH [OF v(2)] part_set [OF v(1)] set_set [OF v(1)] by simp
qed simp

lemma update_part:
  "get_path part a t = Some u \<Longrightarrow> part i u = Some v \<Longrightarrow>
     update_path part set_part (a @ [i]) f t = update_path part set_part a (\<lambda>_. set_part i (f v) u) t"
  by (induction a arbitrary: t) (auto split: option.splits)

lemma update_same: "get_path part a t = Some u \<Longrightarrow> update_path part set_part a (\<lambda>_. u) t = t"
  by (induction a arbitrary: t) (auto simp: set_same split: option.splits)

end

end
