(* ===== verification/Types.thy ===== *)
theory Types
  imports IntCast
begin

text \<open>
  Types of YDB values: the message \<^verbatim>\<open>Ydb.Type\<close> of \<^verbatim>\<open>api/protos/ydb_value.proto\<close>, the traversal
  \<^verbatim>\<open>TTypeParser\<close> and the printing \<^verbatim>\<open>FormatType\<close> of \<^verbatim>\<open>client/value/value.cpp\<close>, and the comparison
  \<^verbatim>\<open>TypesEqual\<close> of \<^verbatim>\<open>client/impl/internal/value_helpers\<close>. A parser holds the stack of messages from
  the root to its position, the top first; a message that is not set reads as the default one. Errors are
  values: a thrown contract violation, a null or a dangling position, a pointer cast to the wrong message, or
  fuel that ran out.
\<close>

section \<open>Messages\<close>

datatype 'a VariantType = VariantNotSet | TupleItems "'a list" | StructItems "(string \<times> 'a) list"

datatype Type =
    TypeNotSet
  | TypeId "32 word"
  | DecimalType "32 word" "32 word"
  | OptionalType Type
  | ListType Type
  | TupleType "Type list"
  | StructType "(string \<times> Type) list"
  | DictType Type Type
  | VariantOf "Type VariantType"
  | TaggedType string Type
  | VoidType
  | NullType
  | EmptyListType
  | EmptyDictType
  | PgType string string "32 word" "32 word" "32 word"

datatype ETypeKind =
    Primitive | Decimal | Optional | List | Tuple | Struct | Dict | Variant | Void | Null
  | EmptyList | EmptyDict | Tagged | Pg

record TDecimalType =
  Precision :: "8 word"
  Scale :: "8 word"

record TPgType =
  TypeName :: string
  TypeModifier :: string
  Oid :: "32 word"
  Typlen :: "16 word"
  Typmod :: "32 word"

datatype value_error = FatalError | NullPointer | OutOfRange | OutOfFuel | BadCast

type_synonym 'a result = "value_error + 'a"

definition and_then :: "'a result \<Rightarrow> ('a \<Rightarrow> 'b result) \<Rightarrow> 'b result" where
  "and_then r f = (case r of Inl e \<Rightarrow> Inl e | Inr x \<Rightarrow> f x)"

lemma and_then_simps [simp]:
  "and_then (Inl e) f = Inl e" "and_then (Inr x) f = f x"
  by (simp_all add: and_then_def)

definition CheckKind :: "ETypeKind \<Rightarrow> ETypeKind \<Rightarrow> unit result" where
  "CheckKind actual expected = (if expected \<noteq> actual then Inl FatalError else Inr ())"

fun GetKind :: "Type \<Rightarrow> ETypeKind result" where
  "GetKind (TypeId _) = Inr Primitive"
| "GetKind (DecimalType _ _) = Inr Decimal"
| "GetKind (PgType _ _ _ _ _) = Inr Pg"
| "GetKind (OptionalType _) = Inr Optional"
| "GetKind (ListType _) = Inr List"
| "GetKind (TupleType _) = Inr Tuple"
| "GetKind (StructType _) = Inr Struct"
| "GetKind (DictType _ _) = Inr Dict"
| "GetKind (VariantOf _) = Inr Variant"
| "GetKind VoidType = Inr Void"
| "GetKind NullType = Inr Null"
| "GetKind EmptyListType = Inr EmptyList"
| "GetKind EmptyDictType = Inr EmptyDict"
| "GetKind (TaggedType _ _) = Inr Tagged"
| "GetKind TypeNotSet = Inl FatalError"

section \<open>The parser\<close>

record TProtoPosition =
  Ptr :: "Type option"
  Idx :: int

record TTypeParser =
  ParserType :: Type
  ParserPath :: "TProtoPosition list"

definition Reset :: "TTypeParser \<Rightarrow> TTypeParser" where
  "Reset p = p\<lparr>ParserPath := [\<lparr>Ptr = Some (ParserType p), Idx = -1\<rparr>]\<rparr>"

definition new_parser :: "Type \<Rightarrow> TTypeParser" where
  "new_parser type = Reset \<lparr>ParserType = type, ParserPath = []\<rparr>"

definition GetProto :: "nat \<Rightarrow> TTypeParser \<Rightarrow> Type result" where
  "GetProto offset p =
     (if offset < length (ParserPath p)
      then (case Ptr (ParserPath p ! offset) of None \<Rightarrow> Inl NullPointer | Some t \<Rightarrow> Inr t)
      else Inl OutOfRange)"

definition ParserKind :: "nat \<Rightarrow> TTypeParser \<Rightarrow> ETypeKind result" where
  "ParserKind offset p = and_then (GetProto offset p) GetKind"

definition CheckTopKind :: "ETypeKind \<Rightarrow> TTypeParser \<Rightarrow> unit result" where
  "CheckTopKind kind p = and_then (ParserKind 0 p) (\<lambda>actual. CheckKind actual kind)"

definition CheckPreviousKind :: "ETypeKind \<Rightarrow> TTypeParser \<Rightarrow> unit result" where
  "CheckPreviousKind kind p =
     (if length (ParserPath p) < 2 then Inl FatalError
      else and_then (ParserKind 1 p) (\<lambda>actual. CheckKind actual kind))"

definition BackwardStep :: "TTypeParser \<Rightarrow> TTypeParser" where
  "BackwardStep p = p\<lparr>ParserPath := tl (ParserPath p)\<rparr>"

definition set_back_idx :: "int \<Rightarrow> TTypeParser \<Rightarrow> TTypeParser" where
  "set_back_idx i p =
     (case ParserPath p of [] \<Rightarrow> p | pos # rest \<Rightarrow> p\<lparr>ParserPath := pos\<lparr>Idx := i\<rparr> # rest\<rparr>)"

definition push_position :: "Type option \<Rightarrow> TTypeParser \<Rightarrow> TTypeParser" where
  "push_position ptr p = p\<lparr>ParserPath := \<lparr>Ptr = ptr, Idx = -1\<rparr> # ParserPath p\<rparr>"

text \<open>A step into a tuple or a struct: the index it stops at, whether there is an item, and the next message.\<close>

definition item_step :: "int \<Rightarrow> Type list \<Rightarrow> Type \<Rightarrow> int \<times> bool \<times> Type option" where
  "item_step idx items self =
     (if 0 \<le> idx then
        (let (idx, hasIdx) = (if int (length items) \<le> idx then (int (length items) - 1, False) else (idx, True))
         in (idx, hasIdx, if 0 \<le> idx then Some (items ! nat idx) else None))
      else (idx, True, Some self))"

fun next_position :: "int \<Rightarrow> Type \<Rightarrow> (int \<times> bool \<times> Type option) result" where
  "next_position idx (OptionalType item) = Inr (idx, True, Some item)"
| "next_position idx (ListType item) = Inr (idx, True, Some item)"
| "next_position idx (StructType members) = Inr (item_step idx (map snd members) (StructType members))"
| "next_position idx (TupleType elements) = Inr (item_step idx elements (TupleType elements))"
| "next_position idx (DictType key payload) =
     Inr (idx, True, Some (if idx = 0 then key else if idx = 1 then payload else DictType key payload))"
| "next_position idx (VariantOf (TupleItems elements)) = Inr (idx, True, Some (TupleType elements))"
| "next_position idx (VariantOf (StructItems members)) = Inr (idx, True, Some (StructType members))"
| "next_position idx (TaggedType tag item) = Inr (idx, True, Some item)"
| "next_position idx _ = Inl FatalError"

definition ForwardStep :: "TTypeParser \<Rightarrow> (bool \<times> TTypeParser) result" where
  "ForwardStep p =
     and_then (GetProto 0 p) (\<lambda>t.
     and_then (next_position (Idx (hd (ParserPath p))) t) (\<lambda>(idx, hasIdx, nextPtr).
       Inr (hasIdx, push_position nextPtr (set_back_idx idx p))))"

definition Open :: "ETypeKind \<Rightarrow> TTypeParser \<Rightarrow> TTypeParser result" where
  "Open kind p = and_then (CheckTopKind kind p) (\<lambda>_. and_then (ForwardStep p) (\<lambda>(_, p). Inr p))"

definition Close :: "ETypeKind \<Rightarrow> TTypeParser \<Rightarrow> TTypeParser result" where
  "Close kind p = and_then (CheckPreviousKind kind p) (\<lambda>_. Inr (set_back_idx (-1) (BackwardStep p)))"

definition TryNext :: "ETypeKind \<Rightarrow> TTypeParser \<Rightarrow> (bool \<times> TTypeParser) result" where
  "TryNext kind p =
     and_then (CheckPreviousKind kind p) (\<lambda>_.
       let p = BackwardStep p in ForwardStep (set_back_idx (Idx (hd (ParserPath p)) + 1) p))"

definition dict_step :: "int \<Rightarrow> TTypeParser \<Rightarrow> TTypeParser result" where
  "dict_step i p =
     and_then (CheckPreviousKind Dict p) (\<lambda>_.
     and_then (ForwardStep (set_back_idx i (BackwardStep p))) (\<lambda>(_, p). Inr p))"

definition DictKey :: "TTypeParser \<Rightarrow> TTypeParser result" where
  "DictKey p = dict_step 0 p"

definition DictPayload :: "TTypeParser \<Rightarrow> TTypeParser result" where
  "DictPayload p = dict_step 1 p"

definition GetPrimitive :: "TTypeParser \<Rightarrow> (32 word) result" where
  "GetPrimitive p =
     and_then (CheckTopKind Primitive p) (\<lambda>_. and_then (GetProto 0 p) (\<lambda>t.
       Inr (case t of TypeId i \<Rightarrow> i | _ \<Rightarrow> 0)))"

definition GetDecimal :: "TTypeParser \<Rightarrow> TDecimalType result" where
  "GetDecimal p =
     and_then (CheckTopKind Decimal p) (\<lambda>_. and_then (GetProto 0 p) (\<lambda>t.
       Inr (case t of
              DecimalType precision scale \<Rightarrow> \<lparr>Precision = ucast precision, Scale = ucast scale\<rparr>
            | _ \<Rightarrow> \<lparr>Precision = 0, Scale = 0\<rparr>)))"

definition GetPg :: "TTypeParser \<Rightarrow> TPgType result" where
  "GetPg p =
     and_then (CheckTopKind Pg p) (\<lambda>_. and_then (GetProto 0 p) (\<lambda>t.
       Inr (case t of
              PgType name modifier oid typlen typmod \<Rightarrow>
                \<lparr>TypeName = name, TypeModifier = modifier, Oid = oid, Typlen = ucast typlen, Typmod = typmod\<rparr>
            | _ \<Rightarrow> \<lparr>TypeName = [], TypeModifier = [], Oid = 0, Typlen = 0, Typmod = 0\<rparr>)))"

definition GetMemberName :: "TTypeParser \<Rightarrow> string result" where
  "GetMemberName p =
     and_then (CheckPreviousKind Struct p) (\<lambda>_. and_then (GetProto 1 p) (\<lambda>t.
       let members = (case t of StructType members \<Rightarrow> members | _ \<Rightarrow> []); idx = Idx (ParserPath p ! 1)
       in if 0 \<le> idx \<and> idx < int (length members) then Inr (fst (members ! nat idx)) else Inl OutOfRange))"

definition GetTag :: "TTypeParser \<Rightarrow> string result" where
  "GetTag p =
     and_then (CheckPreviousKind Tagged p) (\<lambda>_. and_then (GetProto 1 p) (\<lambda>t.
       Inr (case t of TaggedType tag _ \<Rightarrow> tag | _ \<Rightarrow> [])))"

text \<open>The index of a variant alternative arrives as a signed 32-bit number.\<close>

definition variant_item :: "int \<Rightarrow> 'a list \<Rightarrow> 'a result" where
  "variant_item index items =
     (if int (length items) \<le> index then Inl FatalError
      else if index < 0 then Inl OutOfRange else Inr (items ! nat index))"

definition OpenVariantAt :: "int \<Rightarrow> TTypeParser \<Rightarrow> TTypeParser result" where
  "OpenVariantAt index p =
     and_then (CheckTopKind Variant p) (\<lambda>_. and_then (GetProto 0 p) (\<lambda>t.
     and_then
       (case t of
          VariantOf (TupleItems elements) \<Rightarrow> variant_item index elements
        | VariantOf (StructItems members) \<Rightarrow> variant_item index (map snd members)
        | _ \<Rightarrow> Inl FatalError) (\<lambda>next.
       Inr (push_position (Some next) p))))"

definition OpenOptional :: "TTypeParser \<Rightarrow> TTypeParser result" where "OpenOptional p = Open Optional p"
definition CloseOptional :: "TTypeParser \<Rightarrow> TTypeParser result" where "CloseOptional p = Close Optional p"
definition OpenList :: "TTypeParser \<Rightarrow> TTypeParser result" where "OpenList p = Open List p"
definition CloseList :: "TTypeParser \<Rightarrow> TTypeParser result" where "CloseList p = Close List p"
definition OpenStruct :: "TTypeParser \<Rightarrow> TTypeParser result" where "OpenStruct p = Open Struct p"
definition CloseStruct :: "TTypeParser \<Rightarrow> TTypeParser result" where "CloseStruct p = Close Struct p"
definition TryNextMember :: "TTypeParser \<Rightarrow> (bool \<times> TTypeParser) result" where "TryNextMember p = TryNext Struct p"
definition OpenTuple :: "TTypeParser \<Rightarrow> TTypeParser result" where "OpenTuple p = Open Tuple p"
definition CloseTuple :: "TTypeParser \<Rightarrow> TTypeParser result" where "CloseTuple p = Close Tuple p"
definition TryNextElement :: "TTypeParser \<Rightarrow> (bool \<times> TTypeParser) result" where "TryNextElement p = TryNext Tuple p"
definition OpenDict :: "TTypeParser \<Rightarrow> TTypeParser result" where "OpenDict p = Open Dict p"
definition CloseDict :: "TTypeParser \<Rightarrow> TTypeParser result" where "CloseDict p = Close Dict p"
definition OpenVariantIndex :: "64 word \<Rightarrow> TTypeParser \<Rightarrow> TTypeParser result" where
  "OpenVariantIndex index p = OpenVariantAt (sint (ucast index :: 32 word)) p"
definition OpenVariant :: "TTypeParser \<Rightarrow> TTypeParser result" where "OpenVariant p = Open Variant p"
definition CloseVariant :: "TTypeParser \<Rightarrow> TTypeParser result" where "CloseVariant p = Close Variant p"
definition OpenTagged :: "TTypeParser \<Rightarrow> TTypeParser result" where "OpenTagged p = Open Tagged p"
definition CloseTagged :: "TTypeParser \<Rightarrow> TTypeParser result" where "CloseTagged p = Close Tagged p"

lemmas parser_wrappers = OpenOptional_def CloseOptional_def OpenList_def CloseList_def OpenStruct_def CloseStruct_def
  TryNextMember_def OpenTuple_def CloseTuple_def TryNextElement_def OpenDict_def CloseDict_def OpenVariantIndex_def
  OpenVariant_def CloseVariant_def OpenTagged_def CloseTagged_def DictKey_def DictPayload_def

section \<open>Printing\<close>

text \<open>
  The names of the primitive types come from generated code and are an argument. The stream is the text
  written so far. Every call takes one unit of fuel.
\<close>

fun FormatTypeInternal ::
  "(32 word \<Rightarrow> string) \<Rightarrow> nat \<Rightarrow> TTypeParser \<Rightarrow> string \<Rightarrow> (TTypeParser \<times> string) result"
and FormatTuple_loop ::
  "(32 word \<Rightarrow> string) \<Rightarrow> nat \<Rightarrow> bool \<Rightarrow> TTypeParser \<Rightarrow> string \<Rightarrow> (TTypeParser \<times> string) result"
and FormatStruct_loop ::
  "(32 word \<Rightarrow> string) \<Rightarrow> nat \<Rightarrow> bool \<Rightarrow> TTypeParser \<Rightarrow> string \<Rightarrow> (TTypeParser \<times> string) result"
where
  "FormatTypeInternal prim 0 p out = Inl OutOfFuel"
| "FormatTypeInternal prim (Suc n) p out =
     and_then (ParserKind 0 p) (\<lambda>kind. case kind of
       Primitive \<Rightarrow> and_then (GetPrimitive p) (\<lambda>i. Inr (p, out @ prim i))
     | Decimal \<Rightarrow> and_then (GetDecimal p) (\<lambda>d.
         Inr (p, out @ ''Decimal('' @ show_ui32 (ucast (Precision d)) @ '','' @ show_ui32 (ucast (Scale d)) @ '')''))
     | Pg \<Rightarrow> and_then (GetPg p) (\<lambda>pg.
         Inr (p, out @ ''Pg('' @ [CHR 0x27] @ TypeName pg @ [CHR 0x27, CHR '','', CHR 0x27] @ TypeModifier pg @ [CHR 0x27, CHR '',''] @
           show_ui32 (Oid pg) @ '','' @ show_int (sint (Typlen pg)) @ '','' @ show_int (sint (Typmod pg)) @ '')''))
     | Optional \<Rightarrow>
         and_then (OpenOptional p) (\<lambda>p.
         and_then (FormatTypeInternal prim n p out) (\<lambda>(p, out).
         and_then (CloseOptional p) (\<lambda>p. Inr (p, out @ ''?''))))
     | Tagged \<Rightarrow>
         and_then (OpenTagged p) (\<lambda>p.
         and_then (FormatTypeInternal prim n p (out @ ''Tagged<'')) (\<lambda>(p, out).
         and_then (GetTag p) (\<lambda>tag.
         and_then (CloseTagged p) (\<lambda>p. Inr (p, out @ [CHR '','', CHR 0x27] @ tag @ [CHR 0x27, CHR ''>''])))))
     | List \<Rightarrow>
         and_then (OpenList p) (\<lambda>p.
         and_then (FormatTypeInternal prim n p (out @ ''List<'')) (\<lambda>(p, out).
         and_then (CloseList p) (\<lambda>p. Inr (p, out @ ''>''))))
     | Tuple \<Rightarrow>
         and_then (OpenTuple p) (\<lambda>p.
         and_then (FormatTuple_loop prim n False p (out @ ''Tuple<'')) (\<lambda>(p, out).
         and_then (CloseTuple p) (\<lambda>p. Inr (p, out @ ''>''))))
     | Struct \<Rightarrow>
         and_then (OpenStruct p) (\<lambda>p.
         and_then (FormatStruct_loop prim n False p (out @ ''Struct<'')) (\<lambda>(p, out).
         and_then (CloseStruct p) (\<lambda>p. Inr (p, out @ ''>''))))
     | Dict \<Rightarrow>
         and_then (OpenDict p) (\<lambda>p.
         and_then (DictKey p) (\<lambda>p.
         and_then (FormatTypeInternal prim n p (out @ ''Dict<'')) (\<lambda>(p, out).
         and_then (DictPayload p) (\<lambda>p.
         and_then (FormatTypeInternal prim n p (out @ '','')) (\<lambda>(p, out).
         and_then (CloseDict p) (\<lambda>p. Inr (p, out @ ''>'')))))))
     | Variant \<Rightarrow> Inr (p, out)
     | Void \<Rightarrow> Inr (p, out @ ''Void'')
     | Null \<Rightarrow> Inr (p, out @ ''Null'')
     | EmptyList \<Rightarrow> Inr (p, out @ ''EmptyList'')
     | EmptyDict \<Rightarrow> Inr (p, out @ ''EmptyDict''))"
| "FormatTuple_loop prim 0 needsComma p out = Inl OutOfFuel"
| "FormatTuple_loop prim (Suc n) needsComma p out =
     and_then (TryNextElement p) (\<lambda>(more, p).
       if \<not> more then Inr (p, out)
       else and_then (FormatTypeInternal prim n p (out @ (if needsComma then '','' else []))) (\<lambda>(p, out).
         FormatTuple_loop prim n True p out))"
| "FormatStruct_loop prim 0 needsComma p out = Inl OutOfFuel"
| "FormatStruct_loop prim (Suc n) needsComma p out =
     and_then (TryNextMember p) (\<lambda>(more, p).
       if \<not> more then Inr (p, out)
       else and_then (GetMemberName p) (\<lambda>name.
         and_then (FormatTypeInternal prim n p
           (out @ (if needsComma then '','' else []) @ [CHR 0x27] @ name @ [CHR 0x27, CHR '':''])) (\<lambda>(p, out).
         FormatStruct_loop prim n True p out)))"

definition FormatType :: "(32 word \<Rightarrow> string) \<Rightarrow> nat \<Rightarrow> Type \<Rightarrow> string result" where
  "FormatType prim fuel type =
     and_then (FormatTypeInternal prim fuel (new_parser type) []) (\<lambda>(_, out). Inr out)"

section \<open>Comparison\<close>

fun TypesEqual :: "Type \<Rightarrow> Type \<Rightarrow> bool result"
and elements_equal :: "Type list \<Rightarrow> Type list \<Rightarrow> bool result"
and members_equal :: "(string \<times> Type) list \<Rightarrow> (string \<times> Type) list \<Rightarrow> bool result"
where
  "TypesEqual t1 t2 =
     (case (t1, t2) of
        (TypeId a, TypeId b) \<Rightarrow> Inr (a = b)
      | (DecimalType p1 s1, DecimalType p2 s2) \<Rightarrow> Inr (p1 = p2 \<and> s1 = s2)
      | (PgType n1 m1 _ _ _, PgType n2 m2 _ _ _) \<Rightarrow> Inr (n1 = n2 \<and> m1 = m2)
      | (OptionalType a, OptionalType b) \<Rightarrow> TypesEqual a b
      | (TaggedType tag1 a, TaggedType tag2 b) \<Rightarrow> if tag1 = tag2 then TypesEqual a b else Inr False
      | (ListType a, ListType b) \<Rightarrow> TypesEqual a b
      | (TupleType as, TupleType bs) \<Rightarrow> if length as \<noteq> length bs then Inr False else elements_equal as bs
      | (StructType as, StructType bs) \<Rightarrow> if length as \<noteq> length bs then Inr False else members_equal as bs
      | (DictType k1 v1, DictType k2 v2) \<Rightarrow>
          and_then (TypesEqual k1 k2) (\<lambda>b. if b then TypesEqual v1 v2 else Inr False)
      | (VariantOf (TupleItems as), VariantOf (TupleItems bs)) \<Rightarrow>
          if length as \<noteq> length bs then Inr False else elements_equal as bs
      | (VariantOf (StructItems as), VariantOf (StructItems bs)) \<Rightarrow>
          if length as \<noteq> length bs then Inr False else members_equal as bs
      | (VariantOf VariantNotSet, VariantOf VariantNotSet) \<Rightarrow> Inl FatalError
      | (VoidType, VoidType) \<Rightarrow> Inr True
      | (NullType, NullType) \<Rightarrow> Inr True
      | (EmptyListType, EmptyListType) \<Rightarrow> Inr True
      | (EmptyDictType, EmptyDictType) \<Rightarrow> Inr True
      | (TypeNotSet, TypeNotSet) \<Rightarrow> Inl FatalError
      | _ \<Rightarrow> Inr False)"
| "elements_equal (a # as) (b # bs) =
     and_then (TypesEqual a b) (\<lambda>eq. if eq then elements_equal as bs else Inr False)"
| "elements_equal _ _ = Inr True"
| "members_equal ((n1, a) # as) ((n2, b) # bs) =
     (if n1 \<noteq> n2 then Inr False
      else and_then (TypesEqual a b) (\<lambda>eq. if eq then members_equal as bs else Inr False))"
| "members_equal _ _ = Inr True"

declare TypesEqual.simps [simp del]

section \<open>The printed text\<close>

fun all_results :: "'a result list \<Rightarrow> 'a list result" where
  "all_results [] = Inr []"
| "all_results (r # rs) = and_then r (\<lambda>x. and_then (all_results rs) (\<lambda>xs. Inr (x # xs)))"

fun comma_text :: "bool \<Rightarrow> string list \<Rightarrow> string" where
  "comma_text needsComma [] = []"
| "comma_text needsComma (t # ts) = (if needsComma then '','' else []) @ t @ comma_text True ts"

definition quoted :: "string \<Rightarrow> string" where
  "quoted s = [CHR 0x27] @ s @ [CHR 0x27]"

text \<open>The text of a type, by structural recursion on the message.\<close>

fun type_text :: "(32 word \<Rightarrow> string) \<Rightarrow> Type \<Rightarrow> string result" where
  "type_text prim TypeNotSet = Inl FatalError"
| "type_text prim (TypeId i) = Inr (prim i)"
| "type_text prim (DecimalType p s) =
     Inr (''Decimal('' @ show_ui32 (ucast (ucast p :: 8 word)) @ '','' @ show_ui32 (ucast (ucast s :: 8 word)) @ '')'')"
| "type_text prim (OptionalType t) = and_then (type_text prim t) (\<lambda>s. Inr (s @ ''?''))"
| "type_text prim (ListType t) = and_then (type_text prim t) (\<lambda>s. Inr (''List<'' @ s @ ''>''))"
| "type_text prim (TupleType ts) =
     and_then (all_results (map (type_text prim) ts)) (\<lambda>ss. Inr (''Tuple<'' @ comma_text False ss @ ''>''))"
| "type_text prim (StructType ms) =
     and_then (all_results (map (\<lambda>(n, t). and_then (type_text prim t) (\<lambda>s. Inr (quoted n @ '':'' @ s))) ms))
       (\<lambda>ss. Inr (''Struct<'' @ comma_text False ss @ ''>''))"
| "type_text prim (DictType k v) =
     and_then (type_text prim k) (\<lambda>s. and_then (type_text prim v) (\<lambda>s'. Inr (''Dict<'' @ s @ '','' @ s' @ ''>'')))"
| "type_text prim (VariantOf v) = Inr []"
| "type_text prim (TaggedType tag t) =
     and_then (type_text prim t) (\<lambda>s. Inr (''Tagged<'' @ s @ '','' @ quoted tag @ ''>''))"
| "type_text prim VoidType = Inr ''Void''"
| "type_text prim NullType = Inr ''Null''"
| "type_text prim EmptyListType = Inr ''EmptyList''"
| "type_text prim EmptyDictType = Inr ''EmptyDict''"
| "type_text prim (PgType name modifier oid typlen typmod) =
     Inr (''Pg('' @ quoted name @ '','' @ quoted modifier @ '','' @ show_ui32 oid @ '','' @
       show_int (sint (ucast typlen :: 16 word)) @ '','' @ show_int (sint typmod) @ '')'')"

fun format_fuel :: "Type \<Rightarrow> nat" where
  "format_fuel (OptionalType t) = Suc (format_fuel t)"
| "format_fuel (ListType t) = Suc (format_fuel t)"
| "format_fuel (TupleType ts) = Suc (Suc (\<Sum>t \<leftarrow> ts. Suc (format_fuel t)))"
| "format_fuel (StructType ms) = Suc (Suc (\<Sum>(n, t) \<leftarrow> ms. Suc (format_fuel t)))"
| "format_fuel (DictType k v) = Suc (format_fuel k + format_fuel v)"
| "format_fuel (TaggedType tag t) = Suc (format_fuel t)"
| "format_fuel _ = 1"

definition pos :: "Type option \<Rightarrow> int \<Rightarrow> TProtoPosition" where
  "pos ptr i = \<lparr>Ptr = ptr, Idx = i\<rparr>"

lemmas parser_defs = pos_def GetProto_def ParserKind_def CheckTopKind_def CheckPreviousKind_def CheckKind_def
  BackwardStep_def set_back_idx_def push_position_def ForwardStep_def Open_def Close_def TryNext_def dict_step_def
  GetPrimitive_def GetDecimal_def GetPg_def GetMemberName_def GetTag_def parser_wrappers

abbreviation formats :: "(32 word \<Rightarrow> string) \<Rightarrow> Type \<Rightarrow> bool" where
  "formats prim t \<equiv> \<forall>n p rest out. format_fuel t \<le> n \<longrightarrow> ParserPath p = pos (Some t) (- 1) # rest \<longrightarrow>
     FormatTypeInternal prim n p out = and_then (type_text prim t) (\<lambda>s. Inr (p, out @ s))"

lemma FormatTuple_loop_ok:
  assumes "\<forall>t \<in> set todo. formats prim t" "(\<Sum>t \<leftarrow> todo. Suc (format_fuel t)) < n"
    and "ParserPath p = child # pos (Some (TupleType (before @ todo))) (int (length before) - 1) # rest"
  shows "FormatTuple_loop prim n needsComma p out =
    and_then (all_results (map (type_text prim) todo)) (\<lambda>ss.
      Inr (p\<lparr>ParserPath :=
        pos (if before @ todo = [] then None else Some (last (before @ todo))) (- 1) #
        pos (Some (TupleType (before @ todo))) (int (length (before @ todo)) - 1) # rest\<rparr>, out @ comma_text needsComma ss))"
  using assms
proof (induction todo arbitrary: n needsComma p out child before)
  case Nil
  then obtain m where "n = Suc m"
    by (cases n) auto
  moreover have "nat (int (length before) - 1) = length before - 1"
    by simp
  ultimately show ?case
    using Nil.prems(3) by (auto simp: parser_defs item_step_def last_conv_nth)
next
  case (Cons t todo)
  obtain m where n: "n = Suc m" "format_fuel t \<le> m" "(\<Sum>t \<leftarrow> todo. Suc (format_fuel t)) < m"
    using Cons.prems(2) by (cases n) auto
  define p' where "p' = p\<lparr>ParserPath := pos (Some t) (- 1) #
    pos (Some (TupleType ((before @ [t]) @ todo))) (int (length (before @ [t])) - 1) # rest\<rparr>"
  have "TryNextElement p = Inr (True, p')"
    using Cons.prems(3) by (simp add: parser_defs item_step_def p'_def)
  moreover have "FormatTypeInternal prim m p' o' = and_then (type_text prim t) (\<lambda>s. Inr (p', o' @ s))" for o'
    using Cons.prems(1) n(2) by (simp add: p'_def)
  moreover have "FormatTuple_loop prim m True p' o' =
      and_then (all_results (map (type_text prim) todo)) (\<lambda>ss.
        Inr (p'\<lparr>ParserPath :=
          pos (if (before @ [t]) @ todo = [] then None else Some (last ((before @ [t]) @ todo))) (- 1) #
          pos (Some (TupleType ((before @ [t]) @ todo))) (int (length ((before @ [t]) @ todo)) - 1) # rest\<rparr>,
          o' @ comma_text True ss))" for o'
    using Cons.prems(1) n(3) by (intro Cons.IH) (simp_all add: p'_def)
  ultimately show ?case
    by (cases "type_text prim t"; cases "all_results (map (type_text prim) todo)") (simp_all add: n(1) p'_def)
qed

definition member_text :: "(32 word \<Rightarrow> string) \<Rightarrow> string \<times> Type \<Rightarrow> string result" where
  "member_text prim m = and_then (type_text prim (snd m)) (\<lambda>s. Inr (quoted (fst m) @ '':'' @ s))"

lemma FormatStruct_loop_ok:
  assumes "\<forall>(name, t) \<in> set todo. formats prim t" "(\<Sum>(name, t) \<leftarrow> todo. Suc (format_fuel t)) < n"
    and "ParserPath p = child # pos (Some (StructType (before @ todo))) (int (length before) - 1) # rest"
  shows "FormatStruct_loop prim n needsComma p out =
    and_then (all_results (map (member_text prim) todo)) (\<lambda>ss.
      Inr (p\<lparr>ParserPath :=
        pos (if before @ todo = [] then None else Some (snd (last (before @ todo)))) (- 1) #
        pos (Some (StructType (before @ todo))) (int (length (before @ todo)) - 1) # rest\<rparr>, out @ comma_text needsComma ss))"
  using assms
proof (induction todo arbitrary: n needsComma p out child before)
  case Nil
  then obtain m where "n = Suc m"
    by (cases n) auto
  moreover have "nat (int (length before) - 1) = length before - 1"
    by simp
  ultimately show ?case
    using Nil.prems(3) by (auto simp: parser_defs item_step_def last_conv_nth)
next
  case (Cons m todo)
  obtain name t where m: "m = (name, t)"
    by fastforce
  obtain k where n: "n = Suc k" "format_fuel t \<le> k" "(\<Sum>(name, t) \<leftarrow> todo. Suc (format_fuel t)) < k"
    using Cons.prems(2) by (cases n) (auto simp: m)
  define p' where "p' = p\<lparr>ParserPath := pos (Some t) (- 1) #
    pos (Some (StructType ((before @ [m]) @ todo))) (int (length (before @ [m])) - 1) # rest\<rparr>"
  have "TryNextMember p = Inr (True, p')"
    using Cons.prems(3) by (simp add: parser_defs item_step_def p'_def m nth_append)
  moreover have "GetMemberName p' = Inr name"
    by (simp add: parser_defs p'_def m)
  moreover have "FormatTypeInternal prim k p' o' = and_then (type_text prim t) (\<lambda>s. Inr (p', o' @ s))" for o'
    using Cons.prems(1) n(2) by (simp add: p'_def m)
  moreover have "FormatStruct_loop prim k True p' o' =
      and_then (all_results (map (member_text prim) todo)) (\<lambda>ss.
        Inr (p'\<lparr>ParserPath :=
          pos (if (before @ [m]) @ todo = [] then None else Some (snd (last ((before @ [m]) @ todo)))) (- 1) #
          pos (Some (StructType ((before @ [m]) @ todo))) (int (length ((before @ [m]) @ todo)) - 1) # rest\<rparr>,
          o' @ comma_text True ss))" for o'
    using Cons.prems(1) n(3) by (intro Cons.IH) (simp_all add: p'_def)
  ultimately show ?case
    by (cases "type_text prim t"; cases "all_results (map (member_text prim) todo)") (simp_all add: n(1) p'_def m member_text_def [of prim "(name, t)"] quoted_def)
qed

lemma type_text_struct:
  "type_text prim (StructType ms) =
     and_then (all_results (map (member_text prim) ms)) (\<lambda>ss. Inr (''Struct<'' @ comma_text False ss @ ''>''))"
proof -
  have "(\<lambda>(n, t). and_then (type_text prim t) (\<lambda>s. Inr (quoted n @ '':'' @ s))) = member_text prim"
    by (auto simp: fun_eq_iff member_text_def)
  then show ?thesis
    by simp
qed

lemma formatsD:
  "formats prim t \<Longrightarrow> format_fuel t \<le> n \<Longrightarrow>
     FormatTypeInternal prim n (p\<lparr>ParserPath := \<lparr>Ptr = Some t, Idx = - 1\<rparr> # rest\<rparr>) out =
     and_then (type_text prim t) (\<lambda>s. Inr (p\<lparr>ParserPath := \<lparr>Ptr = Some t, Idx = - 1\<rparr> # rest\<rparr>, out @ s))"
  by (simp add: pos_def)

lemma Suc_le_fuel: "Suc k \<le> n \<Longrightarrow> \<exists>m. n = Suc m \<and> k \<le> m"
  by (cases n) auto

lemma same_path: "ParserPath p = path \<Longrightarrow> p\<lparr>ParserPath := path\<rparr> = p"
  by (cases p) simp

lemma formats_tuple:
  assumes "\<forall>t \<in> set ts. formats prim t"
  shows "formats prim (TupleType ts)"
proof (intro allI impI)
  fix n :: nat and p :: TTypeParser and rest out
  assume a: "format_fuel (TupleType ts) \<le> n" "ParserPath p = pos (Some (TupleType ts)) (- 1) # rest"
  then obtain m where m: "n = Suc m" "(\<Sum>t \<leftarrow> ts. Suc (format_fuel t)) < m"
    by (cases n) auto
  define p' where "p' = p\<lparr>ParserPath := pos (Some (TupleType ts)) (- 1) # pos (Some (TupleType ts)) (- 1) # rest\<rparr>"
  have "OpenTuple p = Inr p'"
    using a(2) by (simp add: parser_defs p'_def item_step_def)
  moreover have "FormatTuple_loop prim m False p' o' =
      and_then (all_results (map (type_text prim) ts)) (\<lambda>ss.
        Inr (p'\<lparr>ParserPath := pos (if [] @ ts = [] then None else Some (last ([] @ ts))) (- 1) #
          pos (Some (TupleType ([] @ ts))) (int (length ([] @ ts)) - 1) # rest\<rparr>, o' @ comma_text False ss))" for o'
    using assms m(2) by (intro FormatTuple_loop_ok) (auto simp: p'_def)
  ultimately show "FormatTypeInternal prim n p out = and_then (type_text prim (TupleType ts)) (\<lambda>s. Inr (p, out @ s))"
    using a(2) by (cases "all_results (map (type_text prim) ts)") (simp_all add: m(1) parser_defs p'_def same_path)
qed

lemma formats_struct:
  assumes "\<forall>(name, t) \<in> set ms. formats prim t"
  shows "formats prim (StructType ms)"
proof (intro allI impI)
  fix n :: nat and p :: TTypeParser and rest out
  assume a: "format_fuel (StructType ms) \<le> n" "ParserPath p = pos (Some (StructType ms)) (- 1) # rest"
  then obtain m where m: "n = Suc m" "(\<Sum>(name, t) \<leftarrow> ms. Suc (format_fuel t)) < m"
    by (cases n) auto
  define p' where "p' = p\<lparr>ParserPath := pos (Some (StructType ms)) (- 1) # pos (Some (StructType ms)) (- 1) # rest\<rparr>"
  have "OpenStruct p = Inr p'"
    using a(2) by (simp add: parser_defs p'_def item_step_def)
  moreover have "FormatStruct_loop prim m False p' o' =
      and_then (all_results (map (member_text prim) ms)) (\<lambda>ss.
        Inr (p'\<lparr>ParserPath := pos (if [] @ ms = [] then None else Some (snd (last ([] @ ms)))) (- 1) #
          pos (Some (StructType ([] @ ms))) (int (length ([] @ ms)) - 1) # rest\<rparr>, o' @ comma_text False ss))" for o'
    using assms m(2) by (intro FormatStruct_loop_ok) (auto simp: p'_def)
  ultimately show "FormatTypeInternal prim n p out = and_then (type_text prim (StructType ms)) (\<lambda>s. Inr (p, out @ s))"
    unfolding type_text_struct
    using a(2) by (cases "all_results (map (member_text prim) ms)") (simp_all add: m(1) parser_defs p'_def same_path)
qed

lemma FormatTypeInternal_ok: "formats prim t"
proof (induction t)
  case (OptionalType t)
  from formatsD [OF this] show ?case
    by (cases "type_text prim t") (auto simp: parser_defs same_path dest!: Suc_le_fuel)
next
  case (ListType t)
  from formatsD [OF this] show ?case
    by (cases "type_text prim t") (auto simp: parser_defs same_path dest!: Suc_le_fuel)
next
  case (TaggedType tag t)
  from formatsD [OF this] show ?case
    by (cases "type_text prim t") (auto simp: parser_defs same_path quoted_def dest!: Suc_le_fuel)
next
  case (DictType k v)
  from formatsD [OF this(1)] formatsD [OF this(2)] show ?case
    by (cases "type_text prim k"; cases "type_text prim v") (auto simp: parser_defs same_path dest!: Suc_le_fuel)
next
  case (TupleType ts)
  then show ?case
    by (intro formats_tuple) blast
next
  case (StructType ms)
  then show ?case
    by (intro formats_struct) auto
qed (auto simp: parser_defs quoted_def dest!: Suc_le_fuel)

text \<open>
  C24. Printing a type always returns: with the given fuel, the traversal with the stack of positions prints
  the text that structural recursion on the message gives, a variant being printed as nothing, and it
  fails exactly for a type with an unset part outside of a variant, with a contract violation.
\<close>

theorem FormatType_text:
  assumes "format_fuel t \<le> fuel"
  shows "FormatType prim fuel t = type_text prim t"
  using FormatTypeInternal_ok [of t prim] assms
  by (cases "type_text prim t") (simp_all add: FormatType_def new_parser_def Reset_def pos_def)

theorem FormatType_text_witness:
  "FormatType (\<lambda>_. ''Int32'') 9 (StructType [(''a'', OptionalType (TypeId 1)), (''b'', TupleType [])]) =
     Inr (''Struct<'' @ quoted ''a'' @ '':Int32?,'' @ quoted ''b'' @ '':Tuple<>>'')"
  using FormatType_text [of "StructType [(''a'', OptionalType (TypeId 1)), (''b'', TupleType [])]" 9 "\<lambda>_. ''Int32''"]
  by simp

section \<open>Equality of types\<close>

fun complete :: "Type \<Rightarrow> bool" where
  "complete TypeNotSet = False"
| "complete (OptionalType t) = complete t"
| "complete (ListType t) = complete t"
| "complete (TupleType ts) = list_all complete ts"
| "complete (StructType ms) = list_all (\<lambda>(n, t). complete t) ms"
| "complete (DictType k v) = (complete k \<and> complete v)"
| "complete (VariantOf VariantNotSet) = False"
| "complete (VariantOf (TupleItems ts)) = list_all complete ts"
| "complete (VariantOf (StructItems ms)) = list_all (\<lambda>(n, t). complete t) ms"
| "complete (TaggedType tag t) = complete t"
| "complete _ = True"

text \<open>The details of a Pg type besides its name and its modifier do not count.\<close>

fun erase :: "Type \<Rightarrow> Type" where
  "erase (OptionalType t) = OptionalType (erase t)"
| "erase (ListType t) = ListType (erase t)"
| "erase (TupleType ts) = TupleType (map erase ts)"
| "erase (StructType ms) = StructType (map (\<lambda>(n, t). (n, erase t)) ms)"
| "erase (DictType k v) = DictType (erase k) (erase v)"
| "erase (VariantOf (TupleItems ts)) = VariantOf (TupleItems (map erase ts))"
| "erase (VariantOf (StructItems ms)) = VariantOf (StructItems (map (\<lambda>(n, t). (n, erase t)) ms))"
| "erase (TaggedType tag t) = TaggedType tag (erase t)"
| "erase (PgType name modifier oid typlen typmod) = PgType name modifier 0 0 0"
| "erase t = t"

lemma elements_equal_ok:
  assumes "length as = length bs" "list_all complete as"
    and "\<And>a b. a \<in> set as \<Longrightarrow> complete a \<Longrightarrow> TypesEqual a b = Inr (erase a = erase b)"
  shows "elements_equal as bs = Inr (map erase as = map erase bs)"
  using assms
proof (induction as bs rule: list_induct2)
  case (Cons a as b bs)
  have "TypesEqual a b = Inr (erase a = erase b)" "elements_equal as bs = Inr (map erase as = map erase bs)"
    using Cons.prems by (simp_all add: Cons.IH)
  then show ?case
    by simp
qed simp

lemma members_equal_ok:
  assumes "length as = length bs" "list_all (\<lambda>(n, t). complete t) as"
    and "\<And>m b. m \<in> set as \<Longrightarrow> complete (snd m) \<Longrightarrow> TypesEqual (snd m) b = Inr (erase (snd m) = erase b)"
  shows "members_equal as bs = Inr (map (\<lambda>(n, t). (n, erase t)) as = map (\<lambda>(n, t). (n, erase t)) bs)"
  using assms
proof (induction as bs rule: list_induct2)
  case (Cons m as m' bs)
  obtain n t n' t' where m: "m = (n, t)" "m' = (n', t')"
    by fastforce
  have "TypesEqual t t' = Inr (erase t = erase t')"
      "members_equal as bs = Inr (map (\<lambda>(n, t). (n, erase t)) as = map (\<lambda>(n, t). (n, erase t)) bs)"
    using Cons.prems(1) Cons.prems(2) [of m] Cons.prems(2) by (simp_all add: Cons.IH m)
  then show ?case
    by (simp add: m)
qed simp

lemma TypesEqual_complete: "complete a \<Longrightarrow> TypesEqual a b = Inr (erase a = erase b)"
proof (induction a arbitrary: b)
  case (TupleType ts)
  then show ?case
    using elements_equal_ok [of ts]
    by (cases b rule: erase.cases) (auto simp: TypesEqual.simps dest: map_eq_imp_length_eq)
next
  case (StructType ms)
  then show ?case
    using members_equal_ok [of ms]
    by (cases b rule: erase.cases) (auto simp: TypesEqual.simps dest: map_eq_imp_length_eq)
next
  case (DictType k v)
  then show ?case
    by (cases b rule: erase.cases) (simp_all add: TypesEqual.simps)
next
  case (OptionalType t)
  then show ?case
    by (cases b rule: erase.cases) (simp_all add: TypesEqual.simps)
next
  case (ListType t)
  then show ?case
    by (cases b rule: erase.cases) (simp_all add: TypesEqual.simps)
next
  case (TaggedType tag t)
  then show ?case
    by (cases b rule: erase.cases) (simp_all add: TypesEqual.simps)
next
  case (VariantOf v)
  show ?case
  proof (cases v)
    case VariantNotSet
    then show ?thesis
      using VariantOf.prems by simp
  next
    case (TupleItems ts)
    then show ?thesis
      using elements_equal_ok [of ts] VariantOf
      by (cases b rule: erase.cases) (auto simp: TypesEqual.simps dest: map_eq_imp_length_eq)
  next
    case (StructItems ms)
    have "TypesEqual (snd m) t = Inr (erase (snd m) = erase t)" if "m \<in> set ms" "complete (snd m)" for m t
      using that by (intro VariantOf.IH) (auto simp: StructItems intro!: bexI [of _ m] snds.intros)
    then show ?thesis
      using members_equal_ok [of ms] VariantOf.prems StructItems
      by (cases b rule: erase.cases) (auto simp: TypesEqual.simps dest: map_eq_imp_length_eq)
  qed
next
  case (PgType n m i l d)
  then show ?case
    by (cases b rule: erase.cases) (simp_all add: TypesEqual.simps)
qed ((subst TypesEqual.simps, case_tac b rule: erase.cases, simp_all)+)

text \<open>
  C26. Comparing types decides equality of the messages up to the details of Pg types: it never fails for a
  complete type, whatever the other one is, and so it is reflexive, symmetric and transitive on complete types.
\<close>

theorem TypesEqual_exact:
  assumes "complete t1"
  shows "TypesEqual t1 t2 = Inr (erase t1 = erase t2)"
  by (rule TypesEqual_complete [OF assms])

theorem TypesEqual_exact_witness:
  "TypesEqual (ListType (PgType ''text'' [] 25 0 0)) (ListType (PgType ''text'' [] 0 4 7)) = Inr True"
  using TypesEqual_exact [of "ListType (PgType ''text'' [] 25 0 0)" "ListType (PgType ''text'' [] 0 4 7)"] by simp

section \<open>Traversals\<close>

datatype parser_call =
    CallOpen ETypeKind
  | CallOpenVariant "64 word"
  | CallClose ETypeKind
  | CallTryNext ETypeKind
  | CallDictKey
  | CallDictPayload

fun parser_step :: "parser_call \<Rightarrow> TTypeParser \<Rightarrow> TTypeParser result" where
  "parser_step (CallOpen kind) p = Open kind p"
| "parser_step (CallOpenVariant index) p = OpenVariantIndex index p"
| "parser_step (CallClose kind) p = Close kind p"
| "parser_step (CallTryNext kind) p = and_then (TryNext kind p) (\<lambda>(_, p). Inr p)"
| "parser_step CallDictKey p = DictKey p"
| "parser_step CallDictPayload p = DictPayload p"

inductive traversal :: "Type \<Rightarrow> TTypeParser \<Rightarrow> bool" for root where
  start: "traversal root (new_parser root)"
| step: "traversal root p \<Longrightarrow> parser_step c p = Inr p' \<Longrightarrow> traversal root p'"

fun parts :: "Type \<Rightarrow> Type list" where
  "parts (OptionalType t) = [t]"
| "parts (ListType t) = [t]"
| "parts (TupleType ts) = ts"
| "parts (StructType ms) = map snd ms"
| "parts (DictType k v) = [k, v]"
| "parts (VariantOf (TupleItems ts)) = TupleType ts # ts"
| "parts (VariantOf (StructItems ms)) = StructType ms # map snd ms"
| "parts (TaggedType tag t) = [t]"
| "parts _ = []"

text \<open>What a position may point to, relative to the one below: itself, a part, or nothing in an empty container.\<close>

definition inside :: "Type \<Rightarrow> Type option \<Rightarrow> bool" where
  "inside t ptr = (case ptr of None \<Rightarrow> t = StructType [] \<or> t = TupleType [] | Some u \<Rightarrow> u = t \<or> u \<in> set (parts t))"

fun chain :: "Type \<Rightarrow> Type option list \<Rightarrow> bool" where
  "chain root [] = False"
| "chain root [x] = (x = Some root)"
| "chain root (x # y # ps) = ((\<exists>t. y = Some t \<and> inside t x) \<and> chain root (y # ps))"

abbreviation ptrs :: "TTypeParser \<Rightarrow> Type option list" where
  "ptrs p \<equiv> map Ptr (ParserPath p)"

lemma ptrs_simps [simp]:
  "ptrs (set_back_idx i p) = ptrs p" "ptrs (push_position ptr p) = ptr # ptrs p" "ptrs (BackwardStep p) = tl (ptrs p)"
  by (simp_all add: set_back_idx_def push_position_def BackwardStep_def map_tl split: list.split)

lemma item_step_inside:
  assumes "item_step idx items t = (idx', hasIdx, ptr)" "parts t = items" "items = [] \<Longrightarrow> t = StructType [] \<or> t = TupleType []"
  shows "inside t ptr"
proof -
  have "items ! nat (int (length items) - 1) \<in> set items" if "items \<noteq> []"
    using that by (intro nth_mem) (cases items; simp)
  then show ?thesis
    using assms by (auto simp: item_step_def inside_def split: if_splits)
qed

lemma next_position_inside:
  assumes "next_position idx t = Inr (idx', hasIdx, ptr)"
  shows "inside t ptr"
proof (cases "\<exists>items. t = TupleType items \<or> (\<exists>members. t = StructType members)")
  case True
  then show ?thesis
    using assms item_step_inside [of idx "parts t" t idx' hasIdx ptr] by auto
next
  case False
  then show ?thesis
    using assms by (cases "(idx, t)" rule: next_position.cases) (auto simp: inside_def)
qed

lemma ForwardStep_inside:
  assumes "chain root (ptrs p)" "ForwardStep p = Inr (hasIdx, p')"
  shows "chain root (ptrs p')" "tl (ptrs p') = ptrs p"
proof -
  obtain t idx ptr where t: "GetProto 0 p = Inr t" "next_position (Idx (hd (ParserPath p))) t = Inr (idx, hasIdx, ptr)"
      "p' = push_position ptr (set_back_idx idx p)"
    using assms(2) by (auto simp: ForwardStep_def and_then_def split: sum.splits)
  obtain ps where "ptrs p = Some t # ps"
    using t(1) by (cases "ParserPath p") (auto simp: GetProto_def split: if_splits option.splits)
  then show "chain root (ptrs p')" "tl (ptrs p') = ptrs p"
    using assms(1) next_position_inside [OF t(2)] by (simp_all add: t(3))
qed

lemma ForwardStep_error:
  assumes "chain root (ptrs p)" "ForwardStep p = Inl e" "hd (ptrs p) \<noteq> None"
  shows "e = FatalError"
proof -
  obtain t where "GetProto 0 p = Inr t"
    using assms(1,3) by (cases "ParserPath p") (auto simp: GetProto_def split: option.splits)
  moreover have "next_position i t = Inl e \<Longrightarrow> e = FatalError" for i
    by (cases "(i, t)" rule: next_position.cases) simp_all
  ultimately show ?thesis
    using assms(2) by (auto simp: ForwardStep_def and_then_def split: sum.splits)
qed

lemma chain_back:
  assumes "chain root (ptrs p)" "2 \<le> length (ParserPath p)"
  shows "chain root (tl (ptrs p))" "hd (tl (ptrs p)) \<noteq> None"
proof -
  obtain x y ps where "ParserPath p = x # y # ps"
    using assms(2) by (cases "ParserPath p"; cases "tl (ParserPath p)") auto
  then show "chain root (tl (ptrs p))" "hd (tl (ptrs p)) \<noteq> None"
    using assms(1) by auto
qed

lemma CheckPreviousKind_cases:
  assumes "chain root (ptrs p)"
  shows "CheckPreviousKind kind p = Inl FatalError \<or>
    CheckPreviousKind kind p = Inr () \<and> chain root (tl (ptrs p)) \<and> hd (tl (ptrs p)) \<noteq> None"
proof (cases "2 \<le> length (ParserPath p)")
  case True
  then obtain x y ps where p: "ParserPath p = x # y # ps"
    by (cases "ParserPath p"; cases "tl (ParserPath p)") auto
  obtain t where t: "Ptr y = Some t"
    using assms p by auto
  show ?thesis
    using chain_back [OF assms True] p t by (cases t) (auto simp: CheckPreviousKind_def ParserKind_def GetProto_def CheckKind_def)
qed (simp add: CheckPreviousKind_def)

lemma TryNext_chain:
  assumes "chain root (ptrs p)" "hd (tl (ptrs p)) \<noteq> None" "chain root (tl (ptrs p))"
  shows "case ForwardStep (set_back_idx i (BackwardStep p)) of Inl e \<Rightarrow> e = FatalError | Inr (_, p') \<Rightarrow> chain root (ptrs p')"
  using ForwardStep_error [of root "set_back_idx i (BackwardStep p)"] ForwardStep_inside(1) [of root "set_back_idx i (BackwardStep p)"] assms(2,3)
  by (auto split: sum.splits)

lemma CheckTopKind_cases:
  assumes "chain root (ptrs p)"
  shows "CheckTopKind kind p = Inl FatalError \<or> CheckTopKind kind p = Inl NullPointer \<and> hd (ptrs p) = None \<or>
    (\<exists>t ps. CheckTopKind kind p = Inr () \<and> ptrs p = Some t # ps \<and> GetKind t = Inr kind)"
proof -
  obtain x ps where p: "ParserPath p = x # ps"
    using assms by (cases "ParserPath p") auto
  show ?thesis
  proof (cases "Ptr x")
    case (Some t)
    then show ?thesis
      using p by (cases t) (auto simp: CheckTopKind_def ParserKind_def GetProto_def CheckKind_def)
  qed (use p in \<open>simp add: CheckTopKind_def ParserKind_def GetProto_def\<close>)
qed

lemma small_index:
  assumes "index < (2 ^ 31 :: 64 word)"
  shows "0 \<le> sint (ucast index :: 32 word)"
proof -
  have "uint index < 2 ^ 31"
    using assms by (simp add: word_less_def)
  then have "\<not> bit (uint (ucast index :: 32 word)) 31"
    by (simp add: unsigned_ucast_eq take_bit_int_eq_self bit_iff_odd)
  then show ?thesis
    by (simp add: sint_uint)
qed

lemma parser_step_chain:
  assumes "chain root (ptrs p)"
  shows "case parser_step c p of
      Inl e \<Rightarrow> e = FatalError \<or> e = NullPointer \<and> hd (ptrs p) = None \<or>
        e = OutOfRange \<and> (\<exists>index. c = CallOpenVariant index \<and> 2 ^ 31 \<le> index)
    | Inr p' \<Rightarrow> chain root (ptrs p')"
proof (cases c)
  case (CallClose kind)
  then show ?thesis
    using CheckPreviousKind_cases [OF assms, of kind] by (auto simp: Close_def)
next
  case (CallTryNext kind)
  then show ?thesis
    using CheckPreviousKind_cases [OF assms, of kind] TryNext_chain [OF assms, of "Idx (hd (ParserPath (BackwardStep p))) + 1"]
    by (auto simp: TryNext_def and_then_def Let_def split: sum.splits)
next
  case CallDictKey
  then show ?thesis
    using CheckPreviousKind_cases [OF assms, of Dict] TryNext_chain [OF assms, of 0]
    by (auto simp: DictKey_def dict_step_def and_then_def split: sum.splits)
next
  case CallDictPayload
  then show ?thesis
    using CheckPreviousKind_cases [OF assms, of Dict] TryNext_chain [OF assms, of 1]
    by (auto simp: DictPayload_def dict_step_def and_then_def split: sum.splits)
next
  case (CallOpen kind)
  then show ?thesis
    using CheckTopKind_cases [OF assms, of kind] ForwardStep_error [OF assms] ForwardStep_inside(1) [OF assms]
    by (auto simp: Open_def and_then_def split: sum.splits)
next
  case (CallOpenVariant index)
  define i where "i = sint (ucast index :: 32 word)"
  have i: "i < 0 \<Longrightarrow> 2 ^ 31 \<le> index"
    using small_index [of index] by (force simp: i_def not_le)
  show ?thesis
    using CheckTopKind_cases [OF assms, of Variant]
  proof (elim disjE conjE exE)
    fix t ps
    assume t: "CheckTopKind Variant p = Inr ()" "ptrs p = Some t # ps" "GetKind t = Inr Variant"
    then obtain v where v: "t = VariantOf v"
      by (cases t) auto
    have g: "GetProto 0 p = Inr t"
      using t(2) by (cases "ParserPath p") (auto simp: GetProto_def)
    show ?thesis
      using assms i t(1,2)
      by (cases v) (auto simp: CallOpenVariant OpenVariantIndex_def OpenVariantAt_def g v variant_item_def inside_def i_def [symmetric])
  qed (auto simp: CallOpenVariant OpenVariantIndex_def OpenVariantAt_def)
qed

lemma traversal_chain: "traversal root p \<Longrightarrow> chain root (ptrs p)"
proof (induction rule: traversal.induct)
  case start
  show ?case
    by (simp add: new_parser_def Reset_def)
next
  case (step p c p')
  then show ?case
    using parser_step_chain [of root p c] by simp
qed

text \<open>
  C25. A traversal stays inside its type. After any calls that did not throw, every position is the message
  below it or one of its parts, down to the root. The next call then either moves to such a state again
  or throws a contract violation, with two exceptions: it reads a null position, which a failed \<^verbatim>\<open>TryNext\<close>
  leaves behind in an empty tuple or struct, or it opens a variant with an index of \<open>2\<^sup>31\<close> or more, which the
  range check takes for a negative number.
\<close>

theorem traversal_safe:
  assumes "traversal root p"
  shows "chain root (ptrs p) \<and>
    (case parser_step c p of
       Inl e \<Rightarrow> e = FatalError \<or> e = NullPointer \<and> hd (ptrs p) = None \<or>
         e = OutOfRange \<and> (\<exists>index. c = CallOpenVariant index \<and> 2 ^ 31 \<le> index)
     | Inr p' \<Rightarrow> chain root (ptrs p'))"
  using traversal_chain [OF assms] parser_step_chain by blast

theorem traversal_safe_witness:
  "case parser_step (CallOpen List) (new_parser (ListType VoidType)) of
     Inl e \<Rightarrow> False | Inr p' \<Rightarrow> chain (ListType VoidType) (ptrs p')"
  using traversal_safe [OF traversal.start, of "ListType VoidType" "CallOpen List"]
  by (simp add: parser_defs new_parser_def Reset_def)

text \<open>
  The range check does not stop an index with all bits set: it reads outside of the alternatives.
\<close>

lemma variant_index_unchecked:
  "OpenVariantIndex (- 1) (new_parser (VariantOf (TupleItems [VoidType]))) = Inl OutOfRange"
  by code_simp

end
