(* ===== verification/TypeBuilder.thy ===== *)
theory TypeBuilder
  imports Types Paths "HOL-Library.Sublist"
begin

text \<open>
  The builder of types, \<^verbatim>\<open>TTypeBuilder\<close> of \<^verbatim>\<open>client/value/value.cpp\<close>. It fills one message through a stack of
  pointers into it; a pointer is the address of a part, the list of the steps from the root, and the top of
  the stack comes first. A part that a message does not have is a dangling pointer.
\<close>

section \<open>Parts of a message\<close>

fun child :: "nat \<Rightarrow> Type \<Rightarrow> Type option" where
  "child i (OptionalType t) = (if i = 0 then Some t else None)"
| "child i (ListType t) = (if i = 0 then Some t else None)"
| "child i (TupleType ts) = (if i < length ts then Some (ts ! i) else None)"
| "child i (StructType ms) = (if i < length ms then Some (snd (ms ! i)) else None)"
| "child i (DictType k v) = (if i = 0 then Some k else if i = 1 then Some v else None)"
| "child i (TaggedType tag t) = (if i = 0 then Some t else None)"
| "child i _ = None"

fun set_child :: "nat \<Rightarrow> Type \<Rightarrow> Type \<Rightarrow> Type" where
  "set_child i u (OptionalType t) = OptionalType u"
| "set_child i u (ListType t) = ListType u"
| "set_child i u (TupleType ts) = TupleType (ts[i := u])"
| "set_child i u (StructType ms) = StructType (ms[i := (fst (ms ! i), u)])"
| "set_child i u (DictType k v) = (if i = 0 then DictType u v else DictType k u)"
| "set_child i u (TaggedType tag t) = TaggedType tag u"
| "set_child i u t = t"

abbreviation get_at :: "nat list \<Rightarrow> Type \<Rightarrow> Type option" where
  "get_at \<equiv> get_path child"

abbreviation update_at :: "nat list \<Rightarrow> (Type \<Rightarrow> Type) \<Rightarrow> Type \<Rightarrow> Type" where
  "update_at \<equiv> update_path child set_child"

text \<open>Access for writing: a field of another kind is replaced by an empty one.\<close>

definition mutable_optional_type :: "Type \<Rightarrow> Type" where
  "mutable_optional_type t = (case t of OptionalType u \<Rightarrow> OptionalType u | _ \<Rightarrow> OptionalType TypeNotSet)"
definition mutable_list_type :: "Type \<Rightarrow> Type" where
  "mutable_list_type t = (case t of ListType u \<Rightarrow> ListType u | _ \<Rightarrow> ListType TypeNotSet)"
definition mutable_tuple_type :: "Type \<Rightarrow> Type" where
  "mutable_tuple_type t = (case t of TupleType ts \<Rightarrow> TupleType ts | _ \<Rightarrow> TupleType [])"
definition mutable_struct_type :: "Type \<Rightarrow> Type" where
  "mutable_struct_type t = (case t of StructType ms \<Rightarrow> StructType ms | _ \<Rightarrow> StructType [])"
definition mutable_dict_type :: "Type \<Rightarrow> Type" where
  "mutable_dict_type t = (case t of DictType k v \<Rightarrow> DictType k v | _ \<Rightarrow> DictType TypeNotSet TypeNotSet)"
definition set_tag :: "string \<Rightarrow> Type \<Rightarrow> Type" where
  "set_tag tag t = (case t of TaggedType _ u \<Rightarrow> TaggedType tag u | _ \<Rightarrow> TaggedType tag TypeNotSet)"
definition set_pg :: "TPgType \<Rightarrow> Type \<Rightarrow> Type" where
  "set_pg pg t =
     (case t of
        PgType _ _ oid typlen typmod \<Rightarrow> PgType (TypeName pg) (TypeModifier pg) oid typlen typmod
      | _ \<Rightarrow> PgType (TypeName pg) (TypeModifier pg) 0 0 0)"
definition add_members :: "string \<Rightarrow> Type \<Rightarrow> Type" where
  "add_members name t = (case t of StructType ms \<Rightarrow> StructType (ms @ [(name, TypeNotSet)]) | _ \<Rightarrow> StructType [(name, TypeNotSet)])"
definition add_elements :: "Type \<Rightarrow> Type" where
  "add_elements t = (case t of TupleType ts \<Rightarrow> TupleType (ts @ [TypeNotSet]) | _ \<Rightarrow> TupleType [TypeNotSet])"

section \<open>The builder\<close>

record TTypeBuilder =
  BuiltType :: Type
  BuilderPath :: "nat list list"

definition new_builder :: TTypeBuilder where
  "new_builder = \<lparr>BuiltType = TypeNotSet, BuilderPath = [[]]\<rparr>"

definition BuilderProto :: "nat \<Rightarrow> TTypeBuilder \<Rightarrow> Type result" where
  "BuilderProto offset b =
     (if offset < length (BuilderPath b)
      then (case get_at (BuilderPath b ! offset) (BuiltType b) of None \<Rightarrow> Inl NullPointer | Some t \<Rightarrow> Inr t)
      else Inl OutOfRange)"

definition modify :: "(Type \<Rightarrow> Type) \<Rightarrow> TTypeBuilder \<Rightarrow> TTypeBuilder result" where
  "modify f b =
     and_then (BuilderProto 0 b) (\<lambda>_. Inr (b\<lparr>BuiltType := update_at (hd (BuilderPath b)) f (BuiltType b)\<rparr>))"

definition AddPosition :: "nat list \<Rightarrow> TTypeBuilder \<Rightarrow> TTypeBuilder" where
  "AddPosition a b = b\<lparr>BuilderPath := a # BuilderPath b\<rparr>"

definition PopPosition :: "TTypeBuilder \<Rightarrow> TTypeBuilder" where
  "PopPosition b = b\<lparr>BuilderPath := tl (BuilderPath b)\<rparr>"

definition BuilderKind :: "nat \<Rightarrow> TTypeBuilder \<Rightarrow> ETypeKind result" where
  "BuilderKind offset b = and_then (BuilderProto offset b) GetKind"

definition BuilderCheckPreviousKind :: "ETypeKind \<Rightarrow> TTypeBuilder \<Rightarrow> unit result" where
  "BuilderCheckPreviousKind kind b = and_then (BuilderKind 1 b) (\<lambda>actual. CheckKind actual kind)"

definition CloseContainer :: "ETypeKind \<Rightarrow> TTypeBuilder \<Rightarrow> TTypeBuilder result" where
  "CloseContainer kind b =
     (if length (BuilderPath b) < 2 then Inl FatalError
      else and_then (BuilderCheckPreviousKind kind b) (\<lambda>_. Inr (PopPosition b)))"

definition enter :: "(Type \<Rightarrow> Type) \<Rightarrow> nat \<Rightarrow> TTypeBuilder \<Rightarrow> TTypeBuilder result" where
  "enter f i b = and_then (modify f b) (\<lambda>b. Inr (AddPosition (hd (BuilderPath b) @ [i]) b))"

definition enter_same :: "(Type \<Rightarrow> Type) \<Rightarrow> TTypeBuilder \<Rightarrow> TTypeBuilder result" where
  "enter_same f b = and_then (modify f b) (\<lambda>b. Inr (AddPosition (hd (BuilderPath b)) b))"

definition Build :: "TTypeBuilder \<Rightarrow> (Type \<times> TTypeBuilder) result" where
  "Build b =
     (if 1 < length (BuilderPath b) then Inl FatalError else Inr (BuiltType b, b\<lparr>BuiltType := TypeNotSet\<rparr>))"

definition BuildPrimitive :: "32 word \<Rightarrow> TTypeBuilder \<Rightarrow> TTypeBuilder result" where
  "BuildPrimitive i b = modify (\<lambda>_. TypeId i) b"

definition BuildDecimal :: "TDecimalType \<Rightarrow> TTypeBuilder \<Rightarrow> TTypeBuilder result" where
  "BuildDecimal d b = modify (\<lambda>_. DecimalType (ucast (Precision d)) (ucast (Scale d))) b"

definition BuildPg :: "TPgType \<Rightarrow> TTypeBuilder \<Rightarrow> TTypeBuilder result" where
  "BuildPg pg b = modify (set_pg pg) b"

definition BeginOptional :: "TTypeBuilder \<Rightarrow> TTypeBuilder result" where
  "BeginOptional b = enter mutable_optional_type 0 b"

definition EndOptional :: "TTypeBuilder \<Rightarrow> TTypeBuilder result" where
  "EndOptional b = CloseContainer Optional b"

definition BuildOptional :: "Type \<Rightarrow> TTypeBuilder \<Rightarrow> TTypeBuilder result" where
  "BuildOptional itemType b = modify (\<lambda>_. OptionalType itemType) b"

definition BeginList :: "TTypeBuilder \<Rightarrow> TTypeBuilder result" where
  "BeginList b = enter mutable_list_type 0 b"

definition EndList :: "TTypeBuilder \<Rightarrow> TTypeBuilder result" where
  "EndList b = CloseContainer List b"

definition BuildList :: "Type \<Rightarrow> TTypeBuilder \<Rightarrow> TTypeBuilder result" where
  "BuildList itemType b = modify (\<lambda>_. ListType itemType) b"

definition BeginStruct :: "TTypeBuilder \<Rightarrow> TTypeBuilder result" where
  "BeginStruct b = enter_same mutable_struct_type b"

definition EndStruct :: "TTypeBuilder \<Rightarrow> TTypeBuilder result" where
  "EndStruct b = CloseContainer Struct b"

definition SetType :: "Type \<Rightarrow> TTypeBuilder \<Rightarrow> TTypeBuilder result" where
  "SetType type b = modify (\<lambda>_. type) b"

definition AddMember :: "string \<Rightarrow> TTypeBuilder \<Rightarrow> TTypeBuilder result" where
  "AddMember name b =
     and_then (BuilderCheckPreviousKind Struct b) (\<lambda>_.
     let b = PopPosition b in
     and_then (BuilderProto 0 b) (\<lambda>t.
       enter (add_members name) (case t of StructType ms \<Rightarrow> length ms | _ \<Rightarrow> 0) b))"

definition AddMemberType :: "string \<Rightarrow> Type \<Rightarrow> TTypeBuilder \<Rightarrow> TTypeBuilder result" where
  "AddMemberType name memberType b = and_then (AddMember name b) (SetType memberType)"

definition SelectMember :: "nat \<Rightarrow> TTypeBuilder \<Rightarrow> TTypeBuilder result" where
  "SelectMember index b =
     and_then (BuilderCheckPreviousKind Struct b) (\<lambda>_.
     let b = PopPosition b in
     and_then (BuilderProto 0 b) (\<lambda>t.
       if index < (case t of StructType ms \<Rightarrow> length ms | _ \<Rightarrow> 0) then enter mutable_struct_type index b
       else Inl OutOfRange))"

definition BeginTuple :: "TTypeBuilder \<Rightarrow> TTypeBuilder result" where
  "BeginTuple b = enter_same mutable_tuple_type b"

definition EndTuple :: "TTypeBuilder \<Rightarrow> TTypeBuilder result" where
  "EndTuple b = CloseContainer Tuple b"

definition AddElement :: "TTypeBuilder \<Rightarrow> TTypeBuilder result" where
  "AddElement b =
     and_then (BuilderCheckPreviousKind Tuple b) (\<lambda>_.
     let b = PopPosition b in
     and_then (BuilderProto 0 b) (\<lambda>t.
       enter add_elements (case t of TupleType ts \<Rightarrow> length ts | _ \<Rightarrow> 0) b))"

definition AddElementType :: "Type \<Rightarrow> TTypeBuilder \<Rightarrow> TTypeBuilder result" where
  "AddElementType elementType b = and_then (AddElement b) (SetType elementType)"

definition SelectElement :: "nat \<Rightarrow> TTypeBuilder \<Rightarrow> TTypeBuilder result" where
  "SelectElement index b =
     and_then (BuilderCheckPreviousKind Tuple b) (\<lambda>_.
     let b = PopPosition b in
     and_then (BuilderProto 0 b) (\<lambda>t.
       if index < (case t of TupleType ts \<Rightarrow> length ts | _ \<Rightarrow> 0) then enter mutable_tuple_type index b
       else Inl OutOfRange))"

definition BeginDict :: "TTypeBuilder \<Rightarrow> TTypeBuilder result" where
  "BeginDict b = enter_same mutable_dict_type b"

definition EndDict :: "TTypeBuilder \<Rightarrow> TTypeBuilder result" where
  "EndDict b = CloseContainer Dict b"

definition BuildDictKey :: "TTypeBuilder \<Rightarrow> TTypeBuilder result" where
  "BuildDictKey b =
     and_then (BuilderCheckPreviousKind Dict b) (\<lambda>_. enter mutable_dict_type 0 (PopPosition b))"

definition BuildDictKeyType :: "Type \<Rightarrow> TTypeBuilder \<Rightarrow> TTypeBuilder result" where
  "BuildDictKeyType keyType b = and_then (BuildDictKey b) (SetType keyType)"

definition BuildDictPayload :: "TTypeBuilder \<Rightarrow> TTypeBuilder result" where
  "BuildDictPayload b =
     and_then (BuilderCheckPreviousKind Dict b) (\<lambda>_. enter mutable_dict_type 1 (PopPosition b))"

definition BuildDictPayloadType :: "Type \<Rightarrow> TTypeBuilder \<Rightarrow> TTypeBuilder result" where
  "BuildDictPayloadType payloadType b = and_then (BuildDictPayload b) (SetType payloadType)"

definition BeginTagged :: "string \<Rightarrow> TTypeBuilder \<Rightarrow> TTypeBuilder result" where
  "BeginTagged tag b = enter (set_tag tag) 0 b"

definition EndTagged :: "TTypeBuilder \<Rightarrow> TTypeBuilder result" where
  "EndTagged b = CloseContainer Tagged b"

definition BuildTagged :: "string \<Rightarrow> Type \<Rightarrow> TTypeBuilder \<Rightarrow> TTypeBuilder result" where
  "BuildTagged tag itemType b = modify (\<lambda>_. TaggedType tag itemType) b"

section \<open>Sequences of calls\<close>

datatype builder_call =
    CallPrimitive "32 word" | CallDecimal TDecimalType | CallPg TPgType
  | CallBeginOptional | CallEndOptional | CallOptional Type
  | CallBeginList | CallEndList | CallList Type
  | CallBeginStruct | CallEndStruct | CallAddMember string | CallAddMemberType string Type
  | CallBeginTuple | CallEndTuple | CallAddElement | CallAddElementType Type
  | CallBeginDict | CallEndDict | CallKey | CallKeyType Type | CallPayload | CallPayloadType Type
  | CallBeginTagged string | CallEndTagged | CallTagged string Type

fun builder_step :: "builder_call \<Rightarrow> TTypeBuilder \<Rightarrow> TTypeBuilder result" where
  "builder_step (CallPrimitive i) b = BuildPrimitive i b"
| "builder_step (CallDecimal d) b = BuildDecimal d b"
| "builder_step (CallPg pg) b = BuildPg pg b"
| "builder_step CallBeginOptional b = BeginOptional b"
| "builder_step CallEndOptional b = EndOptional b"
| "builder_step (CallOptional t) b = BuildOptional t b"
| "builder_step CallBeginList b = BeginList b"
| "builder_step CallEndList b = EndList b"
| "builder_step (CallList t) b = BuildList t b"
| "builder_step CallBeginStruct b = BeginStruct b"
| "builder_step CallEndStruct b = EndStruct b"
| "builder_step (CallAddMember n) b = AddMember n b"
| "builder_step (CallAddMemberType n t) b = AddMemberType n t b"
| "builder_step CallBeginTuple b = BeginTuple b"
| "builder_step CallEndTuple b = EndTuple b"
| "builder_step CallAddElement b = AddElement b"
| "builder_step (CallAddElementType t) b = AddElementType t b"
| "builder_step CallBeginDict b = BeginDict b"
| "builder_step CallEndDict b = EndDict b"
| "builder_step CallKey b = BuildDictKey b"
| "builder_step (CallKeyType t) b = BuildDictKeyType t b"
| "builder_step CallPayload b = BuildDictPayload b"
| "builder_step (CallPayloadType t) b = BuildDictPayloadType t b"
| "builder_step (CallBeginTagged tag) b = BeginTagged tag b"
| "builder_step CallEndTagged b = EndTagged b"
| "builder_step (CallTagged tag t) b = BuildTagged tag t b"

fun run_builder :: "builder_call list \<Rightarrow> TTypeBuilder \<Rightarrow> TTypeBuilder result" where
  "run_builder [] b = Inr b"
| "run_builder (c # cs) b = and_then (builder_step c b) (run_builder cs)"

section \<open>Addresses\<close>

interpretation types: message_tree child set_child
proof
  fix i :: nat and t u v w :: Type
  assume c: "child i t = Some u"
  show "child i (set_child i v t) = Some v"
    using c by (cases "(i, t)" rule: child.cases) (auto split: if_splits)
  show "set_child i w (set_child i v t) = set_child i w t"
    using c by (cases t) (auto split: if_splits)
  show "set_child i u t = t"
    using c by (cases t) (auto split: if_splits)
qed

lemmas get_at_append = types.get_append
lemmas get_at_update = types.get_update
lemmas update_at_cong = types.update_cong
lemmas update_at_twice = types.update_twice
lemmas update_at_child = types.update_part
lemmas update_at_id = types.update_same

section \<open>Building a type\<close>

text \<open>The types the calls of the builder can express, and the calls for them.\<close>

fun buildable :: "Type \<Rightarrow> bool" where
  "buildable (TypeId i) = True"
| "buildable (DecimalType p s) = (p < 256 \<and> s < 256)"
| "buildable (PgType n m oid typlen typmod) = (oid = 0 \<and> typlen = 0 \<and> typmod = 0)"
| "buildable (OptionalType t) = buildable t"
| "buildable (ListType t) = buildable t"
| "buildable (TupleType ts) = list_all buildable ts"
| "buildable (StructType ms) = list_all (\<lambda>(n, t). buildable t) ms"
| "buildable (DictType k v) = (buildable k \<and> buildable v)"
| "buildable (TaggedType tag t) = buildable t"
| "buildable _ = False"

fun type_calls :: "Type \<Rightarrow> builder_call list" where
  "type_calls (TypeId i) = [CallPrimitive i]"
| "type_calls (DecimalType p s) = [CallDecimal \<lparr>Precision = ucast p, Scale = ucast s\<rparr>]"
| "type_calls (PgType n m oid typlen typmod) =
     [CallPg \<lparr>TypeName = n, TypeModifier = m, Oid = oid, Typlen = ucast typlen, Typmod = typmod\<rparr>]"
| "type_calls (OptionalType t) = CallBeginOptional # type_calls t @ [CallEndOptional]"
| "type_calls (ListType t) = CallBeginList # type_calls t @ [CallEndList]"
| "type_calls (TupleType ts) = CallBeginTuple # concat (map (\<lambda>t. CallAddElement # type_calls t) ts) @ [CallEndTuple]"
| "type_calls (StructType ms) =
     CallBeginStruct # concat (map (\<lambda>(n, t). CallAddMember n # type_calls t) ms) @ [CallEndStruct]"
| "type_calls (DictType k v) = CallBeginDict # CallKey # type_calls k @ CallPayload # type_calls v @ [CallEndDict]"
| "type_calls (TaggedType tag t) = CallBeginTagged tag # type_calls t @ [CallEndTagged]"
| "type_calls _ = []"

lemma run_builder_append: "run_builder (cs @ cs') b = and_then (run_builder cs b) (run_builder cs')"
  by (induction cs arbitrary: b) (auto simp: and_then_def split: sum.splits)

lemma run_builder_snoc: "run_builder (cs @ [c]) = (\<lambda>b. and_then (run_builder cs b) (builder_step c))"
proof -
  have "run_builder [c] = builder_step c"
    by (auto simp: fun_eq_iff and_then_def split: sum.split)
  then show ?thesis
    by (intro ext) (simp add: run_builder_append)
qed

lemma byte_in_ui32:
  assumes "(w :: 32 word) < 256"
  shows "ucast (ucast w :: 8 word) = w"
proof -
  have "uint w < 256"
    using assms by (simp add: word_less_def)
  then show ?thesis
    by (intro word_uint_eqI) (simp add: unsigned_ucast_eq unsigned_take_bit_eq take_bit_int_eq_self)
qed

lemma builder_ends:
  "builder_step CallEndOptional = CloseContainer Optional" "builder_step CallEndList = CloseContainer List"
  "builder_step CallEndTuple = CloseContainer Tuple" "builder_step CallEndStruct = CloseContainer Struct"
  "builder_step CallEndTagged = CloseContainer Tagged"
  by (auto simp: fun_eq_iff EndOptional_def EndList_def EndTuple_def EndStruct_def EndTagged_def)

definition builds :: "Type \<Rightarrow> bool" where
  "builds t \<longleftrightarrow> (\<forall>root a rest. get_at a root = Some TypeNotSet \<longrightarrow>
     run_builder (type_calls t) \<lparr>BuiltType = root, BuilderPath = a # rest\<rparr> =
       Inr \<lparr>BuiltType = update_at a (\<lambda>_. t) root, BuilderPath = a # rest\<rparr>)"

lemma buildsD:
  "builds t \<Longrightarrow> get_at a root = Some TypeNotSet \<Longrightarrow>
     run_builder (type_calls t) \<lparr>BuiltType = root, BuilderPath = a # rest\<rparr> =
       Inr \<lparr>BuiltType = update_at a (\<lambda>_. t) root, BuilderPath = a # rest\<rparr>"
  by (simp add: builds_def)

lemmas builder_defs = BuilderProto_def modify_def AddPosition_def PopPosition_def BuilderKind_def
  BuilderCheckPreviousKind_def CloseContainer_def enter_def enter_same_def CheckKind_def
  BuildPrimitive_def BuildDecimal_def BuildPg_def BeginOptional_def EndOptional_def BuildOptional_def BeginList_def
  EndList_def BuildList_def BeginStruct_def EndStruct_def SetType_def AddMember_def AddMemberType_def SelectMember_def
  BeginTuple_def EndTuple_def AddElement_def AddElementType_def SelectElement_def BeginDict_def EndDict_def
  BuildDictKey_def BuildDictKeyType_def BuildDictPayload_def BuildDictPayloadType_def BeginTagged_def EndTagged_def
  BuildTagged_def

lemmas mutable_defs = mutable_optional_type_def mutable_list_type_def mutable_tuple_type_def mutable_struct_type_def
  mutable_dict_type_def set_tag_def set_pg_def add_members_def add_elements_def

lemmas close_defs = CloseContainer_def BuilderCheckPreviousKind_def BuilderKind_def BuilderProto_def CheckKind_def
  PopPosition_def

text \<open>A container with one part: enter it, build the part, close it.\<close>

lemma builds_wrapped:
  assumes "builds t" "get_at a root = Some TypeNotSet"
    and "f TypeNotSet = c TypeNotSet" "\<And>u. child 0 (c u) = Some u" "\<And>u v. set_child 0 v (c u) = c v" "\<And>u. GetKind (c u) = Inr kind"
  shows "and_then (enter f 0 \<lparr>BuiltType = root, BuilderPath = a # rest\<rparr>) (\<lambda>b.
    and_then (run_builder (type_calls t) b) (CloseContainer kind)) =
    Inr \<lparr>BuiltType = update_at a (\<lambda>_. c t) root, BuilderPath = a # rest\<rparr>"
proof -
  define r where "r = update_at a f root"
  have g: "get_at a r = Some (c TypeNotSet)"
    using get_at_update [OF assms(2)] assms(3) by (simp add: r_def)
  have e: "enter f 0 \<lparr>BuiltType = root, BuilderPath = a # rest\<rparr> = Inr \<lparr>BuiltType = r, BuilderPath = (a @ [0]) # a # rest\<rparr>"
    using assms(2) by (simp add: builder_defs r_def)
  have "get_at (a @ [0]) r = Some TypeNotSet"
    using g assms(4) by (simp add: get_at_append)
  from buildsD [OF assms(1) this] have b: "run_builder (type_calls t) \<lparr>BuiltType = r, BuilderPath = (a @ [0]) # a # rest\<rparr> =
      Inr \<lparr>BuiltType = update_at (a @ [0]) (\<lambda>_. t) r, BuilderPath = (a @ [0]) # a # rest\<rparr>" .
  have u: "update_at (a @ [0]) (\<lambda>_. t) r = update_at a (\<lambda>_. c t) root"
    using update_at_child [OF g assms(4)] update_at_twice [OF assms(2)] assms(5) by (simp add: r_def)
  have "get_at a (update_at a (\<lambda>_. c t) root) = Some (c t)"
    by (rule get_at_update [OF assms(2)])
  then show ?thesis
    by (simp add: e b u close_defs assms(6))
qed

text \<open>A container with a list of parts: append an empty part, build it, and go on.\<close>

lemma builds_parts:
  assumes step: "\<And>root x before p. get_at a root = Some (c before) \<Longrightarrow>
      builder_step (call p) \<lparr>BuiltType = root, BuilderPath = x # a # rest\<rparr> =
      Inr \<lparr>BuiltType = update_at a (\<lambda>_. c (before @ [part p TypeNotSet])) root, BuilderPath = (a @ [length before]) # a # rest\<rparr>"
    and child: "\<And>before p t. child (length before) (c (before @ [part p t])) = Some t"
    and set_child: "\<And>before p t u. set_child (length before) u (c (before @ [part p t])) = c (before @ [part p u])"
    and parts: "\<forall>p \<in> set todo. builds (ty p)"
    and root: "get_at a root = Some (c before)"
  shows "\<exists>x'. run_builder (concat (map (\<lambda>p. call p # type_calls (ty p)) todo)) \<lparr>BuiltType = root, BuilderPath = x # a # rest\<rparr> =
    Inr \<lparr>BuiltType = update_at a (\<lambda>_. c (before @ map (\<lambda>p. part p (ty p)) todo)) root, BuilderPath = x' # a # rest\<rparr>"
  using parts root
proof (induction todo arbitrary: root before x)
  case Nil
  then show ?case
    using update_at_id [OF Nil.prems(2)] by simp
next
  case (Cons p todo)
  define r where "r = update_at a (\<lambda>_. c (before @ [part p TypeNotSet])) root"
  have g: "get_at a r = Some (c (before @ [part p TypeNotSet]))"
    unfolding r_def by (rule get_at_update [OF Cons.prems(2)])
  have "get_at (a @ [length before]) r = Some TypeNotSet"
    using g child by (simp add: get_at_append)
  then have b: "run_builder (type_calls (ty p)) \<lparr>BuiltType = r, BuilderPath = (a @ [length before]) # a # rest\<rparr> =
      Inr \<lparr>BuiltType = update_at (a @ [length before]) (\<lambda>_. ty p) r, BuilderPath = (a @ [length before]) # a # rest\<rparr>"
    using Cons.prems(1) by (intro buildsD) simp_all
  have u: "update_at (a @ [length before]) (\<lambda>_. ty p) r = update_at a (\<lambda>_. c (before @ [part p (ty p)])) root"
    using update_at_child [OF g child] update_at_twice [OF Cons.prems(2)] set_child by (simp add: r_def)
  define r' where "r' = update_at a (\<lambda>_. c (before @ [part p (ty p)])) root"
  have "get_at a r' = Some (c (before @ [part p (ty p)]))"
    unfolding r'_def by (rule get_at_update [OF Cons.prems(2)])
  from Cons.IH [OF _ this] Cons.prems(1) obtain x' where
    "run_builder (concat (map (\<lambda>p. call p # type_calls (ty p)) todo)) \<lparr>BuiltType = r', BuilderPath = (a @ [length before]) # a # rest\<rparr> =
      Inr \<lparr>BuiltType = update_at a (\<lambda>_. c ((before @ [part p (ty p)]) @ map (\<lambda>p. part p (ty p)) todo)) r', BuilderPath = x' # a # rest\<rparr>"
    by force
  moreover have "update_at a (\<lambda>_. w) r' = update_at a (\<lambda>_. w) root" for w
    unfolding r'_def using update_at_twice [OF Cons.prems(2)] by simp
  ultimately show ?case
    using step [OF Cons.prems(2), of p x] b u by (simp add: run_builder_append r_def r'_def)
qed

lemma builds_container:
  assumes step: "\<And>root x before p. get_at a root = Some (c before) \<Longrightarrow>
      builder_step (call p) \<lparr>BuiltType = root, BuilderPath = x # a # rest\<rparr> =
      Inr \<lparr>BuiltType = update_at a (\<lambda>_. c (before @ [part p TypeNotSet])) root, BuilderPath = (a @ [length before]) # a # rest\<rparr>"
    and child: "\<And>before p t. child (length before) (c (before @ [part p t])) = Some t"
    and set_child: "\<And>before p t u. set_child (length before) u (c (before @ [part p t])) = c (before @ [part p u])"
    and kind: "\<And>ps. GetKind (c ps) = Inr kind" and f: "f TypeNotSet = c []"
    and parts: "\<forall>p \<in> set ps. builds (ty p)"
    and root: "get_at a root = Some TypeNotSet"
  shows "and_then (enter_same f \<lparr>BuiltType = root, BuilderPath = a # rest\<rparr>) (\<lambda>b.
      and_then (run_builder (concat (map (\<lambda>p. call p # type_calls (ty p)) ps)) b) (CloseContainer kind)) =
    Inr \<lparr>BuiltType = update_at a (\<lambda>_. c (map (\<lambda>p. part p (ty p)) ps)) root, BuilderPath = a # rest\<rparr>"
proof -
  define r where "r = update_at a (\<lambda>_. c []) root"
  have e: "enter_same f \<lparr>BuiltType = root, BuilderPath = a # rest\<rparr> = Inr \<lparr>BuiltType = r, BuilderPath = a # a # rest\<rparr>"
    using update_at_cong [OF root, of f] f root by (simp add: builder_defs r_def)
  have "get_at a r = Some (c [])"
    unfolding r_def by (rule get_at_update [OF root])
  from builds_parts [where call = call and part = part and ty = ty and x = a, OF step child set_child parts this] obtain x' where
    b: "run_builder (concat (map (\<lambda>p. call p # type_calls (ty p)) ps)) \<lparr>BuiltType = r, BuilderPath = a # a # rest\<rparr> =
      Inr \<lparr>BuiltType = update_at a (\<lambda>_. c (map (\<lambda>p. part p (ty p)) ps)) r, BuilderPath = x' # a # rest\<rparr>"
    by auto
  have u: "update_at a (\<lambda>_. w) r = update_at a (\<lambda>_. w) root" for w
    unfolding r_def using update_at_twice [OF root] by simp
  have "get_at a (update_at a (\<lambda>_. c (map (\<lambda>p. part p (ty p)) ps)) root) = Some (c (map (\<lambda>p. part p (ty p)) ps))"
    by (rule get_at_update [OF root])
  then show ?thesis
    by (simp add: e b u close_defs kind)
qed

lemma AddElement_step:
  assumes "get_at a root = Some (TupleType before)"
  shows "builder_step CallAddElement \<lparr>BuiltType = root, BuilderPath = x # a # rest\<rparr> =
    Inr \<lparr>BuiltType = update_at a (\<lambda>_. TupleType (before @ [TypeNotSet])) root, BuilderPath = (a @ [length before]) # a # rest\<rparr>"
  using assms update_at_cong [OF assms, of add_elements] by (simp add: builder_defs add_elements_def)

lemma AddMember_step:
  assumes "get_at a root = Some (StructType before)"
  shows "builder_step (CallAddMember n) \<lparr>BuiltType = root, BuilderPath = x # a # rest\<rparr> =
    Inr \<lparr>BuiltType = update_at a (\<lambda>_. StructType (before @ [(n, TypeNotSet)])) root, BuilderPath = (a @ [length before]) # a # rest\<rparr>"
  using assms update_at_cong [OF assms, of "add_members n"] by (simp add: builder_defs add_members_def)

lemma builds_dict:
  assumes "builds k" "builds v"
  shows "builds (DictType k v)"
  unfolding builds_def
proof (intro allI impI)
  fix root a rest
  assume root: "get_at a root = Some TypeNotSet"
  define d where "d = (\<lambda>k v. update_at a (\<lambda>_. DictType k v) root)"
  have g: "get_at a (d k v) = Some (DictType k v)" for k v
    unfolding d_def by (rule get_at_update [OF root])
  have m: "update_at a mutable_dict_type (d k v) = d k v" for k v
    using update_at_cong [OF g, of mutable_dict_type] update_at_id [OF g] by (simp add: mutable_dict_type_def)
  have c: "update_at (a @ [0]) (\<lambda>_. t) (d k v) = d t v" "update_at (a @ [1]) (\<lambda>_. t) (d k v) = d k t" for k v t
    using update_at_child [OF g, of 0] update_at_child [OF g, of 1] update_at_twice [OF root] by (simp_all add: d_def)
  have at: "get_at (a @ [0]) (d TypeNotSet v) = Some TypeNotSet" "get_at (a @ [1]) (d k TypeNotSet) = Some TypeNotSet" for k v
    using g by (simp_all add: get_at_append)
  have "BeginDict \<lparr>BuiltType = root, BuilderPath = a # rest\<rparr> = Inr \<lparr>BuiltType = d TypeNotSet TypeNotSet, BuilderPath = a # a # rest\<rparr>"
    using update_at_cong [OF root, of mutable_dict_type] root by (simp add: builder_defs d_def mutable_dict_type_def)
  moreover have "BuildDictKey \<lparr>BuiltType = d k v, BuilderPath = x # a # rest\<rparr> =
      Inr \<lparr>BuiltType = d k v, BuilderPath = (a @ [0]) # a # rest\<rparr>" for k v x
    using g m by (simp add: builder_defs)
  moreover have "BuildDictPayload \<lparr>BuiltType = d k v, BuilderPath = x # a # rest\<rparr> =
      Inr \<lparr>BuiltType = d k v, BuilderPath = (a @ [1]) # a # rest\<rparr>" for k v x
    using g m by (simp add: builder_defs)
  moreover have "EndDict \<lparr>BuiltType = d k v, BuilderPath = x # a # rest\<rparr> = Inr \<lparr>BuiltType = d k v, BuilderPath = a # rest\<rparr>" for k v x
    using g by (simp add: builder_defs)
  ultimately show "run_builder (type_calls (DictType k v)) \<lparr>BuiltType = root, BuilderPath = a # rest\<rparr> =
      Inr \<lparr>BuiltType = update_at a (\<lambda>_. DictType k v) root, BuilderPath = a # rest\<rparr>"
    using buildsD [OF assms(1) at(1)] buildsD [OF assms(2) at(2)] by (simp add: run_builder_append c [simplified]) (simp add: d_def)
qed

lemma buildable_builds: "buildable t \<Longrightarrow> builds t"
proof (induction t)
  case (OptionalType t)
  then show ?case
    using builds_wrapped [of t _ _ mutable_optional_type OptionalType Optional]
    by (auto simp: builds_def [of "OptionalType t"] run_builder_snoc builder_ends BeginOptional_def mutable_optional_type_def)
next
  case (ListType t)
  then show ?case
    using builds_wrapped [of t _ _ mutable_list_type ListType List]
    by (auto simp: builds_def [of "ListType t"] run_builder_snoc builder_ends BeginList_def mutable_list_type_def)
next
  case (TaggedType tag t)
  then show ?case
    using builds_wrapped [of t _ _ "set_tag tag" "TaggedType tag" Tagged]
    by (auto simp: builds_def [of "TaggedType tag t"] run_builder_snoc builder_ends BeginTagged_def set_tag_def)
next
  case (DictType k v)
  then show ?case
    by (simp add: builds_dict)
next
  case (TupleType ts)
  then have "\<forall>t \<in> set ts. builds t"
    by (simp add: list_all_iff)
  then show ?case
    using builds_container [of _ TupleType "\<lambda>_. CallAddElement" _ "\<lambda>_ t. t" Tuple mutable_tuple_type ts "\<lambda>t. t"] AddElement_step
    by (simp add: builds_def [of "TupleType ts"] run_builder_snoc builder_ends BeginTuple_def mutable_tuple_type_def)
next
  case (StructType ms)
  then have "\<forall>m \<in> set ms. builds (snd m)"
    by (force simp: list_all_iff)
  then show ?case
    using builds_container [of _ StructType "\<lambda>m. CallAddMember (fst m)" _ "\<lambda>m t. (fst m, t)" Struct mutable_struct_type ms snd] AddMember_step
    by (simp add: builds_def [of "StructType ms"] run_builder_snoc builder_ends BeginStruct_def mutable_struct_type_def case_prod_unfold)
next
  case (DecimalType p s)
  then show ?case
    using byte_in_ui32 by (simp add: builds_def builder_defs)
next
  case (PgType n m oid typlen typmod)
  then show ?case
    using update_at_cong [of _ _ TypeNotSet "set_pg _"] by (simp add: builds_def builder_defs set_pg_def)
next
  case (TypeId i)
  show ?case
    by (simp add: builds_def builder_defs)
qed simp_all

text \<open>
  C23. Every type the builder has calls for is built by them: the calls for its structure, on a new builder,
  followed by \<^verbatim>\<open>Build\<close>, give back exactly this type.
\<close>

theorem builder_roundtrip:
  assumes "buildable t"
  shows "and_then (run_builder (type_calls t) new_builder) Build = Inr (t, new_builder)"
  using buildsD [OF buildable_builds [OF assms], of "[]" TypeNotSet "[]"]
  by (simp add: new_builder_def Build_def)

theorem builder_roundtrip_witness:
  "and_then (run_builder [CallBeginStruct, CallAddMember ''a'', CallBeginOptional, CallPrimitive 1, CallEndOptional,
      CallAddMember ''b'', CallBeginTuple, CallEndTuple, CallEndStruct] new_builder) Build =
    Inr (StructType [(''a'', OptionalType (TypeId 1)), (''b'', TupleType [])], new_builder)"
  using builder_roundtrip [of "StructType [(''a'', OptionalType (TypeId 1)), (''b'', TupleType [])]"] by simp

section \<open>Pointers of the builder\<close>

text \<open>Every pointer on the stack extends the one below it, and the deepest one is valid.\<close>

definition builder_inv :: "TTypeBuilder \<Rightarrow> bool" where
  "builder_inv b \<longleftrightarrow> BuilderPath b \<noteq> [] \<and> sorted_wrt (\<lambda>x y. prefix y x) (BuilderPath b) \<and>
     get_at (hd (BuilderPath b)) (BuiltType b) \<noteq> None"

lemma get_at_prefix: "prefix a a' \<Longrightarrow> get_at a' t \<noteq> None \<Longrightarrow> get_at a t \<noteq> None"
  by (auto simp: prefix_def get_at_append split: option.splits)

lemma builder_inv_valid:
  assumes "builder_inv b" "a \<in> set (BuilderPath b)"
  shows "get_at a (BuiltType b) \<noteq> None"
  using assms get_at_prefix [of a "hd (BuilderPath b)" "BuiltType b"]
  by (cases "BuilderPath b") (auto simp: builder_inv_def)

lemma builder_inv_proto:
  assumes "builder_inv b" "offset < length (BuilderPath b)"
  obtains t where "BuilderProto offset b = Inr t" "get_at (BuilderPath b ! offset) (BuiltType b) = Some t"
  using builder_inv_valid [OF assms(1), of "BuilderPath b ! offset"] assms(2) that
  by (auto simp: BuilderProto_def)

lemma modify_ok:
  assumes "builder_inv b"
  obtains t where "get_at (hd (BuilderPath b)) (BuiltType b) = Some t"
    "modify f b = Inr (b\<lparr>BuiltType := update_at (hd (BuilderPath b)) f (BuiltType b)\<rparr>)"
    "builder_inv (b\<lparr>BuiltType := update_at (hd (BuilderPath b)) f (BuiltType b)\<rparr>)"
proof -
  obtain t where "get_at (hd (BuilderPath b)) (BuiltType b) = Some t" "BuilderPath b \<noteq> []"
    using assms by (auto simp: builder_inv_def)
  then show ?thesis
    using that [of t] assms get_at_update by (auto simp: modify_def BuilderProto_def builder_inv_def hd_conv_nth)
qed

lemma enter_ok:
  assumes "builder_inv b" "\<And>t. get_at (hd (BuilderPath b)) (BuiltType b) = Some t \<Longrightarrow> child i (f t) \<noteq> None"
  shows "\<exists>b'. enter f i b = Inr b' \<and> builder_inv b'"
proof (rule modify_ok [OF assms(1), of f])
  fix t
  assume t: "get_at (hd (BuilderPath b)) (BuiltType b) = Some t"
    "modify f b = Inr (b\<lparr>BuiltType := update_at (hd (BuilderPath b)) f (BuiltType b)\<rparr>)"
    "builder_inv (b\<lparr>BuiltType := update_at (hd (BuilderPath b)) f (BuiltType b)\<rparr>)"
  then show ?thesis
    using assms(2) [OF t(1)] get_at_update [OF t(1), of f]
    by (cases "BuilderPath b") (auto simp: enter_def AddPosition_def builder_inv_def get_at_append intro: prefix_order.trans)
qed

lemma enter_same_ok:
  assumes "builder_inv b"
  shows "\<exists>b'. enter_same f b = Inr b' \<and> builder_inv b'"
proof (rule modify_ok [OF assms, of f])
  fix t
  assume "modify f b = Inr (b\<lparr>BuiltType := update_at (hd (BuilderPath b)) f (BuiltType b)\<rparr>)"
    "builder_inv (b\<lparr>BuiltType := update_at (hd (BuilderPath b)) f (BuiltType b)\<rparr>)"
  then show ?thesis
    by (cases "BuilderPath b") (auto simp: enter_same_def AddPosition_def builder_inv_def)
qed

lemma previous_kind_ok:
  assumes "builder_inv b"
  shows "BuilderCheckPreviousKind kind b = Inl OutOfRange \<and> length (BuilderPath b) = 1 \<or>
    BuilderCheckPreviousKind kind b = Inl FatalError \<and> length (BuilderPath b) \<noteq> 1 \<or>
    BuilderCheckPreviousKind kind b = Inr () \<and> builder_inv (PopPosition b) \<and>
      (\<exists>t. get_at (hd (BuilderPath (PopPosition b))) (BuiltType b) = Some t \<and> GetKind t = Inr kind)"
proof (cases "BuilderPath b")
  case Nil
  then show ?thesis
    using assms by (simp add: builder_inv_def)
next
  case (Cons x rest)
  show ?thesis
  proof (cases rest)
    case Nil
    then show ?thesis
      using Cons by (simp add: BuilderCheckPreviousKind_def BuilderKind_def BuilderProto_def)
  next
    case (Cons y ys)
    obtain t where t: "get_at y (BuiltType b) = Some t"
      using builder_inv_valid [OF assms, of y] \<open>BuilderPath b = x # rest\<close> Cons by auto
    have "builder_inv (PopPosition b)"
      using assms t \<open>BuilderPath b = x # rest\<close> Cons by (simp add: builder_inv_def PopPosition_def)
    then show ?thesis
      using t \<open>BuilderPath b = x # rest\<close> Cons
      by (cases t) (auto simp: BuilderCheckPreviousKind_def BuilderKind_def BuilderProto_def CheckKind_def PopPosition_def)
  qed
qed

fun needs_container :: "builder_call \<Rightarrow> bool" where
  "needs_container (CallAddMember n) = True"
| "needs_container (CallAddMemberType n t) = True"
| "needs_container CallAddElement = True"
| "needs_container (CallAddElementType t) = True"
| "needs_container CallKey = True"
| "needs_container (CallKeyType t) = True"
| "needs_container CallPayload = True"
| "needs_container (CallPayloadType t) = True"
| "needs_container _ = False"

definition step_ok :: "bool \<Rightarrow> TTypeBuilder \<Rightarrow> TTypeBuilder result \<Rightarrow> bool" where
  "step_ok c b r \<longleftrightarrow>
     (case r of Inl e \<Rightarrow> e = (if c \<and> length (BuilderPath b) = 1 then OutOfRange else FatalError) | Inr b' \<Rightarrow> builder_inv b')"

lemma modify_step: "builder_inv b \<Longrightarrow> step_ok c b (modify f b)"
  by (erule modify_ok [of b f]) (simp add: step_ok_def)

lemma close_step: "builder_inv b \<Longrightarrow> step_ok False b (CloseContainer kind b)"
  using previous_kind_ok [of b kind] by (auto simp: CloseContainer_def step_ok_def)

lemma enter_step:
  assumes "builder_inv b" "\<And>t. child i (f t) \<noteq> None"
  shows "step_ok c b (enter f i b)"
  using enter_ok [of b i f] assms by (auto simp: step_ok_def)

lemma enter_same_step: "builder_inv b \<Longrightarrow> step_ok c b (enter_same f b)"
  using enter_same_ok [of b f] by (auto simp: step_ok_def)

lemma BuiltType_PopPosition [simp]: "BuiltType (PopPosition b) = BuiltType b"
  by (simp add: PopPosition_def)

lemma container_step:
  assumes "builder_inv b" "\<And>t. GetKind t = Inr kind \<Longrightarrow> child (i t) (f t) \<noteq> None"
  shows "step_ok True b (and_then (BuilderCheckPreviousKind kind b) (\<lambda>_.
    and_then (BuilderProto 0 (PopPosition b)) (\<lambda>t. enter f (i t) (PopPosition b))))"
  using previous_kind_ok [OF assms(1), of kind]
proof (elim disjE conjE exE)
  fix t
  assume c: "BuilderCheckPreviousKind kind b = Inr ()" "builder_inv (PopPosition b)"
    and t: "get_at (hd (BuilderPath (PopPosition b))) (BuiltType b) = Some t" "GetKind t = Inr kind"
  have "BuilderProto 0 (PopPosition b) = Inr t"
    using c(2) t(1) by (auto simp: BuilderProto_def builder_inv_def hd_conv_nth)
  moreover have "\<exists>b'. enter f (i t) (PopPosition b) = Inr b' \<and> builder_inv b'"
    using c(2) t assms(2) by (intro enter_ok) auto
  ultimately show ?thesis
    using c(1) by (auto simp: step_ok_def)
qed (simp_all add: step_ok_def)

lemma dict_part_step:
  assumes "builder_inv b" "i < 2"
  shows "step_ok True b (and_then (BuilderCheckPreviousKind Dict b) (\<lambda>_. enter mutable_dict_type i (PopPosition b)))"
  using previous_kind_ok [OF assms(1), of Dict]
proof (elim disjE conjE exE)
  assume c: "BuilderCheckPreviousKind Dict b = Inr ()" "builder_inv (PopPosition b)"
  have "\<exists>b'. enter mutable_dict_type i (PopPosition b) = Inr b' \<and> builder_inv b'"
    using c(2) assms(2) by (intro enter_ok) (auto simp: mutable_dict_type_def split: Type.splits)
  then show ?thesis
    using c(1) by (auto simp: step_ok_def)
qed (simp_all add: step_ok_def)

lemma set_type_step:
  assumes "step_ok c b r"
  shows "step_ok c b (and_then r (SetType t))"
proof (cases r)
  case (Inr b')
  then have "step_ok c b' (modify (\<lambda>_. t) b')" "\<exists>b''. modify (\<lambda>_. t) b' = Inr b''"
    using assms modify_step [of b'] modify_ok [of b' "\<lambda>_. t"] by (auto simp: step_ok_def)
  then show ?thesis
    using Inr by (auto simp: step_ok_def SetType_def)
qed (use assms in \<open>simp add: step_ok_def\<close>)

lemma AddMember_ok: "builder_inv b \<Longrightarrow> step_ok True b (AddMember n b)"
  unfolding AddMember_def Let_def
  by (rule container_step) (auto simp: add_members_def nth_append split: Type.splits)

lemma AddElement_ok: "builder_inv b \<Longrightarrow> step_ok True b (AddElement b)"
  unfolding AddElement_def Let_def
  by (rule container_step) (auto simp: add_elements_def nth_append split: Type.splits)

lemmas part_steps = AddMember_ok AddElement_ok dict_part_step

lemma builder_step_ok: "builder_inv b \<Longrightarrow> step_ok (needs_container c) b (builder_step c b)"
  by (cases c) (simp_all add: BuildPrimitive_def BuildDecimal_def BuildPg_def BeginOptional_def EndOptional_def BuildOptional_def
      BeginList_def EndList_def BuildList_def BeginStruct_def EndStruct_def AddMemberType_def BeginTuple_def EndTuple_def
      AddElementType_def BeginDict_def EndDict_def BuildDictKey_def BuildDictKeyType_def BuildDictPayload_def
      BuildDictPayloadType_def BeginTagged_def EndTagged_def BuildTagged_def
      modify_step close_step enter_step enter_same_step part_steps set_type_step
      mutable_optional_type_def mutable_list_type_def set_tag_def split: Type.split)

lemma run_builder_inv: "builder_inv b \<Longrightarrow> run_builder cs b = Inr b' \<Longrightarrow> builder_inv b'"
proof (induction cs arbitrary: b)
  case (Cons c cs)
  then obtain b1 where "builder_step c b = Inr b1" "run_builder cs b1 = Inr b'"
    by (auto simp: and_then_def split: sum.splits)
  then show ?case
    using Cons.IH [of b1] builder_step_ok [OF Cons.prems(1), of c] by (simp add: step_ok_def)
qed simp

text \<open>
  C22. The pointers of the builder never dangle: after any calls that did not throw, every position on its stack
  is a part of the message under construction. The next call then either succeeds or throws a contract
  violation, except for the calls that add to a container when none is open: these read before the start
  of the stack.
\<close>

theorem builder_pointers_valid:
  assumes "run_builder cs new_builder = Inr b"
  shows "(\<forall>a \<in> set (BuilderPath b). get_at a (BuiltType b) \<noteq> None) \<and>
    (case builder_step c b of
       Inl e \<Rightarrow> e = (if needs_container c \<and> length (BuilderPath b) = 1 then OutOfRange else FatalError)
     | Inr b' \<Rightarrow> \<forall>a \<in> set (BuilderPath b'). get_at a (BuiltType b') \<noteq> None)"
proof -
  have "builder_inv new_builder"
    by (simp add: builder_inv_def new_builder_def)
  then have i: "builder_inv b"
    using assms by (rule run_builder_inv)
  show ?thesis
    using builder_inv_valid [OF i] builder_step_ok [OF i, of c] builder_inv_valid
    by (auto simp: step_ok_def split: sum.splits)
qed

theorem builder_pointers_valid_witness:
  "builder_step CallAddElement new_builder = Inl OutOfRange \<and>
    (case builder_step CallAddElement new_builder of Inl e \<Rightarrow> e = OutOfRange | Inr b' \<Rightarrow> False)"
  using builder_pointers_valid [of "[]" new_builder CallAddElement] by (simp add: new_builder_def builder_defs)

end
