(* ===== verification/Values.thy ===== *)
theory Values
  imports Types
begin

text \<open>
  Values of YDB: the message \<^verbatim>\<open>Ydb.Value\<close> of \<^verbatim>\<open>api/protos/ydb_value.proto\<close>, the scalar structures and the
  reader \<^verbatim>\<open>TValueParser\<close> of \<^verbatim>\<open>client/value/value.cpp\<close>. The reader walks the type and the message at the
  same time: it owns a parser of the type and a stack of positions in the message, the top first. Messages
  are not changed while they are read, so a position holds the message it points to. Floating point numbers are
  only copied and stand as their bits.
\<close>

section \<open>Messages\<close>

datatype 'v ValueContent =
    ValueNotSet
  | BoolValue bool
  | Int32Value "32 word"
  | Uint32Value "32 word"
  | Int64Value "64 word"
  | Uint64Value "64 word"
  | FloatValue "32 word"
  | DoubleValue "64 word"
  | BytesValue string
  | TextValue string
  | NullFlagValue
  | NestedValue 'v
  | Low128 "64 word"

datatype Value =
  Value (content: "Value ValueContent") (items: "Value list") (pairs: "(Value \<times> Value) list")
    (variant_index: "32 word") (high_128: "64 word")

definition default_value :: Value where
  "default_value = Value ValueNotSet [] [] 0 0"

datatype ValueCase =
    VALUE_NOT_SET | kBoolValue | kInt32Value | kUint32Value | kInt64Value | kUint64Value | kFloatValue
  | kDoubleValue | kBytesValue | kTextValue | kNullFlagValue | kNestedValue | kLow128

fun content_case :: "Value ValueContent \<Rightarrow> ValueCase" where
  "content_case ValueNotSet = VALUE_NOT_SET"
| "content_case (BoolValue _) = kBoolValue"
| "content_case (Int32Value _) = kInt32Value"
| "content_case (Uint32Value _) = kUint32Value"
| "content_case (Int64Value _) = kInt64Value"
| "content_case (Uint64Value _) = kUint64Value"
| "content_case (FloatValue _) = kFloatValue"
| "content_case (DoubleValue _) = kDoubleValue"
| "content_case (BytesValue _) = kBytesValue"
| "content_case (TextValue _) = kTextValue"
| "content_case NullFlagValue = kNullFlagValue"
| "content_case (NestedValue _) = kNestedValue"
| "content_case (Low128 _) = kLow128"

definition value_case :: "Value \<Rightarrow> ValueCase" where
  "value_case v = content_case (content v)"

text \<open>Access for reading: a field of another case reads as its default.\<close>

definition bool_value :: "Value \<Rightarrow> bool" where
  "bool_value v = (case content v of BoolValue x \<Rightarrow> x | _ \<Rightarrow> False)"
definition int32_value :: "Value \<Rightarrow> 32 word" where
  "int32_value v = (case content v of Int32Value x \<Rightarrow> x | _ \<Rightarrow> 0)"
definition uint32_value :: "Value \<Rightarrow> 32 word" where
  "uint32_value v = (case content v of Uint32Value x \<Rightarrow> x | _ \<Rightarrow> 0)"
definition int64_value :: "Value \<Rightarrow> 64 word" where
  "int64_value v = (case content v of Int64Value x \<Rightarrow> x | _ \<Rightarrow> 0)"
definition uint64_value :: "Value \<Rightarrow> 64 word" where
  "uint64_value v = (case content v of Uint64Value x \<Rightarrow> x | _ \<Rightarrow> 0)"
definition float_value :: "Value \<Rightarrow> 32 word" where
  "float_value v = (case content v of FloatValue x \<Rightarrow> x | _ \<Rightarrow> 0)"
definition double_value :: "Value \<Rightarrow> 64 word" where
  "double_value v = (case content v of DoubleValue x \<Rightarrow> x | _ \<Rightarrow> 0)"
definition bytes_value :: "Value \<Rightarrow> string" where
  "bytes_value v = (case content v of BytesValue x \<Rightarrow> x | _ \<Rightarrow> [])"
definition text_value :: "Value \<Rightarrow> string" where
  "text_value v = (case content v of TextValue x \<Rightarrow> x | _ \<Rightarrow> [])"
definition nested_value :: "Value \<Rightarrow> Value" where
  "nested_value v = (case content v of NestedValue x \<Rightarrow> x | _ \<Rightarrow> default_value)"
definition low_128 :: "Value \<Rightarrow> 64 word" where
  "low_128 v = (case content v of Low128 x \<Rightarrow> x | _ \<Rightarrow> 0)"

lemmas value_fields = value_case_def bool_value_def int32_value_def uint32_value_def int64_value_def uint64_value_def
  float_value_def double_value_def bytes_value_def text_value_def nested_value_def low_128_def

section \<open>Scalars\<close>

datatype EPrimitiveType =
    Bool | Int8 | Uint8 | Int16 | Uint16 | Int32 | Uint32 | Int64 | Uint64 | Float | Double | Date | Datetime
  | Timestamp | Interval | Date32 | Datetime64 | Timestamp64 | Interval64 | TzDate | TzDatetime | TzTimestamp
  | Bytes | Text | Yson | Json | Uuid | JsonDocument | DyNumber

fun primitive_id :: "EPrimitiveType \<Rightarrow> 32 word" where
  "primitive_id Bool = 0x0006"
| "primitive_id Int8 = 0x0007"
| "primitive_id Uint8 = 0x0005"
| "primitive_id Int16 = 0x0008"
| "primitive_id Uint16 = 0x0009"
| "primitive_id Int32 = 0x0001"
| "primitive_id Uint32 = 0x0002"
| "primitive_id Int64 = 0x0003"
| "primitive_id Uint64 = 0x0004"
| "primitive_id Float = 0x0021"
| "primitive_id Double = 0x0020"
| "primitive_id Date = 0x0030"
| "primitive_id Datetime = 0x0031"
| "primitive_id Timestamp = 0x0032"
| "primitive_id Interval = 0x0033"
| "primitive_id Date32 = 0x0040"
| "primitive_id Datetime64 = 0x0041"
| "primitive_id Timestamp64 = 0x0042"
| "primitive_id Interval64 = 0x0043"
| "primitive_id TzDate = 0x0034"
| "primitive_id TzDatetime = 0x0035"
| "primitive_id TzTimestamp = 0x0036"
| "primitive_id Bytes = 0x1001"
| "primitive_id Text = 0x1200"
| "primitive_id Yson = 0x1201"
| "primitive_id Json = 0x1202"
| "primitive_id Uuid = 0x1203"
| "primitive_id JsonDocument = 0x1204"
| "primitive_id DyNumber = 0x1302"

text \<open>Instants count microseconds since the epoch in 64 bits; conversions to them saturate.\<close>

definition MulWithSaturation :: "64 word \<Rightarrow> 64 word \<Rightarrow> 64 word" where
  "MulWithSaturation b a = (if a \<le> - 1 div b then a * b else - 1)"

definition InstantSeconds :: "64 word \<Rightarrow> 64 word" where
  "InstantSeconds s = MulWithSaturation 1000000 s"

definition InstantDays :: "64 word \<Rightarrow> 64 word" where
  "InstantDays d = MulWithSaturation (1000000 * 60 * 60 * 24) d"

definition instant_Seconds :: "64 word \<Rightarrow> 64 word" where
  "instant_Seconds i = i div 1000 div 1000"

definition instant_Days :: "64 word \<Rightarrow> 64 word" where
  "instant_Days i = instant_Seconds i div 60 div 60 div 24"

record TDecimalValue =
  DecimalValueType :: TDecimalType
  LowHalf :: "64 word"
  HiHalf :: "64 word"

definition decimal_of_proto :: "Value \<Rightarrow> TDecimalType \<Rightarrow> TDecimalValue" where
  "decimal_of_proto v type = \<lparr>DecimalValueType = type, LowHalf = low_128 v, HiHalf = high_128 v\<rparr>"

datatype EPgValueKind = VK_NULL | VK_TEXT | VK_BINARY

record TPgValue =
  PgValueType :: TPgType
  PgKind :: EPgValueKind
  PgContent :: string

definition pg_of_proto :: "Value \<Rightarrow> TPgType \<Rightarrow> TPgValue" where
  "pg_of_proto v type =
     (if value_case v = kTextValue then \<lparr>PgValueType = type, PgKind = VK_TEXT, PgContent = text_value v\<rparr>
      else if value_case v = kBytesValue then \<lparr>PgValueType = type, PgKind = VK_BINARY, PgContent = bytes_value v\<rparr>
      else \<lparr>PgValueType = type, PgKind = VK_NULL, PgContent = []\<rparr>)"

definition PgIsNull :: "TPgValue \<Rightarrow> bool" where
  "PgIsNull pg = (PgKind pg = VK_NULL)"

definition PgIsText :: "TPgValue \<Rightarrow> bool" where
  "PgIsText pg = (PgKind pg = VK_TEXT)"

record TUuidValue =
  Half0 :: "64 word"
  Half1 :: "64 word"

definition uuid_of_proto :: "Value \<Rightarrow> TUuidValue" where
  "uuid_of_proto v = \<lparr>Half0 = low_128 v, Half1 = high_128 v\<rparr>"

record TValue =
  ValueType :: Type
  ValueProto :: Value

section \<open>The reader\<close>

datatype EParseKind = KindValue | KindNull | KindItems | KindPairs | KindPair

text \<open>A position points to a value or to a pair of a dictionary, through a pointer to their common base.\<close>

datatype message = ValueMessage Value | PairMessage Value Value

record TValuePosition =
  PosKind :: EParseKind
  PosPtr :: message
  PosIdx :: int

record TValueParser =
  ValueTypeParser :: TTypeParser
  ValuePath :: "TValuePosition list"

definition on_type :: "(TTypeParser \<Rightarrow> TTypeParser result) \<Rightarrow> TValueParser \<Rightarrow> TValueParser result" where
  "on_type f p = and_then (f (ValueTypeParser p)) (\<lambda>t. Inr (p\<lparr>ValueTypeParser := t\<rparr>))"

definition GetPathBack :: "TValueParser \<Rightarrow> TValuePosition result" where
  "GetPathBack p = (case ValuePath p of [] \<Rightarrow> Inl FatalError | back # _ \<Rightarrow> Inr back)"

definition PopPath :: "TValueParser \<Rightarrow> TValueParser result" where
  "PopPath p = (case ValuePath p of [] \<Rightarrow> Inl FatalError | _ # rest \<Rightarrow> Inr (p\<lparr>ValuePath := rest\<rparr>))"

definition AddPath :: "EParseKind \<Rightarrow> message \<Rightarrow> int \<Rightarrow> TValueParser \<Rightarrow> TValueParser result" where
  "AddPath kind m idx p =
     (let pushed = Inr (p\<lparr>ValuePath := \<lparr>PosKind = kind, PosPtr = m, PosIdx = idx\<rparr> # ValuePath p\<rparr>) in
      case ValuePath p of
        [] \<Rightarrow> pushed
      | back # _ \<Rightarrow>
          if PosKind back = KindNull then Inl FatalError
          else (case PosKind back of
                  KindValue \<Rightarrow> pushed
                | KindPair \<Rightarrow> if kind \<noteq> KindValue then Inl FatalError else pushed
                | _ \<Rightarrow> Inl FatalError))"

definition ValueReset :: "Value \<Rightarrow> TValueParser \<Rightarrow> TValueParser result" where
  "ValueReset v p = AddPath KindValue (ValueMessage v) (-1) (p\<lparr>ValueTypeParser := Reset (ValueTypeParser p), ValuePath := []\<rparr>)"

definition value_parser_of_type :: "Type \<Rightarrow> TValueParser" where
  "value_parser_of_type type = \<lparr>ValueTypeParser = new_parser type, ValuePath = []\<rparr>"

definition new_value_parser :: "TValue \<Rightarrow> TValueParser result" where
  "new_value_parser value = ValueReset (ValueProto value) (value_parser_of_type (ValueType value))"

definition ValueGetProto :: "TValueParser \<Rightarrow> Value result" where
  "ValueGetProto p =
     and_then (GetPathBack p) (\<lambda>back. case PosPtr back of ValueMessage v \<Rightarrow> Inr v | PairMessage _ _ \<Rightarrow> Inl BadCast)"

definition GetProtoPair :: "TValueParser \<Rightarrow> (Value \<times> Value) result" where
  "GetProtoPair p =
     and_then (GetPathBack p) (\<lambda>back.
       if PosKind back \<noteq> KindPair then Inl FatalError
       else (case PosPtr back of PairMessage k v \<Rightarrow> Inr (k, v) | ValueMessage _ \<Rightarrow> Inl BadCast))"

definition ValueGetKind :: "TValueParser \<Rightarrow> ETypeKind result" where
  "ValueGetKind p = ParserKind 0 (ValueTypeParser p)"

definition ValueCheckKind :: "ETypeKind \<Rightarrow> TValueParser \<Rightarrow> unit result" where
  "ValueCheckKind kind p = and_then (ParserKind 0 (ValueTypeParser p)) (\<lambda>actual. CheckKind actual kind)"

definition CheckTransportKind :: "ValueCase \<Rightarrow> TValueParser \<Rightarrow> unit result" where
  "CheckTransportKind expectedCase p =
     and_then (ValueGetProto p) (\<lambda>v. if expectedCase \<noteq> value_case v then Inl FatalError else Inr ())"

fun GetPrimitiveValueCase :: "EPrimitiveType \<Rightarrow> ValueCase" where
  "GetPrimitiveValueCase Bool = kBoolValue"
| "GetPrimitiveValueCase Int8 = kInt32Value"
| "GetPrimitiveValueCase Uint8 = kUint32Value"
| "GetPrimitiveValueCase Int16 = kInt32Value"
| "GetPrimitiveValueCase Uint16 = kUint32Value"
| "GetPrimitiveValueCase Int32 = kInt32Value"
| "GetPrimitiveValueCase Uint32 = kUint32Value"
| "GetPrimitiveValueCase Int64 = kInt64Value"
| "GetPrimitiveValueCase Uint64 = kUint64Value"
| "GetPrimitiveValueCase Float = kFloatValue"
| "GetPrimitiveValueCase Double = kDoubleValue"
| "GetPrimitiveValueCase Date = kUint32Value"
| "GetPrimitiveValueCase Datetime = kUint32Value"
| "GetPrimitiveValueCase Date32 = kInt32Value"
| "GetPrimitiveValueCase Timestamp = kUint64Value"
| "GetPrimitiveValueCase Interval = kInt64Value"
| "GetPrimitiveValueCase Interval64 = kInt64Value"
| "GetPrimitiveValueCase Timestamp64 = kInt64Value"
| "GetPrimitiveValueCase Datetime64 = kInt64Value"
| "GetPrimitiveValueCase TzDate = kTextValue"
| "GetPrimitiveValueCase TzDatetime = kTextValue"
| "GetPrimitiveValueCase TzTimestamp = kTextValue"
| "GetPrimitiveValueCase Bytes = kBytesValue"
| "GetPrimitiveValueCase Text = kTextValue"
| "GetPrimitiveValueCase Yson = kBytesValue"
| "GetPrimitiveValueCase Json = kTextValue"
| "GetPrimitiveValueCase JsonDocument = kTextValue"
| "GetPrimitiveValueCase DyNumber = kTextValue"
| "GetPrimitiveValueCase Uuid = kLow128"

definition CheckPrimitive :: "EPrimitiveType \<Rightarrow> TValueParser \<Rightarrow> unit result" where
  "CheckPrimitive primitiveType p =
     and_then (ValueCheckKind Primitive p) (\<lambda>_.
     and_then (GetPrimitive (ValueTypeParser p)) (\<lambda>actual.
       if primitive_id primitiveType \<noteq> actual then Inl FatalError
       else CheckTransportKind (GetPrimitiveValueCase primitiveType) p))"

definition CheckDecimal :: "TValueParser \<Rightarrow> unit result" where
  "CheckDecimal p = and_then (ValueCheckKind Decimal p) (\<lambda>_. CheckTransportKind kLow128 p)"

definition CheckPg :: "TValueParser \<Rightarrow> unit result" where
  "CheckPg p = ValueCheckKind Pg p"

definition GetPrimitiveType :: "TValueParser \<Rightarrow> (32 word) result" where
  "GetPrimitiveType p = and_then (ValueCheckKind Primitive p) (\<lambda>_. GetPrimitive (ValueTypeParser p))"

definition get_primitive :: "EPrimitiveType \<Rightarrow> (Value \<Rightarrow> 'a) \<Rightarrow> TValueParser \<Rightarrow> 'a result" where
  "get_primitive type field p =
     and_then (CheckPrimitive type p) (\<lambda>_. and_then (ValueGetProto p) (\<lambda>v. Inr (field v)))"

definition GetBool :: "TValueParser \<Rightarrow> bool result" where "GetBool p = get_primitive Bool bool_value p"
definition GetInt8 :: "TValueParser \<Rightarrow> (8 word) result" where
  "GetInt8 p = get_primitive Int8 (\<lambda>v. ucast (int32_value v)) p"
definition GetUint8 :: "TValueParser \<Rightarrow> (8 word) result" where
  "GetUint8 p = get_primitive Uint8 (\<lambda>v. ucast (uint32_value v)) p"
definition GetInt16 :: "TValueParser \<Rightarrow> (16 word) result" where
  "GetInt16 p = get_primitive Int16 (\<lambda>v. ucast (int32_value v)) p"
definition GetUint16 :: "TValueParser \<Rightarrow> (16 word) result" where
  "GetUint16 p = get_primitive Uint16 (\<lambda>v. ucast (uint32_value v)) p"
definition GetInt32 :: "TValueParser \<Rightarrow> (32 word) result" where "GetInt32 p = get_primitive Int32 int32_value p"
definition GetUint32 :: "TValueParser \<Rightarrow> (32 word) result" where "GetUint32 p = get_primitive Uint32 uint32_value p"
definition GetInt64 :: "TValueParser \<Rightarrow> (64 word) result" where "GetInt64 p = get_primitive Int64 int64_value p"
definition GetUint64 :: "TValueParser \<Rightarrow> (64 word) result" where "GetUint64 p = get_primitive Uint64 uint64_value p"
definition GetFloat :: "TValueParser \<Rightarrow> (32 word) result" where "GetFloat p = get_primitive Float float_value p"
definition GetDouble :: "TValueParser \<Rightarrow> (64 word) result" where "GetDouble p = get_primitive Double double_value p"
definition GetDate :: "TValueParser \<Rightarrow> (64 word) result" where
  "GetDate p = get_primitive Date (\<lambda>v. InstantDays (ucast (uint32_value v))) p"
definition GetDatetime :: "TValueParser \<Rightarrow> (64 word) result" where
  "GetDatetime p = get_primitive Datetime (\<lambda>v. InstantSeconds (ucast (uint32_value v))) p"
definition GetTimestamp :: "TValueParser \<Rightarrow> (64 word) result" where
  "GetTimestamp p = get_primitive Timestamp uint64_value p"
definition GetInterval :: "TValueParser \<Rightarrow> (64 word) result" where "GetInterval p = get_primitive Interval int64_value p"
definition GetDate32 :: "TValueParser \<Rightarrow> (32 word) result" where "GetDate32 p = get_primitive Date32 int32_value p"
definition GetDatetime64 :: "TValueParser \<Rightarrow> (64 word) result" where
  "GetDatetime64 p = get_primitive Datetime64 int64_value p"
definition GetTimestamp64 :: "TValueParser \<Rightarrow> (64 word) result" where
  "GetTimestamp64 p = get_primitive Timestamp64 int64_value p"
definition GetInterval64 :: "TValueParser \<Rightarrow> (64 word) result" where
  "GetInterval64 p = get_primitive Interval64 int64_value p"
definition GetTzDate :: "TValueParser \<Rightarrow> string result" where "GetTzDate p = get_primitive TzDate text_value p"
definition GetTzDatetime :: "TValueParser \<Rightarrow> string result" where "GetTzDatetime p = get_primitive TzDatetime text_value p"
definition GetTzTimestamp :: "TValueParser \<Rightarrow> string result" where
  "GetTzTimestamp p = get_primitive TzTimestamp text_value p"
definition GetString :: "TValueParser \<Rightarrow> string result" where "GetString p = get_primitive Bytes bytes_value p"
definition GetBytes :: "TValueParser \<Rightarrow> string result" where "GetBytes p = get_primitive Bytes bytes_value p"
definition GetUtf8 :: "TValueParser \<Rightarrow> string result" where "GetUtf8 p = get_primitive Text text_value p"
definition GetText :: "TValueParser \<Rightarrow> string result" where "GetText p = get_primitive Text text_value p"
definition GetYson :: "TValueParser \<Rightarrow> string result" where "GetYson p = get_primitive Yson bytes_value p"
definition GetJson :: "TValueParser \<Rightarrow> string result" where "GetJson p = get_primitive Json text_value p"
definition GetUuid :: "TValueParser \<Rightarrow> TUuidValue result" where "GetUuid p = get_primitive Uuid uuid_of_proto p"
definition GetJsonDocument :: "TValueParser \<Rightarrow> string result" where
  "GetJsonDocument p = get_primitive JsonDocument text_value p"
definition GetDyNumber :: "TValueParser \<Rightarrow> string result" where "GetDyNumber p = get_primitive DyNumber text_value p"

definition ValueGetDecimal :: "TValueParser \<Rightarrow> TDecimalValue result" where
  "ValueGetDecimal p =
     and_then (CheckDecimal p) (\<lambda>_.
     and_then (ValueGetProto p) (\<lambda>v. and_then (GetDecimal (ValueTypeParser p)) (\<lambda>type. Inr (decimal_of_proto v type))))"

definition ValueGetPg :: "TValueParser \<Rightarrow> TPgValue result" where
  "ValueGetPg p =
     and_then (CheckPg p) (\<lambda>_.
     and_then (ValueGetProto p) (\<lambda>v. and_then (GetPg (ValueTypeParser p)) (\<lambda>type. Inr (pg_of_proto v type))))"

section \<open>Containers\<close>

definition ValueOpenOptional :: "TValueParser \<Rightarrow> TValueParser result" where
  "ValueOpenOptional p =
     and_then (on_type OpenOptional p) (\<lambda>p. and_then (ValueGetProto p) (\<lambda>v.
       if value_case v = kNestedValue then AddPath KindValue (ValueMessage (nested_value v)) (-1) p
       else if value_case v = kNullFlagValue then AddPath KindNull (ValueMessage v) (-1) p
       else AddPath KindValue (ValueMessage v) (-1) p))"

definition IsNull :: "TValueParser \<Rightarrow> bool result" where
  "IsNull p = and_then (GetPathBack p) (\<lambda>back. Inr (PosKind back = KindNull))"

definition ValueCloseOptional :: "TValueParser \<Rightarrow> TValueParser result" where
  "ValueCloseOptional p = and_then (PopPath p) (on_type CloseOptional)"

definition OpenItems :: "int \<Rightarrow> TValueParser \<Rightarrow> TValueParser result" where
  "OpenItems idx p =
     and_then (ValueGetProto p) (\<lambda>v.
       if idx < 0 then AddPath KindItems (ValueMessage v) idx p
       else if nat idx < length (items v) then AddPath KindValue (ValueMessage (items v ! nat idx)) idx p
       else Inl OutOfRange)"

definition CloseItems :: "TValueParser \<Rightarrow> TValueParser result" where
  "CloseItems p = PopPath p"

definition NextItems :: "TValueParser \<Rightarrow> (bool \<times> TValueParser) result" where
  "NextItems p =
     and_then (GetPathBack p) (\<lambda>back.
     let idx = PosIdx back + 1 in
     and_then (PopPath p) (\<lambda>p.
     and_then (ValueGetProto p) (\<lambda>v.
     let isEnd = (idx = int (length (items v))); idx = (if isEnd then idx - 1 else idx) in
     and_then (OpenItems idx p) (\<lambda>p. Inr (\<not> isEnd, p)))))"

definition OpenPairs :: "int \<Rightarrow> TValueParser \<Rightarrow> TValueParser result" where
  "OpenPairs idx p =
     and_then (ValueGetProto p) (\<lambda>v.
       if idx < 0 then AddPath KindPairs (ValueMessage v) idx p
       else if nat idx < length (pairs v) then
         AddPath KindPair (PairMessage (fst (pairs v ! nat idx)) (snd (pairs v ! nat idx))) idx p
       else Inl OutOfRange)"

text \<open>Leave the key or the payload of a pair.\<close>

definition leave_pair :: "TValueParser \<Rightarrow> TValueParser result" where
  "leave_pair p =
     and_then (GetPathBack p) (\<lambda>back.
       if PosKind back \<noteq> KindPairs \<and> PosKind back \<noteq> KindPair then PopPath p else Inr p)"

definition NextPairs :: "TValueParser \<Rightarrow> (bool \<times> TValueParser) result" where
  "NextPairs p =
     and_then (leave_pair p) (\<lambda>p.
     and_then (GetPathBack p) (\<lambda>back.
     let idx = PosIdx back + 1 in
     and_then (PopPath p) (\<lambda>p.
     and_then (ValueGetProto p) (\<lambda>v.
     let isEnd = (idx = int (length (pairs v))); idx = (if isEnd then idx - 1 else idx) in
     and_then (OpenPairs idx p) (\<lambda>p. Inr (\<not> isEnd, p))))))"

definition ClosePairs :: "TValueParser \<Rightarrow> TValueParser result" where
  "ClosePairs p = and_then (leave_pair p) PopPath"

definition ValueOpenList :: "TValueParser \<Rightarrow> TValueParser result" where
  "ValueOpenList p = and_then (on_type OpenList p) (OpenItems (-1))"

definition TryNextListItem :: "TValueParser \<Rightarrow> (bool \<times> TValueParser) result" where
  "TryNextListItem p = NextItems p"

definition ValueCloseList :: "TValueParser \<Rightarrow> TValueParser result" where
  "ValueCloseList p = and_then (CloseItems p) (on_type CloseList)"

definition ValueOpenStruct :: "TValueParser \<Rightarrow> TValueParser result" where
  "ValueOpenStruct p = and_then (on_type OpenStruct p) (OpenItems (-1))"

text \<open>The next member or element: the type decides whether there is one, and then the message must have it.\<close>

definition next_typed_item ::
  "(TTypeParser \<Rightarrow> (bool \<times> TTypeParser) result) \<Rightarrow> TValueParser \<Rightarrow> (bool \<times> TValueParser) result" where
  "next_typed_item tryNext p =
     and_then (tryNext (ValueTypeParser p)) (\<lambda>(more, t).
       let p = p\<lparr>ValueTypeParser := t\<rparr> in
       if more then and_then (NextItems p) (\<lambda>(found, p). if found then Inr (True, p) else Inl FatalError)
       else Inr (False, p))"

definition ValueTryNextMember :: "TValueParser \<Rightarrow> (bool \<times> TValueParser) result" where
  "ValueTryNextMember p = next_typed_item TryNextMember p"

definition ValueGetMemberName :: "TValueParser \<Rightarrow> string result" where
  "ValueGetMemberName p = GetMemberName (ValueTypeParser p)"

definition ValueCloseStruct :: "TValueParser \<Rightarrow> TValueParser result" where
  "ValueCloseStruct p = and_then (CloseItems p) (on_type CloseStruct)"

definition ValueOpenTuple :: "TValueParser \<Rightarrow> TValueParser result" where
  "ValueOpenTuple p = and_then (on_type OpenTuple p) (OpenItems (-1))"

definition ValueTryNextElement :: "TValueParser \<Rightarrow> (bool \<times> TValueParser) result" where
  "ValueTryNextElement p = next_typed_item TryNextElement p"

definition ValueCloseTuple :: "TValueParser \<Rightarrow> TValueParser result" where
  "ValueCloseTuple p = and_then (CloseItems p) (on_type CloseTuple)"

definition ValueOpenDict :: "TValueParser \<Rightarrow> TValueParser result" where
  "ValueOpenDict p = and_then (on_type OpenDict p) (OpenPairs (-1))"

definition TryNextDictItem :: "TValueParser \<Rightarrow> (bool \<times> TValueParser) result" where
  "TryNextDictItem p = NextPairs p"

definition open_pair_part :: "(Value \<times> Value \<Rightarrow> Value) \<Rightarrow> TValueParser \<Rightarrow> TValueParser result" where
  "open_pair_part part p =
     and_then (GetPathBack p) (\<lambda>back.
     and_then (if PosKind back \<noteq> KindPair then PopPath p else Inr p) (\<lambda>p.
     and_then (GetProtoPair p) (\<lambda>pair. AddPath KindValue (ValueMessage (part pair)) (-1) p)))"

definition ValueDictKey :: "TValueParser \<Rightarrow> TValueParser result" where
  "ValueDictKey p = and_then (on_type DictKey p) (open_pair_part fst)"

definition ValueDictPayload :: "TValueParser \<Rightarrow> TValueParser result" where
  "ValueDictPayload p = and_then (on_type DictPayload p) (open_pair_part snd)"

definition ValueCloseDict :: "TValueParser \<Rightarrow> TValueParser result" where
  "ValueCloseDict p = and_then (ClosePairs p) (on_type CloseDict)"

definition ValueOpenVariant :: "TValueParser \<Rightarrow> TValueParser result" where
  "ValueOpenVariant p =
     and_then (ValueGetProto p) (\<lambda>v.
     and_then (on_type (OpenVariantIndex (ucast (variant_index v))) p) (\<lambda>p.
       if value_case v = kNestedValue then AddPath KindValue (ValueMessage (nested_value v)) (-1) p
       else Inl FatalError))"

definition GetVariantIndex :: "TValueParser \<Rightarrow> (32 word) result" where
  "GetVariantIndex p =
     and_then (ValueCheckKind Variant p) (\<lambda>_. and_then (ValueGetProto p) (\<lambda>v. Inr (variant_index v)))"

definition ValueCloseVariant :: "TValueParser \<Rightarrow> TValueParser result" where
  "ValueCloseVariant p = and_then (PopPath p) (on_type CloseVariant)"

definition ValueOpenTagged :: "TValueParser \<Rightarrow> TValueParser result" where
  "ValueOpenTagged p = on_type OpenTagged p"

definition ValueGetTag :: "TValueParser \<Rightarrow> string result" where
  "ValueGetTag p = GetTag (ValueTypeParser p)"

definition ValueCloseTagged :: "TValueParser \<Rightarrow> TValueParser result" where
  "ValueCloseTagged p = on_type CloseTagged p"

section \<open>Optional scalars\<close>

definition RET_OPT_VALUE :: "(TValueParser \<Rightarrow> 'a result) \<Rightarrow> TValueParser \<Rightarrow> ('a option \<times> TValueParser) result" where
  "RET_OPT_VALUE get p =
     and_then (ValueOpenOptional p) (\<lambda>p.
     and_then (IsNull p) (\<lambda>null.
     and_then (if null then Inr None else and_then (get p) (\<lambda>x. Inr (Some x))) (\<lambda>value.
     and_then (ValueCloseOptional p) (\<lambda>p. Inr (value, p)))))"

definition GetOptionalBool :: "TValueParser \<Rightarrow> (bool option \<times> TValueParser) result" where
  "GetOptionalBool p = RET_OPT_VALUE GetBool p"
definition GetOptionalInt8 :: "TValueParser \<Rightarrow> (8 word option \<times> TValueParser) result" where
  "GetOptionalInt8 p = RET_OPT_VALUE GetInt8 p"
definition GetOptionalUint8 :: "TValueParser \<Rightarrow> (8 word option \<times> TValueParser) result" where
  "GetOptionalUint8 p = RET_OPT_VALUE GetUint8 p"
definition GetOptionalInt16 :: "TValueParser \<Rightarrow> (16 word option \<times> TValueParser) result" where
  "GetOptionalInt16 p = RET_OPT_VALUE GetInt16 p"
definition GetOptionalUint16 :: "TValueParser \<Rightarrow> (16 word option \<times> TValueParser) result" where
  "GetOptionalUint16 p = RET_OPT_VALUE GetUint16 p"
definition GetOptionalInt32 :: "TValueParser \<Rightarrow> (32 word option \<times> TValueParser) result" where
  "GetOptionalInt32 p = RET_OPT_VALUE GetInt32 p"
definition GetOptionalUint32 :: "TValueParser \<Rightarrow> (32 word option \<times> TValueParser) result" where
  "GetOptionalUint32 p = RET_OPT_VALUE GetUint32 p"
definition GetOptionalInt64 :: "TValueParser \<Rightarrow> (64 word option \<times> TValueParser) result" where
  "GetOptionalInt64 p = RET_OPT_VALUE GetInt64 p"
definition GetOptionalUint64 :: "TValueParser \<Rightarrow> (64 word option \<times> TValueParser) result" where
  "GetOptionalUint64 p = RET_OPT_VALUE GetUint64 p"
definition GetOptionalFloat :: "TValueParser \<Rightarrow> (32 word option \<times> TValueParser) result" where
  "GetOptionalFloat p = RET_OPT_VALUE GetFloat p"
definition GetOptionalDouble :: "TValueParser \<Rightarrow> (64 word option \<times> TValueParser) result" where
  "GetOptionalDouble p = RET_OPT_VALUE GetDouble p"
definition GetOptionalDate :: "TValueParser \<Rightarrow> (64 word option \<times> TValueParser) result" where
  "GetOptionalDate p = RET_OPT_VALUE GetDate p"
definition GetOptionalDatetime :: "TValueParser \<Rightarrow> (64 word option \<times> TValueParser) result" where
  "GetOptionalDatetime p = RET_OPT_VALUE GetDatetime p"
definition GetOptionalTimestamp :: "TValueParser \<Rightarrow> (64 word option \<times> TValueParser) result" where
  "GetOptionalTimestamp p = RET_OPT_VALUE GetTimestamp p"
definition GetOptionalInterval :: "TValueParser \<Rightarrow> (64 word option \<times> TValueParser) result" where
  "GetOptionalInterval p = RET_OPT_VALUE GetInterval p"
definition GetOptionalDate32 :: "TValueParser \<Rightarrow> (32 word option \<times> TValueParser) result" where
  "GetOptionalDate32 p = RET_OPT_VALUE GetDate32 p"
definition GetOptionalDatetime64 :: "TValueParser \<Rightarrow> (64 word option \<times> TValueParser) result" where
  "GetOptionalDatetime64 p = RET_OPT_VALUE GetDatetime64 p"
definition GetOptionalTimestamp64 :: "TValueParser \<Rightarrow> (64 word option \<times> TValueParser) result" where
  "GetOptionalTimestamp64 p = RET_OPT_VALUE GetTimestamp64 p"
definition GetOptionalInterval64 :: "TValueParser \<Rightarrow> (64 word option \<times> TValueParser) result" where
  "GetOptionalInterval64 p = RET_OPT_VALUE GetInterval64 p"
definition GetOptionalTzDate :: "TValueParser \<Rightarrow> (string option \<times> TValueParser) result" where
  "GetOptionalTzDate p = RET_OPT_VALUE GetTzDate p"
definition GetOptionalTzDatetime :: "TValueParser \<Rightarrow> (string option \<times> TValueParser) result" where
  "GetOptionalTzDatetime p = RET_OPT_VALUE GetTzDatetime p"
definition GetOptionalTzTimestamp :: "TValueParser \<Rightarrow> (string option \<times> TValueParser) result" where
  "GetOptionalTzTimestamp p = RET_OPT_VALUE GetTzTimestamp p"
definition GetOptionalString :: "TValueParser \<Rightarrow> (string option \<times> TValueParser) result" where
  "GetOptionalString p = RET_OPT_VALUE GetString p"
definition GetOptionalBytes :: "TValueParser \<Rightarrow> (string option \<times> TValueParser) result" where
  "GetOptionalBytes p = RET_OPT_VALUE GetBytes p"
definition GetOptionalUtf8 :: "TValueParser \<Rightarrow> (string option \<times> TValueParser) result" where
  "GetOptionalUtf8 p = RET_OPT_VALUE GetUtf8 p"
definition GetOptionalText :: "TValueParser \<Rightarrow> (string option \<times> TValueParser) result" where
  "GetOptionalText p = RET_OPT_VALUE GetText p"
definition GetOptionalYson :: "TValueParser \<Rightarrow> (string option \<times> TValueParser) result" where
  "GetOptionalYson p = RET_OPT_VALUE GetYson p"
definition GetOptionalJson :: "TValueParser \<Rightarrow> (string option \<times> TValueParser) result" where
  "GetOptionalJson p = RET_OPT_VALUE GetJson p"
definition GetOptionalUuid :: "TValueParser \<Rightarrow> (TUuidValue option \<times> TValueParser) result" where
  "GetOptionalUuid p = RET_OPT_VALUE GetUuid p"
definition GetOptionalJsonDocument :: "TValueParser \<Rightarrow> (string option \<times> TValueParser) result" where
  "GetOptionalJsonDocument p = RET_OPT_VALUE GetJsonDocument p"
definition GetOptionalDyNumber :: "TValueParser \<Rightarrow> (string option \<times> TValueParser) result" where
  "GetOptionalDyNumber p = RET_OPT_VALUE GetDyNumber p"
definition GetOptionalDecimal :: "TValueParser \<Rightarrow> (TDecimalValue option \<times> TValueParser) result" where
  "GetOptionalDecimal p = RET_OPT_VALUE ValueGetDecimal p"

end
