(* ===== verification/ValueReading.thy ===== *)
theory ValueReading
  imports Values
begin

text \<open>
  Reading a whole value with \<^verbatim>\<open>TValueParser\<close>. The data of a message is given by recursion on its type; the
  traversal a client writes with the calls of the reader returns this data, whatever the message is,
  and leaves the reader where it was.
\<close>

section \<open>What a message means\<close>

text \<open>The data of a message of a given type, with the scalars as the getters return them.\<close>

datatype scalar =
    ScalarBool bool
  | Scalar8 "8 word"
  | Scalar16 "16 word"
  | Scalar32 "32 word"
  | Scalar64 "64 word"
  | ScalarString string
  | ScalarUuid TUuidValue

datatype data =
    DPrimitive EPrimitiveType scalar
  | DDecimal TDecimalValue
  | DPg TPgValue
  | DNone
  | DSome data
  | DList "data list"
  | DTuple "data list"
  | DStruct "(string \<times> data) list"
  | DDict "(data \<times> data) list"
  | DVariant "32 word" data
  | DTagged string data
  | DUnit ETypeKind

definition primitive_types :: "EPrimitiveType list" where
  "primitive_types = [Bool, Int8, Uint8, Int16, Uint16, Int32, Uint32, Int64, Uint64, Float, Double, Date, Datetime,
     Timestamp, Interval, Date32, Datetime64, Timestamp64, Interval64, TzDate, TzDatetime, TzTimestamp, Bytes, Text,
     Yson, Json, Uuid, JsonDocument, DyNumber]"

definition primitive_of :: "32 word \<Rightarrow> EPrimitiveType option" where
  "primitive_of i = List.find (\<lambda>t. primitive_id t = i) primitive_types"

fun scalar_of :: "EPrimitiveType \<Rightarrow> Value \<Rightarrow> scalar" where
  "scalar_of Bool v = ScalarBool (bool_value v)"
| "scalar_of Int8 v = Scalar8 (ucast (int32_value v))"
| "scalar_of Uint8 v = Scalar8 (ucast (uint32_value v))"
| "scalar_of Int16 v = Scalar16 (ucast (int32_value v))"
| "scalar_of Uint16 v = Scalar16 (ucast (uint32_value v))"
| "scalar_of Int32 v = Scalar32 (int32_value v)"
| "scalar_of Uint32 v = Scalar32 (uint32_value v)"
| "scalar_of Int64 v = Scalar64 (int64_value v)"
| "scalar_of Uint64 v = Scalar64 (uint64_value v)"
| "scalar_of Float v = Scalar32 (float_value v)"
| "scalar_of Double v = Scalar64 (double_value v)"
| "scalar_of Date v = Scalar64 (InstantDays (ucast (uint32_value v)))"
| "scalar_of Datetime v = Scalar64 (InstantSeconds (ucast (uint32_value v)))"
| "scalar_of Timestamp v = Scalar64 (uint64_value v)"
| "scalar_of Interval v = Scalar64 (int64_value v)"
| "scalar_of Date32 v = Scalar32 (int32_value v)"
| "scalar_of Datetime64 v = Scalar64 (int64_value v)"
| "scalar_of Timestamp64 v = Scalar64 (int64_value v)"
| "scalar_of Interval64 v = Scalar64 (int64_value v)"
| "scalar_of Bytes v = ScalarString (bytes_value v)"
| "scalar_of Yson v = ScalarString (bytes_value v)"
| "scalar_of Uuid v = ScalarUuid (uuid_of_proto v)"
| "scalar_of _ v = ScalarString (text_value v)"

definition checked :: "bool \<Rightarrow> 'a \<Rightarrow> 'a result" where
  "checked b x = (if b then Inr x else Inl FatalError)"

text \<open>Items of a container read one by one: a missing item is an error, items left over are ignored.\<close>

fun decode_items :: "(Value \<Rightarrow> 'a result) list \<Rightarrow> Value list \<Rightarrow> 'a list result" where
  "decode_items [] vs = Inr []"
| "decode_items (f # fs) [] = Inl FatalError"
| "decode_items (f # fs) (v # vs) = and_then (f v) (\<lambda>x. and_then (decode_items fs vs) (\<lambda>xs. Inr (x # xs)))"

definition optional_item :: "Value \<Rightarrow> Value" where
  "optional_item v = (if value_case v = kNestedValue then nested_value v else v)"

definition variant_number :: "Value \<Rightarrow> int" where
  "variant_number v = sint (ucast (ucast (variant_index v) :: 64 word) :: 32 word)"

definition decode_variant :: "(Value \<Rightarrow> data result) list \<Rightarrow> Value \<Rightarrow> data result" where
  "decode_variant fs v =
     and_then (variant_item (variant_number v) fs) (\<lambda>f.
     and_then (checked (value_case v = kNestedValue) ()) (\<lambda>_.
     and_then (f (nested_value v)) (\<lambda>d. Inr (DVariant (variant_index v) d))))"

fun decode :: "Type \<Rightarrow> Value \<Rightarrow> data result" where
  "decode TypeNotSet v = Inl FatalError"
| "decode (TypeId i) v =
     (case primitive_of i of
        None \<Rightarrow> Inl FatalError
      | Some t \<Rightarrow> checked (value_case v = GetPrimitiveValueCase t) (DPrimitive t (scalar_of t v)))"
| "decode (DecimalType p s) v =
     checked (value_case v = kLow128) (DDecimal (decimal_of_proto v \<lparr>Precision = ucast p, Scale = ucast s\<rparr>))"
| "decode (PgType name modifier oid typlen typmod) v =
     Inr (DPg (pg_of_proto v
       \<lparr>TypeName = name, TypeModifier = modifier, Oid = oid, Typlen = ucast typlen, Typmod = typmod\<rparr>))"
| "decode (OptionalType t) v =
     (if value_case v = kNullFlagValue then Inr DNone
      else and_then (decode t (optional_item v)) (\<lambda>d. Inr (DSome d)))"
| "decode (ListType t) v = and_then (all_results (map (\<lambda>w. decode t w) (items v))) (\<lambda>ds. Inr (DList ds))"
| "decode (TupleType ts) v = and_then (decode_items (map (\<lambda>t w. decode t w) ts) (items v)) (\<lambda>ds. Inr (DTuple ds))"
| "decode (StructType ms) v =
     and_then (decode_items (map (\<lambda>(n, t) w. and_then (decode t w) (\<lambda>d. Inr (n, d))) ms) (items v)) (\<lambda>ds. Inr (DStruct ds))"
| "decode (DictType kt vt) v =
     and_then (all_results (map (\<lambda>(k, x). and_then (decode kt k) (\<lambda>dk. and_then (decode vt x) (\<lambda>dx. Inr (dk, dx)))) (pairs v)))
       (\<lambda>ds. Inr (DDict ds))"
| "decode (VariantOf VariantNotSet) v = Inl FatalError"
| "decode (VariantOf (TupleItems ts)) v = decode_variant (map (\<lambda>t w. decode t w) ts) v"
| "decode (VariantOf (StructItems ms)) v = decode_variant (map (\<lambda>(n, t) w. decode t w) ms) v"
| "decode (TaggedType tag t) v = and_then (decode t v) (\<lambda>d. Inr (DTagged tag d))"
| "decode VoidType v = Inr (DUnit Void)"
| "decode NullType v = Inr (DUnit Null)"
| "decode EmptyListType v = Inr (DUnit EmptyList)"
| "decode EmptyDictType v = Inr (DUnit EmptyDict)"

section \<open>A traversal of a value\<close>

definition mapr :: "('a \<Rightarrow> 'b) \<Rightarrow> 'a result \<Rightarrow> 'b result" where
  "mapr f r = and_then r (\<lambda>x. Inr (f x))"

fun get_scalar :: "EPrimitiveType \<Rightarrow> TValueParser \<Rightarrow> scalar result" where
  "get_scalar Bool p = mapr ScalarBool (GetBool p)"
| "get_scalar Int8 p = mapr Scalar8 (GetInt8 p)"
| "get_scalar Uint8 p = mapr Scalar8 (GetUint8 p)"
| "get_scalar Int16 p = mapr Scalar16 (GetInt16 p)"
| "get_scalar Uint16 p = mapr Scalar16 (GetUint16 p)"
| "get_scalar Int32 p = mapr Scalar32 (GetInt32 p)"
| "get_scalar Uint32 p = mapr Scalar32 (GetUint32 p)"
| "get_scalar Int64 p = mapr Scalar64 (GetInt64 p)"
| "get_scalar Uint64 p = mapr Scalar64 (GetUint64 p)"
| "get_scalar Float p = mapr Scalar32 (GetFloat p)"
| "get_scalar Double p = mapr Scalar64 (GetDouble p)"
| "get_scalar Date p = mapr Scalar64 (GetDate p)"
| "get_scalar Datetime p = mapr Scalar64 (GetDatetime p)"
| "get_scalar Timestamp p = mapr Scalar64 (GetTimestamp p)"
| "get_scalar Interval p = mapr Scalar64 (GetInterval p)"
| "get_scalar Date32 p = mapr Scalar32 (GetDate32 p)"
| "get_scalar Datetime64 p = mapr Scalar64 (GetDatetime64 p)"
| "get_scalar Timestamp64 p = mapr Scalar64 (GetTimestamp64 p)"
| "get_scalar Interval64 p = mapr Scalar64 (GetInterval64 p)"
| "get_scalar TzDate p = mapr ScalarString (GetTzDate p)"
| "get_scalar TzDatetime p = mapr ScalarString (GetTzDatetime p)"
| "get_scalar TzTimestamp p = mapr ScalarString (GetTzTimestamp p)"
| "get_scalar Bytes p = mapr ScalarString (GetBytes p)"
| "get_scalar Text p = mapr ScalarString (GetText p)"
| "get_scalar Yson p = mapr ScalarString (GetYson p)"
| "get_scalar Json p = mapr ScalarString (GetJson p)"
| "get_scalar Uuid p = mapr ScalarUuid (GetUuid p)"
| "get_scalar JsonDocument p = mapr ScalarString (GetJsonDocument p)"
| "get_scalar DyNumber p = mapr ScalarString (GetDyNumber p)"

text \<open>
  The traversal a client writes with the calls of the reader: it opens what the kind of the type asks for,
  loops while there is a next part, and closes it again. Every call takes one unit of fuel.
\<close>

fun ReadValue :: "nat \<Rightarrow> TValueParser \<Rightarrow> (data \<times> TValueParser) result"
and ReadList :: "nat \<Rightarrow> TValueParser \<Rightarrow> (data list \<times> TValueParser) result"
and ReadTuple :: "nat \<Rightarrow> TValueParser \<Rightarrow> (data list \<times> TValueParser) result"
and ReadStruct :: "nat \<Rightarrow> TValueParser \<Rightarrow> ((string \<times> data) list \<times> TValueParser) result"
and ReadDict :: "nat \<Rightarrow> TValueParser \<Rightarrow> ((data \<times> data) list \<times> TValueParser) result"
where
  "ReadValue 0 p = Inl OutOfFuel"
| "ReadValue (Suc n) p =
     and_then (ValueGetKind p) (\<lambda>kind. case kind of
       Primitive \<Rightarrow> and_then (GetPrimitiveType p) (\<lambda>i.
         case primitive_of i of
           None \<Rightarrow> Inl FatalError
         | Some t \<Rightarrow> and_then (get_scalar t p) (\<lambda>x. Inr (DPrimitive t x, p)))
     | Decimal \<Rightarrow> and_then (ValueGetDecimal p) (\<lambda>x. Inr (DDecimal x, p))
     | Pg \<Rightarrow> and_then (ValueGetPg p) (\<lambda>x. Inr (DPg x, p))
     | Optional \<Rightarrow>
         and_then (ValueOpenOptional p) (\<lambda>p.
         and_then (IsNull p) (\<lambda>null.
         and_then (if null then Inr (DNone, p) else and_then (ReadValue n p) (\<lambda>(d, p). Inr (DSome d, p))) (\<lambda>(d, p).
         and_then (ValueCloseOptional p) (\<lambda>p. Inr (d, p)))))
     | List \<Rightarrow>
         and_then (ValueOpenList p) (\<lambda>p. and_then (ReadList n p) (\<lambda>(ds, p).
         and_then (ValueCloseList p) (\<lambda>p. Inr (DList ds, p))))
     | Tuple \<Rightarrow>
         and_then (ValueOpenTuple p) (\<lambda>p. and_then (ReadTuple n p) (\<lambda>(ds, p).
         and_then (ValueCloseTuple p) (\<lambda>p. Inr (DTuple ds, p))))
     | Struct \<Rightarrow>
         and_then (ValueOpenStruct p) (\<lambda>p. and_then (ReadStruct n p) (\<lambda>(ds, p).
         and_then (ValueCloseStruct p) (\<lambda>p. Inr (DStruct ds, p))))
     | Dict \<Rightarrow>
         and_then (ValueOpenDict p) (\<lambda>p. and_then (ReadDict n p) (\<lambda>(ds, p).
         and_then (ValueCloseDict p) (\<lambda>p. Inr (DDict ds, p))))
     | Variant \<Rightarrow>
         and_then (GetVariantIndex p) (\<lambda>i.
         and_then (ValueOpenVariant p) (\<lambda>p. and_then (ReadValue n p) (\<lambda>(d, p).
         and_then (ValueCloseVariant p) (\<lambda>p. Inr (DVariant i d, p)))))
     | Tagged \<Rightarrow>
         and_then (ValueOpenTagged p) (\<lambda>p. and_then (ReadValue n p) (\<lambda>(d, p).
         and_then (ValueGetTag p) (\<lambda>tag. and_then (ValueCloseTagged p) (\<lambda>p. Inr (DTagged tag d, p)))))
     | _ \<Rightarrow> Inr (DUnit kind, p))"
| "ReadList 0 p = Inl OutOfFuel"
| "ReadList (Suc n) p =
     and_then (TryNextListItem p) (\<lambda>(more, p).
       if more then and_then (ReadValue n p) (\<lambda>(d, p). and_then (ReadList n p) (\<lambda>(ds, p). Inr (d # ds, p)))
       else Inr ([], p))"
| "ReadTuple 0 p = Inl OutOfFuel"
| "ReadTuple (Suc n) p =
     and_then (ValueTryNextElement p) (\<lambda>(more, p).
       if more then and_then (ReadValue n p) (\<lambda>(d, p). and_then (ReadTuple n p) (\<lambda>(ds, p). Inr (d # ds, p)))
       else Inr ([], p))"
| "ReadStruct 0 p = Inl OutOfFuel"
| "ReadStruct (Suc n) p =
     and_then (ValueTryNextMember p) (\<lambda>(more, p).
       if more then
         and_then (ValueGetMemberName p) (\<lambda>name.
         and_then (ReadValue n p) (\<lambda>(d, p). and_then (ReadStruct n p) (\<lambda>(ds, p). Inr ((name, d) # ds, p))))
       else Inr ([], p))"
| "ReadDict 0 p = Inl OutOfFuel"
| "ReadDict (Suc n) p =
     and_then (TryNextDictItem p) (\<lambda>(more, p).
       if more then
         and_then (ValueDictKey p) (\<lambda>p. and_then (ReadValue n p) (\<lambda>(k, p).
         and_then (ValueDictPayload p) (\<lambda>p. and_then (ReadValue n p) (\<lambda>(x, p).
         and_then (ReadDict n p) (\<lambda>(ds, p). Inr ((k, x) # ds, p))))))
       else Inr ([], p))"

fun sum_items :: "(Value \<Rightarrow> nat) list \<Rightarrow> Value list \<Rightarrow> nat" where
  "sum_items (f # fs) (v # vs) = Suc (f v) + sum_items fs vs"
| "sum_items _ _ = 0"

definition variant_fuel :: "(Value \<Rightarrow> nat) list \<Rightarrow> Value \<Rightarrow> nat" where
  "variant_fuel fs v = (case variant_item (variant_number v) fs of Inl _ \<Rightarrow> 0 | Inr f \<Rightarrow> f (nested_value v))"

fun read_fuel :: "Type \<Rightarrow> Value \<Rightarrow> nat" where
  "read_fuel (OptionalType t) v = Suc (read_fuel t (optional_item v))"
| "read_fuel (ListType t) v = Suc (Suc (\<Sum>w \<leftarrow> items v. Suc (read_fuel t w)))"
| "read_fuel (TupleType ts) v = Suc (Suc (sum_items (map (\<lambda>t w. read_fuel t w) ts) (items v)))"
| "read_fuel (StructType ms) v = Suc (Suc (sum_items (map (\<lambda>(n, t) w. read_fuel t w) ms) (items v)))"
| "read_fuel (DictType kt vt) v = Suc (Suc (\<Sum>(k, x) \<leftarrow> pairs v. Suc (read_fuel kt k + read_fuel vt x)))"
| "read_fuel (VariantOf (TupleItems ts)) v = Suc (variant_fuel (map (\<lambda>t w. read_fuel t w) ts) v)"
| "read_fuel (VariantOf (StructItems ms)) v = Suc (variant_fuel (map (\<lambda>(n, t) w. read_fuel t w) ms) v)"
| "read_fuel (TaggedType tag t) v = Suc (read_fuel t v)"
| "read_fuel _ v = 1"

section \<open>Positions of the traversal\<close>

definition vpos :: "EParseKind \<Rightarrow> message \<Rightarrow> int \<Rightarrow> TValuePosition" where
  "vpos kind m idx = \<lparr>PosKind = kind, PosPtr = m, PosIdx = idx\<rparr>"

definition value_parser :: "Type \<Rightarrow> TProtoPosition list \<Rightarrow> TValuePosition list \<Rightarrow> TValueParser" where
  "value_parser root tpath vpath = \<lparr>ValueTypeParser = \<lparr>ParserType = root, ParserPath = tpath\<rparr>, ValuePath = vpath\<rparr>"

definition value_at :: "Value \<Rightarrow> int \<Rightarrow> TValuePosition" where
  "value_at v idx = vpos KindValue (ValueMessage v) idx"

text \<open>The position on an item or a pair of a container, or before the first one.\<close>

definition item_pos :: "Value \<Rightarrow> int \<Rightarrow> TValuePosition" where
  "item_pos v i = (if i < 0 then vpos KindItems (ValueMessage v) i else value_at (items v ! nat i) i)"

definition pair_pos :: "Value \<Rightarrow> int \<Rightarrow> TValuePosition" where
  "pair_pos v i =
     (if i < 0 then vpos KindPairs (ValueMessage v) i
      else vpos KindPair (PairMessage (fst (pairs v ! nat i)) (snd (pairs v ! nat i))) i)"

lemmas reader_defs = vpos_def value_parser_def value_at_def GetPathBack_def PopPath_def AddPath_def ValueGetProto_def
  GetProtoPair_def ValueGetKind_def ValueCheckKind_def on_type_def

lemma last_index: "xs \<noteq> [] \<Longrightarrow> nat (int (length xs) - 1) < length xs"
  by (cases xs) auto

lemma NextItems_at:
  assumes "k \<le> length (items v)"
  shows "NextItems (value_parser root tp (item_pos v (int k - 1) # value_at v idx # rv)) =
    (if k < length (items v) then Inr (True, value_parser root tp (item_pos v (int k) # value_at v idx # rv))
     else Inr (False, value_parser root tp (item_pos v (int k - 1) # value_at v idx # rv)))"
  using assms last_index [of "items v"] by (auto simp: NextItems_def OpenItems_def item_pos_def reader_defs Let_def)

lemma NextPairs_at:
  assumes "k \<le> length (pairs v)"
  shows "NextPairs (value_parser root tp (pair_pos v (int k - 1) # value_at v idx # rv)) =
    (if k < length (pairs v) then Inr (True, value_parser root tp (pair_pos v (int k) # value_at v idx # rv))
     else Inr (False, value_parser root tp (pair_pos v (int k - 1) # value_at v idx # rv)))"
  using assms last_index [of "pairs v"] by (auto simp: NextPairs_def leave_pair_def OpenPairs_def pair_pos_def reader_defs Let_def)

lemma NextPairs_inside:
  "NextPairs (value_parser root tp (value_at x i # pair_pos v j # rest)) = NextPairs (value_parser root tp (pair_pos v j # rest))"
  by (simp add: NextPairs_def leave_pair_def pair_pos_def reader_defs)

lemma primitive_of_id: "primitive_of i = Some t \<Longrightarrow> primitive_id t = i"
  by (auto simp: primitive_of_def find_Some_iff)

lemma get_primitive_at:
  "get_primitive t f (value_parser root (pos (Some (TypeId (primitive_id t))) i # rt) (value_at v idx # rv)) =
     checked (value_case v = GetPrimitiveValueCase t) (f v)"
  by (simp add: get_primitive_def CheckPrimitive_def CheckTransportKind_def reader_defs parser_defs checked_def)

lemmas getter_defs = GetBool_def GetInt8_def GetUint8_def GetInt16_def GetUint16_def GetInt32_def GetUint32_def
  GetInt64_def GetUint64_def GetFloat_def GetDouble_def GetDate_def GetDatetime_def GetTimestamp_def GetInterval_def
  GetDate32_def GetDatetime64_def GetTimestamp64_def GetInterval64_def GetTzDate_def GetTzDatetime_def
  GetTzTimestamp_def GetBytes_def GetText_def GetYson_def GetJson_def GetUuid_def GetJsonDocument_def GetDyNumber_def

lemma get_scalar_at:
  "get_scalar t (value_parser root (pos (Some (TypeId (primitive_id t))) i # rt) (value_at v idx # rv)) =
     checked (value_case v = GetPrimitiveValueCase t) (scalar_of t v)"
  by (cases t) (simp_all only: get_scalar.simps getter_defs get_primitive_at scalar_of.simps, simp_all add: mapr_def checked_def)

section \<open>The traversal returns the data\<close>

abbreviation reads :: "Type \<Rightarrow> bool" where
  "reads t \<equiv> \<forall>v n root rt idx rv. read_fuel t v \<le> n \<longrightarrow>
     ReadValue n (value_parser root (pos (Some t) (- 1) # rt) (value_at v idx # rv)) =
     and_then (decode t v) (\<lambda>d. Inr (d, value_parser root (pos (Some t) (- 1) # rt) (value_at v idx # rv)))"

lemma ReadList_ok:
  assumes "reads t" "items v = before @ todo" "(\<Sum>w \<leftarrow> todo. Suc (read_fuel t w)) < n"
  shows "ReadList n (value_parser root (pos (Some t) (- 1) # rt) (item_pos v (int (length before) - 1) # value_at v idx # rv)) =
    and_then (all_results (map (decode t) todo)) (\<lambda>ds. Inr (ds,
      value_parser root (pos (Some t) (- 1) # rt) (item_pos v (int (length (items v)) - 1) # value_at v idx # rv)))"
  using assms(2,3)
proof (induction todo arbitrary: before n)
  case Nil
  then obtain m where "n = Suc m"
    by (cases n) auto
  then show ?case
    using Nil.prems NextItems_at [of "length before" v] by (simp add: TryNextListItem_def)
next
  case (Cons w todo)
  obtain m where m: "n = Suc m" "read_fuel t w \<le> m" "(\<Sum>w \<leftarrow> todo. Suc (read_fuel t w)) < m"
    using Cons.prems(2) by (cases n) auto
  have "item_pos v (int (length before)) = value_at w (int (length before))"
    by (simp add: item_pos_def Cons.prems(1))
  moreover have "ReadList m (value_parser root (pos (Some t) (- 1) # rt) (item_pos v (int (length before)) # value_at v idx # rv)) =
    and_then (all_results (map (decode t) todo)) (\<lambda>ds. Inr (ds,
      value_parser root (pos (Some t) (- 1) # rt) (item_pos v (int (length (items v)) - 1) # value_at v idx # rv)))"
    using Cons.IH [of "before @ [w]" m] Cons.prems(1) m(3) by simp
  ultimately show ?case
    using Cons.prems(1) assms(1) m NextItems_at [of "length before" v]
    by (cases "decode t w"; cases "all_results (map (decode t) todo)") (simp_all add: TryNextListItem_def)
qed

lemma ReadTuple_ok:
  assumes "\<forall>t \<in> set todo. reads t" "length before \<le> length (items v)"
    and "sum_items (map read_fuel todo) (drop (length before) (items v)) < n"
  shows "\<exists>c c'. ReadTuple n (value_parser root (child # pos (Some (TupleType (before @ todo))) (int (length before) - 1) # rt)
      (item_pos v (int (length before) - 1) # value_at v idx # rv)) =
    and_then (decode_items (map decode todo) (drop (length before) (items v))) (\<lambda>ds. Inr (ds,
      value_parser root (c # pos (Some (TupleType (before @ todo))) (int (length (before @ todo)) - 1) # rt)
        (c' # value_at v idx # rv)))"
  using assms
proof (induction todo arbitrary: before n child)
  case Nil
  then obtain m where m: "n = Suc m"
    by (cases n) auto
  have "nat (int (length before) - 1) = length before - 1"
    by simp
  then show ?case
    by (auto simp: m ValueTryNextElement_def next_typed_item_def value_parser_def parser_defs item_step_def)
next
  case (Cons t todo)
  let ?p = "\<lambda>k c. value_parser root (c # pos (Some (TupleType (before @ t # todo))) (int k) # rt)"
  obtain m where m: "n = Suc m"
    using Cons.prems(3) by (cases n) auto
  have nxt: "TryNextElement \<lparr>ParserType = root, ParserPath = child # pos (Some (TupleType (before @ t # todo))) (int (length before) - 1) # rt\<rparr> =
      Inr (True, \<lparr>ParserType = root, ParserPath = pos (Some t) (- 1) # pos (Some (TupleType (before @ t # todo))) (int (length before)) # rt\<rparr>)"
    by (simp add: parser_defs item_step_def)
  show ?case
  proof (cases "length before < length (items v)")
    case False
    then show ?thesis
      using Cons.prems(2) NextItems_at [of "length before" v] nxt
      by (simp add: m ValueTryNextElement_def next_typed_item_def value_parser_def)
  next
    case True
    define w where "w = items v ! length before"
    have d: "drop (length before) (items v) = w # drop (Suc (length before)) (items v)"
      using True by (simp add: w_def Cons_nth_drop_Suc)
    then have f: "read_fuel t w \<le> m" "sum_items (map read_fuel todo) (drop (Suc (length before)) (items v)) < m"
      using Cons.prems(3) by (simp_all add: m)
    have i: "item_pos v (int (length before)) = value_at w (int (length before))"
      by (simp add: item_pos_def w_def)
    obtain c c' where "ReadTuple m (?p (length before) (pos (Some t) (- 1)) (item_pos v (int (length before)) # value_at v idx # rv)) =
      and_then (decode_items (map decode todo) (drop (Suc (length before)) (items v))) (\<lambda>ds. Inr (ds,
        ?p (length (before @ todo)) c (c' # value_at v idx # rv)))"
      using Cons.IH [of "before @ [t]" m "pos (Some t) (- 1)"] Cons.prems(1) True f(2) by auto
    moreover have "ReadValue m (?p (length before) (pos (Some t) (- 1)) (value_at w (int (length before)) # value_at v idx # rv)) =
      and_then (decode t w) (\<lambda>d. Inr (d, ?p (length before) (pos (Some t) (- 1)) (value_at w (int (length before)) # value_at v idx # rv)))"
      using Cons.prems(1) f(1) by simp
    ultimately show ?thesis
      using True NextItems_at [of "length before" v] nxt
      by (cases "decode t w") (auto simp: m d i ValueTryNextElement_def next_typed_item_def value_parser_def
        and_then_def split: sum.splits)
  qed
qed

definition decode_member :: "string \<times> Type \<Rightarrow> Value \<Rightarrow> (string \<times> data) result" where
  "decode_member m v = and_then (decode (snd m) v) (\<lambda>d. Inr (fst m, d))"

lemma decode_struct:
  "decode (StructType ms) v = and_then (decode_items (map decode_member ms) (items v)) (\<lambda>ds. Inr (DStruct ds))"
  "read_fuel (StructType ms) v = Suc (Suc (sum_items (map (\<lambda>m. read_fuel (snd m)) ms) (items v)))"
proof -
  have "(\<lambda>(n, t) w. and_then (decode t w) (\<lambda>d. Inr (n, d))) = decode_member"
    by (auto simp: fun_eq_iff decode_member_def)
  then show "decode (StructType ms) v = and_then (decode_items (map decode_member ms) (items v)) (\<lambda>ds. Inr (DStruct ds))"
    by simp
qed (simp add: case_prod_unfold)

lemma ReadStruct_ok:
  assumes "\<forall>m \<in> set todo. reads (snd m)" "length before \<le> length (items v)"
    and "sum_items (map (\<lambda>m. read_fuel (snd m)) todo) (drop (length before) (items v)) < n"
  shows "\<exists>c c'. ReadStruct n (value_parser root (child # pos (Some (StructType (before @ todo))) (int (length before) - 1) # rt)
      (item_pos v (int (length before) - 1) # value_at v idx # rv)) =
    and_then (decode_items (map decode_member todo) (drop (length before) (items v))) (\<lambda>ds. Inr (ds,
      value_parser root (c # pos (Some (StructType (before @ todo))) (int (length (before @ todo)) - 1) # rt)
        (c' # value_at v idx # rv)))"
  using assms
proof (induction todo arbitrary: before n child)
  case Nil
  then obtain m where m: "n = Suc m"
    by (cases n) auto
  have "nat (int (length before) - 1) = length before - 1"
    by simp
  then show ?case
    by (auto simp: m ValueTryNextMember_def next_typed_item_def value_parser_def parser_defs item_step_def)
next
  case (Cons x todo)
  obtain name t where x: "x = (name, t)"
    by fastforce
  let ?p = "\<lambda>k c. value_parser root (c # pos (Some (StructType (before @ x # todo))) (int k) # rt)"
  obtain m where m: "n = Suc m"
    using Cons.prems(3) by (cases n) auto
  have nxt: "TryNextMember \<lparr>ParserType = root, ParserPath = child # pos (Some (StructType (before @ x # todo))) (int (length before) - 1) # rt\<rparr> =
      Inr (True, \<lparr>ParserType = root, ParserPath = pos (Some t) (- 1) # pos (Some (StructType (before @ x # todo))) (int (length before)) # rt\<rparr>)"
    by (simp add: parser_defs item_step_def x nth_append)
  have name: "ValueGetMemberName (?p (length before) c vp) = Inr name" for c vp
    by (simp add: ValueGetMemberName_def value_parser_def parser_defs x)
  show ?case
  proof (cases "length before < length (items v)")
    case False
    then show ?thesis
      using Cons.prems(2) NextItems_at [of "length before" v] nxt
      by (simp add: m ValueTryNextMember_def next_typed_item_def value_parser_def)
  next
    case True
    define w where "w = items v ! length before"
    have d: "drop (length before) (items v) = w # drop (Suc (length before)) (items v)"
      using True by (simp add: w_def Cons_nth_drop_Suc)
    then have f: "read_fuel t w \<le> m" "sum_items (map (\<lambda>m. read_fuel (snd m)) todo) (drop (Suc (length before)) (items v)) < m"
      using Cons.prems(3) by (simp_all add: m x)
    have i: "item_pos v (int (length before)) = value_at w (int (length before))"
      by (simp add: item_pos_def w_def)
    obtain c c' where "ReadStruct m (?p (length before) (pos (Some t) (- 1)) (item_pos v (int (length before)) # value_at v idx # rv)) =
      and_then (decode_items (map decode_member todo) (drop (Suc (length before)) (items v))) (\<lambda>ds. Inr (ds,
        ?p (length (before @ todo)) c (c' # value_at v idx # rv)))"
      using Cons.IH [of "before @ [x]" m "pos (Some t) (- 1)"] Cons.prems(1) True f(2) by auto
    moreover have "ReadValue m (?p (length before) (pos (Some t) (- 1)) (value_at w (int (length before)) # value_at v idx # rv)) =
      and_then (decode t w) (\<lambda>d. Inr (d, ?p (length before) (pos (Some t) (- 1)) (value_at w (int (length before)) # value_at v idx # rv)))"
      using Cons.prems(1) f(1) by (simp add: x)
    ultimately show ?thesis
      using True NextItems_at [of "length before" v] nxt name [of "pos (Some t) (- 1)"]
      by (cases "decode t w") (auto simp: m d i decode_member_def [of "(name, t)"] x ValueTryNextMember_def next_typed_item_def value_parser_def
        and_then_def split: sum.splits)
  qed
qed

definition decode_pair :: "Type \<Rightarrow> Type \<Rightarrow> Value \<times> Value \<Rightarrow> (data \<times> data) result" where
  "decode_pair kt vt kv = and_then (decode kt (fst kv)) (\<lambda>dk. and_then (decode vt (snd kv)) (\<lambda>dx. Inr (dk, dx)))"

lemma decode_dict:
  "decode (DictType kt vt) v = and_then (all_results (map (decode_pair kt vt) (pairs v))) (\<lambda>ds. Inr (DDict ds))"
  "read_fuel (DictType kt vt) v = Suc (Suc (\<Sum>kx \<leftarrow> pairs v. Suc (read_fuel kt (fst kx) + read_fuel vt (snd kx))))"
proof -
  have "(\<lambda>(k, x). and_then (decode kt k) (\<lambda>dk. and_then (decode vt x) (\<lambda>dx. Inr (dk, dx)))) = decode_pair kt vt"
    by (auto simp: fun_eq_iff decode_pair_def)
  then show "decode (DictType kt vt) v = and_then (all_results (map (decode_pair kt vt) (pairs v))) (\<lambda>ds. Inr (DDict ds))"
    by simp
qed (simp add: case_prod_unfold)

text \<open>Between two pairs the reader stands on a pair, or on the payload of one.\<close>

definition between_pairs :: "Value \<Rightarrow> nat \<Rightarrow> TValuePosition list \<Rightarrow> TValuePosition list \<Rightarrow> bool" where
  "between_pairs v k rest path \<longleftrightarrow>
     path = pair_pos v (int k - 1) # rest \<or> (\<exists>x i. path = value_at x i # pair_pos v (int k - 1) # rest)"

lemma between_pairs_start: "between_pairs v k rest (pair_pos v (int k - 1) # rest)"
  by (simp add: between_pairs_def)

lemma TryNextDictItem_at:
  assumes "between_pairs v k (value_at v idx # rv) path" "k \<le> length (pairs v)"
  shows "TryNextDictItem (value_parser root tp path) =
    (if k < length (pairs v) then Inr (True, value_parser root tp (pair_pos v (int k) # value_at v idx # rv))
     else Inr (False, value_parser root tp (pair_pos v (int k - 1) # value_at v idx # rv)))"
  using assms by (auto simp: between_pairs_def TryNextDictItem_def NextPairs_inside NextPairs_at)

lemma DictKey_at:
  assumes "k < length (pairs v)"
  shows "ValueDictKey (value_parser root (c # pos (Some (DictType kt vt)) i # rt) (pair_pos v (int k) # rv)) =
      Inr (value_parser root (pos (Some kt) (- 1) # pos (Some (DictType kt vt)) 0 # rt)
        (value_at (fst (pairs v ! k)) (- 1) # pair_pos v (int k) # rv))"
    "ValueDictPayload (value_parser root (c # pos (Some (DictType kt vt)) i # rt) (value_at x j # pair_pos v (int k) # rv)) =
      Inr (value_parser root (pos (Some vt) (- 1) # pos (Some (DictType kt vt)) 1 # rt)
        (value_at (snd (pairs v ! k)) (- 1) # pair_pos v (int k) # rv))"
  by (simp_all add: ValueDictKey_def ValueDictPayload_def open_pair_part_def pair_pos_def reader_defs parser_defs Let_def)

lemma ReadDict_ok:
  assumes "reads kt" "reads vt" "pairs v = before @ todo"
    and "(\<Sum>kx \<leftarrow> todo. Suc (read_fuel kt (fst kx) + read_fuel vt (snd kx))) < n"
    and "between_pairs v (length before) (value_at v idx # rv) path"
  shows "\<exists>c i. ReadDict n (value_parser root (child # pos (Some (DictType kt vt)) j # rt) path) =
    and_then (all_results (map (decode_pair kt vt) todo)) (\<lambda>ds. Inr (ds,
      value_parser root (c # pos (Some (DictType kt vt)) i # rt) (pair_pos v (int (length (pairs v)) - 1) # value_at v idx # rv)))"
  using assms(3-5)
proof (induction todo arbitrary: before n path child j)
  case Nil
  then obtain m where "n = Suc m"
    by (cases n) auto
  then show ?case
    using Nil.prems TryNextDictItem_at [OF Nil.prems(3)] by auto
next
  case (Cons kx todo)
  let ?d = "pos (Some (DictType kt vt))" and ?k = "length before"
  obtain k x where kx: "kx = (k, x)"
    by fastforce
  obtain m where m: "n = Suc m" "read_fuel kt k \<le> m" "read_fuel vt x \<le> m"
      "(\<Sum>kx \<leftarrow> todo. Suc (read_fuel kt (fst kx) + read_fuel vt (snd kx))) < m"
    using Cons.prems(2) by (cases n) (auto simp: kx)
  have at: "pairs v ! ?k = (k, x)" "?k < length (pairs v)"
    using Cons.prems(1) by (simp_all add: kx)
  have "between_pairs v (length (before @ [kx])) (value_at v idx # rv) (value_at x (- 1) # pair_pos v (int ?k) # value_at v idx # rv)"
    by (auto simp: between_pairs_def)
  from Cons.IH [OF _ m(4) this, of "pos (Some vt) (- 1)" 1] Cons.prems(1) obtain c i where
    "ReadDict m (value_parser root (pos (Some vt) (- 1) # ?d 1 # rt) (value_at x (- 1) # pair_pos v (int ?k) # value_at v idx # rv)) =
      and_then (all_results (map (decode_pair kt vt) todo)) (\<lambda>ds. Inr (ds,
        value_parser root (c # ?d i # rt) (pair_pos v (int (length (pairs v)) - 1) # value_at v idx # rv)))"
    by auto
  moreover have "ReadValue m (value_parser root (pos (Some kt) (- 1) # ?d 0 # rt) (value_at k (- 1) # rest)) =
      and_then (decode kt k) (\<lambda>d. Inr (d, value_parser root (pos (Some kt) (- 1) # ?d 0 # rt) (value_at k (- 1) # rest)))"
    "ReadValue m (value_parser root (pos (Some vt) (- 1) # ?d 1 # rt) (value_at x (- 1) # rest)) =
      and_then (decode vt x) (\<lambda>d. Inr (d, value_parser root (pos (Some vt) (- 1) # ?d 1 # rt) (value_at x (- 1) # rest)))" for rest
    using assms(1,2) m(2,3) by simp_all
  ultimately show ?case
    using TryNextDictItem_at [OF Cons.prems(3)] DictKey_at [OF at(2)] at
    by (cases "decode kt k"; cases "decode vt x") (auto simp: m(1) kx decode_pair_def [of _ _ "(k, x)"] and_then_def split: sum.splits)
qed

lemma decode_variant_at:
  assumes "\<forall>i < length ts. reads (ts ! i)" "VariantOf vt = VariantOf (TupleItems ts) \<or> (\<exists>ms. vt = StructItems ms \<and> ts = map snd ms)"
    and "variant_fuel (map read_fuel ts) v \<le> n"
  shows "ReadValue (Suc n) (value_parser root (pos (Some (VariantOf vt)) (- 1) # rt) (value_at v idx # rv)) =
    and_then (decode_variant (map decode ts) v) (\<lambda>d. Inr (d, value_parser root (pos (Some (VariantOf vt)) (- 1) # rt) (value_at v idx # rv)))"
proof -
  define p where "p = value_parser root (pos (Some (VariantOf vt)) (- 1) # rt) (value_at v idx # rv)"
  have k: "ValueGetKind p = Inr Variant" "GetVariantIndex p = Inr (variant_index v)"
    by (simp_all add: p_def GetVariantIndex_def reader_defs parser_defs)
  show ?thesis
  proof (cases "variant_item (variant_number v) ts")
    case (Inl e)
    then have "OpenVariantIndex (ucast (variant_index v)) (ValueTypeParser p) = Inl e" "variant_item (variant_number v) (map decode ts) = Inl e"
      using assms(2) by (auto simp: p_def OpenVariantIndex_def OpenVariantAt_def reader_defs parser_defs variant_number_def variant_item_def
        split: if_splits)
    then show ?thesis
      using k by (simp add: p_def [symmetric] ValueOpenVariant_def on_type_def decode_variant_def) (simp add: p_def reader_defs)
  next
    case (Inr t)
    then obtain i where i: "variant_number v = int i" "i < length ts" "t = ts ! i"
      by (auto simp: variant_item_def split: if_splits intro: that [of "nat (variant_number v)"])
    then have f: "variant_item (variant_number v) (map decode ts) = Inr (decode t)" "read_fuel t (nested_value v) \<le> n"
      using assms(3) by (simp_all add: variant_item_def variant_fuel_def)
    have o: "OpenVariantIndex (ucast (variant_index v)) (ValueTypeParser p) = Inr (push_position (Some t) (ValueTypeParser p))"
      using assms(2) Inr by (auto simp: p_def OpenVariantIndex_def OpenVariantAt_def reader_defs parser_defs variant_number_def)
    let ?q = "value_parser root (pos (Some t) (- 1) # pos (Some (VariantOf vt)) (- 1) # rt)
      (value_at (nested_value v) (- 1) # value_at v idx # rv)"
    have "ValueOpenVariant p = (if value_case v = kNestedValue then Inr ?q else Inl FatalError)"
      using o by (simp add: ValueOpenVariant_def on_type_def) (simp add: p_def reader_defs push_position_def pos_def)
    moreover have "ReadValue n ?q = and_then (decode t (nested_value v)) (\<lambda>d. Inr (d, ?q))"
      using assms(1) i f(2) by simp
    moreover have "ValueCloseVariant ?q = Inr p"
      by (simp add: p_def ValueCloseVariant_def reader_defs parser_defs)
    ultimately show ?thesis
      using k by (cases "decode t (nested_value v)")
        (simp_all add: p_def [symmetric] decode_variant_def f(1) checked_def)
  qed
qed

lemma reads_primitive: "reads (TypeId i)"
proof -
  have "get_scalar t (value_parser root (pos (Some (TypeId i)) (- 1) # rt) (value_at v idx # rv)) =
      checked (value_case v = GetPrimitiveValueCase t) (scalar_of t v)" if "primitive_of i = Some t" for t root rt v idx rv
    using get_scalar_at [of t] primitive_of_id [OF that] by simp
  then show ?thesis
    by (auto simp: GetPrimitiveType_def ValueGetKind_def ValueCheckKind_def value_parser_def parser_defs checked_def
      dest!: Suc_le_fuel split: option.splits)
qed

lemma reads_optional:
  assumes "reads t"
  shows "reads (OptionalType t)"
proof (intro allI impI)
  fix v n root rt idx rv
  assume "read_fuel (OptionalType t) v \<le> n"
  then obtain m where m: "n = Suc m" "read_fuel t (optional_item v) \<le> m"
    by (cases n) auto
  let ?p = "value_parser root (pos (Some (OptionalType t)) (- 1) # rt) (value_at v idx # rv)"
  let ?q = "value_parser root (pos (Some t) (- 1) # pos (Some (OptionalType t)) (- 1) # rt)"
  have "ValueOpenOptional ?p = Inr (?q (vpos (if value_case v = kNullFlagValue then KindNull else KindValue)
      (ValueMessage (optional_item v)) (- 1) # value_at v idx # rv))"
    by (simp add: ValueOpenOptional_def optional_item_def reader_defs parser_defs)
  moreover have "ReadValue m (?q (value_at (optional_item v) (- 1) # rest)) =
      and_then (decode t (optional_item v)) (\<lambda>d. Inr (d, ?q (value_at (optional_item v) (- 1) # rest)))" for rest
    using assms m(2) by simp
  moreover have "ValueCloseOptional (?q (c # value_at v idx # rv)) = Inr ?p" for c
    by (simp add: ValueCloseOptional_def reader_defs parser_defs)
  moreover have "ValueGetKind ?p = Inr Optional" "IsNull (?q (vpos kind w i # rest)) = Inr (kind = KindNull)" for kind w i rest
    by (simp_all add: IsNull_def reader_defs parser_defs)
  ultimately show "ReadValue n ?p = and_then (decode (OptionalType t) v) (\<lambda>d. Inr (d, ?p))"
    by (cases "decode t (optional_item v)") (simp_all add: m(1) value_at_def [symmetric])
qed

lemma reads_list:
  assumes "reads t"
  shows "reads (ListType t)"
proof (intro allI impI)
  fix v n root rt idx rv
  assume "read_fuel (ListType t) v \<le> n"
  then obtain m where m: "n = Suc m" "(\<Sum>w \<leftarrow> items v. Suc (read_fuel t w)) < m"
    by (cases n) auto
  let ?p = "value_parser root (pos (Some (ListType t)) (- 1) # rt) (value_at v idx # rv)"
  let ?q = "value_parser root (pos (Some t) (- 1) # pos (Some (ListType t)) (- 1) # rt)"
  have "ValueOpenList ?p = Inr (?q (item_pos v (- 1) # value_at v idx # rv))"
    by (simp add: ValueOpenList_def OpenItems_def item_pos_def reader_defs parser_defs)
  moreover have "ValueCloseList (?q (c # value_at v idx # rv)) = Inr ?p" for c
    by (simp add: ValueCloseList_def CloseItems_def reader_defs parser_defs)
  moreover have "ValueGetKind ?p = Inr List"
    by (simp add: reader_defs parser_defs)
  ultimately show "ReadValue n ?p = and_then (decode (ListType t) v) (\<lambda>d. Inr (d, ?p))"
    using ReadList_ok [OF assms, of v "[]" "items v" m] m(2)
    by (cases "all_results (map (decode t) (items v))") (simp_all add: m(1))
qed

lemma reads_tagged:
  assumes "reads t"
  shows "reads (TaggedType tag t)"
proof (intro allI impI)
  fix v n root rt idx rv
  assume "read_fuel (TaggedType tag t) v \<le> n"
  then obtain m where m: "n = Suc m" "read_fuel t v \<le> m"
    by (cases n) auto
  let ?p = "value_parser root (pos (Some (TaggedType tag t)) (- 1) # rt) (value_at v idx # rv)"
  let ?q = "value_parser root (pos (Some t) (- 1) # pos (Some (TaggedType tag t)) (- 1) # rt) (value_at v idx # rv)"
  have "ValueOpenTagged ?p = Inr ?q" "ValueGetKind ?p = Inr Tagged" "ValueGetTag ?q = Inr tag" "ValueCloseTagged ?q = Inr ?p"
    by (simp_all add: ValueOpenTagged_def ValueGetTag_def ValueCloseTagged_def reader_defs parser_defs)
  then show "ReadValue n ?p = and_then (decode (TaggedType tag t) v) (\<lambda>d. Inr (d, ?p))"
    using assms m(2) by (cases "decode t v") (simp_all add: m(1))
qed

lemma reads_dict:
  assumes "reads kt" "reads vt"
  shows "reads (DictType kt vt)"
proof (intro allI impI)
  fix v n root rt idx rv
  assume "read_fuel (DictType kt vt) v \<le> n"
  then obtain m where m: "n = Suc m" "(\<Sum>kx \<leftarrow> pairs v. Suc (read_fuel kt (fst kx) + read_fuel vt (snd kx))) < m"
    unfolding decode_dict by (cases n) auto
  let ?p = "value_parser root (pos (Some (DictType kt vt)) (- 1) # rt) (value_at v idx # rv)"
  let ?q = "\<lambda>c i. value_parser root (c # pos (Some (DictType kt vt)) i # rt)"
  have "ValueOpenDict ?p = Inr (?q (pos (Some (DictType kt vt)) (- 1)) (- 1) (pair_pos v (- 1) # value_at v idx # rv))"
    by (simp add: ValueOpenDict_def OpenPairs_def pair_pos_def reader_defs parser_defs)
  moreover have "ValueCloseDict (?q c i (pair_pos v j # value_at v idx # rv)) = Inr ?p" for c i j
    by (simp add: ValueCloseDict_def ClosePairs_def leave_pair_def pair_pos_def reader_defs parser_defs)
  moreover have "ValueGetKind ?p = Inr Dict"
    by (simp add: reader_defs parser_defs)
  ultimately show "ReadValue n ?p = and_then (decode (DictType kt vt) v) (\<lambda>d. Inr (d, ?p))"
    using ReadDict_ok [OF assms, of v "[]" "pairs v" m idx rv "pair_pos v (- 1) # value_at v idx # rv" root
        "pos (Some (DictType kt vt)) (- 1)" "- 1" rt] m(2) between_pairs_start [of v 0]
    by (cases "all_results (map (decode_pair kt vt) (pairs v))") (auto simp: m(1) decode_dict simp del: decode.simps)
qed

lemma reads_tuple:
  assumes "\<forall>t \<in> set ts. reads t"
  shows "reads (TupleType ts)"
proof (intro allI impI)
  fix v n root rt idx rv
  assume "read_fuel (TupleType ts) v \<le> n"
  then obtain m where m: "n = Suc m" "sum_items (map read_fuel ts) (items v) < m"
    by (cases n) auto
  let ?p = "value_parser root (pos (Some (TupleType ts)) (- 1) # rt) (value_at v idx # rv)"
  let ?q = "\<lambda>c i. value_parser root (c # pos (Some (TupleType ts)) i # rt)"
  have "ValueOpenTuple ?p = Inr (?q (pos (Some (TupleType ts)) (- 1)) (- 1) (item_pos v (- 1) # value_at v idx # rv))"
    by (simp add: ValueOpenTuple_def OpenItems_def item_pos_def item_step_def reader_defs parser_defs)
  moreover have "ValueCloseTuple (?q c i (c' # value_at v idx # rv)) = Inr ?p" for c c' i
    by (simp add: ValueCloseTuple_def CloseItems_def reader_defs parser_defs)
  moreover have "ValueGetKind ?p = Inr Tuple"
    by (simp add: reader_defs parser_defs)
  ultimately show "ReadValue n ?p = and_then (decode (TupleType ts) v) (\<lambda>d. Inr (d, ?p))"
    using ReadTuple_ok [OF assms, of "[]" v m root "pos (Some (TupleType ts)) (- 1)" rt idx rv] m(2)
    by (cases "decode_items (map decode ts) (items v)") (auto simp: m(1))
qed

lemma reads_struct:
  assumes "\<forall>m \<in> set ms. reads (snd m)"
  shows "reads (StructType ms)"
proof (intro allI impI)
  fix v n root rt idx rv
  assume "read_fuel (StructType ms) v \<le> n"
  then obtain m where m: "n = Suc m" "sum_items (map (\<lambda>m. read_fuel (snd m)) ms) (items v) < m"
    unfolding decode_struct by (cases n) auto
  let ?p = "value_parser root (pos (Some (StructType ms)) (- 1) # rt) (value_at v idx # rv)"
  let ?q = "\<lambda>c i. value_parser root (c # pos (Some (StructType ms)) i # rt)"
  have "ValueOpenStruct ?p = Inr (?q (pos (Some (StructType ms)) (- 1)) (- 1) (item_pos v (- 1) # value_at v idx # rv))"
    by (simp add: ValueOpenStruct_def OpenItems_def item_pos_def item_step_def reader_defs parser_defs)
  moreover have "ValueCloseStruct (?q c i (c' # value_at v idx # rv)) = Inr ?p" for c c' i
    by (simp add: ValueCloseStruct_def CloseItems_def reader_defs parser_defs)
  moreover have "ValueGetKind ?p = Inr Struct"
    by (simp add: reader_defs parser_defs)
  ultimately show "ReadValue n ?p = and_then (decode (StructType ms) v) (\<lambda>d. Inr (d, ?p))"
    using ReadStruct_ok [OF assms, of "[]" v m root "pos (Some (StructType ms)) (- 1)" rt idx rv] m(2)
    by (cases "decode_items (map decode_member ms) (items v)") (auto simp: m(1) decode_struct simp del: decode.simps)
qed

lemma reads_variant:
  assumes "\<forall>i < length ts. reads (ts ! i)" "vt = TupleItems ts \<or> (\<exists>ms. vt = StructItems ms \<and> ts = map snd ms)"
  shows "reads (VariantOf vt)"
proof (intro allI impI)
  fix v n root rt idx rv
  assume a: "read_fuel (VariantOf vt) v \<le> n"
  have e: "decode (VariantOf vt) v = decode_variant (map decode ts) v"
      "read_fuel (VariantOf vt) v = Suc (variant_fuel (map read_fuel ts) v)"
    using assms(2) by (auto simp: case_prod_unfold o_def)
  obtain m where "n = Suc m" "variant_fuel (map read_fuel ts) v \<le> m"
    using a by (cases n) (auto simp: e(2))
  then show "ReadValue n (value_parser root (pos (Some (VariantOf vt)) (- 1) # rt) (value_at v idx # rv)) =
      and_then (decode (VariantOf vt) v) (\<lambda>d. Inr (d, value_parser root (pos (Some (VariantOf vt)) (- 1) # rt) (value_at v idx # rv)))"
    using decode_variant_at [OF assms(1), of vt v m] assms(2) by (simp only: e(1)) auto
qed

lemma ReadValue_ok: "reads t"
proof (induction t)
  case (TypeId i)
  show ?case
    by (rule reads_primitive)
next
  case (OptionalType t)
  then show ?case
    by (rule reads_optional)
next
  case (ListType t)
  then show ?case
    by (rule reads_list)
next
  case (TaggedType tag t)
  then show ?case
    by (rule reads_tagged)
next
  case (DictType kt vt)
  then show ?case
    by (rule reads_dict)
next
  case (TupleType ts)
  then show ?case
    by (intro reads_tuple) blast
next
  case (StructType ms)
  then show ?case
    using StructType.IH snds.intros by (intro reads_struct ballI) blast
next
  case (VariantOf vt)
  show ?case
  proof (cases vt)
    case VariantNotSet
    then show ?thesis
      by (auto simp: GetVariantIndex_def ValueOpenVariant_def OpenVariantIndex_def OpenVariantAt_def reader_defs parser_defs
        dest!: Suc_le_fuel)
  next
    case (TupleItems ts)
    then show ?thesis
      using VariantOf by (intro reads_variant [of ts]) auto
  next
    case (StructItems ms)
    have "reads (snd m)" if "m \<in> set ms" for m
      using that by (intro VariantOf.IH) (auto simp: StructItems intro!: bexI [of _ m] snds.intros)
    then show ?thesis
      using StructItems by (intro reads_variant [of "map snd ms"]) auto
  qed
qed (auto simp: ValueGetDecimal_def ValueGetPg_def CheckDecimal_def CheckPg_def CheckTransportKind_def checked_def
  reader_defs parser_defs dest!: Suc_le_fuel)

text \<open>
  A getter of an optional scalar returns nothing for a null, and otherwise what the plain getter returns for
  the item; the reader is where it was before.
\<close>

lemma GetOptional_at:
  assumes "\<And>w idx rv. get (value_parser root (pos (Some t) (- 1) # pos (Some (OptionalType t)) (- 1) # rt) (value_at w idx # rv)) = g w"
  shows "RET_OPT_VALUE get (value_parser root (pos (Some (OptionalType t)) (- 1) # rt) (value_at v idx # rv)) =
    and_then (if value_case v = kNullFlagValue then Inr None else and_then (g (optional_item v)) (\<lambda>x. Inr (Some x)))
      (\<lambda>x. Inr (x, value_parser root (pos (Some (OptionalType t)) (- 1) # rt) (value_at v idx # rv)))"
proof -
  let ?p = "value_parser root (pos (Some (OptionalType t)) (- 1) # rt) (value_at v idx # rv)"
  let ?q = "value_parser root (pos (Some t) (- 1) # pos (Some (OptionalType t)) (- 1) # rt)"
  have "ValueOpenOptional ?p = Inr (?q (vpos (if value_case v = kNullFlagValue then KindNull else KindValue)
      (ValueMessage (optional_item v)) (- 1) # value_at v idx # rv))"
    by (simp add: ValueOpenOptional_def optional_item_def reader_defs parser_defs)
  moreover have "ValueCloseOptional (?q (c # value_at v idx # rv)) = Inr ?p" for c
    by (simp add: ValueCloseOptional_def reader_defs parser_defs)
  moreover have "IsNull (?q (vpos kind w i # rest)) = Inr (kind = KindNull)" for kind w i rest
    by (simp add: IsNull_def reader_defs)
  ultimately show ?thesis
    using assms [of "optional_item v"]
    by (cases "g (optional_item v)") (simp_all add: RET_OPT_VALUE_def value_at_def [symmetric])
qed

section \<open>Errors\<close>

fun has_variant :: "Type \<Rightarrow> bool" where
  "has_variant (OptionalType t) = has_variant t"
| "has_variant (ListType t) = has_variant t"
| "has_variant (TupleType ts) = list_ex has_variant ts"
| "has_variant (StructType ms) = list_ex (\<lambda>(n, t). has_variant t) ms"
| "has_variant (DictType k v) = (has_variant k \<or> has_variant v)"
| "has_variant (VariantOf _) = True"
| "has_variant (TaggedType tag t) = has_variant t"
| "has_variant _ = False"

lemma all_results_error: "all_results rs = Inl e \<Longrightarrow> \<exists>r \<in> set rs. r = Inl e"
  by (induction rs) (auto simp: and_then_def split: sum.splits)

lemma decode_items_error: "decode_items fs vs = Inl e \<Longrightarrow> e = FatalError \<or> (\<exists>f \<in> set fs. \<exists>v. f v = Inl e)"
  by (induction fs vs rule: decode_items.induct) (auto simp: and_then_def split: sum.splits)

lemma decode_error: "decode t v = Inl e \<Longrightarrow> \<not> has_variant t \<Longrightarrow> e = FatalError"
proof (induction t arbitrary: v)
  case (ListType t)
  then show ?case
    by (auto simp: and_then_def split: sum.splits dest!: all_results_error)
next
  case (TupleType ts)
  then show ?case
    by (fastforce simp: and_then_def list_ex_iff split: sum.splits dest!: decode_items_error)
next
  case (StructType ms)
  then show ?case
    by (fastforce simp: and_then_def list_ex_iff decode_struct decode_member_def simp del: decode.simps split: sum.splits
      dest!: decode_items_error)
next
  case (DictType kt vt)
  then show ?case
    by (auto simp: and_then_def decode_dict decode_pair_def simp del: decode.simps split: sum.splits dest!: all_results_error)
qed (auto simp: and_then_def checked_def split: sum.splits option.splits if_splits)

lemma new_value_parser_ok:
  obtains p where "new_value_parser x = Inr p"
  by (simp add: new_value_parser_def ValueReset_def value_parser_of_type_def AddPath_def)

lemma ReadValue_new:
  assumes "read_fuel type v \<le> fuel" "new_value_parser \<lparr>ValueType = type, ValueProto = v\<rparr> = Inr p"
  shows "ReadValue fuel p = and_then (decode type v) (\<lambda>d. Inr (d, p))"
proof -
  have p: "p = value_parser type (pos (Some type) (- 1) # []) (value_at v (- 1) # [])"
    using assms(2) by (simp add: new_value_parser_def ValueReset_def value_parser_of_type_def AddPath_def new_parser_def Reset_def
      value_parser_def pos_def value_at_def vpos_def)
  show ?thesis
    unfolding p using ReadValue_ok [of type] assms(1) by blast
qed

text \<open>
  C28. A client that opens, steps through and closes what the kind of the type asks for reads the data of the
  message: with the given fuel the traversal returns, for every type and every message, what recursion on the type
  gives, and leaves the reader where it started. A message that does not fit its type ends in a contract violation
  and never in an access outside of the message, if the type has no variants.
\<close>

theorem ReadValue_data:
  assumes "read_fuel type v \<le> fuel" "new_value_parser \<lparr>ValueType = type, ValueProto = v\<rparr> = Inr p"
  shows "ReadValue fuel p = and_then (decode type v) (\<lambda>d. Inr (d, p)) \<and>
    (\<not> has_variant type \<longrightarrow> (case ReadValue fuel p of Inl e \<Rightarrow> e = FatalError | Inr _ \<Rightarrow> True))"
  using ReadValue_new [OF assms] decode_error [of type v] by (cases "decode type v") simp_all

definition sample_type :: Type where
  "sample_type = StructType [(''a'', ListType (TypeId 1)), (''b'', OptionalType (TypeId 0x1200))]"

definition sample_value :: Value where
  "sample_value = Value ValueNotSet
     [Value ValueNotSet [Value (Int32Value 7) [] [] 0 0, Value (Int32Value (- 1)) [] [] 0 0] [] 0 0,
      Value NullFlagValue [] [] 0 0] [] 0 0"

theorem ReadValue_data_witness:
  "\<exists>p. new_value_parser \<lparr>ValueType = sample_type, ValueProto = sample_value\<rparr> = Inr p \<and>
     ReadValue 20 p =
       Inr (DStruct [(''a'', DList [DPrimitive Int32 (Scalar32 7), DPrimitive Int32 (Scalar32 (- 1))]), (''b'', DNone)], p)"
proof -
  obtain p where p: "new_value_parser \<lparr>ValueType = sample_type, ValueProto = sample_value\<rparr> = Inr p"
    by (rule new_value_parser_ok)
  have "read_fuel sample_type sample_value \<le> 20"
    by code_simp
  from ReadValue_data [OF this p] show ?thesis
    using p by (simp add: sample_type_def sample_value_def primitive_of_def primitive_types_def value_case_def checked_def
      int32_value_def)
qed

text \<open>
  The index of an alternative comes with the message. With its highest bit set it passes the range check of the
  type parser and selects an alternative outside of the type.
\<close>

lemma message_variant_unchecked:
  "decode (VariantOf (TupleItems [VoidType])) (Value (NestedValue default_value) [] [] (- 1) 0) = Inl OutOfRange"
  by code_simp

text \<open>
  The same holds for the pairs of a dictionary: between two of them the type parser still stands on the payload type,
  and a getter called before \<^verbatim>\<open>DictKey\<close> or \<^verbatim>\<open>DictPayload\<close> reads the pair as if it were a value.
\<close>

lemma pair_read_as_value:
  "and_then (new_value_parser \<lparr>ValueType = DictType (TypeId 1) (TypeId 1),
       ValueProto = Value ValueNotSet [] (replicate 2 (Value (Int32Value 7) [] [] 0 0, Value (Int32Value 8) [] [] 0 0)) 0 0\<rparr>) (\<lambda>p.
     and_then (ValueOpenDict p) (\<lambda>p. and_then (TryNextDictItem p) (\<lambda>(_, p). and_then (ValueDictKey p) (\<lambda>p.
     and_then (ValueDictPayload p) (\<lambda>p. and_then (TryNextDictItem p) (\<lambda>(_, p). GetInt32 p)))))) = Inl BadCast"
  by code_simp

end
