(* ===== verification/ValueBuilder.thy ===== *)
theory ValueBuilder
  imports TypeBuilder ValueReading
begin

text \<open>
  The builder of values, \<^verbatim>\<open>TValueBuilderImpl\<close> of \<^verbatim>\<open>client/value/value.cpp\<close>. It fills a message of the value
  through a stack of references into it and drives a type builder at the same time: where the type is not known yet
  the calls define it, where it is known they are checked against it. A reference is the list of steps from the
  root of the message. The number of open optional levels, a 32-bit counter in the code, is a natural number: it
  counts calls that are still open.
\<close>

section \<open>Parts of a value\<close>

datatype value_step = StepNested | StepItem nat | StepKey nat | StepPayload nat

fun value_part :: "value_step \<Rightarrow> Value \<Rightarrow> Value option" where
  "value_part StepNested v = (case content v of NestedValue w \<Rightarrow> Some w | _ \<Rightarrow> None)"
| "value_part (StepItem i) v = (if i < length (items v) then Some (items v ! i) else None)"
| "value_part (StepKey i) v = (if i < length (pairs v) then Some (fst (pairs v ! i)) else None)"
| "value_part (StepPayload i) v = (if i < length (pairs v) then Some (snd (pairs v ! i)) else None)"

fun set_value_part :: "value_step \<Rightarrow> Value \<Rightarrow> Value \<Rightarrow> Value" where
  "set_value_part StepNested w (Value c is ps n h) = Value (NestedValue w) is ps n h"
| "set_value_part (StepItem i) w (Value c is ps n h) = Value c (is[i := w]) ps n h"
| "set_value_part (StepKey i) w (Value c is ps n h) = Value c is (ps[i := (w, snd (ps ! i))]) n h"
| "set_value_part (StepPayload i) w (Value c is ps n h) = Value c is (ps[i := (fst (ps ! i), w)]) n h"

abbreviation get_value :: "value_step list \<Rightarrow> Value \<Rightarrow> Value option" where
  "get_value \<equiv> get_path value_part"

abbreviation update_value :: "value_step list \<Rightarrow> (Value \<Rightarrow> Value) \<Rightarrow> Value \<Rightarrow> Value" where
  "update_value \<equiv> update_path value_part set_value_part"

interpretation val: message_tree value_part set_value_part
proof
  fix i t u v w
  assume c: "value_part i t = Some u"
  show "value_part i (set_value_part i v t) = Some v"
    using c by (cases t; cases i) (auto split: if_splits)
  show "set_value_part i w (set_value_part i v t) = set_value_part i w t"
    using c by (cases t; cases i) (auto split: if_splits)
  show "set_value_part i u t = t"
    using c by (cases t; cases i) (auto split: if_splits ValueContent.splits)
qed

text \<open>Access for writing.\<close>

definition set_content :: "Value ValueContent \<Rightarrow> Value \<Rightarrow> Value" where
  "set_content c v = Value c (items v) (pairs v) (variant_index v) (high_128 v)"
definition set_high_128 :: "64 word \<Rightarrow> Value \<Rightarrow> Value" where
  "set_high_128 h v = Value (content v) (items v) (pairs v) (variant_index v) h"
definition add_items :: "Value \<Rightarrow> Value" where
  "add_items v = Value (content v) (items v @ [default_value]) (pairs v) (variant_index v) (high_128 v)"
definition add_pairs :: "Value \<Rightarrow> Value" where
  "add_pairs v = Value (content v) (items v) (pairs v @ [(default_value, default_value)]) (variant_index v) (high_128 v)"
definition mutable_nested_value :: "Value \<Rightarrow> Value" where
  "mutable_nested_value v =
     set_content (case content v of NestedValue w \<Rightarrow> NestedValue w | _ \<Rightarrow> NestedValue default_value) v"

section \<open>The builder\<close>

record TBuilderPosition =
  ValueRef :: "value_step list"
  BuildType :: bool
  OptLevel :: nat

record TStructPosition =
  MembersMap :: "(string, nat) amap"
  FilledMembers :: "nat list"

text \<open>
  The members of a struct type are cached by the address of its message. \<^verbatim>\<open>Build\<close> moves the message of the type out, so
  an address is the place in the type together with the number of types built before.
\<close>

type_synonym struct_address = "nat \<times> nat list"

record TValueBuilder =
  TypeBuilder :: TTypeBuilder
  ProtoValue :: Value
  StructsMap :: "(struct_address, (string, nat) amap) amap"
  ValueBuilderPath :: "TBuilderPosition list"
  StructsPath :: "TStructPosition list"
  TypesBuilt :: nat

definition new_position :: "value_step list \<Rightarrow> TBuilderPosition" where
  "new_position r = \<lparr>ValueRef = r, BuildType = False, OptLevel = 0\<rparr>"

definition value_builder_on :: "Type \<Rightarrow> Value \<Rightarrow> TValueBuilder" where
  "value_builder_on type v = \<lparr>TypeBuilder = \<lparr>BuiltType = type, BuilderPath = [[]]\<rparr>, ProtoValue = v, StructsMap = [],
     ValueBuilderPath = [new_position []], StructsPath = [], TypesBuilt = 0\<rparr>"

definition new_value_builder :: TValueBuilder where
  "new_value_builder = value_builder_on TypeNotSet default_value"

definition value_builder_of_type :: "Type \<Rightarrow> TValueBuilder" where
  "value_builder_of_type type = value_builder_on type default_value"

definition on_types :: "(TTypeBuilder \<Rightarrow> TTypeBuilder result) \<Rightarrow> TValueBuilder \<Rightarrow> TValueBuilder result" where
  "on_types f b = and_then (f (TypeBuilder b)) (\<lambda>t. Inr (b\<lparr>TypeBuilder := t\<rparr>))"

definition GetType :: "nat \<Rightarrow> TValueBuilder \<Rightarrow> Type result" where
  "GetType offset b = BuilderProto offset (TypeBuilder b)"

definition PathTop :: "TValueBuilder \<Rightarrow> TBuilderPosition result" where
  "PathTop b = (case ValueBuilderPath b of [] \<Rightarrow> Inl OutOfRange | p # _ \<Rightarrow> Inr p)"

definition on_path_top :: "(TBuilderPosition \<Rightarrow> TBuilderPosition) \<Rightarrow> TValueBuilder \<Rightarrow> TValueBuilder result" where
  "on_path_top f b =
     (case ValueBuilderPath b of [] \<Rightarrow> Inl OutOfRange | p # ps \<Rightarrow> Inr (b\<lparr>ValueBuilderPath := f p # ps\<rparr>))"

definition PushValue :: "value_step list \<Rightarrow> TValueBuilder \<Rightarrow> TValueBuilder" where
  "PushValue r b = b\<lparr>ValueBuilderPath := new_position r # ValueBuilderPath b\<rparr>"

definition PopValue :: "TValueBuilder \<Rightarrow> TValueBuilder result" where
  "PopValue b = (case ValueBuilderPath b of [] \<Rightarrow> Inl OutOfRange | _ # ps \<Rightarrow> Inr (b\<lparr>ValueBuilderPath := ps\<rparr>))"

definition GetValue :: "TValueBuilder \<Rightarrow> Value result" where
  "GetValue b =
     and_then (PathTop b) (\<lambda>p. case get_value (ValueRef p) (ProtoValue b) of None \<Rightarrow> Inl NullPointer | Some v \<Rightarrow> Inr v)"

definition modify_value :: "(Value \<Rightarrow> Value) \<Rightarrow> TValueBuilder \<Rightarrow> TValueBuilder result" where
  "modify_value f b =
     and_then (PathTop b) (\<lambda>p. and_then (GetValue b) (\<lambda>_.
       Inr (b\<lparr>ProtoValue := update_value (ValueRef p) f (ProtoValue b)\<rparr>)))"

text \<open>Push a reference to the current value, or to a part of it that must exist.\<close>

definition push_same :: "TValueBuilder \<Rightarrow> TValueBuilder result" where
  "push_same b = and_then (PathTop b) (\<lambda>p. Inr (PushValue (ValueRef p) b))"

definition push_part :: "(Value \<Rightarrow> value_step) \<Rightarrow> TValueBuilder \<Rightarrow> TValueBuilder result" where
  "push_part step b =
     and_then (PathTop b) (\<lambda>p. and_then (GetValue b) (\<lambda>v.
       case value_part (step v) v of None \<Rightarrow> Inl OutOfRange | Some _ \<Rightarrow> Inr (PushValue (ValueRef p @ [step v]) b)))"

definition push_added_item :: "TValueBuilder \<Rightarrow> TValueBuilder result" where
  "push_added_item b =
     and_then (modify_value add_items b) (push_part (\<lambda>v. StepItem (length (items v) - 1)))"

definition SetProtoValue :: "TValue \<Rightarrow> TValueBuilder \<Rightarrow> TValueBuilder result" where
  "SetProtoValue value b = modify_value (\<lambda>_. ValueProto value) b"

definition GetBuildType :: "TValueBuilder \<Rightarrow> bool result" where
  "GetBuildType b = and_then (PathTop b) (\<lambda>p. Inr (BuildType p))"

definition SetBuildType :: "bool \<Rightarrow> TValueBuilder \<Rightarrow> TValueBuilder result" where
  "SetBuildType x b = on_path_top (\<lambda>p. p\<lparr>BuildType := x\<rparr>) b"

definition CheckValue :: "TValueBuilder \<Rightarrow> unit result" where
  "CheckValue b = (if 1 < length (ValueBuilderPath b) then Inl FatalError else Inr ())"

definition BuildValue :: "TValueBuilder \<Rightarrow> (TValue \<times> TValueBuilder) result" where
  "BuildValue b =
     and_then (CheckValue b) (\<lambda>_.
     and_then (Build (TypeBuilder b)) (\<lambda>(type, tb).
       Inr (\<lparr>ValueType = type, ValueProto = ProtoValue b\<rparr>,
         b\<lparr>TypeBuilder := tb, ProtoValue := default_value, TypesBuilt := Suc (TypesBuilt b)\<rparr>)))"

section \<open>Checks against the type\<close>

definition CheckType :: "TValueBuilder \<Rightarrow> bool result" where
  "CheckType b = and_then (GetType 0 b) (\<lambda>t. Inr (t \<noteq> TypeNotSet))"

definition CheckTypeKind :: "ETypeKind \<Rightarrow> TValueBuilder \<Rightarrow> bool result" where
  "CheckTypeKind kind b =
     and_then (CheckType b) (\<lambda>known.
       if \<not> known then Inr False
       else and_then (GetType 0 b) (\<lambda>t. and_then (GetKind t) (\<lambda>expectedKind.
         if expectedKind \<noteq> kind then Inl FatalError else Inr True)))"

definition CheckTypeIs :: "Type \<Rightarrow> TValueBuilder \<Rightarrow> bool result" where
  "CheckTypeIs type b =
     and_then (CheckType b) (\<lambda>known.
       if \<not> known then Inr False
       else and_then (GetType 0 b) (\<lambda>t. and_then (TypesEqual t type) (\<lambda>equal.
         if \<not> equal then Inl FatalError else Inr True)))"

definition CheckPrimitiveType :: "EPrimitiveType \<Rightarrow> TValueBuilder \<Rightarrow> bool result" where
  "CheckPrimitiveType type b =
     and_then (CheckTypeKind Primitive b) (\<lambda>known.
       if \<not> known then Inr False
       else and_then (GetType 0 b) (\<lambda>t.
         if (case t of TypeId i \<Rightarrow> i | _ \<Rightarrow> 0) \<noteq> primitive_id type then Inl FatalError else Inr True))"

definition CheckDecimalType :: "TValueBuilder \<Rightarrow> bool result" where
  "CheckDecimalType b = CheckTypeKind Decimal b"

definition CheckPgType :: "TValueBuilder \<Rightarrow> bool result" where
  "CheckPgType b = CheckTypeKind Pg b"

definition CheckContainerKind :: "ETypeKind \<Rightarrow> TValueBuilder \<Rightarrow> unit result" where
  "CheckContainerKind kind b =
     (if length (ValueBuilderPath b) < 2 then Inl FatalError
      else and_then (GetType 1 b) (\<lambda>t. and_then (GetKind t) (\<lambda>actualKind.
        if actualKind \<noteq> kind then Inl FatalError else Inr ())))"

text \<open>Define the type if it is not known.\<close>

definition define_type :: "bool \<Rightarrow> (TTypeBuilder \<Rightarrow> TTypeBuilder result) \<Rightarrow> TValueBuilder \<Rightarrow> TValueBuilder result" where
  "define_type known f b = (if known then Inr b else on_types f b)"

definition FillPrimitiveType :: "EPrimitiveType \<Rightarrow> TValueBuilder \<Rightarrow> TValueBuilder result" where
  "FillPrimitiveType type b =
     and_then (CheckPrimitiveType type b) (\<lambda>known. define_type known (BuildPrimitive (primitive_id type)) b)"

definition FillDecimalType :: "TDecimalType \<Rightarrow> TValueBuilder \<Rightarrow> TValueBuilder result" where
  "FillDecimalType type b = and_then (CheckDecimalType b) (\<lambda>known. define_type known (BuildDecimal type) b)"

definition FillPgType :: "TPgType \<Rightarrow> TValueBuilder \<Rightarrow> TValueBuilder result" where
  "FillPgType type b = and_then (CheckPgType b) (\<lambda>known. define_type known (BuildPg type) b)"

definition check_or_set_type :: "Type \<Rightarrow> TValueBuilder \<Rightarrow> TValueBuilder result" where
  "check_or_set_type type b = and_then (CheckTypeIs type b) (\<lambda>known. define_type known (SetType type) b)"

section \<open>Scalars\<close>

definition put_primitive :: "EPrimitiveType \<Rightarrow> (Value \<Rightarrow> Value) \<Rightarrow> TValueBuilder \<Rightarrow> TValueBuilder result" where
  "put_primitive type f b = and_then (FillPrimitiveType type b) (modify_value f)"

definition ValueBool :: "bool \<Rightarrow> TValueBuilder \<Rightarrow> TValueBuilder result" where
  "ValueBool x b = put_primitive Bool (set_content (BoolValue x)) b"
definition ValueInt8 :: "8 word \<Rightarrow> TValueBuilder \<Rightarrow> TValueBuilder result" where
  "ValueInt8 x b = put_primitive Int8 (set_content (Int32Value (scast x))) b"
definition ValueUint8 :: "8 word \<Rightarrow> TValueBuilder \<Rightarrow> TValueBuilder result" where
  "ValueUint8 x b = put_primitive Uint8 (set_content (Uint32Value (ucast x))) b"
definition ValueInt16 :: "16 word \<Rightarrow> TValueBuilder \<Rightarrow> TValueBuilder result" where
  "ValueInt16 x b = put_primitive Int16 (set_content (Int32Value (scast x))) b"
definition ValueUint16 :: "16 word \<Rightarrow> TValueBuilder \<Rightarrow> TValueBuilder result" where
  "ValueUint16 x b = put_primitive Uint16 (set_content (Uint32Value (ucast x))) b"
definition ValueInt32 :: "32 word \<Rightarrow> TValueBuilder \<Rightarrow> TValueBuilder result" where
  "ValueInt32 x b = put_primitive Int32 (set_content (Int32Value x)) b"
definition ValueUint32 :: "32 word \<Rightarrow> TValueBuilder \<Rightarrow> TValueBuilder result" where
  "ValueUint32 x b = put_primitive Uint32 (set_content (Uint32Value x)) b"
definition ValueInt64 :: "64 word \<Rightarrow> TValueBuilder \<Rightarrow> TValueBuilder result" where
  "ValueInt64 x b = put_primitive Int64 (set_content (Int64Value x)) b"
definition ValueUint64 :: "64 word \<Rightarrow> TValueBuilder \<Rightarrow> TValueBuilder result" where
  "ValueUint64 x b = put_primitive Uint64 (set_content (Uint64Value x)) b"
definition ValueFloat :: "32 word \<Rightarrow> TValueBuilder \<Rightarrow> TValueBuilder result" where
  "ValueFloat x b = put_primitive Float (set_content (FloatValue x)) b"
definition ValueDouble :: "64 word \<Rightarrow> TValueBuilder \<Rightarrow> TValueBuilder result" where
  "ValueDouble x b = put_primitive Double (set_content (DoubleValue x)) b"
definition ValueDate :: "64 word \<Rightarrow> TValueBuilder \<Rightarrow> TValueBuilder result" where
  "ValueDate x b = put_primitive Date (set_content (Uint32Value (ucast (instant_Days x)))) b"
definition ValueDatetime :: "64 word \<Rightarrow> TValueBuilder \<Rightarrow> TValueBuilder result" where
  "ValueDatetime x b = put_primitive Datetime (set_content (Uint32Value (ucast (instant_Seconds x)))) b"
definition ValueTimestamp :: "64 word \<Rightarrow> TValueBuilder \<Rightarrow> TValueBuilder result" where
  "ValueTimestamp x b = put_primitive Timestamp (set_content (Uint64Value x)) b"
definition ValueInterval :: "64 word \<Rightarrow> TValueBuilder \<Rightarrow> TValueBuilder result" where
  "ValueInterval x b = put_primitive Interval (set_content (Int64Value x)) b"
definition ValueDate32 :: "32 word \<Rightarrow> TValueBuilder \<Rightarrow> TValueBuilder result" where
  "ValueDate32 x b = put_primitive Date32 (set_content (Int32Value x)) b"
definition ValueDatetime64 :: "64 word \<Rightarrow> TValueBuilder \<Rightarrow> TValueBuilder result" where
  "ValueDatetime64 x b = put_primitive Datetime64 (set_content (Int64Value x)) b"
definition ValueTimestamp64 :: "64 word \<Rightarrow> TValueBuilder \<Rightarrow> TValueBuilder result" where
  "ValueTimestamp64 x b = put_primitive Timestamp64 (set_content (Int64Value x)) b"
definition ValueInterval64 :: "64 word \<Rightarrow> TValueBuilder \<Rightarrow> TValueBuilder result" where
  "ValueInterval64 x b = put_primitive Interval64 (set_content (Int64Value x)) b"
definition ValueTzDate :: "string \<Rightarrow> TValueBuilder \<Rightarrow> TValueBuilder result" where
  "ValueTzDate x b = put_primitive TzDate (set_content (TextValue x)) b"
definition ValueTzDatetime :: "string \<Rightarrow> TValueBuilder \<Rightarrow> TValueBuilder result" where
  "ValueTzDatetime x b = put_primitive TzDatetime (set_content (TextValue x)) b"
definition ValueTzTimestamp :: "string \<Rightarrow> TValueBuilder \<Rightarrow> TValueBuilder result" where
  "ValueTzTimestamp x b = put_primitive TzTimestamp (set_content (TextValue x)) b"
definition ValueString :: "string \<Rightarrow> TValueBuilder \<Rightarrow> TValueBuilder result" where
  "ValueString x b = put_primitive Bytes (set_content (BytesValue x)) b"
definition ValueBytes :: "string \<Rightarrow> TValueBuilder \<Rightarrow> TValueBuilder result" where
  "ValueBytes x b = put_primitive Bytes (set_content (BytesValue x)) b"
definition ValueUtf8 :: "string \<Rightarrow> TValueBuilder \<Rightarrow> TValueBuilder result" where
  "ValueUtf8 x b = put_primitive Text (set_content (TextValue x)) b"
definition ValueText :: "string \<Rightarrow> TValueBuilder \<Rightarrow> TValueBuilder result" where
  "ValueText x b = put_primitive Text (set_content (TextValue x)) b"
definition ValueYson :: "string \<Rightarrow> TValueBuilder \<Rightarrow> TValueBuilder result" where
  "ValueYson x b = put_primitive Yson (set_content (BytesValue x)) b"
definition ValueJson :: "string \<Rightarrow> TValueBuilder \<Rightarrow> TValueBuilder result" where
  "ValueJson x b = put_primitive Json (set_content (TextValue x)) b"
definition ValueUuid :: "TUuidValue \<Rightarrow> TValueBuilder \<Rightarrow> TValueBuilder result" where
  "ValueUuid x b = put_primitive Uuid (\<lambda>v. set_high_128 (Half1 x) (set_content (Low128 (Half0 x)) v)) b"
definition ValueJsonDocument :: "string \<Rightarrow> TValueBuilder \<Rightarrow> TValueBuilder result" where
  "ValueJsonDocument x b = put_primitive JsonDocument (set_content (TextValue x)) b"
definition ValueDyNumber :: "string \<Rightarrow> TValueBuilder \<Rightarrow> TValueBuilder result" where
  "ValueDyNumber x b = put_primitive DyNumber (set_content (TextValue x)) b"

definition ValueDecimal :: "TDecimalValue \<Rightarrow> TValueBuilder \<Rightarrow> TValueBuilder result" where
  "ValueDecimal x b =
     and_then (FillDecimalType (DecimalValueType x) b)
       (modify_value (\<lambda>v. set_high_128 (HiHalf x) (set_content (Low128 (LowHalf x)) v)))"

definition ValuePg :: "TPgValue \<Rightarrow> TValueBuilder \<Rightarrow> TValueBuilder result" where
  "ValuePg x b =
     and_then (FillPgType (PgValueType x) b)
       (modify_value (set_content
         (if PgIsNull x then NullFlagValue else if PgIsText x then TextValue (PgContent x) else BytesValue (PgContent x))))"

section \<open>Containers\<close>

definition ValueBeginOptional :: "TValueBuilder \<Rightarrow> TValueBuilder result" where
  "ValueBeginOptional b =
     and_then (CheckTypeKind Optional b) (\<lambda>known.
     and_then (SetBuildType (\<not> known) b) (\<lambda>b.
     and_then (PathTop b) (\<lambda>p.
     and_then (if OptLevel p = 0 then push_same b else Inr b) (\<lambda>b.
     and_then (on_types BeginOptional b) (on_path_top (\<lambda>p. p\<lparr>OptLevel := Suc (OptLevel p)\<rparr>))))))"

definition ValueEndOptional :: "TValueBuilder \<Rightarrow> TValueBuilder result" where
  "ValueEndOptional b =
     and_then (CheckContainerKind Optional b) (\<lambda>_.
     and_then (on_types EndOptional b) (\<lambda>b.
     and_then (PathTop b) (\<lambda>p.
       if OptLevel p = 0 then Inl FatalError
       else and_then (on_path_top (\<lambda>p. p\<lparr>OptLevel := OptLevel p - 1\<rparr>) b) (\<lambda>b.
         if OptLevel p - 1 = 0 then PopValue b else Inr b))))"

definition ValueBeginOptionalOf :: "Type \<Rightarrow> TValueBuilder \<Rightarrow> TValueBuilder result" where
  "ValueBeginOptionalOf itemType b = and_then (ValueBeginOptional b) (check_or_set_type itemType)"

fun push_nested :: "nat \<Rightarrow> TValueBuilder \<Rightarrow> TValueBuilder result" where
  "push_nested 0 b = Inr b"
| "push_nested (Suc n) b =
     and_then (and_then (modify_value mutable_nested_value b) (push_part (\<lambda>_. StepNested))) (push_nested n)"

fun pop_values :: "nat \<Rightarrow> TValueBuilder \<Rightarrow> TValueBuilder result" where
  "pop_values 0 b = Inr b"
| "pop_values (Suc n) b = and_then (PopValue b) (pop_values n)"

definition NestEmptyOptional :: "TValueBuilder \<Rightarrow> TValueBuilder result" where
  "NestEmptyOptional b =
     and_then (PathTop b) (\<lambda>p. let optLevel = OptLevel p - 1 in
     and_then (push_nested optLevel b) (\<lambda>b.
     and_then (modify_value (set_content NullFlagValue) b) (pop_values optLevel)))"

definition EmptyOptionalOf :: "Type \<Rightarrow> TValueBuilder \<Rightarrow> TValueBuilder result" where
  "EmptyOptionalOf itemType b =
     and_then (and_then (ValueBeginOptionalOf itemType b) NestEmptyOptional) ValueEndOptional"

definition EmptyOptionalPrimitive :: "EPrimitiveType \<Rightarrow> TValueBuilder \<Rightarrow> TValueBuilder result" where
  "EmptyOptionalPrimitive itemType b =
     and_then (and_then (and_then (ValueBeginOptional b) (FillPrimitiveType itemType)) NestEmptyOptional) ValueEndOptional"

text \<open>Go on only if the type at the current position is known.\<close>

definition require_type :: "TValueBuilder \<Rightarrow> TValueBuilder result" where
  "require_type b = and_then (CheckType b) (\<lambda>known. if known then Inr b else Inl FatalError)"

definition EmptyOptional :: "TValueBuilder \<Rightarrow> TValueBuilder result" where
  "EmptyOptional b =
     and_then (and_then (and_then (ValueBeginOptional b) require_type) NestEmptyOptional) ValueEndOptional"

definition begin_container ::
  "ETypeKind \<Rightarrow> (TTypeBuilder \<Rightarrow> TTypeBuilder result) \<Rightarrow> TValueBuilder \<Rightarrow> TValueBuilder result" where
  "begin_container kind f b =
     and_then (CheckTypeKind kind b) (\<lambda>known.
     and_then (SetBuildType (\<not> known) b) (\<lambda>b. and_then (on_types f b) push_same))"

definition ValueBeginList :: "TValueBuilder \<Rightarrow> TValueBuilder result" where
  "ValueBeginList b = begin_container List BeginList b"

definition ValueBeginListOf :: "Type \<Rightarrow> TValueBuilder \<Rightarrow> TValueBuilder result" where
  "ValueBeginListOf itemType b = and_then (ValueBeginList b) (check_or_set_type itemType)"

definition ValueEndList :: "TValueBuilder \<Rightarrow> TValueBuilder result" where
  "ValueEndList b =
     and_then (CheckContainerKind List b) (\<lambda>_. and_then (on_types EndList b) PopValue)"

definition AddListItem :: "TValueBuilder \<Rightarrow> TValueBuilder result" where
  "AddListItem b =
     and_then (CheckContainerKind List b) (\<lambda>_. and_then (PopValue b) push_added_item)"

text \<open>Store a finished value at the current position.\<close>

definition put_value :: "TValue \<Rightarrow> TValueBuilder \<Rightarrow> TValueBuilder result" where
  "put_value value b = and_then (check_or_set_type (ValueType value) b) (SetProtoValue value)"

definition AddListItemValue :: "TValue \<Rightarrow> TValueBuilder \<Rightarrow> TValueBuilder result" where
  "AddListItemValue itemValue b =
     and_then (CheckContainerKind List b) (\<lambda>_.
     and_then (and_then (PopValue b) push_added_item) (put_value itemValue))"

definition EmptyListOf :: "Type \<Rightarrow> TValueBuilder \<Rightarrow> TValueBuilder result" where
  "EmptyListOf itemType b = and_then (ValueBeginListOf itemType b) ValueEndList"

definition ValueEmptyList :: "TValueBuilder \<Rightarrow> TValueBuilder result" where
  "ValueEmptyList b = and_then (and_then (ValueBeginList b) require_type) ValueEndList"

fun fill_members :: "nat \<Rightarrow> string list \<Rightarrow> (string, nat) amap \<Rightarrow> (string, nat) amap" where
  "fill_members i [] m = m"
| "fill_members i (n # ns) m = fill_members (Suc i) ns (if lookup m n = None then m @ [(n, i)] else m)"

definition GetMembersMap :: "struct_address \<Rightarrow> (string \<times> Type) list \<Rightarrow> TValueBuilder \<Rightarrow> (string, nat) amap \<times> TValueBuilder" where
  "GetMembersMap structType members b =
     (case lookup (StructsMap b) structType of
        Some m \<Rightarrow> (m, b)
      | None \<Rightarrow> let m = fill_members 0 (map fst members) [] in (m, b\<lparr>StructsMap := (structType, m) # StructsMap b\<rparr>))"

fun add_items_times :: "nat \<Rightarrow> TValueBuilder \<Rightarrow> TValueBuilder result" where
  "add_items_times 0 b = Inr b"
| "add_items_times (Suc n) b = and_then (modify_value add_items b) (add_items_times n)"

text \<open>For a known struct type: an item per member, and a record of the members that got a value.\<close>

definition open_members :: "TValueBuilder \<Rightarrow> TValueBuilder result" where
  "open_members b =
     and_then (GetType 0 b) (\<lambda>t.
     let (membersMap, b) = GetMembersMap (TypesBuilt b, hd (BuilderPath (TypeBuilder b)))
           (case t of StructType ms \<Rightarrow> ms | _ \<Rightarrow> []) b in
     and_then (add_items_times (length membersMap) b) (\<lambda>b.
       Inr (b\<lparr>StructsPath := \<lparr>MembersMap = membersMap, FilledMembers = []\<rparr> # StructsPath b\<rparr>)))"

definition ValueBeginStruct :: "TValueBuilder \<Rightarrow> TValueBuilder result" where
  "ValueBeginStruct b =
     and_then (CheckTypeKind Struct b) (\<lambda>known.
     and_then (SetBuildType (\<not> known) b) (\<lambda>b.
     and_then (if known then open_members b else Inr b) (\<lambda>b.
     and_then (on_types BeginStruct b) push_same)))"

definition select_member :: "string \<Rightarrow> TValueBuilder \<Rightarrow> TValueBuilder result" where
  "select_member memberName b =
     (case StructsPath b of
        [] \<Rightarrow> Inl OutOfRange
      | p # ps \<Rightarrow>
          (case lookup (MembersMap p) memberName of
             None \<Rightarrow> Inl FatalError
           | Some memberIndex \<Rightarrow>
               and_then (on_types (SelectMember memberIndex) b) (\<lambda>b.
               and_then (push_part (\<lambda>_. StepItem memberIndex) b) (\<lambda>b.
                 Inr (b\<lparr>StructsPath := p\<lparr>FilledMembers := List.insert memberIndex (FilledMembers p)\<rparr> # ps\<rparr>)))))"

definition ValueAddMember :: "string \<Rightarrow> TValueBuilder \<Rightarrow> TValueBuilder result" where
  "ValueAddMember memberName b =
     and_then (CheckContainerKind Struct b) (\<lambda>_.
     and_then (PopValue b) (\<lambda>b.
     and_then (GetBuildType b) (\<lambda>buildType.
       if buildType then and_then (on_types (AddMember memberName) b) push_added_item
       else select_member memberName b)))"

definition AddMemberValue :: "string \<Rightarrow> TValue \<Rightarrow> TValueBuilder \<Rightarrow> TValueBuilder result" where
  "AddMemberValue memberName memberValue b = and_then (ValueAddMember memberName b) (put_value memberValue)"

definition close_members :: "TValueBuilder \<Rightarrow> TValueBuilder result" where
  "close_members b =
     (case StructsPath b of
        [] \<Rightarrow> Inl OutOfRange
      | p # ps \<Rightarrow> if length (FilledMembers p) < length (MembersMap p) then Inl FatalError else Inr (b\<lparr>StructsPath := ps\<rparr>))"

definition ValueEndStruct :: "TValueBuilder \<Rightarrow> TValueBuilder result" where
  "ValueEndStruct b =
     and_then (CheckContainerKind Struct b) (\<lambda>_.
     and_then (PopValue b) (\<lambda>b.
     and_then (on_types EndStruct b) (\<lambda>b.
     and_then (GetBuildType b) (\<lambda>buildType. if buildType then Inr b else close_members b))))"

definition ValueBeginTuple :: "TValueBuilder \<Rightarrow> TValueBuilder result" where
  "ValueBeginTuple b = begin_container Tuple BeginTuple b"

definition elements_size :: "Type \<Rightarrow> nat" where
  "elements_size t = (case t of TupleType ts \<Rightarrow> length ts | _ \<Rightarrow> 0)"

definition select_element :: "TValueBuilder \<Rightarrow> TValueBuilder result" where
  "select_element b =
     and_then (GetValue b) (\<lambda>v. let index = length (items v) in
     and_then (GetType 1 b) (\<lambda>t.
       if elements_size t \<le> index then Inl FatalError else on_types (SelectElement index) b))"

definition ValueAddElement :: "TValueBuilder \<Rightarrow> TValueBuilder result" where
  "ValueAddElement b =
     and_then (CheckContainerKind Tuple b) (\<lambda>_.
     and_then (PopValue b) (\<lambda>b.
     and_then (GetBuildType b) (\<lambda>buildType.
     and_then (if buildType then on_types AddElement b else select_element b) push_added_item)))"

definition AddElementValue :: "TValue \<Rightarrow> TValueBuilder \<Rightarrow> TValueBuilder result" where
  "AddElementValue elementValue b = and_then (ValueAddElement b) (put_value elementValue)"

definition ValueEndTuple :: "TValueBuilder \<Rightarrow> TValueBuilder result" where
  "ValueEndTuple b =
     and_then (CheckContainerKind Tuple b) (\<lambda>_.
     and_then (PopValue b) (\<lambda>b.
     and_then (on_types EndTuple b) (\<lambda>b.
     and_then (GetBuildType b) (\<lambda>buildType.
       if buildType then Inr b
       else and_then (GetType 0 b) (\<lambda>t. and_then (GetValue b) (\<lambda>v.
         if elements_size t \<noteq> length (items v) then Inl FatalError else Inr b))))))"

definition ValueBeginDict :: "TValueBuilder \<Rightarrow> TValueBuilder result" where
  "ValueBeginDict b = begin_container Dict BeginDict b"

definition ValueBeginDictOf :: "Type \<Rightarrow> Type \<Rightarrow> TValueBuilder \<Rightarrow> TValueBuilder result" where
  "ValueBeginDictOf keyType payloadType b =
     and_then (ValueBeginDict b) (\<lambda>b.
     and_then (and_then (on_types BuildDictKey b) (check_or_set_type keyType)) (\<lambda>b.
     and_then (and_then (on_types BuildDictPayload b) (check_or_set_type payloadType)) (\<lambda>b.
     and_then (on_types EndDict b) (on_types BeginDict))))"

definition AddDictItem :: "TValueBuilder \<Rightarrow> TValueBuilder result" where
  "AddDictItem b =
     and_then (CheckContainerKind Dict b) (\<lambda>_.
     and_then (and_then (PopValue b) (modify_value add_pairs)) push_same)"

definition dict_part ::
  "(TTypeBuilder \<Rightarrow> TTypeBuilder result) \<Rightarrow> (nat \<Rightarrow> value_step) \<Rightarrow> TValueBuilder \<Rightarrow> TValueBuilder result" where
  "dict_part f step b =
     and_then (CheckContainerKind Dict b) (\<lambda>_.
     and_then (PopValue b) (\<lambda>b.
     and_then (on_types f b) (push_part (\<lambda>v. step (length (pairs v) - 1)))))"

definition DictKeyOf :: "TValueBuilder \<Rightarrow> TValueBuilder result" where
  "DictKeyOf b = dict_part BuildDictKey StepKey b"

definition DictKeyValue :: "TValue \<Rightarrow> TValueBuilder \<Rightarrow> TValueBuilder result" where
  "DictKeyValue keyValue b = and_then (DictKeyOf b) (put_value keyValue)"

definition DictPayloadOf :: "TValueBuilder \<Rightarrow> TValueBuilder result" where
  "DictPayloadOf b = dict_part BuildDictPayload StepPayload b"

definition DictPayloadValue :: "TValue \<Rightarrow> TValueBuilder \<Rightarrow> TValueBuilder result" where
  "DictPayloadValue payloadValue b = and_then (DictPayloadOf b) (put_value payloadValue)"

definition ValueEndDict :: "TValueBuilder \<Rightarrow> TValueBuilder result" where
  "ValueEndDict b =
     and_then (CheckContainerKind Dict b) (\<lambda>_. and_then (PopValue b) (on_types EndDict))"

definition EmptyDictOf :: "Type \<Rightarrow> Type \<Rightarrow> TValueBuilder \<Rightarrow> TValueBuilder result" where
  "EmptyDictOf keyType payloadType b = and_then (ValueBeginDictOf keyType payloadType b) ValueEndDict"

definition ValueEmptyDict :: "TValueBuilder \<Rightarrow> TValueBuilder result" where
  "ValueEmptyDict b =
     and_then (ValueBeginDict b) (\<lambda>b.
     and_then (and_then (on_types BuildDictKey b) require_type) (\<lambda>b.
     and_then (and_then (on_types BuildDictPayload b) require_type) ValueEndDict))"

definition ValueBeginTagged :: "string \<Rightarrow> TValueBuilder \<Rightarrow> TValueBuilder result" where
  "ValueBeginTagged tag b = begin_container Tagged (BeginTagged tag) b"

definition ValueEndTagged :: "TValueBuilder \<Rightarrow> TValueBuilder result" where
  "ValueEndTagged b =
     and_then (CheckContainerKind Tagged b) (\<lambda>_. and_then (PopValue b) (on_types EndTagged))"

section \<open>Optional scalars\<close>

definition SET_OPT_VALUE_FROM_OPTIONAL ::
  "EPrimitiveType \<Rightarrow> ('a \<Rightarrow> TValueBuilder \<Rightarrow> TValueBuilder result) \<Rightarrow> 'a option \<Rightarrow> TValueBuilder \<Rightarrow> TValueBuilder result" where
  "SET_OPT_VALUE_FROM_OPTIONAL type put value b =
     (case value of
        Some x \<Rightarrow> and_then (and_then (ValueBeginOptional b) (put x)) ValueEndOptional
      | None \<Rightarrow> EmptyOptionalPrimitive type b)"

definition OptionalBool :: "bool option \<Rightarrow> TValueBuilder \<Rightarrow> TValueBuilder result" where
  "OptionalBool value b = SET_OPT_VALUE_FROM_OPTIONAL Bool ValueBool value b"
definition OptionalInt8 :: "8 word option \<Rightarrow> TValueBuilder \<Rightarrow> TValueBuilder result" where
  "OptionalInt8 value b = SET_OPT_VALUE_FROM_OPTIONAL Int8 ValueInt8 value b"
definition OptionalUint8 :: "8 word option \<Rightarrow> TValueBuilder \<Rightarrow> TValueBuilder result" where
  "OptionalUint8 value b = SET_OPT_VALUE_FROM_OPTIONAL Uint8 ValueUint8 value b"
definition OptionalInt16 :: "16 word option \<Rightarrow> TValueBuilder \<Rightarrow> TValueBuilder result" where
  "OptionalInt16 value b = SET_OPT_VALUE_FROM_OPTIONAL Int16 ValueInt16 value b"
definition OptionalUint16 :: "16 word option \<Rightarrow> TValueBuilder \<Rightarrow> TValueBuilder result" where
  "OptionalUint16 value b = SET_OPT_VALUE_FROM_OPTIONAL Uint16 ValueUint16 value b"
definition OptionalInt32 :: "32 word option \<Rightarrow> TValueBuilder \<Rightarrow> TValueBuilder result" where
  "OptionalInt32 value b = SET_OPT_VALUE_FROM_OPTIONAL Int32 ValueInt32 value b"
definition OptionalUint32 :: "32 word option \<Rightarrow> TValueBuilder \<Rightarrow> TValueBuilder result" where
  "OptionalUint32 value b = SET_OPT_VALUE_FROM_OPTIONAL Uint32 ValueUint32 value b"
definition OptionalInt64 :: "64 word option \<Rightarrow> TValueBuilder \<Rightarrow> TValueBuilder result" where
  "OptionalInt64 value b = SET_OPT_VALUE_FROM_OPTIONAL Int64 ValueInt64 value b"
definition OptionalUint64 :: "64 word option \<Rightarrow> TValueBuilder \<Rightarrow> TValueBuilder result" where
  "OptionalUint64 value b = SET_OPT_VALUE_FROM_OPTIONAL Uint64 ValueUint64 value b"
definition OptionalFloat :: "32 word option \<Rightarrow> TValueBuilder \<Rightarrow> TValueBuilder result" where
  "OptionalFloat value b = SET_OPT_VALUE_FROM_OPTIONAL Float ValueFloat value b"
definition OptionalDouble :: "64 word option \<Rightarrow> TValueBuilder \<Rightarrow> TValueBuilder result" where
  "OptionalDouble value b = SET_OPT_VALUE_FROM_OPTIONAL Double ValueDouble value b"
definition OptionalDate :: "64 word option \<Rightarrow> TValueBuilder \<Rightarrow> TValueBuilder result" where
  "OptionalDate value b = SET_OPT_VALUE_FROM_OPTIONAL Date ValueDate value b"
definition OptionalDatetime :: "64 word option \<Rightarrow> TValueBuilder \<Rightarrow> TValueBuilder result" where
  "OptionalDatetime value b = SET_OPT_VALUE_FROM_OPTIONAL Datetime ValueDatetime value b"
definition OptionalTimestamp :: "64 word option \<Rightarrow> TValueBuilder \<Rightarrow> TValueBuilder result" where
  "OptionalTimestamp value b = SET_OPT_VALUE_FROM_OPTIONAL Timestamp ValueTimestamp value b"
definition OptionalInterval :: "64 word option \<Rightarrow> TValueBuilder \<Rightarrow> TValueBuilder result" where
  "OptionalInterval value b = SET_OPT_VALUE_FROM_OPTIONAL Interval ValueInterval value b"
definition OptionalDate32 :: "32 word option \<Rightarrow> TValueBuilder \<Rightarrow> TValueBuilder result" where
  "OptionalDate32 value b = SET_OPT_VALUE_FROM_OPTIONAL Date32 ValueDate32 value b"
definition OptionalDatetime64 :: "64 word option \<Rightarrow> TValueBuilder \<Rightarrow> TValueBuilder result" where
  "OptionalDatetime64 value b = SET_OPT_VALUE_FROM_OPTIONAL Datetime64 ValueDatetime64 value b"
definition OptionalTimestamp64 :: "64 word option \<Rightarrow> TValueBuilder \<Rightarrow> TValueBuilder result" where
  "OptionalTimestamp64 value b = SET_OPT_VALUE_FROM_OPTIONAL Timestamp64 ValueTimestamp64 value b"
definition OptionalInterval64 :: "64 word option \<Rightarrow> TValueBuilder \<Rightarrow> TValueBuilder result" where
  "OptionalInterval64 value b = SET_OPT_VALUE_FROM_OPTIONAL Interval64 ValueInterval64 value b"
definition OptionalTzDate :: "string option \<Rightarrow> TValueBuilder \<Rightarrow> TValueBuilder result" where
  "OptionalTzDate value b = SET_OPT_VALUE_FROM_OPTIONAL TzDate ValueTzDate value b"
definition OptionalTzDatetime :: "string option \<Rightarrow> TValueBuilder \<Rightarrow> TValueBuilder result" where
  "OptionalTzDatetime value b = SET_OPT_VALUE_FROM_OPTIONAL TzDatetime ValueTzDatetime value b"
definition OptionalTzTimestamp :: "string option \<Rightarrow> TValueBuilder \<Rightarrow> TValueBuilder result" where
  "OptionalTzTimestamp value b = SET_OPT_VALUE_FROM_OPTIONAL TzTimestamp ValueTzTimestamp value b"
definition OptionalString :: "string option \<Rightarrow> TValueBuilder \<Rightarrow> TValueBuilder result" where
  "OptionalString value b = SET_OPT_VALUE_FROM_OPTIONAL Bytes ValueString value b"
definition OptionalBytes :: "string option \<Rightarrow> TValueBuilder \<Rightarrow> TValueBuilder result" where
  "OptionalBytes value b = SET_OPT_VALUE_FROM_OPTIONAL Bytes ValueBytes value b"
definition OptionalUtf8 :: "string option \<Rightarrow> TValueBuilder \<Rightarrow> TValueBuilder result" where
  "OptionalUtf8 value b = SET_OPT_VALUE_FROM_OPTIONAL Text ValueUtf8 value b"
definition OptionalText :: "string option \<Rightarrow> TValueBuilder \<Rightarrow> TValueBuilder result" where
  "OptionalText value b = SET_OPT_VALUE_FROM_OPTIONAL Text ValueText value b"
definition OptionalYson :: "string option \<Rightarrow> TValueBuilder \<Rightarrow> TValueBuilder result" where
  "OptionalYson value b = SET_OPT_VALUE_FROM_OPTIONAL Yson ValueYson value b"
definition OptionalJson :: "string option \<Rightarrow> TValueBuilder \<Rightarrow> TValueBuilder result" where
  "OptionalJson value b = SET_OPT_VALUE_FROM_OPTIONAL Json ValueJson value b"
definition OptionalUuid :: "TUuidValue option \<Rightarrow> TValueBuilder \<Rightarrow> TValueBuilder result" where
  "OptionalUuid value b = SET_OPT_VALUE_FROM_OPTIONAL Uuid ValueUuid value b"
definition OptionalJsonDocument :: "string option \<Rightarrow> TValueBuilder \<Rightarrow> TValueBuilder result" where
  "OptionalJsonDocument value b = SET_OPT_VALUE_FROM_OPTIONAL JsonDocument ValueJsonDocument value b"
definition OptionalDyNumber :: "string option \<Rightarrow> TValueBuilder \<Rightarrow> TValueBuilder result" where
  "OptionalDyNumber value b = SET_OPT_VALUE_FROM_OPTIONAL DyNumber ValueDyNumber value b"

end
