(* ===== verification/ValueEncoding.thy ===== *)
theory ValueEncoding
  imports ValueBuilder
begin

text \<open>
  Data of a type and its message. The calls of \<^verbatim>\<open>TValueBuilder\<close> as data, the calls that build a piece of data, and the
  message they are meant to produce: \<^verbatim>\<open>encode\<close> gives it by recursion on the data, and decoding it with the
  type gives the data back.
\<close>

section \<open>Sequences of calls\<close>

datatype value_call =
    VScalar EPrimitiveType scalar | VDecimal TDecimalValue | VPg TPgValue
  | VBeginOptional | VEndOptional | VEmptyOptionalOf Type | VEmptyOptionalPrimitive EPrimitiveType | VEmptyOptional
  | VBeginList | VEndList | VAddListItem | VAddListItemValue TValue | VEmptyListOf Type | VEmptyList
  | VBeginStruct | VEndStruct | VAddMember string | VAddMemberValue string TValue
  | VBeginTuple | VEndTuple | VAddElement | VAddElementValue TValue
  | VBeginDict | VEndDict | VAddDictItem | VDictKey | VDictKeyValue TValue | VDictPayload | VDictPayloadValue TValue
  | VEmptyDictOf Type Type | VEmptyDict
  | VBeginTagged string | VEndTagged

definition as_bool :: "scalar \<Rightarrow> bool" where "as_bool x = (case x of ScalarBool y \<Rightarrow> y | _ \<Rightarrow> False)"
definition as_8 :: "scalar \<Rightarrow> 8 word" where "as_8 x = (case x of Scalar8 y \<Rightarrow> y | _ \<Rightarrow> 0)"
definition as_16 :: "scalar \<Rightarrow> 16 word" where "as_16 x = (case x of Scalar16 y \<Rightarrow> y | _ \<Rightarrow> 0)"
definition as_32 :: "scalar \<Rightarrow> 32 word" where "as_32 x = (case x of Scalar32 y \<Rightarrow> y | _ \<Rightarrow> 0)"
definition as_64 :: "scalar \<Rightarrow> 64 word" where "as_64 x = (case x of Scalar64 y \<Rightarrow> y | _ \<Rightarrow> 0)"
definition as_string :: "scalar \<Rightarrow> string" where "as_string x = (case x of ScalarString y \<Rightarrow> y | _ \<Rightarrow> [])"
definition as_uuid :: "scalar \<Rightarrow> TUuidValue" where
  "as_uuid x = (case x of ScalarUuid y \<Rightarrow> y | _ \<Rightarrow> \<lparr>Half0 = 0, Half1 = 0\<rparr>)"

lemmas as_defs = as_bool_def as_8_def as_16_def as_32_def as_64_def as_string_def as_uuid_def

text \<open>The call for a scalar, and what it writes.\<close>

fun put_scalar :: "EPrimitiveType \<Rightarrow> scalar \<Rightarrow> TValueBuilder \<Rightarrow> TValueBuilder result" where
  "put_scalar Bool x b = ValueBool (as_bool x) b"
| "put_scalar Int8 x b = ValueInt8 (as_8 x) b"
| "put_scalar Uint8 x b = ValueUint8 (as_8 x) b"
| "put_scalar Int16 x b = ValueInt16 (as_16 x) b"
| "put_scalar Uint16 x b = ValueUint16 (as_16 x) b"
| "put_scalar Int32 x b = ValueInt32 (as_32 x) b"
| "put_scalar Uint32 x b = ValueUint32 (as_32 x) b"
| "put_scalar Int64 x b = ValueInt64 (as_64 x) b"
| "put_scalar Uint64 x b = ValueUint64 (as_64 x) b"
| "put_scalar Float x b = ValueFloat (as_32 x) b"
| "put_scalar Double x b = ValueDouble (as_64 x) b"
| "put_scalar Date x b = ValueDate (as_64 x) b"
| "put_scalar Datetime x b = ValueDatetime (as_64 x) b"
| "put_scalar Timestamp x b = ValueTimestamp (as_64 x) b"
| "put_scalar Interval x b = ValueInterval (as_64 x) b"
| "put_scalar Date32 x b = ValueDate32 (as_32 x) b"
| "put_scalar Datetime64 x b = ValueDatetime64 (as_64 x) b"
| "put_scalar Timestamp64 x b = ValueTimestamp64 (as_64 x) b"
| "put_scalar Interval64 x b = ValueInterval64 (as_64 x) b"
| "put_scalar TzDate x b = ValueTzDate (as_string x) b"
| "put_scalar TzDatetime x b = ValueTzDatetime (as_string x) b"
| "put_scalar TzTimestamp x b = ValueTzTimestamp (as_string x) b"
| "put_scalar Bytes x b = ValueBytes (as_string x) b"
| "put_scalar Text x b = ValueText (as_string x) b"
| "put_scalar Yson x b = ValueYson (as_string x) b"
| "put_scalar Json x b = ValueJson (as_string x) b"
| "put_scalar Uuid x b = ValueUuid (as_uuid x) b"
| "put_scalar JsonDocument x b = ValueJsonDocument (as_string x) b"
| "put_scalar DyNumber x b = ValueDyNumber (as_string x) b"

fun write_scalar :: "EPrimitiveType \<Rightarrow> scalar \<Rightarrow> Value \<Rightarrow> Value" where
  "write_scalar Bool x v = set_content (BoolValue (as_bool x)) v"
| "write_scalar Int8 x v = set_content (Int32Value (scast (as_8 x))) v"
| "write_scalar Uint8 x v = set_content (Uint32Value (ucast (as_8 x))) v"
| "write_scalar Int16 x v = set_content (Int32Value (scast (as_16 x))) v"
| "write_scalar Uint16 x v = set_content (Uint32Value (ucast (as_16 x))) v"
| "write_scalar Int32 x v = set_content (Int32Value (as_32 x)) v"
| "write_scalar Uint32 x v = set_content (Uint32Value (as_32 x)) v"
| "write_scalar Int64 x v = set_content (Int64Value (as_64 x)) v"
| "write_scalar Uint64 x v = set_content (Uint64Value (as_64 x)) v"
| "write_scalar Float x v = set_content (FloatValue (as_32 x)) v"
| "write_scalar Double x v = set_content (DoubleValue (as_64 x)) v"
| "write_scalar Date x v = set_content (Uint32Value (ucast (instant_Days (as_64 x)))) v"
| "write_scalar Datetime x v = set_content (Uint32Value (ucast (instant_Seconds (as_64 x)))) v"
| "write_scalar Timestamp x v = set_content (Uint64Value (as_64 x)) v"
| "write_scalar Interval x v = set_content (Int64Value (as_64 x)) v"
| "write_scalar Date32 x v = set_content (Int32Value (as_32 x)) v"
| "write_scalar Datetime64 x v = set_content (Int64Value (as_64 x)) v"
| "write_scalar Timestamp64 x v = set_content (Int64Value (as_64 x)) v"
| "write_scalar Interval64 x v = set_content (Int64Value (as_64 x)) v"
| "write_scalar TzDate x v = set_content (TextValue (as_string x)) v"
| "write_scalar TzDatetime x v = set_content (TextValue (as_string x)) v"
| "write_scalar TzTimestamp x v = set_content (TextValue (as_string x)) v"
| "write_scalar Bytes x v = set_content (BytesValue (as_string x)) v"
| "write_scalar Text x v = set_content (TextValue (as_string x)) v"
| "write_scalar Yson x v = set_content (BytesValue (as_string x)) v"
| "write_scalar Json x v = set_content (TextValue (as_string x)) v"
| "write_scalar Uuid x v = set_high_128 (Half1 (as_uuid x)) (set_content (Low128 (Half0 (as_uuid x))) v)"
| "write_scalar JsonDocument x v = set_content (TextValue (as_string x)) v"
| "write_scalar DyNumber x v = set_content (TextValue (as_string x)) v"

lemma put_scalar_eq: "put_scalar t x b = put_primitive t (write_scalar t x) b"
proof -
  have "write_scalar t x = (\<lambda>v. write_scalar t x v)"
    by simp
  then show ?thesis
    by (cases t) (simp_all add: ValueBool_def ValueInt8_def ValueUint8_def ValueInt16_def ValueUint16_def ValueInt32_def ValueUint32_def ValueInt64_def ValueUint64_def ValueFloat_def ValueDouble_def ValueDate_def ValueDatetime_def ValueTimestamp_def ValueInterval_def ValueDate32_def ValueDatetime64_def ValueTimestamp64_def ValueInterval64_def ValueTzDate_def ValueTzDatetime_def ValueTzTimestamp_def ValueBytes_def ValueText_def ValueYson_def ValueJson_def ValueUuid_def ValueJsonDocument_def ValueDyNumber_def)
qed

fun scalar_fits :: "EPrimitiveType \<Rightarrow> scalar \<Rightarrow> bool" where
  "scalar_fits Bool x = (x = ScalarBool (as_bool x))"
| "scalar_fits Int8 x = (x = Scalar8 (as_8 x))"
| "scalar_fits Uint8 x = (x = Scalar8 (as_8 x))"
| "scalar_fits Int16 x = (x = Scalar16 (as_16 x))"
| "scalar_fits Uint16 x = (x = Scalar16 (as_16 x))"
| "scalar_fits Int32 x = (x = Scalar32 (as_32 x))"
| "scalar_fits Uint32 x = (x = Scalar32 (as_32 x))"
| "scalar_fits Int64 x = (x = Scalar64 (as_64 x))"
| "scalar_fits Uint64 x = (x = Scalar64 (as_64 x))"
| "scalar_fits Float x = (x = Scalar32 (as_32 x))"
| "scalar_fits Double x = (x = Scalar64 (as_64 x))"
| "scalar_fits Date x = (x = Scalar64 (as_64 x) \<and> as_64 x mod 86400000000 = 0)"
| "scalar_fits Datetime x = (x = Scalar64 (as_64 x) \<and> as_64 x mod 1000000 = 0 \<and> as_64 x div 1000000 < 2 ^ 32)"
| "scalar_fits Timestamp x = (x = Scalar64 (as_64 x))"
| "scalar_fits Interval x = (x = Scalar64 (as_64 x))"
| "scalar_fits Date32 x = (x = Scalar32 (as_32 x))"
| "scalar_fits Datetime64 x = (x = Scalar64 (as_64 x))"
| "scalar_fits Timestamp64 x = (x = Scalar64 (as_64 x))"
| "scalar_fits Interval64 x = (x = Scalar64 (as_64 x))"
| "scalar_fits TzDate x = (x = ScalarString (as_string x))"
| "scalar_fits TzDatetime x = (x = ScalarString (as_string x))"
| "scalar_fits TzTimestamp x = (x = ScalarString (as_string x))"
| "scalar_fits Bytes x = (x = ScalarString (as_string x))"
| "scalar_fits Text x = (x = ScalarString (as_string x))"
| "scalar_fits Yson x = (x = ScalarString (as_string x))"
| "scalar_fits Json x = (x = ScalarString (as_string x))"
| "scalar_fits Uuid x = (x = ScalarUuid (as_uuid x))"
| "scalar_fits JsonDocument x = (x = ScalarString (as_string x))"
| "scalar_fits DyNumber x = (x = ScalarString (as_string x))"

fun value_builder_step :: "value_call \<Rightarrow> TValueBuilder \<Rightarrow> TValueBuilder result" where
  "value_builder_step (VScalar t x) b = put_scalar t x b"
| "value_builder_step (VDecimal x) b = ValueDecimal x b"
| "value_builder_step (VPg x) b = ValuePg x b"
| "value_builder_step VBeginOptional b = ValueBeginOptional b"
| "value_builder_step VEndOptional b = ValueEndOptional b"
| "value_builder_step (VEmptyOptionalOf t) b = EmptyOptionalOf t b"
| "value_builder_step (VEmptyOptionalPrimitive t) b = EmptyOptionalPrimitive t b"
| "value_builder_step VEmptyOptional b = EmptyOptional b"
| "value_builder_step VBeginList b = ValueBeginList b"
| "value_builder_step VEndList b = ValueEndList b"
| "value_builder_step VAddListItem b = AddListItem b"
| "value_builder_step (VAddListItemValue v) b = AddListItemValue v b"
| "value_builder_step (VEmptyListOf t) b = EmptyListOf t b"
| "value_builder_step VEmptyList b = ValueEmptyList b"
| "value_builder_step VBeginStruct b = ValueBeginStruct b"
| "value_builder_step VEndStruct b = ValueEndStruct b"
| "value_builder_step (VAddMember n) b = ValueAddMember n b"
| "value_builder_step (VAddMemberValue n v) b = AddMemberValue n v b"
| "value_builder_step VBeginTuple b = ValueBeginTuple b"
| "value_builder_step VEndTuple b = ValueEndTuple b"
| "value_builder_step VAddElement b = ValueAddElement b"
| "value_builder_step (VAddElementValue v) b = AddElementValue v b"
| "value_builder_step VBeginDict b = ValueBeginDict b"
| "value_builder_step VEndDict b = ValueEndDict b"
| "value_builder_step VAddDictItem b = AddDictItem b"
| "value_builder_step VDictKey b = DictKeyOf b"
| "value_builder_step (VDictKeyValue v) b = DictKeyValue v b"
| "value_builder_step VDictPayload b = DictPayloadOf b"
| "value_builder_step (VDictPayloadValue v) b = DictPayloadValue v b"
| "value_builder_step (VEmptyDictOf kt vt) b = EmptyDictOf kt vt b"
| "value_builder_step VEmptyDict b = ValueEmptyDict b"
| "value_builder_step (VBeginTagged tag) b = ValueBeginTagged tag b"
| "value_builder_step VEndTagged b = ValueEndTagged b"

fun run_values :: "value_call list \<Rightarrow> TValueBuilder \<Rightarrow> TValueBuilder result" where
  "run_values [] b = Inr b"
| "run_values (c # cs) b = and_then (value_builder_step c b) (run_values cs)"

lemma run_values_append: "run_values (cs @ cs') b = and_then (run_values cs b) (run_values cs')"
  by (induction cs arbitrary: b) (auto simp: and_then_def split: sum.splits)

section \<open>Data of a type\<close>

text \<open>Data whose message is neither a null nor a nested value: what may stand inside an optional directly.\<close>

fun plain :: "data \<Rightarrow> bool" where
  "plain DNone = False"
| "plain (DSome d) = False"
| "plain (DPg x) = (\<not> PgIsNull x)"
| "plain (DTagged tag d) = plain d"
| "plain (DVariant i d) = False"
| "plain _ = True"

definition item_of_some :: "data \<Rightarrow> bool" where
  "item_of_some d = (case d of DNone \<Rightarrow> True | DSome _ \<Rightarrow> True | _ \<Rightarrow> plain d)"

inductive typed :: "Type \<Rightarrow> data \<Rightarrow> bool" where
  primitive: "primitive_of i = Some t \<Longrightarrow> scalar_fits t x \<Longrightarrow> typed (TypeId i) (DPrimitive t x)"
| decimal: "DecimalValueType x = \<lparr>Precision = ucast p, Scale = ucast s\<rparr> \<Longrightarrow> typed (DecimalType p s) (DDecimal x)"
| pg: "PgValueType x = \<lparr>TypeName = n, TypeModifier = m, Oid = 0, Typlen = 0, Typmod = 0\<rparr> \<Longrightarrow> (PgIsNull x \<Longrightarrow> PgContent x = []) \<Longrightarrow>
     typed (PgType n m 0 0 0) (DPg x)"
| none: "typed (OptionalType t) DNone"
| some: "typed t d \<Longrightarrow> item_of_some d \<Longrightarrow> typed (OptionalType t) (DSome d)"
| list: "list_all (typed t) ds \<Longrightarrow> typed (ListType t) (DList ds)"
| tuple: "list_all2 typed ts ds \<Longrightarrow> typed (TupleType ts) (DTuple ds)"
| struct: "distinct names \<Longrightarrow> length names = length ts \<Longrightarrow> list_all2 typed ts ds \<Longrightarrow>
     typed (StructType (zip names ts)) (DStruct (zip names ds))"
| dict: "list_all (\<lambda>kx. typed kt (fst kx) \<and> typed vt (snd kx)) ds \<Longrightarrow> typed (DictType kt vt) (DDict ds)"
| tagged: "typed t d \<Longrightarrow> typed (TaggedType tag t) (DTagged tag d)"

definition items_value :: "Value list \<Rightarrow> Value" where
  "items_value vs = Value ValueNotSet vs [] 0 0"

definition pairs_value :: "(Value \<times> Value) list \<Rightarrow> Value" where
  "pairs_value ps = Value ValueNotSet [] ps 0 0"

fun nested_null :: "nat \<Rightarrow> Value" where
  "nested_null 0 = set_content NullFlagValue default_value"
| "nested_null (Suc n) = set_content (NestedValue (nested_null n)) default_value"

text \<open>The message of the data, inside the given number of optional levels.\<close>

fun encode :: "nat \<Rightarrow> data \<Rightarrow> Value" where
  "encode l (DPrimitive t x) = write_scalar t x default_value"
| "encode l (DDecimal x) = set_high_128 (HiHalf x) (set_content (Low128 (LowHalf x)) default_value)"
| "encode l (DPg x) =
     set_content (if PgIsNull x then NullFlagValue else if PgIsText x then TextValue (PgContent x) else BytesValue (PgContent x))
       default_value"
| "encode l DNone = nested_null l"
| "encode l (DSome d) = encode (Suc l) d"
| "encode l (DList ds) = items_value (map (encode 0) ds)"
| "encode l (DTuple ds) = items_value (map (encode 0) ds)"
| "encode l (DStruct ds) = items_value (map (\<lambda>m. encode 0 (snd m)) ds)"
| "encode l (DDict ds) = pairs_value (map (\<lambda>kx. (encode 0 (fst kx), encode 0 (snd kx))) ds)"
| "encode l (DTagged tag d) = encode 0 d"
| "encode l _ = default_value"

lemma pair_sizes:
  "m \<in> set ds \<Longrightarrow> size (snd m) \<le> size_list (size_prod (\<lambda>_. 0) size) ds"
  "(k, x) \<in> set es \<Longrightarrow> size k \<le> size_list (size_prod size size) es"
  "(k, x) \<in> set es \<Longrightarrow> size x \<le> size_list (size_prod size size) es"
  by (induction ds; auto) (induction es; auto)+

function value_calls :: "Type \<Rightarrow> data \<Rightarrow> value_call list" where
  "value_calls t (DPrimitive p x) = [VScalar p x]"
| "value_calls t (DDecimal x) = [VDecimal x]"
| "value_calls t (DPg x) = [VPg x]"
| "value_calls t DNone = [VEmptyOptionalOf (hd (parts t))]"
| "value_calls t (DSome d) = VBeginOptional # value_calls (hd (parts t)) d @ [VEndOptional]"
| "value_calls t (DList ds) =
     (if ds = [] then [VEmptyListOf (hd (parts t))]
      else VBeginList # concat (map (\<lambda>d. VAddListItem # value_calls (hd (parts t)) d) ds) @ [VEndList])"
| "value_calls t (DTuple ds) =
     VBeginTuple # concat (map (\<lambda>(u, d). VAddElement # value_calls u d) (zip (parts t) ds)) @ [VEndTuple]"
| "value_calls t (DStruct ds) =
     VBeginStruct # concat (map (\<lambda>(u, m). VAddMember (fst m) # value_calls u (snd m)) (zip (parts t) ds)) @ [VEndStruct]"
| "value_calls t (DDict ds) =
     (if ds = [] then [VEmptyDictOf (parts t ! 0) (parts t ! 1)]
      else VBeginDict # concat (map (\<lambda>(k, x). VAddDictItem # VDictKey # value_calls (parts t ! 0) k @
        VDictPayload # value_calls (parts t ! 1) x) ds) @ [VEndDict])"
| "value_calls t (DTagged tag d) = VBeginTagged tag # value_calls (hd (parts t)) d @ [VEndTagged]"
| "value_calls t (DVariant i d) = []"
| "value_calls t (DUnit k) = []"
  by pat_completeness auto
termination
  by (relation "measure (\<lambda>(t, d). size d)")
    (auto simp: less_Suc_eq_le size_list_estimation' intro: pair_sizes dest: set_zip_rightD)

section \<open>The message determines the data\<close>

lemma value_case_set_content [simp]: "value_case (set_content c v) = content_case c" "content (set_content c v) = c"
  by (simp_all add: set_content_def value_case_def)

lemma value_case_set_high [simp]: "value_case (set_high_128 h v) = value_case v" "content (set_high_128 h v) = content v"
    "high_128 (set_high_128 h v) = h"
  by (simp_all add: set_high_128_def value_case_def)

lemma write_scalar_case: "value_case (write_scalar t x v) = GetPrimitiveValueCase t"
  by (cases t) simp_all

lemma day_floor:
  fixes i :: "64 word"
  shows "InstantDays (ucast (ucast (instant_Days i) :: 32 word)) = i - i mod 86400000000"
proof -
  have d: "uint (instant_Days i) = uint i div 86400000000"
    by (simp add: instant_Days_def instant_Seconds_def uint_div flip: zdiv_zmult2_eq)
  have b: "uint i div 86400000000 \<le> 213503982"
    using uint_lt2p [of i] by simp
  have u: "uint (ucast (ucast (instant_Days i) :: 32 word) :: 64 word) = uint i div 86400000000"
    using b take_bit_int_eq_self [of "uint i div 86400000000" 32] by (simp add: unsigned_ucast_eq d unsigned_take_bit_eq pos_imp_zdiv_nonneg_iff)
  have "ucast (ucast (instant_Days i) :: 32 word) = i div 86400000000"
    by (rule word_uint_eqI) (simp add: u uint_div)
  moreover have "i div 86400000000 \<le> - 1 div 86400000000"
    using uint_lt2p [of i] by (simp add: word_le_def uint_div)
  moreover have "i div 86400000000 * 86400000000 = i - i mod 86400000000"
    by (simp add: minus_mod_eq_div_mult)
  ultimately show ?thesis
    by (simp add: InstantDays_def MulWithSaturation_def)
qed

lemma second_floor:
  fixes i :: "64 word"
  assumes "i div 1000000 < 2 ^ 32"
  shows "InstantSeconds (ucast (ucast (instant_Seconds i) :: 32 word)) = i - i mod 1000000"
proof -
  have d: "uint (instant_Seconds i) = uint i div 1000000"
    by (simp add: instant_Seconds_def uint_div flip: zdiv_zmult2_eq)
  have b: "uint i div 1000000 < 2 ^ 32"
    using assms by (simp add: word_less_def uint_div)
  have u: "uint (ucast (ucast (instant_Seconds i) :: 32 word) :: 64 word) = uint i div 1000000"
    using b take_bit_int_eq_self [of "uint i div 1000000" 32] by (simp add: unsigned_ucast_eq d unsigned_take_bit_eq pos_imp_zdiv_nonneg_iff)
  have "ucast (ucast (instant_Seconds i) :: 32 word) = i div 1000000"
    by (rule word_uint_eqI) (simp add: u uint_div)
  moreover have "i div 1000000 \<le> - 1 div 1000000"
    using uint_lt2p [of i] by (simp add: word_le_def uint_div)
  moreover have "i div 1000000 * 1000000 = i - i mod 1000000"
    by (simp add: minus_mod_eq_div_mult)
  ultimately show ?thesis
    by (simp add: InstantSeconds_def MulWithSaturation_def)
qed

lemma small_casts [simp]:
  "ucast (scast (x :: 8 word) :: 32 word) = x" "ucast (ucast (x :: 8 word) :: 32 word) = x"
  "ucast (scast (y :: 16 word) :: 32 word) = y" "ucast (ucast (y :: 16 word) :: 32 word) = y"
  by (rule bit_word_eqI, simp add: bit_simps)+

lemma scalar_written:
  assumes "scalar_fits t x"
  shows "scalar_of t (write_scalar t x default_value) = x"
  using assms day_floor [of "as_64 x"] second_floor [of "as_64 x"]
  by (cases t; cases "as_uuid x") (simp_all add: value_fields uuid_of_proto_def)

lemma plain_case: "plain d \<Longrightarrow> value_case (encode l d) \<noteq> kNullFlagValue \<and> value_case (encode l d) \<noteq> kNestedValue"
proof (induction d arbitrary: l)
  case (DPrimitive t x)
  show ?case
    by (cases t) (simp_all add: write_scalar_case)
qed (auto simp: items_value_def pairs_value_def value_case_def default_value_def)

lemma nested_null_items: "i \<le> l \<Longrightarrow> (optional_item ^^ i) (nested_null l) = nested_null (l - i)"
proof (induction i)
  case (Suc i)
  then obtain k where "l - i = Suc k"
    by (cases "l - i") auto
  then have "l - Suc i = k" "(optional_item ^^ i) (nested_null l) = nested_null (Suc k)"
    using Suc by simp_all
  moreover have "optional_item (nested_null (Suc k)) = nested_null k"
    by (simp add: optional_item_def nested_value_def)
  ultimately show ?case
    by simp
qed simp

lemma not_nested_items: "value_case v \<noteq> kNestedValue \<Longrightarrow> (optional_item ^^ i) v = v"
  by (induction i) (simp_all add: optional_item_def)

lemma plain_items: "plain d \<Longrightarrow> (optional_item ^^ i) (encode l d) = encode l d"
  by (simp add: not_nested_items plain_case)

lemma item_not_null:
  assumes "typed t d" "item_of_some d" "i < l"
  shows "value_case ((optional_item ^^ i) (encode l d)) \<noteq> kNullFlagValue"
  using assms
proof (induction arbitrary: l rule: typed.induct)
  case (none t)
  then obtain k where "l - i = Suc k"
    by (cases "l - i") auto
  then show ?case
    using none by (simp add: nested_null_items)
next
  case (some t d)
  then show ?case
    by simp
qed (simp_all add: item_of_some_def plain_items plain_case del: plain.simps encode.simps)

lemma all_results_map: "\<forall>x \<in> set xs. f x = Inr (g x) \<Longrightarrow> all_results (map f xs) = Inr (map g xs)"
  by (induction xs) simp_all

lemma decode_items_all2: "list_all2 (\<lambda>f (v, x). f v = Inr x) fs vxs \<Longrightarrow> decode_items fs (map fst vxs) = Inr (map snd vxs)"
  by (induction rule: list_all2_induct) auto

text \<open>After the optional levels around it have been opened, the message of the data decodes to the data.\<close>

definition decodes :: "Type \<Rightarrow> data \<Rightarrow> bool" where
  "decodes t d \<longleftrightarrow> (\<forall>l. (0 < l \<longrightarrow> item_of_some d) \<longrightarrow> decode t ((optional_item ^^ l) (encode l d)) = Inr d)"

lemma decodesI: "(\<And>l. (0 < l \<Longrightarrow> item_of_some d) \<Longrightarrow> decode t ((optional_item ^^ l) (encode l d)) = Inr d) \<Longrightarrow> decodes t d"
  by (simp add: decodes_def)

lemma decodesD: "decodes t d \<Longrightarrow> (0 < l \<Longrightarrow> item_of_some d) \<Longrightarrow> decode t ((optional_item ^^ l) (encode l d)) = Inr d"
  by (simp add: decodes_def)

lemma decodes_0: "decodes t d \<Longrightarrow> decode t (encode 0 d) = Inr d"
  using decodesD [of t d 0] by simp

lemma decode_encode: "typed t d \<Longrightarrow> decodes t d"
proof (induction rule: typed.induct)
  case (primitive i t x)
  then show ?case
    using plain_items [of "DPrimitive t x"] by (intro decodesI) (simp add: write_scalar_case scalar_written checked_def)
next
  case (decimal x p s)
  then show ?case
    using plain_items [of "DDecimal x"] by (intro decodesI) (simp add: checked_def decimal_of_proto_def low_128_def)
next
  case (pg x n m)
  then show ?case
    using not_nested_items [of "encode l (DPg x)" l for l]
    by (cases x; cases "PgKind x"; intro decodesI)
      (simp_all add: pg_of_proto_def PgIsNull_def PgIsText_def text_value_def bytes_value_def)
next
  case (none t)
  show ?case
    by (rule decodesI) (simp add: nested_null_items)
next
  case (some t d)
  show ?case
  proof (rule decodesI)
    fix l
    have "value_case ((optional_item ^^ l) (encode (Suc l) d)) \<noteq> kNullFlagValue"
      using some by (intro item_not_null) simp_all
    moreover have "decode t (optional_item ((optional_item ^^ l) (encode (Suc l) d))) = Inr d"
      using decodesD [OF some.IH, of "Suc l"] some.hyps(2) by simp
    ultimately show "decode (OptionalType t) ((optional_item ^^ l) (encode l (DSome d))) = Inr (DSome d)"
      by simp
  qed
next
  case (list t ds)
  then have "\<forall>d \<in> set ds. decode t (encode 0 d) = Inr d"
    by (simp add: list_all_iff decodes_0)
  then show ?case
    using plain_items [of "DList ds"] all_results_map [of ds "\<lambda>d. decode t (encode 0 d)" id]
    by (intro decodesI) (simp add: items_value_def o_def)
next
  case (tuple ts ds)
  then have "list_all2 (\<lambda>f (v, x). f v = Inr x) (map decode ts) (map (\<lambda>d. (encode 0 d, d)) ds)"
    by (force simp: list_all2_conv_all_nth decodes_0)
  from decode_items_all2 [OF this] show ?case
    using plain_items [of "DTuple ds"] by (intro decodesI) (simp add: items_value_def o_def)
next
  case (struct names ts ds)
  then have "list_all2 (\<lambda>f (v, x). f v = Inr x) (map decode_member (zip names ts)) (map (\<lambda>m. (encode 0 (snd m), m)) (zip names ds))"
    by (force simp: list_all2_conv_all_nth decode_member_def decodes_0)
  from decode_items_all2 [OF this] show ?case
    using plain_items [of "DStruct (zip names ds)"] by (intro decodesI) (simp add: items_value_def o_def decode_struct del: decode.simps)
next
  case (dict kt vt ds)
  then have "\<forall>kx \<in> set ds. decode_pair kt vt (encode 0 (fst kx), encode 0 (snd kx)) = Inr kx"
    by (force simp: list_all_iff decode_pair_def decodes_0)
  then show ?case
    using plain_items [of "DDict ds"] all_results_map [of ds "\<lambda>kx. decode_pair kt vt (encode 0 (fst kx), encode 0 (snd kx))" id]
    by (intro decodesI) (simp add: pairs_value_def o_def decode_dict del: decode.simps)
next
  case (tagged t d tag)
  have "(optional_item ^^ l) (encode 0 d) = encode 0 d" if "0 < l \<Longrightarrow> plain d" for l
    using that by (cases l) (simp_all add: plain_items del: funpow.simps)
  then show ?case
    using decodes_0 [OF tagged.IH] by (intro decodesI) (simp add: item_of_some_def)
qed

end
