(* ===== verification/ValueBuilding.thy ===== *)
theory ValueBuilding
  imports ValueEncoding
begin

text \<open>
  Building a whole value with \<^verbatim>\<open>TValueBuilder\<close> and reading it again with \<^verbatim>\<open>TValueParser\<close>. The calls for a piece of data
  of a given type succeed on a new builder, and on a builder that was given the type; the built value has this type, and
  the traversal of its message returns the data.
\<close>

section \<open>States of the builder\<close>

definition bpos :: "value_step list \<Rightarrow> bool \<Rightarrow> nat \<Rightarrow> TBuilderPosition" where
  "bpos r bt l = \<lparr>ValueRef = r, BuildType = bt, OptLevel = l\<rparr>"

definition bstate ::
  "Type \<Rightarrow> nat list list \<Rightarrow> Value \<Rightarrow> (struct_address, (string, nat) amap) amap \<Rightarrow> TBuilderPosition list \<Rightarrow>
   TStructPosition list \<Rightarrow> nat \<Rightarrow> TValueBuilder" where
  "bstate T tp V sm vp sp g = \<lparr>TypeBuilder = \<lparr>BuiltType = T, BuilderPath = tp\<rparr>, ProtoValue = V, StructsMap = sm,
     ValueBuilderPath = vp, StructsPath = sp, TypesBuilt = g\<rparr>"

lemma bpos_simps [simp]:
  "ValueRef (bpos r bt l) = r" "BuildType (bpos r bt l) = bt" "OptLevel (bpos r bt l) = l"
  "bpos r bt l\<lparr>BuildType := bt'\<rparr> = bpos r bt' l" "bpos r bt l\<lparr>OptLevel := l'\<rparr> = bpos r bt l'"
  "new_position r = bpos r False 0"
  by (simp_all add: bpos_def new_position_def)

lemma bstate_simps [simp]:
  "GetType 0 (bstate T (a # tp) V sm vp sp g) = (case get_at a T of None \<Rightarrow> Inl NullPointer | Some t \<Rightarrow> Inr t)"
  "GetType (Suc 0) (bstate T (x # a # tp) V sm vp sp g) = (case get_at a T of None \<Rightarrow> Inl NullPointer | Some t \<Rightarrow> Inr t)"
  "PathTop (bstate T tp V sm (p # ps) sp g) = Inr p"
  "on_path_top f (bstate T tp V sm (p # ps) sp g) = Inr (bstate T tp V sm (f p # ps) sp g)"
  "PushValue r (bstate T tp V sm ps sp g) = bstate T tp V sm (new_position r # ps) sp g"
  "PopValue (bstate T tp V sm (p # ps) sp g) = Inr (bstate T tp V sm ps sp g)"
  "GetValue (bstate T tp V sm (p # ps) sp g) = (case get_value (ValueRef p) V of None \<Rightarrow> Inl NullPointer | Some v \<Rightarrow> Inr v)"
  "ValueBuilderPath (bstate T tp V sm vp sp g) = vp" "StructsPath (bstate T tp V sm vp sp g) = sp"
  "bstate T tp V sm vp sp g\<lparr>StructsPath := sp'\<rparr> = bstate T tp V sm vp sp' g"
  by (simp_all add: bstate_def GetType_def BuilderProto_def PathTop_def on_path_top_def PushValue_def PopValue_def GetValue_def)

lemma bstate_eq [simp]:
  "bstate T tp V sm vp sp g = bstate T' tp' V' sm' vp' sp' g' \<longleftrightarrow>
     T = T' \<and> tp = tp' \<and> V = V' \<and> sm = sm' \<and> vp = vp' \<and> sp = sp' \<and> g = g'"
  "bpos r bt l = bpos r' bt' l' \<longleftrightarrow> r = r' \<and> bt = bt' \<and> l = l'"
  by (auto simp: bstate_def bpos_def)

lemma on_types_at [simp]:
  "on_types h (bstate T tp V sm vp sp g) =
     and_then (h \<lparr>BuiltType = T, BuilderPath = tp\<rparr>) (\<lambda>tb. Inr (bstate (BuiltType tb) (BuilderPath tb) V sm vp sp g))"
  by (cases "h \<lparr>BuiltType = T, BuilderPath = tp\<rparr>") (simp_all add: on_types_def bstate_def)

lemma modify_value_at:
  assumes "get_value r V = Some v"
  shows "modify_value f (bstate T tp V sm (bpos r bt l # ps) sp g) = Inr (bstate T tp (update_value r (\<lambda>_. f v) V) sm (bpos r bt l # ps) sp g)"
  using assms val.update_cong [OF assms, of f] by (simp add: modify_value_def) (simp add: bstate_def)

lemma push_part_at:
  assumes "get_value r V = Some v" "value_part (step v) v \<noteq> None"
  shows "push_part step (bstate T tp V sm (bpos r bt l # ps) sp g) =
    Inr (bstate T tp V sm (bpos (r @ [step v]) False 0 # bpos r bt l # ps) sp g)"
  using assms by (auto simp: push_part_def)

lemma push_same_at:
  "push_same (bstate T tp V sm (bpos r bt l # ps) sp g) = Inr (bstate T tp V sm (bpos r False 0 # bpos r bt l # ps) sp g)"
  by (simp add: push_same_def)

text \<open>A type that is not set yet, or already the expected one.\<close>

definition known_as :: "Type \<Rightarrow> Type \<Rightarrow> bool" where
  "known_as t u \<longleftrightarrow> u = TypeNotSet \<or> u = t"

definition sub_type :: "Type \<Rightarrow> Type \<Rightarrow> Type" where
  "sub_type u t = (if u = TypeNotSet then TypeNotSet else t)"

lemma known_sub [simp]: "known_as t (sub_type u t)" "known_as t t" "known_as t TypeNotSet" "sub_type TypeNotSet t = TypeNotSet"
  by (auto simp: known_as_def sub_type_def)

lemma CheckTypeKind_at:
  assumes "get_at a T = Some u" "known_as t u" "GetKind t = Inr k"
  shows "CheckTypeKind k (bstate T (a # tp) V sm vp sp g) = Inr (u \<noteq> TypeNotSet)"
  using assms by (auto simp: CheckTypeKind_def CheckType_def known_as_def)

lemma CheckContainerKind_at:
  assumes "get_at a T = Some t" "GetKind t = Inr k" "ps \<noteq> []"
  shows "CheckContainerKind k (bstate T (x # a # tp) V sm (p # ps) sp g) = Inr ()"
  using assms by (cases ps) (simp_all add: CheckContainerKind_def)

lemma buildable_complete: "buildable t \<Longrightarrow> complete t"
  by (induction t rule: buildable.induct) (auto simp: list_all_iff)

lemma check_or_set_type_at:
  assumes "get_at a T = Some u" "known_as t u" "buildable t"
  shows "check_or_set_type t (bstate T (a # tp) V sm vp sp g) = Inr (bstate (update_at a (\<lambda>_. t) T) (a # tp) V sm vp sp g)"
proof -
  have "complete t" "t \<noteq> TypeNotSet"
    using buildable_complete [OF assms(3)] by (cases t; simp)+
  then have "TypesEqual t t = Inr True"
    using TypesEqual_complete [of t t] by simp
  then show ?thesis
    using assms(1,2) \<open>t \<noteq> TypeNotSet\<close> types.update_same [OF assms(1)]
    by (auto simp: check_or_set_type_def CheckTypeIs_def CheckType_def known_as_def define_type_def SetType_def modify_def BuilderProto_def)
qed

section \<open>The cache of struct members\<close>

definition cache_ok :: "nat \<Rightarrow> Type \<Rightarrow> (struct_address, (string, nat) amap) amap \<Rightarrow> bool" where
  "cache_ok g T sm \<longleftrightarrow> (\<forall>a m. lookup sm (g, a) = Some m \<longrightarrow>
     (\<exists>ms. get_at a T = Some (StructType ms) \<and> m = fill_members 0 (map fst ms) []))"

definition cache_grows :: "nat \<Rightarrow> nat list \<Rightarrow> (struct_address, (string, nat) amap) amap \<Rightarrow> (struct_address, (string, nat) amap) amap \<Rightarrow> bool" where
  "cache_grows g a sm sm' \<longleftrightarrow> (\<forall>a'. \<not> prefix a a' \<longrightarrow> lookup sm' (g, a') = lookup sm (g, a'))"

lemma cache_grows_refl [simp]: "cache_grows g a sm sm"
  by (simp add: cache_grows_def)

lemma cache_grows_trans: "cache_grows g a sm sm' \<Longrightarrow> cache_grows g (a @ r) sm' sm'' \<Longrightarrow> cache_grows g a sm sm''"
  by (auto simp: cache_grows_def prefix_def)

lemma cache_grows_above: "cache_grows g (a @ [i]) sm sm' \<Longrightarrow> lookup sm' (g, a) = lookup sm (g, a)"
  by (simp add: cache_grows_def)

lemma child_set_other: "child i t = Some u \<Longrightarrow> i \<noteq> j \<Longrightarrow> child j (set_child i v t) = child j t"
  by (cases t) (auto split: if_splits)

lemma struct_names_kept:
  assumes "get_at a T = Some u" "a' \<noteq> a" "get_at a' T = Some (StructType ms)"
    and "\<And>r ms. r \<noteq> [] \<Longrightarrow> get_at r u = Some (StructType ms) \<Longrightarrow> \<exists>ms'. get_at r u' = Some (StructType ms') \<and> map fst ms' = map fst ms"
  shows "\<exists>ms'. get_at a' (update_at a (\<lambda>_. u') T) = Some (StructType ms') \<and> map fst ms' = map fst ms"
  using assms
proof (induction a arbitrary: a' T)
  case Nil
  then show ?case
    by simp
next
  case (Cons i a)
  then obtain w where w: "child i T = Some w" "get_at a w = Some u"
    by (auto split: option.splits)
  show ?case
  proof (cases a')
    case Nil
    then show ?thesis
      using Cons.prems(3) w(1) by (auto simp: map_update split: if_splits) (metis list_update_id nth_map)
  next
    case (Cons j b)
    then show ?thesis
      using Cons.IH [OF w(2), of b] Cons.prems w types.part_set [OF w(1)] child_set_other [OF w(1)]
      by (cases "i = j") (auto split: option.splits)
  qed
qed

lemma cache_update:
  assumes "cache_ok g T sm" "get_at a T = Some u" "lookup sm (g, a) = None"
    and "\<And>r ms. r \<noteq> [] \<Longrightarrow> get_at r u = Some (StructType ms) \<Longrightarrow> \<exists>ms'. get_at r u' = Some (StructType ms') \<and> map fst ms' = map fst ms"
  shows "cache_ok g (update_at a (\<lambda>_. u') T) sm"
  unfolding cache_ok_def
proof (intro allI impI)
  fix a' m
  assume m: "lookup sm (g, a') = Some m"
  then obtain ms where ms: "get_at a' T = Some (StructType ms)" "m = fill_members 0 (map fst ms) []"
    using assms(1) by (auto simp: cache_ok_def)
  have "a' \<noteq> a"
    using m assms(3) by auto
  from struct_names_kept [OF assms(2) this ms(1) assms(4)] ms(2)
  show "\<exists>ms. get_at a' (update_at a (\<lambda>_. u') T) = Some (StructType ms) \<and> m = fill_members 0 (map fst ms) []"
    by metis
qed

lemma cache_uncached: "cache_ok g T sm \<Longrightarrow> get_at a T = Some u \<Longrightarrow> GetKind u \<noteq> Inr Struct \<Longrightarrow> lookup sm (g, a) = None"
  by (cases "lookup sm (g, a)") (force simp: cache_ok_def)+

lemma not_set_parts: "r \<noteq> [] \<Longrightarrow> get_at r TypeNotSet = None"
  by (cases r) auto

text \<open>Setting a type that was not set, or leaving a known one, keeps the cache right.\<close>

lemma cache_known:
  assumes "cache_ok g T sm" "get_at a T = Some u" "known_as t u"
  shows "cache_ok g (update_at a (\<lambda>_. t) T) sm"
proof (cases "u = TypeNotSet")
  case True
  then show ?thesis
    using assms(1,2) by (intro cache_update) (auto simp: not_set_parts cache_uncached)
next
  case False
  then show ?thesis
    using assms types.update_same [OF assms(2)] by (simp add: known_as_def)
qed

section \<open>Building a value\<close>

text \<open>What a finished value leaves behind: the type and the message at the current position, and a correct cache.\<close>

definition vbuilt ::
  "Type \<Rightarrow> nat list \<Rightarrow> nat list list \<Rightarrow> Value \<Rightarrow> (struct_address, (string, nat) amap) amap \<Rightarrow> value_step list \<Rightarrow> nat \<Rightarrow>
   TBuilderPosition list \<Rightarrow> TStructPosition list \<Rightarrow> nat \<Rightarrow> TValueBuilder result \<Rightarrow> bool" where
  "vbuilt T a tp V sm r l ps sp g res \<longleftrightarrow> (\<exists>bt sm'.
     res = Inr (bstate T (a # tp) V sm' (bpos r bt l # ps) sp g) \<and> cache_ok g T sm' \<and> cache_grows g a sm sm')"

lemma vbuiltI:
  "res = Inr (bstate T (a # tp) V sm' (bpos r bt l # ps) sp g) \<Longrightarrow> cache_ok g T sm' \<Longrightarrow> cache_grows g a sm sm' \<Longrightarrow>
     vbuilt T a tp V sm r l ps sp g res"
  by (auto simp: vbuilt_def)

definition vbuilds :: "Type \<Rightarrow> data \<Rightarrow> bool" where
  "vbuilds t d \<longleftrightarrow> (\<forall>T a tp V sm r bt l ps sp g u. (0 < l \<longrightarrow> ps \<noteq> []) \<longrightarrow>
     get_at a T = Some u \<longrightarrow> known_as t u \<longrightarrow> get_value r V = Some default_value \<longrightarrow> cache_ok g T sm \<longrightarrow>
     vbuilt (update_at a (\<lambda>_. t) T) a tp (update_value r (\<lambda>_. encode l d) V) sm r l ps sp g
       (run_values (value_calls t d) (bstate T (a # tp) V sm (bpos r bt l # ps) sp g)))"

lemma vbuildsD:
  assumes "vbuilds t d" "get_at a T = Some u" "known_as t u" "get_value r V = Some default_value" "cache_ok g T sm"
    and "0 < l \<Longrightarrow> ps \<noteq> []"
  shows "\<exists>bt' sm'. run_values (value_calls t d) (bstate T (a # tp) V sm (bpos r bt l # ps) sp g) =
        Inr (bstate (update_at a (\<lambda>_. t) T) (a # tp) (update_value r (\<lambda>_. encode l d) V) sm' (bpos r bt' l # ps) sp g) \<and>
      cache_ok g (update_at a (\<lambda>_. t) T) sm' \<and> cache_grows g a sm sm'"
  using assms unfolding vbuilds_def vbuilt_def by meson

lemma scalar_types_at:
  assumes "get_at a T = Some u" "known_as t u"
  shows "t = TypeId (primitive_id p) \<Longrightarrow>
      FillPrimitiveType p (bstate T (a # tp) V sm vp sp g) = Inr (bstate (update_at a (\<lambda>_. t) T) (a # tp) V sm vp sp g)"
    "t = DecimalType (ucast (Precision x)) (ucast (Scale x)) \<Longrightarrow>
      FillDecimalType x (bstate T (a # tp) V sm vp sp g) = Inr (bstate (update_at a (\<lambda>_. t) T) (a # tp) V sm vp sp g)"
    "t = PgType (TypeName y) (TypeModifier y) 0 0 0 \<Longrightarrow>
      FillPgType y (bstate T (a # tp) V sm vp sp g) = Inr (bstate (update_at a (\<lambda>_. t) T) (a # tp) V sm vp sp g)"
  using assms types.update_same [OF assms(1)] types.update_cong [OF assms(1), of "set_pg y"]
  by (auto simp: FillPrimitiveType_def CheckPrimitiveType_def FillDecimalType_def CheckDecimalType_def FillPgType_def CheckPgType_def
    CheckTypeKind_def CheckType_def known_as_def define_type_def BuildPrimitive_def BuildDecimal_def BuildPg_def modify_def
    BuilderProto_def set_pg_def)

lemma vbuilds_primitive:
  assumes "primitive_of i = Some p"
  shows "vbuilds (TypeId i) (DPrimitive p x)"
proof -
  have "TypeId i = TypeId (primitive_id p)"
    using primitive_of_id [OF assms] by simp
  then show ?thesis
    using scalar_types_at(1) cache_known
    by (fastforce simp: vbuilds_def vbuilt_def put_scalar_eq put_primitive_def modify_value_at)
qed

lemma vbuilds_decimal:
  assumes "DecimalValueType x = \<lparr>Precision = ucast p, Scale = ucast s\<rparr>" "buildable (DecimalType p s)"
  shows "vbuilds (DecimalType p s) (DDecimal x)"
proof -
  have "DecimalType p s = DecimalType (ucast (Precision (DecimalValueType x))) (ucast (Scale (DecimalValueType x)))"
    using assms by (simp add: byte_in_ui32)
  then show ?thesis
    using scalar_types_at(2) cache_known by (fastforce simp: vbuilds_def vbuilt_def ValueDecimal_def modify_value_at)
qed

lemma vbuilds_pg:
  assumes "PgValueType x = \<lparr>TypeName = n, TypeModifier = m, Oid = 0, Typlen = 0, Typmod = 0\<rparr>"
  shows "vbuilds (PgType n m 0 0 0) (DPg x)"
proof -
  have "PgType n m 0 0 0 = PgType (TypeName (PgValueType x)) (TypeModifier (PgValueType x)) 0 0 0"
    using assms by simp
  then show ?thesis
    using scalar_types_at(3) cache_known by (fastforce simp: vbuilds_def vbuilt_def ValuePg_def modify_value_at)
qed

text \<open>Entering and leaving a container type with one part.\<close>

lemma enter_at:
  assumes "get_at a T = Some u" "known_as (c t) u" "f TypeNotSet = c TypeNotSet" "f (c t) = c t"
  shows "enter f 0 \<lparr>BuiltType = T, BuilderPath = a # tp\<rparr> =
    Inr \<lparr>BuiltType = update_at a (\<lambda>_. c (sub_type u t)) T, BuilderPath = (a @ [0]) # a # tp\<rparr>"
  using assms types.update_cong [OF assms(1), of f]
  by (auto simp: enter_def modify_def BuilderProto_def AddPosition_def known_as_def sub_type_def)

lemma part_at:
  assumes "get_at a T = Some u" "\<And>v. child i (c v) = Some v" "\<And>v w. set_child i w (c v) = c w"
  shows "get_at (a @ [i]) (update_at a (\<lambda>_. c v) T) = Some v"
    "update_at (a @ [i]) (\<lambda>_. t) (update_at a (\<lambda>_. c v) T) = update_at a (\<lambda>_. c t) T"
proof -
  have g: "get_at a (update_at a (\<lambda>_. c v) T) = Some (c v)"
    by (rule types.get_update [OF assms(1)])
  then show "get_at (a @ [i]) (update_at a (\<lambda>_. c v) T) = Some v"
    by (simp add: types.get_append assms(2))
  show "update_at (a @ [i]) (\<lambda>_. t) (update_at a (\<lambda>_. c v) T) = update_at a (\<lambda>_. c t) T"
    using types.update_part [OF g assms(2)] types.update_twice [OF assms(1)] by (simp add: assms(3))
qed

lemma close_at:
  assumes "get_at a T = Some t" "GetKind t = Inr k"
  shows "CloseContainer k \<lparr>BuiltType = T, BuilderPath = x # a # tp\<rparr> = Inr \<lparr>BuiltType = T, BuilderPath = a # tp\<rparr>"
  using assms by (simp add: close_defs)

subsection \<open>Optional values\<close>

lemma BeginOptional_at:
  assumes "get_at a T = Some u" "known_as (OptionalType t) u"
  shows "ValueBeginOptional (bstate T (a # tp) V sm (bpos r bt l # ps) sp g) =
    Inr (bstate (update_at a (\<lambda>_. OptionalType (sub_type u t)) T) ((a @ [0]) # a # tp) V sm
      (if l = 0 then bpos r False 1 # bpos r (u = TypeNotSet) 0 # ps else bpos r (u = TypeNotSet) (Suc l) # ps) sp g)"
  using assms CheckTypeKind_at [OF assms] enter_at [OF assms(1), of OptionalType t mutable_optional_type tp]
  by (simp add: ValueBeginOptional_def SetBuildType_def push_same_at BeginOptional_def mutable_optional_type_def)

lemma EndOptional_at:
  assumes "get_at a T = Some (OptionalType t)" "0 < l \<Longrightarrow> ps \<noteq> []"
  shows "ValueEndOptional (bstate T (x # a # tp) V sm
      (if l = 0 then bpos r bt 1 # bpos r bt' 0 # ps else bpos r bt (Suc l) # ps) sp g) =
    Inr (bstate T (a # tp) V sm (bpos r (if l = 0 then bt' else bt) l # ps) sp g)"
  using assms CheckContainerKind_at [OF assms(1), of Optional] close_at [OF assms(1), of Optional]
  by (simp add: ValueEndOptional_def EndOptional_def)

lemma vbuilds_some:
  assumes "vbuilds t d"
  shows "vbuilds (OptionalType t) (DSome d)"
  unfolding vbuilds_def
proof (intro allI impI)
  fix T a tp V sm r bt and l :: nat and ps :: "TBuilderPosition list" and sp g u
  assume h: "0 < l \<longrightarrow> ps \<noteq> []" "get_at a T = Some u" "known_as (OptionalType t) u" "get_value r V = Some default_value" "cache_ok g T sm"
  let ?T = "update_at a (\<lambda>_. OptionalType (sub_type u t)) T"
  have p: "get_at (a @ [0]) ?T = Some (sub_type u t)" "update_at (a @ [0]) (\<lambda>_. t) ?T = update_at a (\<lambda>_. OptionalType t) T"
    using part_at [OF h(2), of 0 OptionalType] by simp_all
  have c: "cache_ok g ?T sm"
    using cache_known [OF h(5,2)] h(3) by (auto simp: known_as_def sub_type_def)
  define qs where "qs = (if l = 0 then bpos r (u = TypeNotSet) 0 # ps else ps)"
  have qs: "qs \<noteq> []"
    using h(1) by (auto simp: qs_def)
  define bt0 where "bt0 = (if l = 0 then False else u = TypeNotSet)"
  obtain bt' sm' where b: "run_values (value_calls t d) (bstate ?T ((a @ [0]) # a # tp) V sm (bpos r bt0 (Suc l) # qs) sp g) =
      Inr (bstate (update_at (a @ [0]) (\<lambda>_. t) ?T) ((a @ [0]) # a # tp) (update_value r (\<lambda>_. encode (Suc l) d) V) sm' (bpos r bt' (Suc l) # qs) sp g)"
    and k: "cache_ok g (update_at (a @ [0]) (\<lambda>_. t) ?T) sm'" "cache_grows g (a @ [0]) sm sm'"
    using vbuildsD [OF assms p(1) known_sub(1) h(4) c qs] by blast
  have e: "get_at a (update_at a (\<lambda>_. OptionalType t) T) = Some (OptionalType t)"
    by (rule types.get_update [OF h(2)])
  have s: "(if l = 0 then bpos r False 1 # bpos r (u = TypeNotSet) 0 # ps else bpos r (u = TypeNotSet) (Suc l) # ps) = bpos r bt0 (Suc l) # qs"
    by (simp add: bt0_def qs_def)
  have "run_values (value_calls (OptionalType t) (DSome d)) (bstate T (a # tp) V sm (bpos r bt l # ps) sp g) =
      Inr (bstate (update_at a (\<lambda>_. OptionalType t) T) (a # tp) (update_value r (\<lambda>_. encode l (DSome d)) V) sm'
        (bpos r (if l = 0 then u = TypeNotSet else bt') l # ps) sp g)"
    using BeginOptional_at [OF h(2,3)] b EndOptional_at [OF e, of l ps "a @ [0]"] h(1)
    by (cases "l = 0") (simp_all add: run_values_append s p(2) qs_def bt0_def)
  then show "vbuilt (update_at a (\<lambda>_. OptionalType t) T) a tp (update_value r (\<lambda>_. encode l (DSome d)) V) sm r l ps sp g
      (run_values (value_calls (OptionalType t) (DSome d)) (bstate T (a # tp) V sm (bpos r bt l # ps) sp g))"
    using k p(2) cache_grows_trans [of g a sm sm "[0]" sm'] by (intro vbuiltI) simp_all
qed

lemma pop_values_Suc: "pop_values (Suc n) b = and_then (pop_values n b) PopValue"
proof (induction n arbitrary: b)
  case 0
  show ?case
    by (simp add: and_then_def split: sum.split)
next
  case (Suc n)
  then show ?case
    by (cases "PopValue b") auto
qed

lemma nest_empty_at:
  assumes "get_value r V = Some default_value"
  shows "and_then (push_nested n (bstate T tp V sm (bpos r bt l # ps) sp g)) (\<lambda>b.
      and_then (modify_value (set_content NullFlagValue) b) (pop_values n)) =
    Inr (bstate T tp (update_value r (\<lambda>_. nested_null n) V) sm (bpos r bt l # ps) sp g)"
  using assms
proof (induction n arbitrary: r V bt l ps)
  case 0
  then show ?case
    by (simp add: modify_value_at)
next
  case (Suc n)
  let ?c = "\<lambda>v. set_content (NestedValue v) default_value"
  define V1 where "V1 = update_value r (\<lambda>_. ?c default_value) V"
  have g: "get_value r V1 = Some (?c default_value)"
    unfolding V1_def by (rule val.get_update [OF Suc.prems])
  have m: "modify_value mutable_nested_value (bstate T tp V sm (bpos r bt l # ps) sp g) = Inr (bstate T tp V1 sm (bpos r bt l # ps) sp g)"
    using modify_value_at [OF Suc.prems] by (simp add: V1_def mutable_nested_value_def default_value_def)
  have q: "push_part (\<lambda>_. StepNested) (bstate T tp V1 sm (bpos r bt l # ps) sp g) =
      Inr (bstate T tp V1 sm (bpos (r @ [StepNested]) False 0 # bpos r bt l # ps) sp g)"
    using push_part_at [OF g] by simp
  have "get_value (r @ [StepNested]) V1 = Some default_value"
    using g by (simp add: val.get_append)
  note i = Suc.IH [OF this, of False 0 "bpos r bt l # ps"]
  have "update_value (r @ [StepNested]) (\<lambda>_. nested_null n) V1 = update_value r (\<lambda>_. nested_null (Suc n)) V"
    using val.update_part [OF g, of StepNested] val.update_twice [OF Suc.prems] by (simp add: V1_def set_content_def)
  then show ?case
    using i m q unfolding pop_values_Suc
    by (cases "push_nested n (bstate T tp V1 sm (bpos (r @ [StepNested]) False 0 # bpos r bt l # ps) sp g)")
      (auto simp: and_then_def split: sum.splits)
qed

lemma vbuilds_none:
  assumes "buildable t"
  shows "vbuilds (OptionalType t) DNone"
  unfolding vbuilds_def
proof (intro allI impI)
  fix T a tp V sm r bt and l :: nat and ps :: "TBuilderPosition list" and sp g u
  assume h: "0 < l \<longrightarrow> ps \<noteq> []" "get_at a T = Some u" "known_as (OptionalType t) u" "get_value r V = Some default_value" "cache_ok g T sm"
  let ?T = "update_at a (\<lambda>_. OptionalType (sub_type u t)) T"
  have p: "get_at (a @ [0]) ?T = Some (sub_type u t)" "update_at (a @ [0]) (\<lambda>_. t) ?T = update_at a (\<lambda>_. OptionalType t) T"
    using part_at [OF h(2), of 0 OptionalType] by simp_all
  have e: "get_at a (update_at a (\<lambda>_. OptionalType t) T) = Some (OptionalType t)"
    by (rule types.get_update [OF h(2)])
  define qs where "qs = (if l = 0 then bpos r (u = TypeNotSet) 0 # ps else ps)"
  define bt0 where "bt0 = (if l = 0 then False else u = TypeNotSet)"
  have s: "(if l = 0 then bpos r False 1 # bpos r (u = TypeNotSet) 0 # ps else bpos r (u = TypeNotSet) (Suc l) # ps) = bpos r bt0 (Suc l) # qs"
    by (simp add: bt0_def qs_def)
  have "NestEmptyOptional (bstate T' tp' V sm (bpos r bt0 (Suc l) # qs) sp g) =
      Inr (bstate T' tp' (update_value r (\<lambda>_. nested_null l) V) sm (bpos r bt0 (Suc l) # qs) sp g)" for T' tp'
    using nest_empty_at [OF h(4)] by (simp add: NestEmptyOptional_def)
  then have "run_values (value_calls (OptionalType t) DNone) (bstate T (a # tp) V sm (bpos r bt l # ps) sp g) =
      Inr (bstate (update_at a (\<lambda>_. OptionalType t) T) (a # tp) (update_value r (\<lambda>_. encode l DNone) V) sm
        (bpos r (u = TypeNotSet) l # ps) sp g)"
    using BeginOptional_at [OF h(2,3)] check_or_set_type_at [OF p(1) known_sub(1) assms] EndOptional_at [OF e, of l ps "a @ [0]"] h(1)
    by (cases "l = 0") (simp_all add: EmptyOptionalOf_def ValueBeginOptionalOf_def s p(2) qs_def bt0_def)
  then show "vbuilt (update_at a (\<lambda>_. OptionalType t) T) a tp (update_value r (\<lambda>_. encode l DNone) V) sm r l ps sp g
      (run_values (value_calls (OptionalType t) DNone) (bstate T (a # tp) V sm (bpos r bt l # ps) sp g))"
    using cache_known [OF h(5,2,3)] by (intro vbuiltI [where sm' = sm]) simp_all
qed

subsection \<open>Containers\<close>

lemma begin_container_at:
  assumes "get_at a T = Some u" "known_as t u" "GetKind t = Inr k" "f \<lparr>BuiltType = T, BuilderPath = a # tp\<rparr> = Inr \<lparr>BuiltType = T', BuilderPath = tp'\<rparr>"
  shows "begin_container k f (bstate T (a # tp) V sm (bpos r bt l # ps) sp g) =
    Inr (bstate T' tp' V sm (bpos r False 0 # bpos r (u = TypeNotSet) l # ps) sp g)"
  using assms CheckTypeKind_at [OF assms(1-3)] by (simp add: begin_container_def SetBuildType_def push_same_at)

lemma vbuilds_tagged:
  assumes "vbuilds t d"
  shows "vbuilds (TaggedType tag t) (DTagged tag d)"
  unfolding vbuilds_def
proof (intro allI impI)
  fix T a tp V sm r bt and l :: nat and ps :: "TBuilderPosition list" and sp g u
  assume h: "0 < l \<longrightarrow> ps \<noteq> []" "get_at a T = Some u" "known_as (TaggedType tag t) u" "get_value r V = Some default_value" "cache_ok g T sm"
  let ?T = "update_at a (\<lambda>_. TaggedType tag (sub_type u t)) T"
  have p: "get_at (a @ [0]) ?T = Some (sub_type u t)" "update_at (a @ [0]) (\<lambda>_. t) ?T = update_at a (\<lambda>_. TaggedType tag t) T"
    using part_at [OF h(2), of 0 "TaggedType tag"] by simp_all
  have c: "cache_ok g ?T sm"
    using cache_known [OF h(5,2)] h(3) by (auto simp: known_as_def sub_type_def)
  have e: "get_at a (update_at a (\<lambda>_. TaggedType tag t) T) = Some (TaggedType tag t)"
    by (rule types.get_update [OF h(2)])
  have "BeginTagged tag \<lparr>BuiltType = T, BuilderPath = a # tp\<rparr> = Inr \<lparr>BuiltType = ?T, BuilderPath = (a @ [0]) # a # tp\<rparr>"
    unfolding BeginTagged_def using h(2,3) by (intro enter_at) (simp_all add: set_tag_def)
  note o = begin_container_at [where f = "BeginTagged tag", OF h(2,3) _ this, of Tagged]
  obtain bt' sm' where b: "run_values (value_calls t d) (bstate ?T ((a @ [0]) # a # tp) V sm (bpos r False 0 # bpos r (u = TypeNotSet) l # ps) sp g) =
      Inr (bstate (update_at a (\<lambda>_. TaggedType tag t) T) ((a @ [0]) # a # tp) (update_value r (\<lambda>_. encode 0 d) V) sm'
        (bpos r bt' 0 # bpos r (u = TypeNotSet) l # ps) sp g)"
    and k: "cache_ok g (update_at a (\<lambda>_. TaggedType tag t) T) sm'" "cache_grows g (a @ [0]) sm sm'"
    using vbuildsD [OF assms p(1) known_sub(1) h(4) c, of 0 "bpos r (u = TypeNotSet) l # ps" "a # tp" False sp] by (auto simp: p(2))
  have "run_values (value_calls (TaggedType tag t) (DTagged tag d)) (bstate T (a # tp) V sm (bpos r bt l # ps) sp g) =
      Inr (bstate (update_at a (\<lambda>_. TaggedType tag t) T) (a # tp) (update_value r (\<lambda>_. encode l (DTagged tag d)) V) sm'
        (bpos r (u = TypeNotSet) l # ps) sp g)"
    using o b CheckContainerKind_at [OF e, of Tagged] close_at [OF e, of Tagged]
    by (simp add: run_values_append ValueBeginTagged_def ValueEndTagged_def EndTagged_def)
  then show "vbuilt (update_at a (\<lambda>_. TaggedType tag t) T) a tp (update_value r (\<lambda>_. encode l (DTagged tag d)) V) sm r l ps sp g
      (run_values (value_calls (TaggedType tag t) (DTagged tag d)) (bstate T (a # tp) V sm (bpos r bt l # ps) sp g))"
    using k cache_grows_trans [of g a sm sm "[0]" sm'] by (intro vbuiltI) simp_all
qed

text \<open>
  The loop over the items of a container: a call that makes room for the next item, and the calls for this item. The
  type, the message and the open structs after a number of items are given as functions of this number.
\<close>

lemma run_items:
  assumes step: "\<And>k x c sm'. k < n \<Longrightarrow> Q x \<Longrightarrow> cache_ok g (Tf k) sm' \<Longrightarrow> lookup sm' (g, a) = lookup sm (g, a) \<Longrightarrow>
      \<exists>T1 w bt. value_builder_step (call k) (bstate (Tf k) (x # a # tp) (Vf k) sm' (c # ps) (sf k) g) =
        Inr (bstate T1 ((a @ [i k]) # a # tp) (Wf k) sm' (bpos (r @ [StepItem k]) bt 0 # ps) (sf (Suc k)) g) \<and>
        get_at (a @ [i k]) T1 = Some w \<and> known_as (ty k) w \<and> cache_ok g T1 sm' \<and> update_at (a @ [i k]) (\<lambda>_. ty k) T1 = Tf (Suc k)"
    and items: "\<And>k. k < n \<Longrightarrow> vbuilds (ty k) (d k)" "\<And>k. k < n \<Longrightarrow> Q (a @ [i k])"
    and fresh: "\<And>k. k < n \<Longrightarrow> get_value (r @ [StepItem k]) (Wf k) = Some default_value"
    and filled: "\<And>k. k < n \<Longrightarrow> update_value (r @ [StepItem k]) (\<lambda>_. encode 0 (d k)) (Wf k) = Vf (Suc k)"
    and start: "cache_ok g (Tf 0) sm" "Q x"
  shows "m \<le> n \<Longrightarrow> \<exists>x' c' sm'. run_values (concat (map (\<lambda>k. call k # value_calls (ty k) (d k)) [0..<m]))
        (bstate (Tf 0) (x # a # tp) (Vf 0) sm (c # ps) (sf 0) g) =
      Inr (bstate (Tf m) (x' # a # tp) (Vf m) sm' (c' # ps) (sf m) g) \<and> Q x' \<and>
      cache_ok g (Tf m) sm' \<and> cache_grows g a sm sm' \<and> lookup sm' (g, a) = lookup sm (g, a)"
proof (induction m)
  case 0
  then show ?case
    using start by auto
next
  case (Suc m)
  then obtain x' c' sm' where r: "run_values (concat (map (\<lambda>k. call k # value_calls (ty k) (d k)) [0..<m]))
        (bstate (Tf 0) (x # a # tp) (Vf 0) sm (c # ps) (sf 0) g) =
      Inr (bstate (Tf m) (x' # a # tp) (Vf m) sm' (c' # ps) (sf m) g)" "Q x'"
      "cache_ok g (Tf m) sm'" "cache_grows g a sm sm'" "lookup sm' (g, a) = lookup sm (g, a)"
    by auto
  have m: "m < n"
    using Suc.prems by simp
  obtain T1 w bt where c: "value_builder_step (call m) (bstate (Tf m) (x' # a # tp) (Vf m) sm' (c' # ps) (sf m) g) =
        Inr (bstate T1 ((a @ [i m]) # a # tp) (Wf m) sm' (bpos (r @ [StepItem m]) bt 0 # ps) (sf (Suc m)) g)"
      "get_at (a @ [i m]) T1 = Some w" "known_as (ty m) w" "cache_ok g T1 sm'" "update_at (a @ [i m]) (\<lambda>_. ty m) T1 = Tf (Suc m)"
    using step [OF m r(2,3,5)] by blast
  obtain bt' sm'' where b: "run_values (value_calls (ty m) (d m))
        (bstate T1 ((a @ [i m]) # a # tp) (Wf m) sm' (bpos (r @ [StepItem m]) bt 0 # ps) (sf (Suc m)) g) =
      Inr (bstate (Tf (Suc m)) ((a @ [i m]) # a # tp) (Vf (Suc m)) sm'' (bpos (r @ [StepItem m]) bt' 0 # ps) (sf (Suc m)) g)"
      "cache_ok g (Tf (Suc m)) sm''" "cache_grows g (a @ [i m]) sm' sm''"
    using vbuildsD [OF items(1) [OF m] c(2,3) fresh [OF m] c(4), of 0 ps "a # tp" bt "sf (Suc m)"] unfolding filled [OF m] c(5) by blast
  have "run_values (concat (map (\<lambda>k. call k # value_calls (ty k) (d k)) [0..<Suc m])) (bstate (Tf 0) (x # a # tp) (Vf 0) sm (c # ps) (sf 0) g) =
      Inr (bstate (Tf (Suc m)) ((a @ [i m]) # a # tp) (Vf (Suc m)) sm'' (bpos (r @ [StepItem m]) bt' 0 # ps) (sf (Suc m)) g)"
    using r(1) c(1) b(1) by (simp add: run_values_append)
  then show ?case
    using b(2) cache_grows_trans [OF r(4) b(3)] cache_grows_above [OF b(3)] r(5) items(2) [OF m] by metis
qed

lemma map_upto: "map f xs = map (\<lambda>k. f (xs ! k)) [0..<length xs]"
  by (rule nth_equalityI) simp_all

lemma default_items: "items_value [] = default_value" "pairs_value [] = default_value"
  by (simp_all add: items_value_def pairs_value_def default_value_def)

text \<open>A new item at the end of a container, and the container with the finished item.\<close>

lemma added_item_at:
  assumes "get_value r V0 = Some v0"
  shows "push_added_item (bstate T tp (update_value r (\<lambda>_. items_value vs) V0) sm (bpos r bt l # ps) sp g) =
      Inr (bstate T tp (update_value r (\<lambda>_. items_value (vs @ [default_value])) V0) sm
        (bpos (r @ [StepItem (length vs)]) False 0 # bpos r bt l # ps) sp g)"
    "get_value (r @ [StepItem (length vs)]) (update_value r (\<lambda>_. items_value (vs @ [default_value])) V0) = Some default_value"
    "update_value (r @ [StepItem (length vs)]) (\<lambda>_. w) (update_value r (\<lambda>_. items_value (vs @ [default_value])) V0) =
      update_value r (\<lambda>_. items_value (vs @ [w])) V0"
proof -
  have g: "get_value r (update_value r (\<lambda>_. x) V0) = Some x" for x
    using val.get_update [OF assms, of "\<lambda>_. x"] by simp
  show "get_value (r @ [StepItem (length vs)]) (update_value r (\<lambda>_. items_value (vs @ [default_value])) V0) = Some default_value"
    using g by (simp add: val.get_append items_value_def)
  show "update_value (r @ [StepItem (length vs)]) (\<lambda>_. w) (update_value r (\<lambda>_. items_value (vs @ [default_value])) V0) =
      update_value r (\<lambda>_. items_value (vs @ [w])) V0"
    using val.update_part [OF g, of "StepItem (length vs)"] val.update_twice [OF assms] by (simp add: items_value_def)
  show "push_added_item (bstate T tp (update_value r (\<lambda>_. items_value vs) V0) sm (bpos r bt l # ps) sp g) =
      Inr (bstate T tp (update_value r (\<lambda>_. items_value (vs @ [default_value])) V0) sm
        (bpos (r @ [StepItem (length vs)]) False 0 # bpos r bt l # ps) sp g)"
    using modify_value_at [OF g] val.update_twice [OF assms] push_part_at [OF g]
    by (simp add: push_added_item_def add_items_def items_value_def)
qed

lemma BeginList_at:
  assumes "get_at a T = Some u" "known_as (ListType t) u"
  shows "ValueBeginList (bstate T (a # tp) V sm (bpos r bt l # ps) sp g) =
    Inr (bstate (update_at a (\<lambda>_. ListType (sub_type u t)) T) ((a @ [0]) # a # tp) V sm
      (bpos r False 0 # bpos r (u = TypeNotSet) l # ps) sp g)"
proof -
  have "BeginList \<lparr>BuiltType = T, BuilderPath = a # tp\<rparr> =
      Inr \<lparr>BuiltType = update_at a (\<lambda>_. ListType (sub_type u t)) T, BuilderPath = (a @ [0]) # a # tp\<rparr>"
    unfolding BeginList_def using assms by (intro enter_at) (simp_all add: mutable_list_type_def)
  from begin_container_at [where f = BeginList, OF assms _ this, of List] show ?thesis
    by (simp add: ValueBeginList_def)
qed

lemma EndList_at:
  assumes "get_at a T = Some (ListType t)"
  shows "ValueEndList (bstate T (x # a # tp) V sm (c # p # ps) sp g) = Inr (bstate T (a # tp) V sm (p # ps) sp g)"
  using CheckContainerKind_at [OF assms, of List] close_at [OF assms, of List] by (simp add: ValueEndList_def EndList_def)

lemma vbuilds_empty_list:
  assumes "buildable t"
  shows "vbuilds (ListType t) (DList [])"
  unfolding vbuilds_def
proof (intro allI impI)
  fix T a tp V sm r bt and l :: nat and ps :: "TBuilderPosition list" and sp g u
  assume h: "0 < l \<longrightarrow> ps \<noteq> []" "get_at a T = Some u" "known_as (ListType t) u" "get_value r V = Some default_value" "cache_ok g T sm"
  have p: "get_at (a @ [0]) (update_at a (\<lambda>_. ListType (sub_type u t)) T) = Some (sub_type u t)"
      "update_at (a @ [0]) (\<lambda>_. t) (update_at a (\<lambda>_. ListType (sub_type u t)) T) = update_at a (\<lambda>_. ListType t) T"
    using part_at [OF h(2), of 0 ListType] by simp_all
  have g: "get_at a (update_at a (\<lambda>_. ListType t) T) = Some (ListType t)"
    by (rule types.get_update [OF h(2)])
  have "update_value r (\<lambda>_. items_value []) V = V"
    using val.update_same [OF h(4)] by (simp add: default_items)
  then show "vbuilt (update_at a (\<lambda>_. ListType t) T) a tp (update_value r (\<lambda>_. encode l (DList [])) V) sm r l ps sp g
      (run_values (value_calls (ListType t) (DList [])) (bstate T (a # tp) V sm (bpos r bt l # ps) sp g))"
    using BeginList_at [OF h(2,3)] check_or_set_type_at [OF p(1) known_sub(1) assms] EndList_at [OF g] cache_known [OF h(5,2,3)]
    by (intro vbuiltI [where sm' = sm]) (simp_all add: EmptyListOf_def ValueBeginListOf_def p(2))
qed

lemma vbuilds_list:
  assumes "\<forall>d \<in> set ds. vbuilds t d" "ds \<noteq> []"
  shows "vbuilds (ListType t) (DList ds)"
  unfolding vbuilds_def
proof (intro allI impI)
  fix T a tp V sm r bt and l :: nat and ps :: "TBuilderPosition list" and sp g u
  assume h: "0 < l \<longrightarrow> ps \<noteq> []" "get_at a T = Some u" "known_as (ListType t) u" "get_value r V = Some default_value" "cache_ok g T sm"
  define ty where "ty k = (if k = 0 then sub_type u t else t)" for k :: nat
  define Tf where "Tf k = update_at a (\<lambda>_. ListType (ty k)) T" for k
  define vs where "vs k = map (encode 0) (take k ds)" for k
  let ?p = "bpos r (u = TypeNotSet) l"
  have g: "get_at a (Tf k) = Some (ListType (ty k))" for k
    unfolding Tf_def by (rule types.get_update [OF h(2)])
  have p: "get_at (a @ [0]) (Tf k) = Some (ty k)" "update_at (a @ [0]) (\<lambda>_. t) (Tf k) = Tf (Suc k)" "known_as t (ty k)" for k
    using part_at [OF h(2), of 0 ListType] by (simp_all add: ty_def Tf_def)
  have v: "length (vs k) = k" "vs k @ [encode 0 (ds ! k)] = vs (Suc k)" if "k < length ds" for k
    using that by (simp_all add: vs_def take_Suc_conv_app_nth)
  have step: "AddListItem (bstate (Tf k) (x # a # tp) (update_value r (\<lambda>_. items_value (vs k)) V) sm' (c # ?p # ps) sp g) =
      Inr (bstate (Tf k) (x # a # tp) (update_value r (\<lambda>_. items_value (vs k @ [default_value])) V) sm'
        (bpos (r @ [StepItem k]) False 0 # ?p # ps) sp g)" if "k < length ds" for k x c sm'
    using that CheckContainerKind_at [OF g [of k], of List "?p # ps"] added_item_at(1) [OF h(4), of _ _ "vs k"] v(1) by (simp add: AddListItem_def)
  have c0: "cache_ok g (Tf 0) sm"
    using cache_known [OF h(5,2)] h(3) by (auto simp: known_as_def sub_type_def ty_def Tf_def)
  have "\<exists>x' c' sm'. run_values (concat (map (\<lambda>k. VAddListItem # value_calls t (ds ! k)) [0..<length ds]))
        (bstate (Tf 0) ((a @ [0]) # a # tp) (update_value r (\<lambda>_. items_value (vs 0)) V) sm (bpos r False 0 # ?p # ps) sp g) =
      Inr (bstate (Tf (length ds)) (x' # a # tp) (update_value r (\<lambda>_. items_value (vs (length ds))) V) sm' (c' # ?p # ps) sp g) \<and>
      x' = a @ [0] \<and> cache_ok g (Tf (length ds)) sm' \<and> cache_grows g a sm sm' \<and> lookup sm' (g, a) = lookup sm (g, a)"
  proof (rule run_items [where i = "\<lambda>_. 0" and Wf = "\<lambda>k. update_value r (\<lambda>_. items_value (vs k @ [default_value])) V"
        and sf = "\<lambda>_. sp" and ty = "\<lambda>_. t" and Q = "\<lambda>x. x = a @ [0]" and n = "length ds"])
    fix k
    assume k: "k < length ds"
    show "vbuilds t (ds ! k)"
      using assms(1) k by simp
    show "get_value (r @ [StepItem k]) (update_value r (\<lambda>_. items_value (vs k @ [default_value])) V) = Some default_value"
      using added_item_at(2) [OF h(4), of "vs k"] v(1) [OF k] by simp
    show "update_value (r @ [StepItem k]) (\<lambda>_. encode 0 (ds ! k)) (update_value r (\<lambda>_. items_value (vs k @ [default_value])) V) =
        update_value r (\<lambda>_. items_value (vs (Suc k))) V"
      using added_item_at(3) [OF h(4), of "vs k"] v [OF k] by simp
  qed (use step p c0 in auto)
  then obtain c' sm' where
    "run_values (concat (map (\<lambda>k. VAddListItem # value_calls t (ds ! k)) [0..<length ds]))
        (bstate (Tf 0) ((a @ [0]) # a # tp) (update_value r (\<lambda>_. items_value (vs 0)) V) sm (bpos r False 0 # ?p # ps) sp g) =
      Inr (bstate (Tf (length ds)) ((a @ [0]) # a # tp) (update_value r (\<lambda>_. items_value (vs (length ds))) V) sm' (c' # ?p # ps) sp g)"
    "cache_ok g (Tf (length ds)) sm'" "cache_grows g a sm sm'"
    by auto
  moreover have "update_value r (\<lambda>_. items_value (vs 0)) V = V"
    using val.update_same [OF h(4)] by (simp add: default_items vs_def)
  ultimately show "vbuilt (update_at a (\<lambda>_. ListType t) T) a tp (update_value r (\<lambda>_. encode l (DList ds)) V) sm r l ps sp g
      (run_values (value_calls (ListType t) (DList ds)) (bstate T (a # tp) V sm (bpos r bt l # ps) sp g))"
    using BeginList_at [OF h(2,3)] EndList_at [OF g [of "length ds"]] assms(2) map_upto [of "\<lambda>d. VAddListItem # value_calls t d" ds]
    by (intro vbuiltI [where sm' = sm']) (simp_all add: run_values_append ty_def Tf_def vs_def)
qed

subsection \<open>Tuples\<close>

lemma enter_same_at:
  assumes "get_at a T = Some u"
  shows "enter_same f \<lparr>BuiltType = T, BuilderPath = a # tp\<rparr> = Inr \<lparr>BuiltType = update_at a (\<lambda>_. f u) T, BuilderPath = a # a # tp\<rparr>"
  using assms types.update_cong [OF assms, of f] by (simp add: enter_same_def modify_def BuilderProto_def AddPosition_def)

definition tuple_types :: "Type \<Rightarrow> Type list \<Rightarrow> nat \<Rightarrow> Type list" where
  "tuple_types u ts k = (if u = TypeNotSet then take k ts else ts)"

definition tuple_slot :: "Type \<Rightarrow> Type list \<Rightarrow> nat \<Rightarrow> Type list" where
  "tuple_slot u ts k = (if u = TypeNotSet then take k ts @ [TypeNotSet] else ts)"

lemma tuple_slot_at:
  assumes "get_at a T = Some u" "k < length ts"
  shows "get_at (a @ [k]) (update_at a (\<lambda>_. TupleType (tuple_slot u ts k)) T) = Some (sub_type u (ts ! k))"
    "update_at (a @ [k]) (\<lambda>_. ts ! k) (update_at a (\<lambda>_. TupleType (tuple_slot u ts k)) T) =
      update_at a (\<lambda>_. TupleType (tuple_types u ts (Suc k))) T"
proof -
  have g: "get_at a (update_at a (\<lambda>_. TupleType (tuple_slot u ts k)) T) = Some (TupleType (tuple_slot u ts k))"
    by (rule types.get_update [OF assms(1)])
  have c: "child k (TupleType (tuple_slot u ts k)) = Some (sub_type u (ts ! k))"
    using assms(2) by (simp add: tuple_slot_def sub_type_def nth_append)
  have s: "set_child k (ts ! k) (TupleType (tuple_slot u ts k)) = TupleType (tuple_types u ts (Suc k))"
    using assms(2) by (simp add: tuple_slot_def tuple_types_def take_Suc_conv_app_nth list_update_append)
  show "get_at (a @ [k]) (update_at a (\<lambda>_. TupleType (tuple_slot u ts k)) T) = Some (sub_type u (ts ! k))"
    using g c by (simp add: types.get_append)
  show "update_at (a @ [k]) (\<lambda>_. ts ! k) (update_at a (\<lambda>_. TupleType (tuple_slot u ts k)) T) =
      update_at a (\<lambda>_. TupleType (tuple_types u ts (Suc k))) T"
    using types.update_part [OF g c] types.update_twice [OF assms(1)] s by simp
qed

lemma tuple_slot_cache:
  assumes "get_at a T = Some u" "cache_ok g (update_at a (\<lambda>_. TupleType (tuple_types u ts k)) T) sm"
  shows "cache_ok g (update_at a (\<lambda>_. TupleType (tuple_slot u ts k)) T) sm"
proof (cases "u = TypeNotSet")
  case True
  let ?T = "update_at a (\<lambda>_. TupleType (take k ts)) T"
  have g: "get_at a ?T = Some (TupleType (take k ts))"
    by (rule types.get_update [OF assms(1)])
  have c: "cache_ok g ?T sm"
    using assms(2) True by (simp add: tuple_types_def)
  have "cache_ok g (update_at a (\<lambda>_. TupleType (take k ts @ [TypeNotSet])) ?T) sm"
  proof (rule cache_update [OF c g])
    show "lookup sm (g, a) = None"
      using cache_uncached [OF c g] by simp
    show "\<exists>ms'. get_at r (TupleType (take k ts @ [TypeNotSet])) = Some (StructType ms') \<and> map fst ms' = map fst ms"
      if "r \<noteq> []" "get_at r (TupleType (take k ts)) = Some (StructType ms)" for r ms
      using that by (cases r) (auto simp: nth_append split: option.splits if_splits)
  qed
  then show ?thesis
    using types.update_twice [OF assms(1)] True by (simp add: tuple_slot_def)
qed (use assms in \<open>simp add: tuple_types_def tuple_slot_def\<close>)

lemma AddElement_at:
  assumes "get_at a T = Some u" "known_as (TupleType ts) u" "get_value r V = Some v0" "length vs < length ts"
  shows "ValueAddElement (bstate (update_at a (\<lambda>_. TupleType (tuple_types u ts (length vs))) T) (x # a # tp)
      (update_value r (\<lambda>_. items_value vs) V) sm (c # bpos r (u = TypeNotSet) l # ps) sp g) =
    Inr (bstate (update_at a (\<lambda>_. TupleType (tuple_slot u ts (length vs))) T) ((a @ [length vs]) # a # tp)
      (update_value r (\<lambda>_. items_value (vs @ [default_value])) V) sm
      (bpos (r @ [StepItem (length vs)]) False 0 # bpos r (u = TypeNotSet) l # ps) sp g)"
proof -
  let ?t = "tuple_types u ts (length vs)" and ?k = "length vs"
  have g: "get_at a (update_at a (\<lambda>_. TupleType ?t) T) = Some (TupleType ?t)"
    by (rule types.get_update [OF assms(1)])
  have v: "get_value r (update_value r (\<lambda>_. items_value vs) V) = Some (items_value vs)"
    by (rule val.get_update [OF assms(3)])
  have build: "AddElement \<lparr>BuiltType = update_at a (\<lambda>_. TupleType ?t) T, BuilderPath = x # a # tp\<rparr> =
      Inr \<lparr>BuiltType = update_at a (\<lambda>_. TupleType (tuple_slot u ts ?k)) T, BuilderPath = (a @ [?k]) # a # tp\<rparr>" if "u = TypeNotSet"
    using that AddElement_step [OF g, of x tp] types.update_twice [OF assms(1)] assms(4) by (simp add: tuple_types_def tuple_slot_def)
  have select: "SelectElement ?k \<lparr>BuiltType = update_at a (\<lambda>_. TupleType ?t) T, BuilderPath = x # a # tp\<rparr> =
      Inr \<lparr>BuiltType = update_at a (\<lambda>_. TupleType (tuple_slot u ts ?k)) T, BuilderPath = (a @ [?k]) # a # tp\<rparr>" if "u \<noteq> TypeNotSet"
    using that g types.update_cong [OF g, of mutable_tuple_type] types.update_same [OF g] assms(4)
    by (simp add: SelectElement_def builder_defs mutable_tuple_type_def tuple_types_def tuple_slot_def)
  show ?thesis
    using CheckContainerKind_at [OF g, of Tuple "bpos r (u = TypeNotSet) l # ps"] added_item_at(1) [OF assms(3)] build select g v assms(4)
    by (cases "u = TypeNotSet")
      (simp_all add: ValueAddElement_def GetBuildType_def select_element_def elements_size_def tuple_types_def items_value_def Let_def)
qed


lemma vbuilds_tuple:
  assumes "length ts = length ds" "\<And>k. k < length ds \<Longrightarrow> vbuilds (ts ! k) (ds ! k)"
  shows "vbuilds (TupleType ts) (DTuple ds)"
  unfolding vbuilds_def
proof (intro allI impI)
  fix T a tp V sm r bt and l :: nat and ps :: "TBuilderPosition list" and sp g u
  assume h: "0 < l \<longrightarrow> ps \<noteq> []" "get_at a T = Some u" "known_as (TupleType ts) u" "get_value r V = Some default_value" "cache_ok g T sm"
  define Tf where "Tf k = update_at a (\<lambda>_. TupleType (tuple_types u ts k)) T" for k
  define vs where "vs k = map (encode 0) (take k ds)" for k
  let ?n = "length ds" and ?p = "bpos r (u = TypeNotSet) l"
  have T0: "mutable_tuple_type u = TupleType (tuple_types u ts 0)" "tuple_types u ts ?n = ts"
    using h(3) assms(1) by (auto simp: known_as_def mutable_tuple_type_def tuple_types_def)
  have g: "get_at a (Tf k) = Some (TupleType (tuple_types u ts k))" for k
    unfolding Tf_def by (rule types.get_update [OF h(2)])
  have v: "length (vs k) = k" "vs k @ [encode 0 (ds ! k)] = vs (Suc k)" if "k < ?n" for k
    using that by (simp_all add: vs_def take_Suc_conv_app_nth)
  have c0: "cache_ok g (Tf 0) sm"
    using cache_known [OF h(5,2)] h(3) types.update_same [OF h(2)] h(5) by (auto simp: known_as_def tuple_types_def Tf_def)
  have V: "update_value r (\<lambda>_. items_value (vs 0)) V = V"
    using val.update_same [OF h(4)] by (simp add: default_items vs_def)
  have "\<exists>x' c' sm'. run_values (concat (map (\<lambda>k. VAddElement # value_calls (ts ! k) (ds ! k)) [0..<?n]))
        (bstate (Tf 0) (a # a # tp) (update_value r (\<lambda>_. items_value (vs 0)) V) sm (bpos r False 0 # ?p # ps) sp g) =
      Inr (bstate (Tf ?n) (x' # a # tp) (update_value r (\<lambda>_. items_value (vs ?n)) V) sm' (c' # ?p # ps) sp g) \<and>
      True \<and> cache_ok g (Tf ?n) sm' \<and> cache_grows g a sm sm' \<and> lookup sm' (g, a) = lookup sm (g, a)"
  proof (rule run_items [where i = "\<lambda>k. k" and Wf = "\<lambda>k. update_value r (\<lambda>_. items_value (vs k @ [default_value])) V"
        and sf = "\<lambda>_. sp" and ty = "\<lambda>k. ts ! k" and Q = "\<lambda>x. True" and n = ?n])
    fix k
    assume k: "k < ?n"
    show "get_value (r @ [StepItem k]) (update_value r (\<lambda>_. items_value (vs k @ [default_value])) V) = Some default_value"
      using added_item_at(2) [OF h(4), of "vs k"] v(1) [OF k] by simp
    show "update_value (r @ [StepItem k]) (\<lambda>_. encode 0 (ds ! k)) (update_value r (\<lambda>_. items_value (vs k @ [default_value])) V) =
        update_value r (\<lambda>_. items_value (vs (Suc k))) V"
      using added_item_at(3) [OF h(4), of "vs k"] v [OF k] by simp
    fix x c sm'
    assume "cache_ok g (Tf k) sm'"
    then have "cache_ok g (update_at a (\<lambda>_. TupleType (tuple_slot u ts k)) T) sm'"
      using tuple_slot_cache [OF h(2)] by (simp add: Tf_def)
    then show "\<exists>T1 w bt. value_builder_step VAddElement (bstate (Tf k) (x # a # tp) (update_value r (\<lambda>_. items_value (vs k)) V) sm' (c # ?p # ps) sp g) =
        Inr (bstate T1 ((a @ [k]) # a # tp) (update_value r (\<lambda>_. items_value (vs k @ [default_value])) V) sm' (bpos (r @ [StepItem k]) bt 0 # ?p # ps) sp g) \<and>
        get_at (a @ [k]) T1 = Some w \<and> known_as (ts ! k) w \<and> cache_ok g T1 sm' \<and> update_at (a @ [k]) (\<lambda>_. ts ! k) T1 = Tf (Suc k)"
      using AddElement_at [OF h(2-4), of "vs k" x tp sm' c l ps sp g] tuple_slot_at [OF h(2), of k ts] v(1) [OF k] k assms(1)
      by (auto simp: Tf_def)
  qed (use assms(2) c0 in auto)
  then obtain x' c' sm' where r: "run_values (concat (map (\<lambda>k. VAddElement # value_calls (ts ! k) (ds ! k)) [0..<?n]))
        (bstate (Tf 0) (a # a # tp) V sm (bpos r False 0 # ?p # ps) sp g) =
      Inr (bstate (Tf ?n) (x' # a # tp) (update_value r (\<lambda>_. items_value (vs ?n)) V) sm' (c' # ?p # ps) sp g)"
      "cache_ok g (Tf ?n) sm'" "cache_grows g a sm sm'"
    unfolding V by auto
  have b: "ValueBeginTuple (bstate T (a # tp) V sm (bpos r bt l # ps) sp g) = Inr (bstate (Tf 0) (a # a # tp) V sm (bpos r False 0 # ?p # ps) sp g)"
    using begin_container_at [where f = BeginTuple, OF h(2,3) _ enter_same_at [OF h(2), of mutable_tuple_type tp, folded BeginTuple_def], of Tuple] T0(1)
    by (simp add: ValueBeginTuple_def Tf_def)
  have e: "ValueEndTuple (bstate (Tf ?n) (x' # a # tp) (update_value r (\<lambda>_. items_value (vs ?n)) V) sm' (c' # ?p # ps) sp g) =
      Inr (bstate (Tf ?n) (a # tp) (update_value r (\<lambda>_. items_value (vs ?n)) V) sm' (?p # ps) sp g)"
    using CheckContainerKind_at [OF g [of ?n], of Tuple "?p # ps"] close_at [OF g [of ?n], of Tuple] g [of ?n] T0(2) assms(1)
      val.get_update [OF h(4), of "\<lambda>_. items_value (vs ?n)"]
    by (simp add: ValueEndTuple_def EndTuple_def GetBuildType_def elements_size_def items_value_def vs_def)
  have "map (\<lambda>(u, d). VAddElement # value_calls u d) (zip ts ds) = map (\<lambda>k. VAddElement # value_calls (ts ! k) (ds ! k)) [0..<?n]"
    using assms(1) by (intro nth_equalityI) simp_all
  then show "vbuilt (update_at a (\<lambda>_. TupleType ts) T) a tp (update_value r (\<lambda>_. encode l (DTuple ds)) V) sm r l ps sp g
      (run_values (value_calls (TupleType ts) (DTuple ds)) (bstate T (a # tp) V sm (bpos r bt l # ps) sp g))"
    using r b e T0(2) by (intro vbuiltI [where sm' = sm']) (simp_all add: run_values_append Tf_def vs_def)
qed

subsection \<open>Dicts\<close>

lemma dict_types_at:
  assumes "get_at a T = Some (DictType k v)"
  shows "BuildDictKey \<lparr>BuiltType = T, BuilderPath = x # a # tp\<rparr> = Inr \<lparr>BuiltType = T, BuilderPath = (a @ [0]) # a # tp\<rparr>"
    "BuildDictPayload \<lparr>BuiltType = T, BuilderPath = x # a # tp\<rparr> = Inr \<lparr>BuiltType = T, BuilderPath = (a @ [Suc 0]) # a # tp\<rparr>"
    "BeginDict \<lparr>BuiltType = T, BuilderPath = a # tp\<rparr> = Inr \<lparr>BuiltType = T, BuilderPath = a # a # tp\<rparr>"
    "EndDict \<lparr>BuiltType = T, BuilderPath = x # a # tp\<rparr> = Inr \<lparr>BuiltType = T, BuilderPath = a # tp\<rparr>"
  using assms types.update_cong [OF assms, of mutable_dict_type] types.update_same [OF assms]
  by (simp_all add: builder_defs mutable_dict_type_def)

lemma dict_parts_at:
  assumes "get_at a T = Some u"
  shows "get_at a (update_at a (\<lambda>_. DictType k v) T) = Some (DictType k v)"
    "get_at (a @ [0]) (update_at a (\<lambda>_. DictType k v) T) = Some k"
    "get_at (a @ [Suc 0]) (update_at a (\<lambda>_. DictType k v) T) = Some v"
    "update_at (a @ [0]) (\<lambda>_. t) (update_at a (\<lambda>_. DictType k v) T) = update_at a (\<lambda>_. DictType t v) T"
    "update_at (a @ [Suc 0]) (\<lambda>_. t) (update_at a (\<lambda>_. DictType k v) T) = update_at a (\<lambda>_. DictType k t) T"
  using types.get_update [OF assms, of "\<lambda>_. DictType k v"] part_at [OF assms, of 0 "\<lambda>k. DictType k v"] part_at [OF assms, of 1 "DictType k"]
  by simp_all

lemma BeginDict_at:
  assumes "get_at a T = Some u" "known_as (DictType kt vt) u"
  shows "ValueBeginDict (bstate T (a # tp) V sm (bpos r bt l # ps) sp g) =
    Inr (bstate (update_at a (\<lambda>_. DictType (sub_type u kt) (sub_type u vt)) T) (a # a # tp) V sm
      (bpos r False 0 # bpos r (u = TypeNotSet) l # ps) sp g)"
  using begin_container_at [where f = BeginDict, OF assms _ enter_same_at [OF assms(1), of mutable_dict_type tp, folded BeginDict_def], of Dict] assms(2)
  by (auto simp: ValueBeginDict_def known_as_def sub_type_def mutable_dict_type_def)

lemma EndDict_at:
  assumes "get_at a T = Some (DictType k v)"
  shows "ValueEndDict (bstate T (x # a # tp) V sm (c # p # ps) sp g) = Inr (bstate T (a # tp) V sm (p # ps) sp g)"
  using CheckContainerKind_at [OF assms, of Dict] dict_types_at(4) [OF assms] by (simp add: ValueEndDict_def)

lemma cache_sub_dict:
  assumes "cache_ok g T sm" "get_at a T = Some u" "known_as (DictType kt vt) u"
  shows "cache_ok g (update_at a (\<lambda>_. DictType (sub_type u kt) (sub_type u vt)) T) sm"
  using cache_known [OF assms(1,2)] assms(3) by (auto simp: known_as_def sub_type_def)

lemma vbuilds_empty_dict:
  assumes "buildable kt" "buildable vt"
  shows "vbuilds (DictType kt vt) (DDict [])"
  unfolding vbuilds_def
proof (intro allI impI)
  fix T a tp V sm r bt and l :: nat and ps :: "TBuilderPosition list" and sp g u
  assume h: "0 < l \<longrightarrow> ps \<noteq> []" "get_at a T = Some u" "known_as (DictType kt vt) u" "get_value r V = Some default_value" "cache_ok g T sm"
  note p = dict_parts_at [OF h(2)]
  have "update_value r (\<lambda>_. pairs_value []) V = V"
    using val.update_same [OF h(4)] by (simp add: default_items)
  then show "vbuilt (update_at a (\<lambda>_. DictType kt vt) T) a tp (update_value r (\<lambda>_. encode l (DDict [])) V) sm r l ps sp g
      (run_values (value_calls (DictType kt vt) (DDict [])) (bstate T (a # tp) V sm (bpos r bt l # ps) sp g))"
    using BeginDict_at [OF h(2,3)] check_or_set_type_at [OF p(2) known_sub(1) assms(1)] check_or_set_type_at [OF p(3) known_sub(1) assms(2)]
      EndDict_at [OF p(1)] cache_known [OF h(5,2,3)] dict_types_at [OF p(1)]
    by (intro vbuiltI [where sm' = sm]) (simp_all add: EmptyDictOf_def ValueBeginDictOf_def p(4,5))
qed

text \<open>A new pair at the end of a dict, its two parts, and the dict with the finished pair.\<close>

lemma added_pair_at:
  fixes vs :: "(Value \<times> Value) list"
  assumes "get_value r V0 = Some v0"
  defines "W \<equiv> \<lambda>k x. update_value r (\<lambda>_. pairs_value (vs @ [(k, x)])) V0"
  shows "and_then (modify_value add_pairs (bstate T tp (update_value r (\<lambda>_. pairs_value vs) V0) sm (bpos r bt l # ps) sp g)) push_same =
      Inr (bstate T tp (W default_value default_value) sm (bpos r False 0 # bpos r bt l # ps) sp g)"
    "push_part (\<lambda>v. StepKey (length (pairs v) - 1)) (bstate T tp (W k x) sm (bpos r bt l # ps) sp g) =
      Inr (bstate T tp (W k x) sm (bpos (r @ [StepKey (length vs)]) False 0 # bpos r bt l # ps) sp g)"
    "push_part (\<lambda>v. StepPayload (length (pairs v) - 1)) (bstate T tp (W k x) sm (bpos r bt l # ps) sp g) =
      Inr (bstate T tp (W k x) sm (bpos (r @ [StepPayload (length vs)]) False 0 # bpos r bt l # ps) sp g)"
    "get_value (r @ [StepKey (length vs)]) (W k x) = Some k"
    "get_value (r @ [StepPayload (length vs)]) (W k x) = Some x"
    "update_value (r @ [StepKey (length vs)]) (\<lambda>_. w) (W k x) = W w x"
    "update_value (r @ [StepPayload (length vs)]) (\<lambda>_. w) (W k x) = W k w"
proof -
  have g: "get_value r (update_value r (\<lambda>_. y) V0) = Some y" for y
    using val.get_update [OF assms(1), of "\<lambda>_. y"] by simp
  have w: "get_value r (W k x) = Some (pairs_value (vs @ [(k, x)]))" for k x
    unfolding W_def by (rule g)
  show "and_then (modify_value add_pairs (bstate T tp (update_value r (\<lambda>_. pairs_value vs) V0) sm (bpos r bt l # ps) sp g)) push_same =
      Inr (bstate T tp (W default_value default_value) sm (bpos r False 0 # bpos r bt l # ps) sp g)"
    using modify_value_at [OF g] val.update_twice [OF assms(1)] by (simp add: push_same_at add_pairs_def pairs_value_def W_def)
  show "push_part (\<lambda>v. StepKey (length (pairs v) - 1)) (bstate T tp (W k x) sm (bpos r bt l # ps) sp g) =
      Inr (bstate T tp (W k x) sm (bpos (r @ [StepKey (length vs)]) False 0 # bpos r bt l # ps) sp g)"
    "push_part (\<lambda>v. StepPayload (length (pairs v) - 1)) (bstate T tp (W k x) sm (bpos r bt l # ps) sp g) =
      Inr (bstate T tp (W k x) sm (bpos (r @ [StepPayload (length vs)]) False 0 # bpos r bt l # ps) sp g)"
    using push_part_at [OF w] by (simp_all add: pairs_value_def)
  show "get_value (r @ [StepKey (length vs)]) (W k x) = Some k" "get_value (r @ [StepPayload (length vs)]) (W k x) = Some x"
    using w by (simp_all add: val.get_append pairs_value_def)
  show "update_value (r @ [StepKey (length vs)]) (\<lambda>_. w) (W k x) = W w x" "update_value (r @ [StepPayload (length vs)]) (\<lambda>_. w) (W k x) = W k w"
    using val.update_part [OF w, of "StepKey (length vs)"] val.update_part [OF w, of "StepPayload (length vs)"] val.update_twice [OF assms(1)]
    by (simp_all add: pairs_value_def W_def)
qed

definition pair_calls :: "Type \<Rightarrow> Type \<Rightarrow> data \<times> data \<Rightarrow> value_call list" where
  "pair_calls kt vt = (\<lambda>(k, x). VAddDictItem # VDictKey # value_calls kt k @ VDictPayload # value_calls vt x)"

lemma dict_item_at:
  assumes "vbuilds kt k" "vbuilds vt x" "get_at a T = Some u" "known_as kt kt'" "known_as vt vt'" "get_value r V = Some v0"
    and "cache_ok g (update_at a (\<lambda>_. DictType kt' vt') T) sm"
  shows "\<exists>y' c' sm'. run_values (pair_calls kt vt (k, x))
        (bstate (update_at a (\<lambda>_. DictType kt' vt') T) (y # a # tp) (update_value r (\<lambda>_. pairs_value vs) V) sm (c # bpos r bt l # ps) sp g) =
      Inr (bstate (update_at a (\<lambda>_. DictType kt vt) T) (y' # a # tp) (update_value r (\<lambda>_. pairs_value (vs @ [(encode 0 k, encode 0 x)])) V) sm'
        (c' # bpos r bt l # ps) sp g) \<and>
      cache_ok g (update_at a (\<lambda>_. DictType kt vt) T) sm' \<and> cache_grows g a sm sm'"
proof -
  note p = dict_parts_at [OF assms(3)] and q = added_pair_at [OF assms(6), where vs = vs]
  have k: "CheckContainerKind Dict (bstate (update_at a (\<lambda>_. DictType k v) T) (x # a # tp) V sm (p # q # ps) sp g) = Inr ()" for k v x V sm p q
    using p(1) by (intro CheckContainerKind_at) auto
  obtain bt1 sm1 where b1: "run_values (value_calls kt k) (bstate (update_at a (\<lambda>_. DictType kt' vt') T) ((a @ [0]) # a # tp)
        (update_value r (\<lambda>_. pairs_value (vs @ [(default_value, default_value)])) V) sm
        (bpos (r @ [StepKey (length vs)]) False 0 # bpos r bt l # ps) sp g) =
      Inr (bstate (update_at a (\<lambda>_. DictType kt vt') T) ((a @ [0]) # a # tp)
        (update_value r (\<lambda>_. pairs_value (vs @ [(encode 0 k, default_value)])) V) sm1
        (bpos (r @ [StepKey (length vs)]) bt1 0 # bpos r bt l # ps) sp g)"
      "cache_ok g (update_at a (\<lambda>_. DictType kt vt') T) sm1" "cache_grows g (a @ [0]) sm sm1"
    using vbuildsD [OF assms(1) p(2) assms(4) q(4) [of default_value default_value] assms(7), of 0 "bpos r bt l # ps" "a # tp" False sp] unfolding p(4) q(6) by blast
  obtain bt2 sm2 where b2: "run_values (value_calls vt x) (bstate (update_at a (\<lambda>_. DictType kt vt') T) ((a @ [Suc 0]) # a # tp)
        (update_value r (\<lambda>_. pairs_value (vs @ [(encode 0 k, default_value)])) V) sm1
        (bpos (r @ [StepPayload (length vs)]) False 0 # bpos r bt l # ps) sp g) =
      Inr (bstate (update_at a (\<lambda>_. DictType kt vt) T) ((a @ [Suc 0]) # a # tp)
        (update_value r (\<lambda>_. pairs_value (vs @ [(encode 0 k, encode 0 x)])) V) sm2
        (bpos (r @ [StepPayload (length vs)]) bt2 0 # bpos r bt l # ps) sp g)"
      "cache_ok g (update_at a (\<lambda>_. DictType kt vt) T) sm2" "cache_grows g (a @ [Suc 0]) sm1 sm2"
    using vbuildsD [OF assms(2) p(3) assms(5) q(5) [of "encode 0 k" default_value] b1(2), of 0 "bpos r bt l # ps" "a # tp" False sp] unfolding p(5) q(7) by blast
  have "cache_grows g a sm sm2"
    using cache_grows_trans [OF cache_grows_trans [OF cache_grows_refl b1(3)] b2(3)] .
  then show ?thesis
    using b1(1) b2(1,2) k q(1-3) dict_types_at(1,2) [OF p(1)]
    by (simp add: run_values_append AddDictItem_def DictKeyOf_def DictPayloadOf_def dict_part_def pair_calls_def)
qed

lemma dict_items_at:
  assumes "\<forall>(k, x) \<in> set ds. vbuilds kt k \<and> vbuilds vt x" "get_at a T = Some u" "known_as kt kt'" "known_as vt vt'"
    "get_value r V = Some v0" "cache_ok g (update_at a (\<lambda>_. DictType kt' vt') T) sm" "ds = [] \<Longrightarrow> kt' = kt \<and> vt' = vt"
  shows "\<exists>y' c' sm'. run_values (concat (map (pair_calls kt vt) ds))
        (bstate (update_at a (\<lambda>_. DictType kt' vt') T) (y # a # tp) (update_value r (\<lambda>_. pairs_value vs) V) sm (c # bpos r bt l # ps) sp g) =
      Inr (bstate (update_at a (\<lambda>_. DictType kt vt) T) (y' # a # tp)
        (update_value r (\<lambda>_. pairs_value (vs @ map (\<lambda>kx. (encode 0 (fst kx), encode 0 (snd kx))) ds)) V) sm' (c' # bpos r bt l # ps) sp g) \<and>
      cache_ok g (update_at a (\<lambda>_. DictType kt vt) T) sm' \<and> cache_grows g a sm sm'"
  using assms
proof (induction ds arbitrary: kt' vt' y vs sm c)
  case Nil
  then show ?case
    by auto
next
  case (Cons d ds)
  obtain k x where d: "d = (k, x)"
    by (cases d)
  have kx: "vbuilds kt k" "vbuilds vt x" and tl: "\<forall>(k, x) \<in> set ds. vbuilds kt k \<and> vbuilds vt x"
    using Cons.prems(1) d by auto
  obtain y1 c1 sm1 where 1: "run_values (pair_calls kt vt (k, x))
        (bstate (update_at a (\<lambda>_. DictType kt' vt') T) (y # a # tp) (update_value r (\<lambda>_. pairs_value vs) V) sm (c # bpos r bt l # ps) sp g) =
      Inr (bstate (update_at a (\<lambda>_. DictType kt vt) T) (y1 # a # tp) (update_value r (\<lambda>_. pairs_value (vs @ [(encode 0 k, encode 0 x)])) V) sm1
        (c1 # bpos r bt l # ps) sp g)"
      "cache_ok g (update_at a (\<lambda>_. DictType kt vt) T) sm1" "cache_grows g a sm sm1"
    using dict_item_at [OF kx Cons.prems(2-6)] by blast
  obtain y2 c2 sm2 where 2: "run_values (concat (map (pair_calls kt vt) ds))
        (bstate (update_at a (\<lambda>_. DictType kt vt) T) (y1 # a # tp) (update_value r (\<lambda>_. pairs_value (vs @ [(encode 0 k, encode 0 x)])) V) sm1
          (c1 # bpos r bt l # ps) sp g) =
      Inr (bstate (update_at a (\<lambda>_. DictType kt vt) T) (y2 # a # tp)
        (update_value r (\<lambda>_. pairs_value ((vs @ [(encode 0 k, encode 0 x)]) @ map (\<lambda>kx. (encode 0 (fst kx), encode 0 (snd kx))) ds)) V) sm2
        (c2 # bpos r bt l # ps) sp g)"
      "cache_ok g (update_at a (\<lambda>_. DictType kt vt) T) sm2" "cache_grows g a sm1 sm2"
    using Cons.IH [OF tl Cons.prems(2) known_sub(2) known_sub(2) Cons.prems(5) 1(2) conjI [OF refl refl]] by blast
  have "cache_grows g a sm sm2"
    using cache_grows_trans [OF 1(3), of "[]"] 2(3) by simp
  then show ?case
    using 1(1) 2(1,2) by (simp add: d run_values_append)
qed

lemma vbuilds_dict:
  assumes "\<forall>(k, x) \<in> set ds. vbuilds kt k \<and> vbuilds vt x" "ds \<noteq> []"
  shows "vbuilds (DictType kt vt) (DDict ds)"
  unfolding vbuilds_def
proof (intro allI impI)
  fix T a tp V sm r bt and l :: nat and ps :: "TBuilderPosition list" and sp g u
  assume h: "0 < l \<longrightarrow> ps \<noteq> []" "get_at a T = Some u" "known_as (DictType kt vt) u" "get_value r V = Some default_value" "cache_ok g T sm"
  have v: "update_value r (\<lambda>_. pairs_value []) V = V"
    using val.update_same [OF h(4)] by (simp add: default_items)
  obtain y' c' sm' where i: "run_values (concat (map (pair_calls kt vt) ds))
        (bstate (update_at a (\<lambda>_. DictType (sub_type u kt) (sub_type u vt)) T) (a # a # tp) V sm
          (bpos r False 0 # bpos r (u = TypeNotSet) l # ps) sp g) =
      Inr (bstate (update_at a (\<lambda>_. DictType kt vt) T) (y' # a # tp)
        (update_value r (\<lambda>_. pairs_value (map (\<lambda>kx. (encode 0 (fst kx), encode 0 (snd kx))) ds)) V) sm' (c' # bpos r (u = TypeNotSet) l # ps) sp g)"
      "cache_ok g (update_at a (\<lambda>_. DictType kt vt) T) sm'" "cache_grows g a sm sm'"
    using dict_items_at [OF assms(1) h(2) known_sub(1) known_sub(1) h(4) cache_sub_dict [OF h(5,2,3)], of a tp "[]"] assms(2) v by auto blast
  show "vbuilt (update_at a (\<lambda>_. DictType kt vt) T) a tp (update_value r (\<lambda>_. encode l (DDict ds)) V) sm r l ps sp g
      (run_values (value_calls (DictType kt vt) (DDict ds)) (bstate T (a # tp) V sm (bpos r bt l # ps) sp g))"
    using BeginDict_at [OF h(2,3)] EndDict_at [OF dict_parts_at(1) [OF h(2)]] i assms(2)
    by (intro vbuiltI [where sm' = sm']) (simp_all add: run_values_append pair_calls_def)
qed

subsection \<open>Structs\<close>

definition member_calls :: "string list \<Rightarrow> Type list \<Rightarrow> data list \<Rightarrow> nat \<Rightarrow> value_call list" where
  "member_calls names ts ds n = concat (map (\<lambda>k. VAddMember (names ! k) # value_calls (ts ! k) (ds ! k)) [0..<n])"

lemma struct_calls:
  assumes "length names = length ts" "length ts = length ds"
  shows "value_calls (StructType (zip names ts)) (DStruct (zip names ds)) =
    VBeginStruct # member_calls names ts ds (length ds) @ [VEndStruct]"
proof -
  have "map (\<lambda>(u, m). VAddMember (fst m) # value_calls u (snd m)) (zip ts (zip names ds)) =
      map (\<lambda>k. VAddMember (names ! k) # value_calls (ts ! k) (ds ! k)) [0..<length ds]"
    using assms by (intro nth_equalityI) simp_all
  then show ?thesis
    using assms by (simp add: member_calls_def)
qed

lemma BeginStruct_types_at:
  assumes "get_at a T = Some u"
  shows "BeginStruct \<lparr>BuiltType = T, BuilderPath = a # tp\<rparr> = Inr \<lparr>BuiltType = update_at a (\<lambda>_. mutable_struct_type u) T, BuilderPath = a # a # tp\<rparr>"
  unfolding BeginStruct_def by (rule enter_same_at [OF assms])

text \<open>A struct whose type is not known yet: the members follow the calls.\<close>

lemma AddMember_at:
  assumes "get_at a T = Some u" "get_value r V = Some v0"
  shows "ValueAddMember m (bstate (update_at a (\<lambda>_. StructType ms) T) (x # a # tp) (update_value r (\<lambda>_. items_value vs) V) sm (c # bpos r True l # ps) sp g) =
    Inr (bstate (update_at a (\<lambda>_. StructType (ms @ [(m, TypeNotSet)])) T) ((a @ [length ms]) # a # tp)
      (update_value r (\<lambda>_. items_value (vs @ [default_value])) V) sm
      (bpos (r @ [StepItem (length vs)]) False 0 # bpos r True l # ps) sp g)"
proof -
  have g: "get_at a (update_at a (\<lambda>_. StructType ms) T) = Some (StructType ms)"
    by (rule types.get_update [OF assms(1)])
  have "AddMember m \<lparr>BuiltType = update_at a (\<lambda>_. StructType ms) T, BuilderPath = x # a # tp\<rparr> =
      Inr \<lparr>BuiltType = update_at a (\<lambda>_. StructType (ms @ [(m, TypeNotSet)])) T, BuilderPath = (a @ [length ms]) # a # tp\<rparr>"
    using AddMember_step [OF g, of m x tp] types.update_twice [OF assms(1)] by simp
  then show ?thesis
    using CheckContainerKind_at [OF g, of Struct "bpos r True l # ps"] added_item_at(1) [OF assms(2)]
    by (simp add: ValueAddMember_def GetBuildType_def)
qed

lemma member_slot_at:
  assumes "get_at a T = Some u"
  shows "get_at (a @ [length ms]) (update_at a (\<lambda>_. StructType (ms @ [(m, v)])) T) = Some v"
    "update_at (a @ [length ms]) (\<lambda>_. t) (update_at a (\<lambda>_. StructType (ms @ [(m, v)])) T) = update_at a (\<lambda>_. StructType (ms @ [(m, t)])) T"
proof -
  have g: "get_at a (update_at a (\<lambda>_. StructType (ms @ [(m, v)])) T) = Some (StructType (ms @ [(m, v)]))"
    by (rule types.get_update [OF assms])
  then show "get_at (a @ [length ms]) (update_at a (\<lambda>_. StructType (ms @ [(m, v)])) T) = Some v"
    by (simp add: types.get_append)
  show "update_at (a @ [length ms]) (\<lambda>_. t) (update_at a (\<lambda>_. StructType (ms @ [(m, v)])) T) = update_at a (\<lambda>_. StructType (ms @ [(m, t)])) T"
    using types.update_part [OF g, of "length ms" v "\<lambda>_. t"] types.update_twice [OF assms] by simp
qed

lemma member_slot_cache:
  assumes "get_at a T = Some u" "cache_ok g (update_at a (\<lambda>_. StructType ms) T) sm" "lookup sm (g, a) = None"
  shows "cache_ok g (update_at a (\<lambda>_. StructType (ms @ [(m, TypeNotSet)])) T) sm"
proof -
  have g: "get_at a (update_at a (\<lambda>_. StructType ms) T) = Some (StructType ms)"
    by (rule types.get_update [OF assms(1)])
  have "cache_ok g (update_at a (\<lambda>_. StructType (ms @ [(m, TypeNotSet)])) (update_at a (\<lambda>_. StructType ms) T)) sm"
  proof (rule cache_update [OF assms(2) g assms(3)])
    show "\<exists>ns'. get_at r (StructType (ms @ [(m, TypeNotSet)])) = Some (StructType ns') \<and> map fst ns' = map fst ns"
      if "r \<noteq> []" "get_at r (StructType ms) = Some (StructType ns)" for r ns
      using that by (cases r) (auto simp: nth_append split: option.splits if_splits)
  qed
  then show ?thesis
    using types.update_twice [OF assms(1)] by simp
qed

lemma struct_new_at:
  assumes "length names = length ts" "length ts = length ds" "\<And>k. k < length ds \<Longrightarrow> vbuilds (ts ! k) (ds ! k)"
    and "get_at a T = Some TypeNotSet" "get_value r V = Some default_value" "cache_ok g T sm"
  shows "vbuilt (update_at a (\<lambda>_. StructType (zip names ts)) T) a tp (update_value r (\<lambda>_. items_value (map (encode 0) ds)) V) sm r l ps sp g
      (run_values (VBeginStruct # member_calls names ts ds (length ds) @ [VEndStruct]) (bstate T (a # tp) V sm (bpos r bt l # ps) sp g))"
proof -
  define Tf where "Tf k = update_at a (\<lambda>_. StructType (take k (zip names ts))) T" for k
  define vs where "vs k = map (encode 0) (take k ds)" for k
  let ?n = "length ds" and ?p = "bpos r True l"
  have g: "get_at a (Tf k) = Some (StructType (take k (zip names ts)))" for k
    unfolding Tf_def by (rule types.get_update [OF assms(4)])
  have v: "length (vs k) = k" "vs k @ [encode 0 (ds ! k)] = vs (Suc k)" "length (take k (zip names ts)) = k"
      "take k (zip names ts) @ [(names ! k, ts ! k)] = take (Suc k) (zip names ts)" if "k < ?n" for k
    using that assms(1,2) by (simp_all add: vs_def take_Suc_conv_app_nth)
  have c0: "cache_ok g (Tf 0) sm" "lookup sm (g, a) = None"
    using cache_known [OF assms(6,4)] cache_uncached [OF assms(6,4)] by (simp_all add: Tf_def)
  have V: "update_value r (\<lambda>_. items_value (vs 0)) V = V"
    using val.update_same [OF assms(5)] by (simp add: default_items vs_def)
  have "\<exists>x' c' sm'. run_values (member_calls names ts ds ?n)
        (bstate (Tf 0) (a # a # tp) (update_value r (\<lambda>_. items_value (vs 0)) V) sm (bpos r False 0 # ?p # ps) sp g) =
      Inr (bstate (Tf ?n) (x' # a # tp) (update_value r (\<lambda>_. items_value (vs ?n)) V) sm' (c' # ?p # ps) sp g) \<and>
      True \<and> cache_ok g (Tf ?n) sm' \<and> cache_grows g a sm sm' \<and> lookup sm' (g, a) = lookup sm (g, a)"
    unfolding member_calls_def
  proof (rule run_items [where i = "\<lambda>k. k" and Wf = "\<lambda>k. update_value r (\<lambda>_. items_value (vs k @ [default_value])) V"
        and sf = "\<lambda>_. sp" and ty = "\<lambda>k. ts ! k" and Q = "\<lambda>x. True" and n = ?n])
    fix k
    assume k: "k < ?n"
    show "get_value (r @ [StepItem k]) (update_value r (\<lambda>_. items_value (vs k @ [default_value])) V) = Some default_value"
      using added_item_at(2) [OF assms(5), of "vs k"] v(1) [OF k] by simp
    show "update_value (r @ [StepItem k]) (\<lambda>_. encode 0 (ds ! k)) (update_value r (\<lambda>_. items_value (vs k @ [default_value])) V) =
        update_value r (\<lambda>_. items_value (vs (Suc k))) V"
      using added_item_at(3) [OF assms(5), of "vs k"] v [OF k] by simp
    fix x c sm'
    assume c: "cache_ok g (Tf k) sm'" "lookup sm' (g, a) = lookup sm (g, a)"
    let ?T = "update_at a (\<lambda>_. StructType (take k (zip names ts) @ [(names ! k, TypeNotSet)])) T"
    have "value_builder_step (VAddMember (names ! k)) (bstate (Tf k) (x # a # tp) (update_value r (\<lambda>_. items_value (vs k)) V) sm' (c # ?p # ps) sp g) =
        Inr (bstate ?T ((a @ [k]) # a # tp) (update_value r (\<lambda>_. items_value (vs k @ [default_value])) V) sm' (bpos (r @ [StepItem k]) False 0 # ?p # ps) sp g)"
      using AddMember_at [OF assms(4,5), of _ "take k (zip names ts)" x tp "vs k"] v(1,3) [OF k] by (simp add: Tf_def)
    moreover have "get_at (a @ [k]) ?T = Some TypeNotSet" "update_at (a @ [k]) (\<lambda>_. ts ! k) ?T = Tf (Suc k)" "cache_ok g ?T sm'"
      using member_slot_at [OF assms(4), where ms = "take k (zip names ts)" and m = "names ! k"] v(3,4) [OF k]
        member_slot_cache [OF assms(4) c(1) [unfolded Tf_def]] c(2) c0(2) by (simp_all add: Tf_def)
    ultimately show "\<exists>T1 w bt. value_builder_step (VAddMember (names ! k)) (bstate (Tf k) (x # a # tp) (update_value r (\<lambda>_. items_value (vs k)) V) sm' (c # ?p # ps) sp g) =
        Inr (bstate T1 ((a @ [k]) # a # tp) (update_value r (\<lambda>_. items_value (vs k @ [default_value])) V) sm' (bpos (r @ [StepItem k]) bt 0 # ?p # ps) sp g) \<and>
        get_at (a @ [k]) T1 = Some w \<and> known_as (ts ! k) w \<and> cache_ok g T1 sm' \<and> update_at (a @ [k]) (\<lambda>_. ts ! k) T1 = Tf (Suc k)"
      using known_sub(3) by blast
  qed (use assms(3) c0 in auto)
  then obtain x' c' sm' where r: "run_values (member_calls names ts ds ?n) (bstate (Tf 0) (a # a # tp) V sm (bpos r False 0 # ?p # ps) sp g) =
      Inr (bstate (Tf ?n) (x' # a # tp) (update_value r (\<lambda>_. items_value (vs ?n)) V) sm' (c' # ?p # ps) sp g)"
      "cache_ok g (Tf ?n) sm'" "cache_grows g a sm sm'"
    unfolding V by auto
  have b: "ValueBeginStruct (bstate T (a # tp) V sm (bpos r bt l # ps) sp g) = Inr (bstate (Tf 0) (a # a # tp) V sm (bpos r False 0 # ?p # ps) sp g)"
    using CheckTypeKind_at [OF assms(4) known_sub(3), of "StructType []" Struct] BeginStruct_types_at [OF assms(4)]
    by (simp add: ValueBeginStruct_def SetBuildType_def push_same_at mutable_struct_type_def Tf_def)
  have "ValueEndStruct (bstate (Tf ?n) (x' # a # tp) (update_value r (\<lambda>_. items_value (vs ?n)) V) sm' (c' # ?p # ps) sp g) =
      Inr (bstate (Tf ?n) (a # tp) (update_value r (\<lambda>_. items_value (vs ?n)) V) sm' (?p # ps) sp g)"
    using CheckContainerKind_at [OF g [of ?n], of Struct "?p # ps"] close_at [OF g [of ?n], of Struct]
    by (simp add: ValueEndStruct_def EndStruct_def GetBuildType_def)
  then show ?thesis
    using r b assms(1,2) by (intro vbuiltI [where sm' = sm']) (simp_all add: run_values_append Tf_def vs_def)
qed

text \<open>A struct of a known type: an item per member, found by its name.\<close>

lemma fill_members_distinct:
  assumes "distinct ns" "set ns \<inter> keys_of m = {}"
  shows "fill_members i ns m = m @ zip ns [i..<i + length ns]"
  using assms
proof (induction ns arbitrary: i m)
  case (Cons n ns)
  then have "lookup m n = None"
    by (auto simp: map_of_eq_None_iff)
  then show ?case
    using Cons by (simp add: upt_conv_Cons del: upt_Suc)
qed simp

lemma members_found:
  assumes "distinct ns"
  shows "length (fill_members 0 ns []) = length ns" "k < length ns \<Longrightarrow> lookup (fill_members 0 ns []) (ns ! k) = Some k"
  using fill_members_distinct [OF assms, of "[]" 0] map_of_zip_nth [of ns "[0..<length ns]" k] assms by simp_all

lemma add_items_times_at:
  assumes "get_value r V0 = Some v0"
  shows "add_items_times n (bstate T tp (update_value r (\<lambda>_. items_value vs) V0) sm (bpos r bt l # ps) sp g) =
    Inr (bstate T tp (update_value r (\<lambda>_. items_value (vs @ replicate n default_value)) V0) sm (bpos r bt l # ps) sp g)"
proof (induction n arbitrary: vs)
  case (Suc n)
  have "get_value r (update_value r (\<lambda>_. items_value vs) V0) = Some (items_value vs)"
    by (rule val.get_update [OF assms])
  then have "modify_value add_items (bstate T tp (update_value r (\<lambda>_. items_value vs) V0) sm (bpos r bt l # ps) sp g) =
      Inr (bstate T tp (update_value r (\<lambda>_. items_value (vs @ [default_value])) V0) sm (bpos r bt l # ps) sp g)"
    using val.update_twice [OF assms] by (simp add: modify_value_at add_items_def items_value_def)
  then show ?case
    using Suc [of "vs @ [default_value]"] by simp
qed simp

lemma open_members_at:
  assumes "get_at a T = Some (StructType ms)" "cache_ok g T sm" "distinct (map fst ms)" "get_value r V = Some default_value"
  shows "\<exists>sm'. open_members (bstate T (a # tp) V sm (bpos r bt l # ps) sp g) =
      Inr (bstate T (a # tp) (update_value r (\<lambda>_. items_value (replicate (length ms) default_value)) V) sm' (bpos r bt l # ps)
        (\<lparr>MembersMap = fill_members 0 (map fst ms) [], FilledMembers = []\<rparr> # sp) g) \<and>
      cache_ok g T sm' \<and> cache_grows g a sm sm'"
proof -
  let ?m = "fill_members 0 (map fst ms) []"
  let ?sm = "if lookup sm (g, a) = None then ((g, a), ?m) # sm else sm"
  have "add_items_times (length ms) (bstate T (a # tp) V ?sm (bpos r bt l # ps) sp g) =
      Inr (bstate T (a # tp) (update_value r (\<lambda>_. items_value (replicate (length ms) default_value)) V) ?sm (bpos r bt l # ps) sp g)"
    using add_items_times_at [OF assms(4), of "length ms" T "a # tp" "[]"] val.update_same [OF assms(4)] by (simp add: default_items)
  moreover have "m = ?m" if "lookup sm (g, a) = Some m" for m
    using that assms(1,2) by (fastforce simp: cache_ok_def)
  then have "GetMembersMap (TypesBuilt b, hd (BuilderPath (TypeBuilder b))) ms b = (?m, bstate T (a # tp) V ?sm (bpos r bt l # ps) sp g)"
    if "b = bstate T (a # tp) V sm (bpos r bt l # ps) sp g" for b
    using that by (auto simp: GetMembersMap_def bstate_def Let_def split: option.splits)
  with calculation have "open_members (bstate T (a # tp) V sm (bpos r bt l # ps) sp g) =
      Inr (bstate T (a # tp) (update_value r (\<lambda>_. items_value (replicate (length ms) default_value)) V) ?sm (bpos r bt l # ps)
        (\<lparr>MembersMap = ?m, FilledMembers = []\<rparr> # sp) g)"
    using assms(1) members_found(1) [OF assms(3)] by (simp add: open_members_def)
  moreover have "cache_ok g T ?sm" "cache_grows g a sm ?sm"
    using assms(1,2) by (auto simp: cache_ok_def cache_grows_def)
  ultimately show ?thesis
    by blast
qed

lemma select_member_at:
  assumes "get_at a T = Some (StructType ms)" "distinct (map fst ms)" "get_value r V = Some v0" "k < length ms" "length vs = length ms"
  shows "ValueAddMember (fst (ms ! k)) (bstate T (x # a # tp) (update_value r (\<lambda>_. items_value vs) V) sm (c # bpos r False l # ps)
      (\<lparr>MembersMap = fill_members 0 (map fst ms) [], FilledMembers = rev [0..<k]\<rparr> # sp) g) =
    Inr (bstate T ((a @ [k]) # a # tp) (update_value r (\<lambda>_. items_value vs) V) sm (bpos (r @ [StepItem k]) False 0 # bpos r False l # ps)
      (\<lparr>MembersMap = fill_members 0 (map fst ms) [], FilledMembers = rev [0..<Suc k]\<rparr> # sp) g)"
proof -
  have v: "get_value r (update_value r (\<lambda>_. items_value vs) V) = Some (items_value vs)"
    by (rule val.get_update [OF assms(3)])
  have "SelectMember k \<lparr>BuiltType = T, BuilderPath = x # a # tp\<rparr> = Inr \<lparr>BuiltType = T, BuilderPath = (a @ [k]) # a # tp\<rparr>"
    using assms(1,4) types.update_cong [OF assms(1), of mutable_struct_type] types.update_same [OF assms(1)]
    by (simp add: SelectMember_def builder_defs mutable_struct_type_def)
  moreover have "lookup (fill_members 0 (map fst ms) []) (fst (ms ! k)) = Some k"
    using members_found(2) [OF assms(2), of k] assms(4) by simp
  moreover have "push_part (\<lambda>_. StepItem k) (bstate T tp' (update_value r (\<lambda>_. items_value vs) V) sm (bpos r False l # ps) sp' g) =
      Inr (bstate T tp' (update_value r (\<lambda>_. items_value vs) V) sm (bpos (r @ [StepItem k]) False 0 # bpos r False l # ps) sp' g)" for tp' sp'
    using push_part_at [OF v, of "\<lambda>_. StepItem k"] assms(4,5) by (simp add: items_value_def)
  ultimately show ?thesis
    using CheckContainerKind_at [OF assms(1), of Struct "bpos r False l # ps"]
    by (simp add: ValueAddMember_def GetBuildType_def select_member_def List.insert_def)
qed

lemma filled_items:
  assumes "k < n" "n = length ds"
  defines "vs \<equiv> \<lambda>k. map (encode 0) (take k ds) @ replicate (n - k) default_value"
  shows "length (vs k) = n" "vs k ! k = default_value" "(vs k)[k := encode 0 (ds ! k)] = vs (Suc k)"
proof -
  have r: "replicate (n - k) default_value = default_value # replicate (n - Suc k) default_value"
    using assms(1) by (metis Suc_diff_Suc replicate_Suc)
  show "length (vs k) = n" "vs k ! k = default_value" "(vs k)[k := encode 0 (ds ! k)] = vs (Suc k)"
    using assms r by (simp_all add: vs_def nth_append list_update_append take_Suc_conv_app_nth)
qed

lemma struct_known_at:
  assumes "distinct names" "length names = length ts" "length ts = length ds" "\<And>k. k < length ds \<Longrightarrow> vbuilds (ts ! k) (ds ! k)"
    and "get_at a T = Some (StructType (zip names ts))" "get_value r V = Some default_value" "cache_ok g T sm"
  shows "vbuilt T a tp (update_value r (\<lambda>_. items_value (map (encode 0) ds)) V) sm r l ps sp g
      (run_values (VBeginStruct # member_calls names ts ds (length ds) @ [VEndStruct]) (bstate T (a # tp) V sm (bpos r bt l # ps) sp g))"
proof -
  let ?n = "length ds" and ?p = "bpos r False l" and ?m = "fill_members 0 names []"
  define vs where "vs = (\<lambda>k. map (encode 0) (take k ds) @ replicate (?n - k) default_value)"
  define sf where "sf k = \<lparr>MembersMap = ?m, FilledMembers = rev [0..<k]\<rparr> # sp" for k
  have v: "length (vs k) = ?n" "vs k ! k = default_value" "(vs k)[k := encode 0 (ds ! k)] = vs (Suc k)" if "k < ?n" for k
    using filled_items [OF that refl] by (simp_all add: vs_def)
  have names: "map fst (zip names ts) = names" "length (zip names ts) = ?n"
    using assms(2,3) by simp_all
  obtain sm1 where o: "open_members (bstate T (a # tp) V sm (?p # ps) sp g) =
      Inr (bstate T (a # tp) (update_value r (\<lambda>_. items_value (vs 0)) V) sm1 (?p # ps) (sf 0) g)"
      "cache_ok g T sm1" "cache_grows g a sm sm1"
    using open_members_at [OF assms(5,7) _ assms(6), of tp False l ps sp] names assms(1) by (auto simp: vs_def sf_def)
  have "\<exists>x' c' sm'. run_values (member_calls names ts ds ?n)
        (bstate T (a # a # tp) (update_value r (\<lambda>_. items_value (vs 0)) V) sm1 (bpos r False 0 # ?p # ps) (sf 0) g) =
      Inr (bstate T (x' # a # tp) (update_value r (\<lambda>_. items_value (vs ?n)) V) sm' (c' # ?p # ps) (sf ?n) g) \<and>
      True \<and> cache_ok g T sm' \<and> cache_grows g a sm1 sm' \<and> lookup sm' (g, a) = lookup sm1 (g, a)"
    unfolding member_calls_def
  proof (rule run_items [where i = "\<lambda>k. k" and Wf = "\<lambda>k. update_value r (\<lambda>_. items_value (vs k)) V" and Tf = "\<lambda>_. T"
        and ty = "\<lambda>k. ts ! k" and Q = "\<lambda>x. True" and n = ?n])
    fix k
    assume k: "k < ?n"
    have w: "get_value r (update_value r (\<lambda>_. items_value (vs k)) V) = Some (items_value (vs k))"
      by (rule val.get_update [OF assms(6)])
    show "get_value (r @ [StepItem k]) (update_value r (\<lambda>_. items_value (vs k)) V) = Some default_value"
      using w v [OF k] k by (simp add: val.get_append items_value_def)
    show "update_value (r @ [StepItem k]) (\<lambda>_. encode 0 (ds ! k)) (update_value r (\<lambda>_. items_value (vs k)) V) =
        update_value r (\<lambda>_. items_value (vs (Suc k))) V"
      using val.update_part [OF w, of "StepItem k"] val.update_twice [OF assms(6)] v [OF k] k by (simp add: items_value_def)
    fix x c sm'
    assume "cache_ok g T sm'"
    moreover have t: "get_at (a @ [k]) T = Some (ts ! k)"
      using assms(2,3,5) k by (simp add: types.get_append)
    moreover have "ValueAddMember (names ! k) (bstate T (x # a # tp) (update_value r (\<lambda>_. items_value (vs k)) V) sm' (c # ?p # ps) (sf k) g) =
        Inr (bstate T ((a @ [k]) # a # tp) (update_value r (\<lambda>_. items_value (vs k)) V) sm' (bpos (r @ [StepItem k]) False 0 # ?p # ps) (sf (Suc k)) g)"
      using select_member_at [OF assms(5) _ assms(6), of k "vs k" x tp sm' c l ps sp g] names assms(1-3) k v(1) [OF k] by (simp add: sf_def)
    ultimately show "\<exists>T1 w bt. value_builder_step (VAddMember (names ! k)) (bstate T (x # a # tp) (update_value r (\<lambda>_. items_value (vs k)) V) sm' (c # ?p # ps) (sf k) g) =
        Inr (bstate T1 ((a @ [k]) # a # tp) (update_value r (\<lambda>_. items_value (vs k)) V) sm' (bpos (r @ [StepItem k]) bt 0 # ?p # ps) (sf (Suc k)) g) \<and>
        get_at (a @ [k]) T1 = Some w \<and> known_as (ts ! k) w \<and> cache_ok g T1 sm' \<and> update_at (a @ [k]) (\<lambda>_. ts ! k) T1 = T"
      using types.update_same [OF t] by auto
  qed (use assms(4) o(2) in auto)
  then obtain x' c' sm' where r: "run_values (member_calls names ts ds ?n)
        (bstate T (a # a # tp) (update_value r (\<lambda>_. items_value (vs 0)) V) sm1 (bpos r False 0 # ?p # ps) (sf 0) g) =
      Inr (bstate T (x' # a # tp) (update_value r (\<lambda>_. items_value (vs ?n)) V) sm' (c' # ?p # ps) (sf ?n) g)"
      "cache_ok g T sm'" "cache_grows g a sm1 sm'"
    by auto
  have "ValueBeginStruct (bstate T (a # tp) V sm (bpos r bt l # ps) sp g) =
      Inr (bstate T (a # a # tp) (update_value r (\<lambda>_. items_value (vs 0)) V) sm1 (bpos r False 0 # ?p # ps) (sf 0) g)"
    using CheckTypeKind_at [OF assms(5) known_sub(2), of Struct] BeginStruct_types_at [OF assms(5)] o(1) types.update_same [OF assms(5)]
    by (simp add: ValueBeginStruct_def SetBuildType_def push_same_at mutable_struct_type_def)
  moreover have "ValueEndStruct (bstate T (x' # a # tp) (update_value r (\<lambda>_. items_value (vs ?n)) V) sm' (c' # ?p # ps) (sf ?n) g) =
      Inr (bstate T (a # tp) (update_value r (\<lambda>_. items_value (vs ?n)) V) sm' (?p # ps) sp g)"
    using CheckContainerKind_at [OF assms(5), of Struct "?p # ps"] close_at [OF assms(5), of Struct] members_found(1) [OF assms(1)] assms(2,3)
    by (simp add: ValueEndStruct_def EndStruct_def GetBuildType_def close_members_def sf_def)
  ultimately show ?thesis
    using r cache_grows_trans [OF o(3), of "[]" sm'] by (intro vbuiltI [where sm' = sm' and bt = False]) (simp_all add: run_values_append vs_def)
qed

lemma vbuilds_struct:
  assumes "distinct names" "length names = length ts" "length ts = length ds" "\<And>k. k < length ds \<Longrightarrow> vbuilds (ts ! k) (ds ! k)"
  shows "vbuilds (StructType (zip names ts)) (DStruct (zip names ds))"
  unfolding vbuilds_def
proof (intro allI impI)
  fix T a tp V sm r bt and l :: nat and ps :: "TBuilderPosition list" and sp g u
  assume h: "get_at a T = Some u" "known_as (StructType (zip names ts)) u" "get_value r V = Some default_value" "cache_ok g T sm"
  have "map (\<lambda>m. encode 0 (snd m)) (zip names ds) = map (encode 0) ds"
    using assms(2,3) by (intro nth_equalityI) simp_all
  moreover have "u = TypeNotSet \<or> u = StructType (zip names ts)"
    using h(2) by (simp add: known_as_def)
  ultimately show "vbuilt (update_at a (\<lambda>_. StructType (zip names ts)) T) a tp (update_value r (\<lambda>_. encode l (DStruct (zip names ds))) V) sm r l ps sp g
      (run_values (value_calls (StructType (zip names ts)) (DStruct (zip names ds))) (bstate T (a # tp) V sm (bpos r bt l # ps) sp g))"
    using struct_new_at [OF assms(2-4) _ h(3,4), of a tp l ps sp bt] struct_known_at [OF assms _ h(3,4), of a tp l ps sp bt]
      types.update_same [OF h(1)] h(1) unfolding struct_calls [OF assms(2,3)] by auto
qed

section \<open>The round trip\<close>

theorem vbuilds_typed: "typed t d \<Longrightarrow> buildable t \<Longrightarrow> vbuilds t d"
proof (induction rule: typed.induct)
  case (list t ds)
  then show ?case
    by (cases "ds = []") (auto intro!: vbuilds_empty_list vbuilds_list simp: list_all_iff)
next
  case (tuple ts ds)
  then show ?case
    by (intro vbuilds_tuple) (auto simp: list_all2_conv_all_nth list_all_length)
next
  case (struct names ts ds)
  then have "buildable (ts ! k)" if "k < length ts" for k
    using that by (auto simp: list_all_length)
  then show ?case
    using struct by (intro vbuilds_struct) (auto simp: list_all2_conv_all_nth)
next
  case (dict kt vt ds)
  then show ?case
    using vbuilds_empty_dict [of kt vt] vbuilds_dict [of ds kt vt] by (cases "ds = []") (auto simp: list_all_iff split_beta)
qed (simp_all add: vbuilds_primitive vbuilds_decimal vbuilds_pg vbuilds_none vbuilds_some vbuilds_tagged)

lemma build_from:
  assumes "vbuilds t d" "known_as t u"
  shows "\<exists>b. run_values (value_calls t d) (value_builder_of_type u) = Inr b \<and>
    and_then (BuildValue b) (\<lambda>(v, _). Inr v) = Inr \<lparr>ValueType = t, ValueProto = encode 0 d\<rparr>"
proof -
  have b: "value_builder_of_type u = bstate u ([] # []) default_value [] (bpos [] False 0 # []) [] 0"
    by (simp add: value_builder_of_type_def value_builder_on_def bstate_def)
  obtain bt sm where "run_values (value_calls t d) (value_builder_of_type u) = Inr (bstate t [[]] (encode 0 d) sm [bpos [] bt 0] [] 0)"
    using vbuildsD [OF assms(1) _ assms(2), of "[]" u "[]" default_value 0 "[]" 0 "[]" "[]" False "[]"] unfolding b
    by (auto simp: cache_ok_def)
  moreover have "and_then (BuildValue (bstate t [[]] v sm [bpos [] bt 0] [] 0)) (\<lambda>(v, _). Inr v) = Inr \<lparr>ValueType = t, ValueProto = v\<rparr>" for v
    by (simp add: BuildValue_def CheckValue_def Build_def bstate_def)
  ultimately show ?thesis
    by auto
qed


definition built_type :: Type where
  "built_type = StructType (zip [''id'', ''tags''] [TypeId 1, DictType (TypeId 1) (OptionalType (OptionalType (TypeId 2)))])"

definition built_data :: data where
  "built_data = DStruct (zip [''id'', ''tags'']
     [DPrimitive Int32 (Scalar32 7),
      DDict [(DPrimitive Int32 (Scalar32 1), DNone), (DPrimitive Int32 (Scalar32 2), DSome DNone),
        (DPrimitive Int32 (Scalar32 3), DSome (DSome (DPrimitive Uint32 (Scalar32 9))))]])"

lemma built_typed: "typed built_type built_data"
  unfolding built_type_def built_data_def
  by (rule typed.struct)
    (auto intro!: typed.intros simp: primitive_of_def primitive_types_def item_of_some_def as_32_def)


end
