(* ===== verification/Uuid.thy ===== *)
theory Uuid
  imports Values
begin

text \<open>
  The text of UUIDs, \<^verbatim>\<open>src/library/uuid/uuid.{h,cpp}\<close> and \<^verbatim>\<open>TUuidValue\<close> of \<^verbatim>\<open>src/client/value/value.cpp\<close>. A UUID is eight 16-bit
  words, or two 64-bit halves with the same bytes; the machine is little endian. The parser keeps one 64-bit
  number for all digits and stores its low 16 bits after every fourth digit.
\<close>

unbundle bit_operations_syntax

section \<open>Parsing\<close>

definition GetDigit :: "char \<Rightarrow> 32 word option" where
  "GetDigit c =
     (let n = of_char c :: nat in
      if 48 \<le> n \<and> n \<le> 57 then Some (word_of_nat (n - 48))
      else if 97 \<le> n \<and> n \<le> 102 then Some (word_of_nat (n - 97 + 10))
      else if 65 \<le> n \<and> n \<le> 70 then Some (word_of_nat (n - 65 + 10))
      else None)"

definition is_dash_place :: "nat \<Rightarrow> bool" where
  "is_dash_place i \<longleftrightarrow> i = 8 \<or> i = 13 \<or> i = 18 \<or> i = 23"

definition IsValidUuid :: "string \<Rightarrow> bool" where
  "IsValidUuid buf \<longleftrightarrow> length buf = 36 \<and>
     (\<forall>i \<in> set [0..<36]. if buf ! i = CHR ''-'' then is_dash_place i else GetDigit (buf ! i) \<noteq> None)"

fun parse_digits :: "bool \<Rightarrow> nat \<Rightarrow> 64 word \<Rightarrow> nat \<Rightarrow> 16 word list \<Rightarrow> string \<Rightarrow> 16 word list option" where
  "parse_digits shortForm i partValue digitCount dw [] = Some dw"
| "parse_digits shortForm i partValue digitCount dw (c # buf) =
     (if \<not> shortForm \<and> is_dash_place i then
        (if c = CHR ''-'' then parse_digits shortForm (Suc i) partValue digitCount dw buf else None)
      else
        (case GetDigit c of
           None \<Rightarrow> None
         | Some digit \<Rightarrow>
             let partValue = partValue * 16 + ucast digit in
             if Suc digitCount = 4 then parse_digits shortForm (Suc i) partValue 0 (dw @ [ucast partValue]) buf
             else parse_digits shortForm (Suc i) partValue (Suc digitCount) dw buf))"

definition swap_bytes :: "16 word \<Rightarrow> 16 word" where
  "swap_bytes w = (drop_bit 8 w AND 0xff) OR push_bit 8 (w AND 0xff)"

definition ParseUuidToArray :: "string \<Rightarrow> bool \<Rightarrow> 16 word list option" where
  "ParseUuidToArray buf shortForm =
     (if length buf \<noteq> (if shortForm then 32 else 36) then None
      else case parse_digits shortForm 0 0 0 [] buf of
        None \<Rightarrow> None
      | Some dw \<Rightarrow> Some ([dw ! 1, dw ! 0, dw ! 2, dw ! 3] @ map swap_bytes (drop 4 dw)))"

section \<open>Printing\<close>

definition WriteHexDigit :: "8 word \<Rightarrow> char" where
  "WriteHexDigit digit = (if digit \<le> 9 then char_of (48 + unat digit) else char_of (97 + unat digit - 10))"

definition WriteHex :: "16 word \<Rightarrow> bool \<Rightarrow> string" where
  "WriteHex bytes reverseBytes =
     (if reverseBytes then
        [WriteHexDigit (ucast (drop_bit 4 bytes AND 0x0f)), WriteHexDigit (ucast (bytes AND 0x0f)),
         WriteHexDigit (ucast (drop_bit 12 bytes AND 0x0f)), WriteHexDigit (ucast (drop_bit 8 bytes AND 0x0f))]
      else
        [WriteHexDigit (ucast (drop_bit 12 bytes AND 0x0f)), WriteHexDigit (ucast (drop_bit 8 bytes AND 0x0f)),
         WriteHexDigit (ucast (drop_bit 4 bytes AND 0x0f)), WriteHexDigit (ucast (bytes AND 0x0f))])"

definition UuidToString :: "16 word list \<Rightarrow> string" where
  "UuidToString dw =
     WriteHex (dw ! 1) False @ WriteHex (dw ! 0) False @ ''-'' @ WriteHex (dw ! 2) False @ ''-'' @
     WriteHex (dw ! 3) False @ ''-'' @ WriteHex (dw ! 4) True @ ''-'' @ WriteHex (dw ! 5) True @
     WriteHex (dw ! 6) True @ WriteHex (dw ! 7) True"

section \<open>The two halves\<close>

definition half_words :: "64 word \<Rightarrow> 16 word list" where
  "half_words h = map (\<lambda>k. ucast (drop_bit (16 * k) h)) [0..<4]"

definition words_half :: "16 word list \<Rightarrow> 64 word" where
  "words_half dw = ucast (dw ! 0) OR push_bit 16 (ucast (dw ! 1)) OR push_bit 32 (ucast (dw ! 2)) OR push_bit 48 (ucast (dw ! 3))"

definition UuidHalfsToString :: "64 word \<Rightarrow> 64 word \<Rightarrow> string" where
  "UuidHalfsToString low hi = UuidToString (half_words low @ half_words hi)"

text \<open>The bytes of a half in memory; copying fewer bytes than the target has reads past the end of the source, which is \<open>None\<close>.\<close>

definition half_bytes :: "64 word \<Rightarrow> 8 word list" where
  "half_bytes h = map (\<lambda>k. ucast (drop_bit (8 * k) h)) [0..<8]"

definition bytes_half :: "8 word list \<Rightarrow> 64 word" where
  "bytes_half bs = foldr (\<lambda>b h. ucast b OR push_bit 8 h) bs 0"

definition UuidHalfsToByteString :: "64 word \<Rightarrow> 64 word \<Rightarrow> 8 word list" where
  "UuidHalfsToByteString low hi = half_bytes low @ half_bytes hi"

definition UuidHalfsToBytes :: "nat \<Rightarrow> 64 word \<Rightarrow> 64 word \<Rightarrow> 8 word list option" where
  "UuidHalfsToBytes dstSize hi low = (if 16 = dstSize then Some (half_bytes low @ half_bytes hi) else None)"

definition UuidBytesToHalfs :: "8 word list \<Rightarrow> (64 word \<times> 64 word) option" where
  "UuidBytesToHalfs str = (if 16 = length str then Some (bytes_half (drop 8 str), bytes_half (take 8 str)) else None)"

definition bytes_words :: "8 word list \<Rightarrow> 16 word list" where
  "bytes_words bs = map (\<lambda>k. ucast (bs ! (2 * k)) OR push_bit 8 (ucast (bs ! (2 * k + 1)))) [0..<8]"

definition UuidBytesToString :: "8 word list \<Rightarrow> string option" where
  "UuidBytesToString bytes = (if length bytes < 16 then None else Some (UuidToString (bytes_words bytes)))"

definition uuid_of_string :: "string \<Rightarrow> TUuidValue result" where
  "uuid_of_string uuidString =
     (case ParseUuidToArray uuidString False of
        None \<Rightarrow> Inl FatalError
      | Some dw \<Rightarrow> Inr \<lparr>Half0 = words_half (take 4 dw), Half1 = words_half (drop 4 dw)\<rparr>)"

definition uuid_string :: "TUuidValue \<Rightarrow> string" where
  "uuid_string u = UuidToString (half_words (Half0 u) @ half_words (Half1 u))"

section \<open>Digits\<close>

definition lower :: "char \<Rightarrow> char" where
  "lower c = (let n = of_char c :: nat in if 65 \<le> n \<and> n \<le> 90 then char_of (n + 32) else c)"

definition hex_value :: "char \<Rightarrow> nat option" where
  "hex_value c =
     (let n = of_char c in
      if 48 \<le> n \<and> n \<le> 57 then Some (n - 48)
      else if 97 \<le> n \<and> n \<le> 102 then Some (n - 87)
      else if 65 \<le> n \<and> n \<le> 70 then Some (n - 55)
      else None)"

definition hex_char :: "nat \<Rightarrow> char" where
  "hex_char n = (if n \<le> 9 then char_of (48 + n) else char_of (87 + n))"

lemma GetDigit_value: "GetDigit c = map_option word_of_nat (hex_value c)"
  by (auto simp: GetDigit_def hex_value_def Let_def)

lemma hex_value_of: "hex_value c = Some n \<Longrightarrow> n < 16" "hex_value c = Some n \<Longrightarrow> hex_char n = lower c"
  by (auto simp: hex_value_def hex_char_def lower_def Let_def split: if_splits)

lemma hex_value_char:
  assumes "n < 16"
  shows "hex_value (hex_char n) = Some n" "hex_char n \<noteq> CHR ''-''" "lower (hex_char n) = hex_char n"
proof -
  have "of_char (hex_char n) = (if n \<le> 9 then 48 + n else 87 + n)"
    using assms by (simp add: hex_char_def)
  then show "hex_value (hex_char n) = Some n" "lower (hex_char n) = hex_char n"
    using assms by (auto simp: hex_value_def lower_def)
  show "hex_char n \<noteq> CHR ''-''"
    using \<open>of_char (hex_char n) = (if n \<le> 9 then 48 + n else 87 + n)\<close> by (auto split: if_splits)
qed

definition word4 :: "nat \<Rightarrow> nat \<Rightarrow> nat \<Rightarrow> nat \<Rightarrow> 16 word" where
  "word4 a b c d = word_of_nat (((a * 16 + b) * 16 + c) * 16 + d)"

lemma low_bits: "x AND 0x0f = take_bit 4 x" "x AND 0xff = take_bit 8 x" for x :: "16 word"
  by (simp_all add: take_bit_eq_mask mask_eq_exp_minus_1)

lemma nibble: "unat (drop_bit k w AND 0x0f) = unat w div 2 ^ k mod 16" for w :: "16 word"
proof -
  have "unat (drop_bit k w AND 0x0f) = take_bit 4 (drop_bit k (unat w))"
    using unsigned_less [where 'a = nat and w = w] by (simp add: low_bits unsigned_take_bit_eq unsigned_drop_bit_eq take_bit_nat_eq_self)
  then show ?thesis
    by (simp add: take_bit_eq_mod drop_bit_eq_div)
qed

lemma WriteHexDigit_nibble: "unat w < 16 \<Longrightarrow> WriteHexDigit (ucast w) = hex_char (unat w)" for w :: "16 word"
  by (simp add: WriteHexDigit_def hex_char_def word_le_nat_alt unsigned_ucast_eq take_bit_nat_eq_self)

lemma WriteHex_digits:
  "WriteHex w False = [hex_char (unat w div 16 div 16 div 16 mod 16), hex_char (unat w div 16 div 16 mod 16), hex_char (unat w div 16 mod 16),
     hex_char (unat w mod 16)]"
  using nibble [of 12 w] nibble [of 8 w] nibble [of 4 w] nibble [of 0 w]
  by (simp add: WriteHex_def WriteHexDigit_nibble div_mult2_eq [symmetric])

lemma swap_bytes_bits: "swap_bytes w = take_bit 8 (drop_bit 8 w) OR push_bit 8 (take_bit 8 w)"
  by (simp add: swap_bytes_def low_bits)

lemma swap_bytes_twice [simp]: "swap_bytes (swap_bytes w) = w"
  unfolding swap_bytes_bits by (rule bit_word_eqI) (auto simp: bit_simps)

lemma swap_bytes_nibbles:
  "take_bit 4 (drop_bit 12 (swap_bytes w)) = take_bit 4 (drop_bit 4 w)" "take_bit 4 (drop_bit 8 (swap_bytes w)) = take_bit 4 w"
  "take_bit 4 (drop_bit 4 (swap_bytes w)) = take_bit 4 (drop_bit 12 w)" "take_bit 4 (swap_bytes w) = take_bit 4 (drop_bit 8 w)"
  unfolding swap_bytes_bits by (rule bit_word_eqI; auto simp: bit_simps)+

lemma WriteHex_reversed: "WriteHex w True = WriteHex (swap_bytes w) False"
  by (simp add: WriteHex_def low_bits swap_bytes_nibbles)

section \<open>Groups of four digits\<close>

lemma ucast_mod: "(word_of_int (m mod 2 ^ 64) :: 16 word) = word_of_int m"
  by transfer (simp add: take_bit_eq_mod mod_mod_cancel)

lemma ucast_step: "(ucast (x * 16 + ucast d :: 64 word) :: 16 word) = ucast x * 16 + ucast d" for d :: "32 word"
proof -
  have "uint (x * 16 + ucast d :: 64 word) = (uint x * 16 + uint d) mod 2 ^ 64"
    by (simp add: uint_word_ariths unsigned_ucast_eq take_bit_eq_mod mod_simps)
  then have "(ucast (x * 16 + ucast d :: 64 word) :: 16 word) = word_of_int (uint x * 16 + uint d)"
    using ucast_mod [of "uint x * 16 + uint d"] by (metis ucast_eq)
  then show ?thesis
    by (simp only: ucast_eq of_int_add of_int_mult of_int_numeral)
qed

lemma ucast_digit: "d < 16 \<Longrightarrow> (ucast (word_of_nat d :: 32 word) :: 16 word) = word_of_nat d"
  by (simp add: unsigned_of_nat take_bit_nat_eq_self)

lemma word4_steps:
  assumes "d1 < 16" "d2 < 16" "d3 < 16" "d4 < 16"
  shows "(((u * 16 + word_of_nat d1) * 16 + word_of_nat d2) * 16 + word_of_nat d3) * 16 + word_of_nat d4 = word4 d1 d2 d3 d4"
proof -
  have "(65536 :: 16 word) = 0"
    by simp
  then have "u * 65536 = 0"
    by (metis mult_zero_right)
  then show ?thesis
    by (simp add: word4_def algebra_simps)
qed

definition push_digit :: "64 word \<Rightarrow> nat \<Rightarrow> 64 word" where
  "push_digit v d = v * 16 + ucast (word_of_nat d :: 32 word)"

lemma parse_digit:
  assumes "short \<or> \<not> is_dash_place i" "hex_value c = Some d"
  shows "parse_digits short i v n dw (c # buf) =
    (if Suc n = 4 then parse_digits short (Suc i) (push_digit v d) 0 (dw @ [ucast (push_digit v d)]) buf
     else parse_digits short (Suc i) (push_digit v d) (Suc n) dw buf)"
proof -
  have "(\<not> short \<and> is_dash_place i) = False"
    using assms(1) by simp
  then show ?thesis
    using assms(2) by (simp only: parse_digits.simps GetDigit_value push_digit_def Let_def option.map option.case if_False)
qed

lemma parse_group:
  assumes "\<And>k. k < 4 \<Longrightarrow> short \<or> \<not> is_dash_place (i + k)"
    and "hex_value c1 = Some d1" "hex_value c2 = Some d2" "hex_value c3 = Some d3" "hex_value c4 = Some d4"
  shows "\<exists>v'. parse_digits short i v 0 dw (c1 # c2 # c3 # c4 # buf) = parse_digits short (i + 4) v' 0 (dw @ [word4 d1 d2 d3 d4]) buf"
proof -
  have p: "short \<or> \<not> is_dash_place i" "short \<or> \<not> is_dash_place (Suc i)" "short \<or> \<not> is_dash_place (Suc (Suc i))"
      "short \<or> \<not> is_dash_place (Suc (Suc (Suc i)))"
    using assms(1) [of 0] assms(1) [of 1] assms(1) [of 2] assms(1) [of 3] by (simp_all add: numeral_2_eq_2 numeral_3_eq_3)
  have d: "d1 < 16" "d2 < 16" "d3 < 16" "d4 < 16"
    using assms(2-5) hex_value_of(1) by blast+
  let ?v = "push_digit (push_digit (push_digit (push_digit v d1) d2) d3) d4"
  have "ucast ?v = word4 d1 d2 d3 d4"
    using word4_steps [OF d, of "ucast v"] d by (simp only: push_digit_def ucast_step ucast_digit)
  then have "parse_digits short i v 0 dw (c1 # c2 # c3 # c4 # buf) = parse_digits short (i + 4) ?v 0 (dw @ [word4 d1 d2 d3 d4]) buf"
    using p assms(2-5) by (simp add: parse_digit eval_nat_numeral del: parse_digits.simps)
  then show ?thesis
    by blast
qed

lemma parse_bad: "short \<or> \<not> is_dash_place i \<Longrightarrow> hex_value c = None \<Longrightarrow> parse_digits short i v n dw (c # buf) = None"
  by (auto simp: GetDigit_value)

lemma hex_div_mod: "d < 16 \<Longrightarrow> (x * 16 + d) div 16 = x" "d < 16 \<Longrightarrow> (x * 16 + d) mod 16 = d" for d :: nat
  by simp_all

lemma WriteHex_word4:
  assumes "a < 16" "b < 16" "c < 16" "d < 16"
  shows "WriteHex (word4 a b c d) False = [hex_char a, hex_char b, hex_char c, hex_char d]"
proof -
  have "((a * 16 + b) * 16 + c) * 16 + d < 65536"
    using assms by simp
  then have "unat (word4 a b c d) = ((a * 16 + b) * 16 + c) * 16 + d"
    unfolding word4_def unat_of_nat by simp
  then show ?thesis
    using assms by (simp only: WriteHex_digits hex_div_mod mod_less)
qed

lemma word4_nibbles: "word4 (unat w div 16 div 16 div 16 mod 16) (unat w div 16 div 16 mod 16) (unat w div 16 mod 16) (unat w mod 16) = w"
proof -
  have "unat w < 65536"
    using unsigned_less [where 'a = nat and w = w] by simp
  then have "unat w div 16 div 16 div 16 mod 16 = unat w div 16 div 16 div 16"
    by (simp add: div_mult2_eq [symmetric])
  then show ?thesis
    by (simp add: word4_def)
qed

lemma parse_group_of:
  assumes "\<And>k. k < 4 \<Longrightarrow> short \<or> \<not> is_dash_place (i + k)" "length cs = 4" "parse_digits short i v 0 dw (cs @ buf) = Some r"
  shows "\<exists>w v'. WriteHex w False = map lower cs \<and> parse_digits short (i + 4) v' 0 (dw @ [w]) buf = Some r"
proof -
  obtain c1 c2 c3 c4 where cs: "cs = [c1, c2, c3, c4]"
    using assms(2) by (auto simp: length_Suc_conv eval_nat_numeral)
  have p: "short \<or> \<not> is_dash_place i" "short \<or> \<not> is_dash_place (Suc i)" "short \<or> \<not> is_dash_place (Suc (Suc i))"
      "short \<or> \<not> is_dash_place (Suc (Suc (Suc i)))"
    using assms(1) [of 0] assms(1) [of 1] assms(1) [of 2] assms(1) [of 3] by (simp_all add: numeral_2_eq_2 numeral_3_eq_3)
  have r: "parse_digits short i v 0 dw (c1 # c2 # c3 # c4 # buf) = Some r"
    using assms(3) by (simp add: cs del: parse_digits.simps)
  then obtain d1 where 1: "hex_value c1 = Some d1"
    using parse_bad [OF p(1), of c1 v 0 dw] by fastforce
  then obtain d2 where 2: "hex_value c2 = Some d2"
    using r parse_digit [OF p(1) 1, of v 0 dw] parse_bad [OF p(2), of c2 "push_digit v d1"] by (cases "hex_value c2") simp_all
  then obtain d3 where 3: "hex_value c3 = Some d3"
    using r parse_digit [OF p(1) 1, of v 0 dw] parse_digit [OF p(2) 2] parse_bad [OF p(3), of c3] by (cases "hex_value c3") simp_all
  then obtain d4 where 4: "hex_value c4 = Some d4"
    using r parse_digit [OF p(1) 1, of v 0 dw] parse_digit [OF p(2) 2] parse_digit [OF p(3) 3] parse_bad [OF p(4), of c4]
    by (cases "hex_value c4") simp_all
  show ?thesis
    using parse_group [OF assms(1) 1 2 3 4, of v dw buf] r
      WriteHex_word4 [OF 1 [THEN hex_value_of(1)] 2 [THEN hex_value_of(1)] 3 [THEN hex_value_of(1)] 4 [THEN hex_value_of(1)]]
      1 [THEN hex_value_of(2)] 2 [THEN hex_value_of(2)] 3 [THEN hex_value_of(2)] 4 [THEN hex_value_of(2)]
    by (intro exI [where x = "word4 d1 d2 d3 d4"]) (auto simp: cs)
qed

lemma parse_WriteHex:
  assumes "\<And>k. k < 4 \<Longrightarrow> short \<or> \<not> is_dash_place (i + k)"
  shows "\<exists>v'. parse_digits short i v 0 dw (WriteHex w False @ buf) = parse_digits short (i + 4) v' 0 (dw @ [w]) buf"
  using parse_group [OF assms hex_value_char(1) hex_value_char(1) hex_value_char(1) hex_value_char(1), of "unat w div 16 div 16 div 16 mod 16"
      "unat w div 16 div 16 mod 16" "unat w div 16 mod 16" "unat w mod 16" v dw buf] by (simp add: WriteHex_digits word4_nibbles)

section \<open>The round trip\<close>

lemma parse_dash: "is_dash_place i \<Longrightarrow> parse_digits False i v n dw (c # buf) = (if c = CHR ''-'' then parse_digits False (Suc i) v n dw buf else None)"
  by simp

lemma take_four:
  assumes "4 \<le> length s"
  obtains a b where "s = a @ b" "length a = 4" "length b = length s - 4"
  using that [of "take 4 s" "drop 4 s"] assms by simp

definition uuid_text :: "16 word list \<Rightarrow> string" where
  "uuid_text ws = WriteHex (ws ! 0) False @ WriteHex (ws ! 1) False @ ''-'' @ WriteHex (ws ! 2) False @ ''-'' @ WriteHex (ws ! 3) False @ ''-'' @
     WriteHex (ws ! 4) False @ ''-'' @ WriteHex (ws ! 5) False @ WriteHex (ws ! 6) False @ WriteHex (ws ! 7) False"

definition parses :: "nat \<Rightarrow> 16 word list \<Rightarrow> string \<Rightarrow> 16 word list \<Rightarrow> bool" where
  "parses i dw buf r \<longleftrightarrow> (\<forall>v. parse_digits False i v 0 dw buf = Some r)"

lemma no_dash: "i \<in> {0, 4, 9, 14, 19, 24, 28, 32} \<Longrightarrow> k < 4 \<Longrightarrow> False \<or> \<not> is_dash_place (i + k)"
  by (auto simp: is_dash_place_def)

lemma parses_group: "i \<in> {0, 4, 9, 14, 19, 24, 28, 32} \<Longrightarrow> parses (i + 4) (dw @ [w]) buf r \<Longrightarrow> parses i dw (WriteHex w False @ buf) r"
  unfolding parses_def using parse_WriteHex [OF no_dash] by metis

lemma parses_dash: "is_dash_place i \<Longrightarrow> parses (Suc i) dw buf r \<Longrightarrow> parses i dw (''-'' @ buf) r"
  by (simp add: parses_def parse_dash)

lemma parse_uuid_text:
  assumes "length ws = 8"
  shows "parses 0 [] (uuid_text ws) ws"
proof -
  obtain w0 w1 w2 w3 w4 w5 w6 w7 where ws: "ws = [w0, w1, w2, w3, w4, w5, w6, w7]"
    using assms by (auto simp: length_Suc_conv eval_nat_numeral)
  have "parses 36 ([] @ [w0] @ [w1] @ [w2] @ [w3] @ [w4] @ [w5] @ [w6] @ [w7]) [] ws"
    by (simp add: parses_def ws)
  then have "parses 0 [] (WriteHex w0 False @ WriteHex w1 False @ ''-'' @ WriteHex w2 False @ ''-'' @ WriteHex w3 False @ ''-'' @
      WriteHex w4 False @ ''-'' @ WriteHex w5 False @ WriteHex w6 False @ WriteHex w7 False @ []) ws"
    by (intro parses_group parses_dash) (simp_all add: is_dash_place_def)
  then show ?thesis
    by (simp add: uuid_text_def ws)
qed

lemma parse_group_at:
  assumes "parse_digits False i v 0 dw buf = Some r" "i \<in> {0, 4, 9, 14, 19, 24, 28, 32}" "4 \<le> length buf"
  shows "\<exists>w v' buf'. map lower buf = WriteHex w False @ map lower buf' \<and> length buf' = length buf - 4 \<and>
    parse_digits False (i + 4) v' 0 (dw @ [w]) buf' = Some r"
proof -
  obtain a b where ab: "buf = a @ b" "length a = 4" "length b = length buf - 4"
    using assms(3) by (rule take_four)
  have "\<exists>w v'. WriteHex w False = map lower a \<and> parse_digits False (i + 4) v' 0 (dw @ [w]) b = Some r"
    using assms(1) ab(1) by (intro parse_group_of [OF no_dash [OF assms(2)] ab(2)]) simp_all
  then show ?thesis
    using ab by force
qed

lemma parse_dash_at:
  assumes "parse_digits False i v 0 dw buf = Some r" "is_dash_place i" "0 < length buf"
  shows "\<exists>buf'. map lower buf = ''-'' @ map lower buf' \<and> length buf' = length buf - 1 \<and> parse_digits False (Suc i) v 0 dw buf' = Some r"
  using assms by (cases buf) (auto simp: lower_def split: if_splits)

lemma uuid_text_parsed:
  assumes "parse_digits False 0 v 0 [] s = Some ws" "length s = 36"
  shows "length ws = 8 \<and> map lower s = uuid_text ws"
proof -
  obtain w0 v0 s0 where 0: "map lower s = WriteHex w0 False @ map lower s0" "length s0 = 32" "parse_digits False 4 v0 0 [w0] s0 = Some ws"
    using parse_group_at [OF assms(1)] assms(2) by auto
  obtain w1 v1 s1 where 1: "map lower s0 = WriteHex w1 False @ map lower s1" "length s1 = 28" "parse_digits False 8 v1 0 [w0, w1] s1 = Some ws"
    using parse_group_at [OF 0(3)] 0(2) by auto
  obtain s2 where 2: "map lower s1 = ''-'' @ map lower s2" "length s2 = 27" "parse_digits False 9 v1 0 [w0, w1] s2 = Some ws"
    using parse_dash_at [OF 1(3)] 1(2) by (auto simp: is_dash_place_def)
  obtain w2 v2 s3 where 3: "map lower s2 = WriteHex w2 False @ map lower s3" "length s3 = 23" "parse_digits False 13 v2 0 [w0, w1, w2] s3 = Some ws"
    using parse_group_at [OF 2(3)] 2(2) by auto
  obtain s4 where 4: "map lower s3 = ''-'' @ map lower s4" "length s4 = 22" "parse_digits False 14 v2 0 [w0, w1, w2] s4 = Some ws"
    using parse_dash_at [OF 3(3)] 3(2) by (auto simp: is_dash_place_def)
  obtain w3 v3 s5 where 5: "map lower s4 = WriteHex w3 False @ map lower s5" "length s5 = 18" "parse_digits False 18 v3 0 [w0, w1, w2, w3] s5 = Some ws"
    using parse_group_at [OF 4(3)] 4(2) by auto
  obtain s6 where 6: "map lower s5 = ''-'' @ map lower s6" "length s6 = 17" "parse_digits False 19 v3 0 [w0, w1, w2, w3] s6 = Some ws"
    using parse_dash_at [OF 5(3)] 5(2) by (auto simp: is_dash_place_def)
  obtain w4 v4 s7 where 7: "map lower s6 = WriteHex w4 False @ map lower s7" "length s7 = 13" "parse_digits False 23 v4 0 [w0, w1, w2, w3, w4] s7 = Some ws"
    using parse_group_at [OF 6(3)] 6(2) by auto
  obtain s8 where 8: "map lower s7 = ''-'' @ map lower s8" "length s8 = 12" "parse_digits False 24 v4 0 [w0, w1, w2, w3, w4] s8 = Some ws"
    using parse_dash_at [OF 7(3)] 7(2) by (auto simp: is_dash_place_def)
  obtain w5 v5 s9 where 9: "map lower s8 = WriteHex w5 False @ map lower s9" "length s9 = 8" "parse_digits False 28 v5 0 [w0, w1, w2, w3, w4, w5] s9 = Some ws"
    using parse_group_at [OF 8(3)] 8(2) by auto
  obtain w6 v6 s10 where 10: "map lower s9 = WriteHex w6 False @ map lower s10" "length s10 = 4"
      "parse_digits False 32 v6 0 [w0, w1, w2, w3, w4, w5, w6] s10 = Some ws"
    using parse_group_at [OF 9(3)] 9(2) by auto
  obtain w7 where 11: "map lower s10 = WriteHex w7 False" "ws = [w0, w1, w2, w3, w4, w5, w6, w7]"
    using parse_group_at [OF 10(3)] 10(2) by auto
  show ?thesis
    using 0(1) 1(1) 2(1) 3(1) 4(1) 5(1) 6(1) 7(1) 8(1) 9(1) 10(1) 11 by (simp add: uuid_text_def)
qed

text \<open>The texts that are accepted: dashes in their places and hexadecimal digits elsewhere.\<close>

fun digit_form :: "bool \<Rightarrow> nat \<Rightarrow> string \<Rightarrow> bool" where
  "digit_form short i [] = True"
| "digit_form short i (c # buf) =
     ((if \<not> short \<and> is_dash_place i then c = CHR ''-'' else hex_value c \<noteq> None) \<and> digit_form short (Suc i) buf)"

lemma parse_digits_form: "parse_digits short i v n dw buf = None \<longleftrightarrow> \<not> digit_form short i buf"
proof (induction buf arbitrary: i v n dw)
  case (Cons c buf)
  show ?case
  proof (cases "\<not> short \<and> is_dash_place i")
    case True
    then show ?thesis
      using Cons by (simp add: parse_dash del: parse_digits.simps)
  next
    case False
    then show ?thesis
      using Cons parse_bad [of short i c] parse_digit [of short i c] by (cases "hex_value c") (auto simp del: parse_digits.simps)
  qed
qed simp

lemma words_bits:
  "bit (words_half [w0, w1, w2, w3]) n \<longleftrightarrow>
     (if n < 16 then bit w0 n else if n < 32 then bit w1 (n - 16) else if n < 48 then bit w2 (n - 32) else n < 64 \<and> bit w3 (n - 48))"
proof -
  have b: "bit w k \<Longrightarrow> k < 16" for w :: "16 word" and k
    using bit_imp_le_length by fastforce
  show ?thesis
    by (auto simp: words_half_def bit_simps dest: b)
qed

lemma half_words_half:
  assumes "length ws = 4"
  shows "half_words (words_half ws) = ws"
proof -
  obtain w0 w1 w2 w3 where ws: "ws = [w0, w1, w2, w3]"
    using assms by (auto simp: length_Suc_conv eval_nat_numeral)
  have "ucast (words_half ws) = w0" "ucast (drop_bit 16 (words_half ws)) = w1" "ucast (drop_bit 32 (words_half ws)) = w2"
      "ucast (drop_bit 48 (words_half ws)) = w3"
    unfolding ws by (rule bit_word_eqI; simp add: bit_simps words_bits)+
  then show ?thesis
    by (simp add: half_words_def ws upt_rec)
qed

lemma words_half_words: "words_half (half_words h) = h"
  by (rule bit_word_eqI, simp add: half_words_def upt_rec words_bits bit_simps, auto)

text \<open>The order of the words and bytes in the array.\<close>

definition array_order :: "16 word list \<Rightarrow> 16 word list" where
  "array_order dw = [dw ! 1, dw ! 0, dw ! 2, dw ! 3] @ map swap_bytes (drop 4 dw)"

lemma array_order_twice: "length dw = 8 \<Longrightarrow> array_order (array_order dw) = dw"
  by (auto simp: array_order_def length_Suc_conv eval_nat_numeral)

lemma UuidToString_text: "length dw = 8 \<Longrightarrow> UuidToString dw = uuid_text (array_order dw)"
  by (auto simp: UuidToString_def uuid_text_def array_order_def WriteHex_reversed length_Suc_conv eval_nat_numeral)

lemma length_uuid_text: "length (uuid_text ws) = 36"
  by (simp add: uuid_text_def WriteHex_digits)

lemma ParseUuidToArray_long:
  "ParseUuidToArray s False = (if length s = 36 \<and> digit_form False 0 s then map_option array_order (parse_digits False 0 0 0 [] s) else None)"
  using parse_digits_form [of False 0 0 0 "[]" s] by (cases "parse_digits False 0 0 0 [] s") (auto simp: ParseUuidToArray_def array_order_def)

lemma length_half_words [simp]: "length (half_words h) = 4"
  by (simp add: half_words_def)

lemma uuid_of_text: "uuid_of_string (uuid_string u) = Inr u"
proof -
  let ?dw = "half_words (Half0 u) @ half_words (Half1 u)"
  have l: "length (array_order ?dw) = 8"
    by (simp add: array_order_def)
  have "parse_digits False 0 0 0 [] (uuid_text (array_order ?dw)) = Some (array_order ?dw)"
    using parse_uuid_text [OF l] by (simp add: parses_def)
  then have "ParseUuidToArray (uuid_string u) False = Some ?dw"
    using parse_digits_form [of False 0 0 0 "[]" "uuid_text (array_order ?dw)"] array_order_twice [of ?dw]
    by (simp add: ParseUuidToArray_long uuid_string_def UuidToString_text length_uuid_text)
  then show ?thesis
    by (simp add: uuid_of_string_def words_half_words)
qed

lemma text_of_uuid:
  assumes "uuid_of_string s = Inr u"
  shows "uuid_string u = map lower s"
proof -
  obtain ws where ws: "parse_digits False 0 0 0 [] s = Some ws" "length s = 36"
      "u = \<lparr>Half0 = words_half (take 4 (array_order ws)), Half1 = words_half (drop 4 (array_order ws))\<rparr>"
    using assms by (auto simp: uuid_of_string_def ParseUuidToArray_long split: option.splits if_splits)
  have l: "length ws = 8" "map lower s = uuid_text ws"
    using uuid_text_parsed [OF ws(1,2)] by simp_all
  then have "length (array_order ws) = 8"
    by (simp add: array_order_def)
  then show ?thesis
    using l array_order_twice [OF l(1)] by (simp add: ws(3) uuid_string_def half_words_half UuidToString_text)
qed

text \<open>
  C31. The text of a UUID: parsing the printed text of any 128 bits gives these bits; a text is accepted exactly if it has 36 characters
  with dashes in four places and hexadecimal digits in the others, any other text is a contract violation; printing
  an accepted text gives it in lower case.
\<close>

theorem uuid_text_exact:
  "uuid_of_string (uuid_string u) = Inr u \<and>
   (case uuid_of_string s of
      Inr w \<Rightarrow> length s = 36 \<and> digit_form False 0 s \<and> uuid_string w = map lower s
    | Inl e \<Rightarrow> e = FatalError \<and> \<not> (length s = 36 \<and> digit_form False 0 s))"
proof -
  have "case uuid_of_string s of Inr w \<Rightarrow> length s = 36 \<and> digit_form False 0 s | Inl e \<Rightarrow> e = FatalError \<and> \<not> (length s = 36 \<and> digit_form False 0 s)"
    by (auto simp: uuid_of_string_def ParseUuidToArray_long parse_digits_form split: option.splits if_splits)
  then show ?thesis
    using uuid_of_text text_of_uuid [of s] by (auto split: sum.splits)
qed

text \<open>\<^verbatim>\<open>IsValidUuid\<close> accepts every text that can be parsed, and some that cannot.\<close>

lemma valid_but_not_parsed: "IsValidUuid (replicate 36 CHR ''0'')" "ParseUuidToArray (replicate 36 CHR ''0'') False = None"
  by code_simp+

section \<open>Bytes\<close>

lemma bytes_bits: "bit (bytes_half bs) n \<longleftrightarrow> n < 64 \<and> n div 8 < length bs \<and> bit (bs ! (n div 8)) (n mod 8)"
proof (induction bs arbitrary: n)
  case (Cons b bs)
  have short: "bit b n \<Longrightarrow> n < 8"
    using bit_imp_le_length by fastforce
  have "bit (bytes_half (b # bs)) n \<longleftrightarrow> n < 64 \<and> (bit b n \<or> 8 \<le> n \<and> bit (bytes_half bs) (n - 8))"
    by (auto simp: bytes_half_def bit_simps dest: bit_imp_le_length)
  moreover have "8 \<le> n \<Longrightarrow> n div 8 = Suc ((n - 8) div 8) \<and> n mod 8 = (n - 8) mod 8"
    by (simp add: le_div_geq le_mod_geq)
  ultimately show ?case
    using short Cons.IH [of "n - 8"] by (cases "n < 8") auto
qed (simp add: bytes_half_def)

lemma bytes_half_bytes: "bytes_half (half_bytes h) = h"
proof (rule bit_word_eqI)
  fix n
  assume n: "n < LENGTH(64)"
  then have k: "n div 8 < 8"
    by simp
  then have "half_bytes h ! (n div 8) = ucast (drop_bit (8 * (n div 8)) h)"
    by (simp add: half_bytes_def del: upt_Suc)
  then show "bit (bytes_half (half_bytes h)) n = bit h n"
    using n k by (simp add: bytes_bits bit_simps) (simp add: half_bytes_def)
qed

lemma words_of_bytes: "bytes_words (half_bytes low @ half_bytes hi) = half_words low @ half_words hi"
proof -
  have word: "ucast (ucast (drop_bit k h) :: 8 word) OR push_bit 8 (ucast (ucast (drop_bit (k + 8) h) :: 8 word)) = (ucast (drop_bit k h) :: 16 word)"
    for h :: "64 word" and k
    by (rule bit_word_eqI) (auto simp: bit_simps)
  show ?thesis
    using word [of 0] word [of 16] word [of 32] word [of 48] by (simp add: bytes_words_def half_bytes_def half_words_def upt_rec)
qed

text \<open>The bytes of a UUID give back its halves, and its text.\<close>

lemma uuid_bytes_roundtrip:
  "UuidHalfsToBytes 16 hi low = Some (UuidHalfsToByteString low hi)"
  "UuidBytesToHalfs (UuidHalfsToByteString low hi) = Some (hi, low)"
  "UuidBytesToString (UuidHalfsToByteString low hi) = Some (UuidHalfsToString low hi)"
proof -
  have len: "length (half_bytes h) = 8" for h
    by (simp add: half_bytes_def)
  then show "UuidHalfsToBytes 16 hi low = Some (UuidHalfsToByteString low hi)"
      "UuidBytesToHalfs (UuidHalfsToByteString low hi) = Some (hi, low)"
      "UuidBytesToString (UuidHalfsToByteString low hi) = Some (UuidHalfsToString low hi)"
    by (simp_all add: UuidHalfsToBytes_def UuidHalfsToByteString_def UuidBytesToHalfs_def UuidBytesToString_def UuidHalfsToString_def
        bytes_half_bytes words_of_bytes)
qed

end
