(* ===== verification/Decimal.thy ===== *)
theory Decimal
  imports Values
begin

text \<open>
  The text of decimals, \<^verbatim>\<open>src/library/decimal/yql_decimal.{h,cpp}\<close>, and \<^verbatim>\<open>TDecimalValue\<close> of \<^verbatim>\<open>src/client/value/value.cpp\<close>. A decimal
  is a 128-bit number, read as a signed one, that counts units of \<open>10\<close> to the power of minus the scale; three
  numbers from \<open>10 ^ 35\<close> on stand for infinity, no number and an error. The text is printed from the right into a buffer of 40 bytes.
\<close>

unbundle bit_operations_syntax

section \<open>The numbers\<close>

type_synonym int128 = "128 word"

definition MaxPrecision :: nat where "MaxPrecision = 35"

definition DecimalInf :: int128 where
  "DecimalInf = 100000000000000000 * 1000000000000000000"

definition DecimalNan :: int128 where
  "DecimalNan = DecimalInf + 1"

definition DecimalErr :: int128 where
  "DecimalErr = DecimalNan + 1"

definition IsError :: "int128 \<Rightarrow> bool" where
  "IsError v \<longleftrightarrow> sint v > sint DecimalNan \<or> sint v < sint (- DecimalInf)"

definition IsNan :: "int128 \<Rightarrow> bool" where
  "IsNan v \<longleftrightarrow> v = DecimalNan"

definition IsInf :: "int128 \<Rightarrow> bool" where
  "IsInf v \<longleftrightarrow> v = DecimalInf \<or> v = - DecimalInf"

definition IsNormal :: "int128 \<Rightarrow> bool" where
  "IsNormal v \<longleftrightarrow> sint v < sint DecimalInf \<and> sint v > sint (- DecimalInf)"

fun GetDivider :: "nat \<Rightarrow> 128 word" where
  "GetDivider 0 = 1"
| "GetDivider (Suc scale) = GetDivider scale * 10"

section \<open>Printing\<close>

definition digit_char :: "nat \<Rightarrow> char" where
  "digit_char d = ''0123456789'' ! d"

text \<open>What the loop over the digits ends with: the text so far, the rest of the precision and of the scale; or too many digits.\<close>

fun print_digits :: "128 word \<Rightarrow> nat \<Rightarrow> nat \<Rightarrow> string \<Rightarrow> (string \<times> nat \<times> nat) option" where
  "print_digits v 0 scale s = None"
| "print_digits v (Suc precision) scale s =
     (let digit = unat (v mod 10);
          s = (if digit \<noteq> 0 \<or> scale = 0 \<or> s \<noteq> [] then digit_char digit # s else s);
          (scale, s) = (if scale \<noteq> 0 then (scale - 1, if scale - 1 = 0 \<and> s \<noteq> [] then CHR ''.'' # s else s) else (scale, s));
          v = v div 10
      in if v \<noteq> 0 then print_digits v precision scale s else Some (s, precision, scale))"

fun pad_zeros :: "nat \<Rightarrow> nat \<Rightarrow> string \<Rightarrow> string option" where
  "pad_zeros precision 0 s = Some s"
| "pad_zeros 0 (Suc scale) s = None"
| "pad_zeros (Suc precision) (Suc scale) s = pad_zeros precision scale (CHR ''0'' # s)"

text \<open>The null pointer is \<open>None\<close>.\<close>

definition DecimalToString :: "int128 \<Rightarrow> 8 word \<Rightarrow> 8 word \<Rightarrow> string option" where
  "DecimalToString val precision scale =
     (if precision = 0 \<or> unat precision > MaxPrecision \<or> scale > precision then Some []
      else if val = DecimalInf then Some ''inf''
      else if val = - DecimalInf then Some ''-inf''
      else if val = DecimalNan then Some ''nan''
      else if \<not> IsNormal val then None
      else if val = 0 then Some ''0''
      else
        let neg = sint val < 0;
            v = (if neg then - val else val)
        in case print_digits v (unat precision) (unat scale) [] of
             None \<Rightarrow> Some []
           | Some (s, precision, scale) \<Rightarrow>
               (case if scale \<noteq> 0 then map_option ((#) CHR ''.'') (pad_zeros precision scale s) else Some s of
                  None \<Rightarrow> None
                | Some s \<Rightarrow>
                    let s = (if hd s = CHR ''.'' then CHR ''0'' # s else s)
                    in Some (if neg then CHR ''-'' # s else s)))"

section \<open>Parsing\<close>

definition isdigit :: "char \<Rightarrow> bool" where
  "isdigit c \<longleftrightarrow> 48 \<le> (of_char c :: nat) \<and> (of_char c :: nat) \<le> 57"

definition dec_digit :: "char \<Rightarrow> nat" where
  "dec_digit c = of_char c - 48"

definition is_nan_text :: "string \<Rightarrow> bool" where
  "is_nan_text s \<longleftrightarrow> s ! 0 \<in> {CHR ''N'', CHR ''n''} \<and> s ! 1 \<in> {CHR ''A'', CHR ''a''} \<and> s ! 2 \<in> {CHR ''N'', CHR ''n''}"

definition is_inf_text :: "string \<Rightarrow> bool" where
  "is_inf_text s \<longleftrightarrow> s ! 0 \<in> {CHR ''I'', CHR ''i''} \<and> s ! 1 \<in> {CHR ''N'', CHR ''n''} \<and> s ! 2 \<in> {CHR ''F'', CHR ''f''}"

text \<open>How the loop over the digits ends: with an error, with more digits than fit before the dot, or with the rest of the scale, the number and
  the digits after the last one that counts.\<close>

datatype digits_read = BadDigit | TooLarge | DigitsRead nat "128 word" string

fun read_digits :: "bool \<Rightarrow> nat \<Rightarrow> nat \<Rightarrow> 128 word \<Rightarrow> string \<Rightarrow> digits_read" where
  "read_digits dot scale integral v [] = DigitsRead scale v []"
| "read_digits dot scale integral v (c # s) =
     (if c = CHR ''.'' then (if dot then BadDigit else read_digits True scale integral v s)
      else if dot \<and> scale = 0 then DigitsRead scale v (c # s)
      else
        let scale = (if dot then scale - 1 else scale) in
        if \<not> isdigit c then BadDigit
        else
          let v = v * 10 + word_of_nat (dec_digit c) in
          if \<not> dot \<and> v > 0 then
            (if integral = 0 then TooLarge else read_digits dot scale (integral - 1) v s)
          else read_digits dot scale integral v s)"

text \<open>The digits after a five, until one of them is not zero.\<close>

fun after_five :: "bool \<Rightarrow> string \<Rightarrow> (bool \<times> string) option" where
  "after_five up [] = Some (up, [])"
| "after_five up (c # s) =
     (if up then Some (up, c # s) else if \<not> isdigit c then None else after_five (c \<noteq> CHR ''0'') s)"

definition round_digits :: "nat \<Rightarrow> 128 word \<Rightarrow> string \<Rightarrow> 128 word option" where
  "round_digits precision v rest =
     (case rest of
        [] \<Rightarrow> Some v
      | c # s \<Rightarrow>
          if \<not> isdigit c then None
          else case if c = CHR ''5'' then after_five (v AND 1 \<noteq> 0) s else Some (dec_digit c > 5, s) of
                 None \<Rightarrow> None
               | Some (up, s) \<Rightarrow>
                   if \<not> list_all isdigit s then None
                   else if up then Some (if v + 1 \<ge> GetDivider precision then DecimalInf else v + 1)
                   else Some v)"

definition DecimalFromString :: "string \<Rightarrow> 8 word \<Rightarrow> 8 word \<Rightarrow> int128" where
  "DecimalFromString str precision scale =
     (if scale > precision \<or> str = [] then DecimalErr
      else
        let neg = (hd str = CHR ''-'');
            s = (if neg \<or> hd str = CHR ''+'' then tl str else str)
        in if length s = 3 \<and> is_inf_text s then (if neg then - DecimalInf else DecimalInf)
           else if length s = 3 \<and> is_nan_text s then DecimalNan
           else case read_digits False (unat scale) (unat precision - unat scale) 0 s of
               BadDigit \<Rightarrow> DecimalErr
             | TooLarge \<Rightarrow> (if neg then - DecimalInf else DecimalInf)
             | DigitsRead scale v rest \<Rightarrow>
                 (case round_digits (unat precision) v rest of
                    None \<Rightarrow> DecimalErr
                  | Some v \<Rightarrow> let v = v * GetDivider scale in if neg then - v else v))"

fun valid_digits :: "bool \<Rightarrow> string \<Rightarrow> bool" where
  "valid_digits dot [] = True"
| "valid_digits dot (c # s) =
     (if c = CHR ''.'' then \<not> dot \<and> valid_digits True s else isdigit c \<and> valid_digits dot s)"

definition DecimalIsValid :: "string \<Rightarrow> bool" where
  "DecimalIsValid str =
     (if str = [] then False
      else let s = (if hd str = CHR ''-'' \<or> hd str = CHR ''+'' then tl str else str)
           in length s = 3 \<and> (is_inf_text s \<or> is_nan_text s) \<or> valid_digits False s)"

section \<open>Decimal values\<close>

definition FromHalfs :: "64 word \<Rightarrow> 64 word \<Rightarrow> int128" where
  "FromHalfs lo hi = ucast lo OR push_bit 64 (ucast hi)"

definition decimal_of_string :: "string \<Rightarrow> 8 word \<Rightarrow> 8 word \<Rightarrow> TDecimalValue" where
  "decimal_of_string decimalString precision scale =
     (let val = DecimalFromString decimalString precision scale
      in \<lparr>DecimalValueType = \<lparr>Precision = precision, Scale = scale\<rparr>, LowHalf = ucast val, HiHalf = ucast (drop_bit 64 val)\<rparr>)"

definition decimal_string :: "TDecimalValue \<Rightarrow> string option" where
  "decimal_string d =
     DecimalToString (FromHalfs (LowHalf d) (HiHalf d)) (Precision (DecimalValueType d)) (Scale (DecimalValueType d))"

section \<open>Numbers of digits\<close>

fun dec_value :: "nat \<Rightarrow> string \<Rightarrow> nat" where
  "dec_value n [] = n"
| "dec_value n (c # s) = dec_value (n * 10 + dec_digit c) s"

lemma dec_value_acc: "dec_value n s = n * 10 ^ length s + dec_value 0 s"
proof (induction s arbitrary: n)
  case (Cons c s)
  show ?case
    using Cons [of "n * 10 + dec_digit c"] Cons [of "dec_digit c"] by (simp add: algebra_simps)
qed simp

lemma dec_value_append: "dec_value n (s @ t) = dec_value (dec_value n s) t"
  by (induction s arbitrary: n) simp_all

lemma dec_digit_less: "isdigit c \<Longrightarrow> dec_digit c \<le> 9"
  by (auto simp: isdigit_def dec_digit_def)

lemma dec_value_less: "list_all isdigit s \<Longrightarrow> dec_value 0 s < 10 ^ length s"
proof (induction s)
  case (Cons c s)
  then have "dec_value 0 s < 10 ^ length s" "dec_digit c \<le> 9"
    by (simp_all add: dec_digit_less)
  then have "dec_digit c * 10 ^ length s + dec_value 0 s < 9 * 10 ^ length s + 10 ^ length s"
    by (intro add_le_less_mono mult_le_mono1)
  then show ?case
    using dec_value_acc [of "dec_digit c" s] by simp
qed simp

lemma dec_value_grows: "n \<le> dec_value n s"
  using dec_value_acc [of n s] by (metis le_add1 mult.right_neutral mult_le_mono2 one_le_numeral one_le_power order_trans)

lemma unat_128: "n < 2 ^ 128 \<Longrightarrow> unat (word_of_nat n :: 128 word) = n"
  by (simp add: unat_of_nat)

lemma word_128_positive: "n < 2 ^ 128 \<Longrightarrow> (word_of_nat n :: 128 word) > 0 \<longleftrightarrow> 0 < n"
  by (simp add: word_less_nat_alt unat_of_nat)

lemma word_128_step: "(word_of_nat n :: 128 word) * 10 + word_of_nat d = word_of_nat (n * 10 + d)"
  by simp

lemma power_35: "k \<le> 35 \<Longrightarrow> (10 :: nat) ^ k \<le> 10 ^ 35"
  by (rule power_increasing) simp_all

lemma small_128: "n < 10 ^ 36 \<Longrightarrow> n < (2 :: nat) ^ 128"
  by simp

section \<open>What the parser computes\<close>

lemma read_step:
  assumes "isdigit c" "n * 10 + dec_digit c < 10 ^ 36"
  shows "read_digits False sc j (word_of_nat n) (c # s) =
    (if 0 < n * 10 + dec_digit c then
       (if j = 0 then TooLarge else read_digits False sc (j - 1) (word_of_nat (n * 10 + dec_digit c)) s)
     else read_digits False sc j (word_of_nat (n * 10 + dec_digit c)) s)"
proof -
  have "c \<noteq> CHR ''.''"
    using assms(1) by (auto simp: isdigit_def)
  then show ?thesis
    using assms(1) word_128_positive [OF small_128 [OF assms(2)]]
    by (simp only: read_digits.simps word_128_step Let_def if_False if_True simp_thms)
qed

lemma read_integral:
  assumes "list_all isdigit ds" "I \<le> 35" "j \<le> I" "n < 10 ^ (I - j)" "j < I \<Longrightarrow> 10 ^ (I - j - 1) \<le> n"
  shows "(10 ^ I \<le> dec_value n ds \<longrightarrow> read_digits False sc j (word_of_nat n) (ds @ rest) = TooLarge) \<and>
    (dec_value n ds < 10 ^ I \<longrightarrow> (\<exists>j'. read_digits False sc j (word_of_nat n) (ds @ rest) = read_digits False sc j' (word_of_nat (dec_value n ds)) rest))"
  using assms
proof (induction ds arbitrary: n j)
  case Nil
  have "(10 :: nat) ^ (I - j) \<le> 10 ^ I"
    by (rule power_increasing) simp_all
  with Nil.prems(4) have "n < 10 ^ I"
    by (rule less_le_trans)
  then show ?case
    by auto
next
  case (Cons c ds)
  let ?n = "n * 10 + dec_digit c"
  have d: "isdigit c" "dec_digit c \<le> 9" "list_all isdigit ds"
    using Cons.prems(1) dec_digit_less by auto
  have "(10 :: nat) ^ (I - j) \<le> 10 ^ 35"
    using Cons.prems(2) by (intro power_35) simp
  then have n: "?n < 10 ^ 36" "?n < 10 ^ (Suc I - j)"
    using Cons.prems(3,4) d(2) by (simp_all add: Suc_diff_le)
  show ?case
  proof (cases "0 < ?n \<and> 0 < j")
    case True
    have "(10 :: nat) ^ (I - j) \<le> ?n"
    proof (cases "j < I")
      case True
      then have "(10 :: nat) ^ (I - j) = 10 ^ (I - j - 1) * 10"
        by (metis Suc_diff_1 power_Suc2 zero_less_diff)
      then show ?thesis
        using Cons.prems(5) True by simp
    next
      case False
      then have "I - j = 0"
        by simp
      then show ?thesis
        using \<open>0 < ?n \<and> 0 < j\<close> by (simp only: power_0 One_nat_def Suc_le_eq)
    qed
    moreover have "I - (j - 1) = Suc I - j" "I - (j - 1) - 1 = I - j"
      using True by linarith+
    ultimately have "j - 1 < I \<Longrightarrow> 10 ^ (I - (j - 1) - 1) \<le> ?n" "?n < 10 ^ (I - (j - 1))"
      using n(2) by (simp_all only:)
    then show ?thesis
      using Cons.IH [OF d(3) Cons.prems(2), of "j - 1" ?n] Cons.prems(3) True read_step [OF d(1) n(1), of sc j "ds @ rest"] by (simp del: read_digits.simps)
  next
    case False
    then consider "?n = 0" | "j = 0" "0 < ?n"
      by (meson neq0_conv)
    then show ?thesis
    proof cases
      case 1
      then have "j = I"
        using Cons.prems(3,5) by (cases "j < I") simp_all
      then show ?thesis
        using 1 Cons.IH [OF d(3) Cons.prems(2,3), of ?n] read_step [OF d(1) n(1), of sc j "ds @ rest"] by (simp del: read_digits.simps)
    next
      case 2
      have "10 ^ I \<le> ?n"
      proof (cases I)
        case (Suc i)
        then show ?thesis
          using Cons.prems(5) 2(1) by simp
      qed (use 2(2) in \<open>simp only: power_0 One_nat_def Suc_le_eq\<close>)
      then have "10 ^ I \<le> dec_value ?n ds"
        using dec_value_grows order_trans by blast
      then show ?thesis
        using 2 read_step [OF d(1) n(1), of sc j "ds @ rest"] by (simp del: read_digits.simps)
    qed
  qed
qed

lemma read_fraction:
  assumes "list_all isdigit fs"
  shows "read_digits True sc j (word_of_nat n) fs =
    DigitsRead (sc - length fs) (word_of_nat (dec_value n (take sc fs))) (drop sc fs)"
  using assms
proof (induction fs arbitrary: sc n)
  case (Cons c fs)
  have "c \<noteq> CHR ''.''"
    using Cons.prems by (auto simp: isdigit_def)
  then show ?case
    using Cons.prems Cons.IH [of "sc - 1" "n * 10 + dec_digit c"]
    by (cases sc) (simp_all only: read_digits.simps word_128_step Let_def if_False if_True simp_thms list.pred_inject
      take_Suc_Cons drop_Suc_Cons dec_value.simps length_Cons diff_Suc_Suc diff_Suc_1 take0 drop0 nat.simps diff_0_eq_0)
qed simp

definition round_half_even :: "nat \<Rightarrow> nat \<Rightarrow> nat" where
  "round_half_even a b = (let q = a div b; r = a mod b in if 2 * r < b \<or> 2 * r = b \<and> even q then q else q + 1)"

lemma dec_digit_zero: "isdigit c \<Longrightarrow> dec_digit c = 0 \<longleftrightarrow> c = CHR ''0''"
proof -
  have "(of_char c :: nat) = 48 \<longleftrightarrow> (of_char c :: nat) = of_char CHR ''0''"
    by simp
  then show "isdigit c \<Longrightarrow> dec_digit c = 0 \<longleftrightarrow> c = CHR ''0''"
    unfolding of_char_eq_iff isdigit_def dec_digit_def by linarith
qed

lemma dec_value_zero: "list_all isdigit s \<Longrightarrow> dec_value 0 s = 0 \<longleftrightarrow> list_all (\<lambda>c. c = CHR ''0'') s"
proof (induction s)
  case (Cons c s)
  have "dec_digit c = 0 \<longleftrightarrow> c = CHR ''0''"
    using Cons.prems by (simp add: dec_digit_zero)
  then show ?case
    using Cons dec_value_acc [of "dec_digit c" s] by auto
qed simp

lemma after_five_digits:
  assumes "list_all isdigit s"
  shows "\<exists>s'. after_five up s = Some (up \<or> 0 < dec_value 0 s, s') \<and> list_all isdigit s'"
  using assms
proof (induction s arbitrary: up)
  case (Cons c s)
  have "dec_digit c = 0 \<longleftrightarrow> c = CHR ''0''"
    using Cons.prems by (simp add: dec_digit_zero)
  then show ?case
    using Cons.prems Cons.IH [of "c \<noteq> CHR ''0''"] dec_value_acc [of "dec_digit c" s] by (cases up) auto
qed simp

lemma odd_word: "(word_of_nat q :: 128 word) AND 1 \<noteq> 0 \<longleftrightarrow> odd q"
proof -
  have "odd (word_of_nat q :: 128 word) \<longleftrightarrow> odd q"
    using bit_0 [of "word_of_nat q :: 128 word"] bit_0 [of q] by (simp add: bit_simps)
  moreover have "w AND 1 \<noteq> 0 \<longleftrightarrow> odd w" for w :: "128 word"
    by (simp add: and_one_eq odd_iff_mod_2_eq_one)
  ultimately show ?thesis
    by blast
qed

lemma round_half_even_split:
  assumes "m < b"
  shows "round_half_even (q * b + m) b = (if 2 * m < b \<or> 2 * m = b \<and> even q then q else q + 1)"
  using assms by (simp add: round_half_even_def)

lemma GetDivider_power: "GetDivider n = word_of_nat (10 ^ n)"
  by (induction n) (simp_all add: mult.commute)

lemma DecimalInf_power: "DecimalInf = word_of_nat (10 ^ 35)"
  by (simp add: DecimalInf_def)

lemma divider_reached:
  assumes "q < 10 ^ p" "p \<le> 35"
  shows "(word_of_nat q :: 128 word) + 1 \<ge> GetDivider p \<longleftrightarrow> 10 ^ p \<le> q + 1"
proof -
  have "(10 :: nat) ^ p \<le> 10 ^ 35"
    using assms(2) by (rule power_35)
  then have "q + 1 < 2 ^ 128" "(10 :: nat) ^ p < 2 ^ 128"
    using assms(1) by simp_all
  moreover have "(word_of_nat q :: 128 word) + 1 = word_of_nat (q + 1)"
    by simp
  ultimately show ?thesis
    unfolding GetDivider_power word_le_nat_alt by (simp only: unat_128)
qed

lemma rest_digits:
  assumes "isdigit c" "list_all isdigit s"
  shows "dec_value 0 (c # s) = dec_digit c * 10 ^ length s + dec_value 0 s" "dec_value 0 s < 10 ^ length s" "dec_digit c \<le> 9"
    "c = CHR ''5'' \<longleftrightarrow> dec_digit c = 5"
proof -
  have "(of_char c :: nat) = 53 \<longleftrightarrow> (of_char c :: nat) = of_char CHR ''5''"
    by simp
  then show "c = CHR ''5'' \<longleftrightarrow> dec_digit c = 5"
    using assms(1) unfolding of_char_eq_iff isdigit_def dec_digit_def by linarith
qed (use assms dec_value_acc [of "dec_digit c" s] dec_value_less dec_digit_less in \<open>simp_all\<close>)

lemma half_of_digits:
  assumes "x < (B :: nat)"
  shows "(if 2 * (d * B + x) < 10 * B \<or> 2 * (d * B + x) = 10 * B \<and> even q then q else q + 1) = q + 1 \<longleftrightarrow>
    d > 5 \<or> d = 5 \<and> (odd q \<or> 0 < x)"
proof -
  consider "d \<le> 4" | "d = 5" | "6 \<le> d"
    by linarith
  then show ?thesis
  proof cases
    case 1
    then have "d * B \<le> 4 * B"
      by (rule mult_le_mono1)
    moreover have "2 * (y + x) < 10 * B" if "y \<le> 4 * B" for y
      using that assms by simp
    ultimately have "2 * (d * B + x) < 10 * B"
      by blast
    then show ?thesis
      using 1 by simp
  next
    case 3
    then have "6 * B \<le> d * B"
      by (rule mult_le_mono1)
    moreover have "\<not> 2 * (y + x) < 10 * B \<and> 2 * (y + x) \<noteq> 10 * B" if "6 * B \<le> y" for y
      using that assms by simp
    ultimately have "\<not> 2 * (d * B + x) < 10 * B" "2 * (d * B + x) \<noteq> 10 * B"
      by blast+
    then show ?thesis
      using 3 by simp
  qed (use assms in auto)
qed

lemma round_digits_up:
  assumes "isdigit c" "list_all isdigit s"
  shows "\<exists>s'. (if c = CHR ''5'' then after_five ((word_of_nat q :: 128 word) AND 1 \<noteq> 0) s else Some (dec_digit c > 5, s)) =
      Some (round_half_even (q * 10 ^ length (c # s) + dec_value 0 (c # s)) (10 ^ length (c # s)) = q + 1, s') \<and> list_all isdigit s'"
proof -
  note r = rest_digits [OF assms]
  have m: "dec_value 0 (c # s) < 10 ^ length (c # s)"
    using assms by (intro dec_value_less) simp
  have "round_half_even (q * 10 ^ length (c # s) + dec_value 0 (c # s)) (10 ^ length (c # s)) = q + 1 \<longleftrightarrow>
      dec_digit c > 5 \<or> dec_digit c = 5 \<and> (odd q \<or> 0 < dec_value 0 s)"
    unfolding round_half_even_split [OF m] using half_of_digits [OF r(2), of "dec_digit c" q] by (simp only: r(1) length_Cons power_Suc)
  then show ?thesis
    using after_five_digits [OF assms(2), of "odd q"] assms(2) by (auto simp: r(4) odd_word)
qed

lemma round_digits_exact:
  assumes "list_all isdigit rest" "q < 10 ^ p" "p \<le> 35"
  defines "r \<equiv> round_half_even (q * 10 ^ length rest + dec_value 0 rest) (10 ^ length rest)"
  shows "round_digits p (word_of_nat q) rest = Some (if 10 ^ p \<le> r then DecimalInf else word_of_nat r)"
proof (cases rest)
  case Nil
  then show ?thesis
    using assms(2) by (simp add: round_digits_def r_def round_half_even_def)
next
  case (Cons c s)
  have m: "dec_value 0 rest < 10 ^ length rest"
    using assms(1) by (rule dec_value_less)
  have r: "r = q \<or> r = q + 1"
    unfolding r_def round_half_even_split [OF m] by simp
  have d: "isdigit c" "list_all isdigit s"
    using assms(1) Cons by simp_all
  obtain s' where "(if c = CHR ''5'' then after_five ((word_of_nat q :: 128 word) AND 1 \<noteq> 0) s else Some (dec_digit c > 5, s)) = Some (r = q + 1, s')"
      "list_all isdigit s'"
    using round_digits_up [OF d, of q] unfolding Cons [symmetric] r_def [symmetric] by blast
  then show ?thesis
    using r d(1) divider_reached [OF assms(2,3)] assms(2) by (auto simp: round_digits_def Cons)
qed

lemma dec_value_bound:
  assumes "list_all isdigit s" "n < 10 ^ k"
  shows "dec_value n s < 10 ^ (k + length s)"
proof -
  have "(n + 1) * 10 ^ length s \<le> 10 ^ k * 10 ^ length s"
    using assms(2) by (intro mult_le_mono1) simp
  then show ?thesis
    using dec_value_less [OF assms(1)] dec_value_acc [of n s] by (simp add: power_add)
qed

text \<open>The number of units that a text with the digits \<open>ds\<close> before the dot and \<open>fs\<close> after it stands for, rounded to the nearest and to even.\<close>

definition decimal_units :: "nat \<Rightarrow> string \<Rightarrow> string \<Rightarrow> nat" where
  "decimal_units scale ds fs =
     (if length fs \<le> scale then dec_value 0 (ds @ fs) * 10 ^ (scale - length fs)
      else round_half_even (dec_value 0 (ds @ fs)) (10 ^ (length fs - scale)))"

definition decimal_of_units :: "nat \<Rightarrow> nat \<Rightarrow> string \<Rightarrow> string \<Rightarrow> int128" where
  "decimal_of_units precision scale ds fs =
     (if 10 ^ (precision - scale) \<le> dec_value 0 ds \<or> 10 ^ precision \<le> decimal_units scale ds fs then DecimalInf
      else word_of_nat (decimal_units scale ds fs))"

lemma read_number:
  assumes "list_all isdigit ds" "list_all isdigit fs" "tail = CHR ''.'' # fs \<or> tail = [] \<and> fs = []" "sc \<le> p" "p \<le> 35"
  shows "(case read_digits False sc (p - sc) 0 (ds @ tail) of
      BadDigit \<Rightarrow> Inl DecimalErr
    | TooLarge \<Rightarrow> Inr DecimalInf
    | DigitsRead k v rest \<Rightarrow> (case round_digits p v rest of None \<Rightarrow> Inl DecimalErr | Some v \<Rightarrow> Inr (v * GetDivider k))) =
    Inr (decimal_of_units p sc ds fs)"
proof -
  let ?n = "dec_value 0 ds" and ?rest = "drop sc fs" and ?N = "dec_value 0 (ds @ fs)"
  define q where "q = dec_value ?n (take sc fs)"
  have d: "list_all isdigit (take sc fs)" "list_all isdigit ?rest"
    using assms(2) by (metis append_take_drop_id list_all_append)+
  have i: "10 ^ (p - sc) \<le> ?n \<Longrightarrow> read_digits False sc (p - sc) 0 (ds @ tail) = TooLarge"
      "?n < 10 ^ (p - sc) \<Longrightarrow> \<exists>j. read_digits False sc (p - sc) 0 (ds @ tail) = read_digits False sc j (word_of_nat ?n) tail"
    using read_integral [OF assms(1), of "p - sc" "p - sc" 0 sc tail] assms(5) by simp_all
  show ?thesis
  proof (cases "?n < 10 ^ (p - sc)")
    case False
    then show ?thesis
      using i(1) by (simp add: decimal_of_units_def)
  next
    case True
    then obtain j where "read_digits False sc (p - sc) 0 (ds @ tail) = read_digits False sc j (word_of_nat ?n) tail"
      using i(2) by blast
    then have r: "read_digits False sc (p - sc) 0 (ds @ tail) = DigitsRead (sc - length fs) (word_of_nat q) ?rest"
      using assms(3) read_fraction [OF assms(2), of sc j ?n] by (auto simp: q_def)
    have "q < 10 ^ (p - sc + length (take sc fs))"
      unfolding q_def by (rule dec_value_bound [OF d(1) True])
    also have "\<dots> \<le> 10 ^ p"
      using assms(4) by (intro power_increasing) simp_all
    finally have q: "q < 10 ^ p" .
    have N: "q * 10 ^ length ?rest + dec_value 0 ?rest = ?N"
      using dec_value_acc [of q ?rest] dec_value_append [of 0 ds fs] dec_value_append [of ?n "take sc fs" ?rest] by (simp add: q_def)
    show ?thesis
    proof (cases "length fs \<le> sc")
      case True
      then have "q = ?N"
        using N by simp
      moreover have "q * 10 ^ (sc - length fs) < 10 ^ (p - sc + length fs) * 10 ^ (sc - length fs)"
        using dec_value_bound [OF d(1) \<open>?n < 10 ^ (p - sc)\<close>] True by (simp add: q_def)
      moreover have "(10 :: nat) ^ (p - sc + length fs) * 10 ^ (sc - length fs) = 10 ^ p"
        using True assms(4) by (simp add: power_add [symmetric])
      ultimately show ?thesis
        using True r \<open>?n < 10 ^ (p - sc)\<close>
        by (simp add: round_digits_def decimal_of_units_def decimal_units_def GetDivider_power)
    next
      case False
      then show ?thesis
        using r round_digits_exact [OF d(2) q assms(5)] \<open>?n < 10 ^ (p - sc)\<close> unfolding N
        by (simp add: decimal_of_units_def decimal_units_def)
    qed
  qed
qed

lemma digits_no_word:
  assumes "list_all isdigit ds" "tail = CHR ''.'' # fs \<or> tail = []" "length (ds @ tail) = 3"
  shows "\<not> is_inf_text (ds @ tail)" "\<not> is_nan_text (ds @ tail)"
proof -
  have "(ds @ tail) ! 0 = CHR ''.'' \<or> isdigit ((ds @ tail) ! 0)"
    using assms by (cases ds) auto
  then show "\<not> is_inf_text (ds @ tail)" "\<not> is_nan_text (ds @ tail)"
    by (auto simp: is_inf_text_def is_nan_text_def isdigit_def)
qed

lemma digits_no_sign:
  assumes "list_all isdigit ds" "tail = CHR ''.'' # fs \<or> tail = []" "ds @ tail \<noteq> []"
  shows "hd (ds @ tail) \<noteq> CHR ''-''" "hd (ds @ tail) \<noteq> CHR ''+''"
  using assms by (cases ds; auto simp: isdigit_def)+

lemma FromString_number:
  assumes "list_all isdigit ds" "list_all isdigit fs" "tail = CHR ''.'' # fs \<or> tail = [] \<and> fs = []"
    and "sign \<in> {[], ''-'', ''+''}" "sign @ ds @ tail \<noteq> []" "scale \<le> precision" "unat precision \<le> 35"
  shows "DecimalFromString (sign @ ds @ tail) precision scale =
    (let x = decimal_of_units (unat precision) (unat scale) ds fs in if sign = ''-'' then - x else x)"
proof -
  have t: "tail = CHR ''.'' # fs \<or> tail = []"
    using assms(3) by blast
  have le: "unat scale \<le> unat precision" "\<not> precision < scale"
    using assms(6) by (simp_all add: word_le_nat_alt not_less)
  have h: "(hd (sign @ ds @ tail) = CHR ''-'') = (sign = ''-'')"
      "(if sign = ''-'' \<or> hd (sign @ ds @ tail) = CHR ''+'' then tl (sign @ ds @ tail) else sign @ ds @ tail) = ds @ tail"
    using assms(4,5) digits_no_sign [OF assms(1) t] by auto
  have w: "(length (ds @ tail) = 3 \<and> is_inf_text (ds @ tail)) = False" "(length (ds @ tail) = 3 \<and> is_nan_text (ds @ tail)) = False"
    using digits_no_word [OF assms(1) t] by blast+
  have e: "(precision < scale \<or> sign @ ds @ tail = []) = False"
    using le(2) assms(5) by blast
  show ?thesis
    using read_number [OF assms(1-3) le(1) assms(7)]
    unfolding DecimalFromString_def Let_def h w e if_False
    by (auto split: digits_read.splits option.splits)
qed

section \<open>What the printer writes\<close>

lemma digit_char_table:
  "\<forall>d \<in> {0, 1, 2, 3, 4, 5, 6, 7, 8, 9}. isdigit (digit_char d) \<and> dec_digit (digit_char d) = d"
  by (simp add: digit_char_def isdigit_def dec_digit_def)

lemma digit_char_digit:
  assumes "d \<le> 9"
  shows "isdigit (digit_char d)" "dec_digit (digit_char d) = d"
proof -
  have "d \<in> {0, 1, 2, 3, 4, 5, 6, 7, 8, 9}"
    using assms by (simp only: insert_iff empty_iff) arith
  from bspec [OF digit_char_table this] show "isdigit (digit_char d)" "dec_digit (digit_char d) = d"
    by simp_all
qed

lemma print_step:
  assumes "m < 2 ^ 128"
  shows "print_digits (word_of_nat m) (Suc p) sc str =
    (let str = (if m mod 10 \<noteq> 0 \<or> sc = 0 \<or> str \<noteq> [] then digit_char (m mod 10) # str else str);
         (sc, str) = (if sc \<noteq> 0 then (sc - 1, if sc - 1 = 0 \<and> str \<noteq> [] then CHR ''.'' # str else str) else (sc, str))
     in if m div 10 \<noteq> 0 then print_digits (word_of_nat (m div 10)) p sc str else Some (str, p, sc))"
proof -
  have u: "unat (word_of_nat m :: 128 word) = m"
    using assms by (rule unat_128)
  have u': "unat (word_of_nat (m div 10) :: 128 word) = m div 10"
    using le_less_trans [OF div_le_dividend assms] by (rule unat_128)
  have t: "unat (10 :: 128 word) = 10"
    by simp
  have "unat (word_of_nat m mod 10 :: 128 word) = m mod 10"
    by (simp only: unat_mod_distrib u t)
  moreover have "(word_of_nat m div 10 :: 128 word) = word_of_nat (m div 10)"
    by (simp only: word_unat_eq_iff unat_div_distrib u u' t)
  moreover have "(word_of_nat (m div 10) = (0 :: 128 word)) = (m div 10 = 0)"
    by (simp only: word_unat_eq_iff u' unat_0)
  ultimately show ?thesis
    by (simp only: print_digits.simps Let_def)
qed

definition frac_shown :: "nat \<Rightarrow> nat \<Rightarrow> nat \<Rightarrow> nat \<Rightarrow> string \<Rightarrow> bool" where
  "frac_shown n s sc m str \<longleftrightarrow> sc \<le> s \<and> list_all isdigit str \<and> length str \<le> s - sc \<and>
     n = m * 10 ^ (s - sc) + dec_value 0 str * 10 ^ (s - sc - length str)"

definition num_shown :: "nat \<Rightarrow> nat \<Rightarrow> nat \<Rightarrow> string \<Rightarrow> bool" where
  "num_shown n s m str \<longleftrightarrow> (\<exists>ids fs. str = ids @ (if fs = [] then [] else CHR ''.'' # fs) \<and> list_all isdigit ids \<and> list_all isdigit fs \<and>
     length fs \<le> s \<and> n = m * 10 ^ (s + length ids) + dec_value 0 ids * 10 ^ s + dec_value 0 fs * 10 ^ (s - length fs))"

lemma dec_value_cons: "dec_value 0 (digit_char (m mod 10) # str) = m mod 10 * 10 ^ length str + dec_value 0 str"
proof -
  have "m mod 10 \<le> 9"
    using mod_less_divisor [of 10 m] by linarith
  then show ?thesis
    using dec_value_acc [of "m mod 10" str] by (simp only: dec_value.simps digit_char_digit(2) mult_0 add_0)
qed

lemma shift_digits:
  assumes "l \<le> e"
  shows "(d * 10 ^ l + v) * 10 ^ (e - l) = d * 10 ^ e + v * (10 :: nat) ^ (e - l)"
proof -
  have "(10 :: nat) ^ l * 10 ^ (e - l) = 10 ^ e"
    using assms by (metis le_add_diff_inverse power_add)
  then show ?thesis
    by (simp only: add_mult_distrib mult.assoc)
qed

lemma split_digit: "m * 10 ^ e = m div 10 * 10 ^ Suc e + m mod 10 * (10 :: nat) ^ e"
proof -
  have "(m div 10 * 10 + m mod 10) * 10 ^ e = m div 10 * 10 ^ Suc e + m mod 10 * (10 :: nat) ^ e"
    by (simp only: add_mult_distrib mult.assoc power_Suc)
  then show ?thesis
    by (simp only: div_mult_mod_eq)
qed

lemma frac_step:
  assumes "frac_shown n s sc m str" "0 < sc"
  defines "str' \<equiv> (if m mod 10 \<noteq> 0 \<or> sc = 0 \<or> str \<noteq> [] then digit_char (m mod 10) # str else str)"
  shows "frac_shown n s (sc - 1) (m div 10) str'"
proof -
  define e where "e = s - sc"
  have f: "sc \<le> s" "list_all isdigit str" "length str \<le> e" "n = m * 10 ^ e + dec_value 0 str * 10 ^ (e - length str)"
    using assms(1) by (auto simp: frac_shown_def e_def)
  have e: "s - (sc - 1) = Suc e"
    using assms(2) f(1) by (simp add: e_def)
  show ?thesis
  proof (cases "m mod 10 \<noteq> 0 \<or> str \<noteq> []")
    case True
    then have "str' = digit_char (m mod 10) # str"
      by (auto simp: str'_def)
    moreover have "n = m div 10 * 10 ^ Suc e + dec_value 0 (digit_char (m mod 10) # str) * 10 ^ (e - length str)"
      unfolding dec_value_cons shift_digits [OF f(3)] f(4) split_digit [of m e] by (rule add.assoc)
    ultimately show ?thesis
      using f(1-3) digit_char_digit(1) [of "m mod 10"] unfolding frac_shown_def e
      by (simp only: length_Cons diff_Suc_Suc list.pred_inject) simp
  next
    case False
    then show ?thesis
      using f split_digit [of m e] assms(2) unfolding frac_shown_def e by (simp add: str'_def)
  qed
qed

lemma num_step:
  assumes "num_shown n s m str"
  shows "num_shown n s (m div 10) (digit_char (m mod 10) # str)"
proof -
  obtain ids fs where f: "str = ids @ (if fs = [] then [] else CHR ''.'' # fs)" "list_all isdigit ids" "list_all isdigit fs" "length fs \<le> s"
      "n = m * 10 ^ (s + length ids) + dec_value 0 ids * 10 ^ s + dec_value 0 fs * 10 ^ (s - length fs)"
    using assms unfolding num_shown_def by blast
  let ?ids = "digit_char (m mod 10) # ids"
  have "m mod 10 * 10 ^ (s + length ids) = m mod 10 * 10 ^ length ids * 10 ^ s"
    by (simp only: power_add mult.commute mult.left_commute)
  then have "n = m div 10 * 10 ^ (s + length ?ids) + dec_value 0 ?ids * 10 ^ s + dec_value 0 fs * 10 ^ (s - length fs)"
    unfolding dec_value_cons f(5) split_digit [of m "s + length ids"] length_Cons add_Suc_right add_mult_distrib by (simp only: add.assoc)
  moreover have "m mod 10 \<le> 9"
    using mod_less_divisor [of 10 m] by linarith
  ultimately show ?thesis
    unfolding num_shown_def using f(1-4) digit_char_digit(1) by (intro exI [of _ ?ids] exI [of _ fs]) simp
qed

lemma frac_done: "frac_shown n s 0 m str \<Longrightarrow> num_shown n s m (if str \<noteq> [] then CHR ''.'' # str else str)"
  unfolding num_shown_def frac_shown_def by (intro exI [of _ "[]"] exI [of _ str]) simp

lemma print_integral:
  assumes "num_shown n s m str" "0 < m" "m < 10 ^ p" "p \<le> 35"
  shows "\<exists>str' p'. print_digits (word_of_nat m) p 0 str = Some (str', p', 0) \<and> num_shown n s 0 str' \<and> length str' + p' \<le> length str + p"
  using assms
proof (induction p arbitrary: m str)
  case (Suc p)
  have "(10 :: nat) ^ Suc p \<le> 10 ^ 35"
    using Suc.prems(4) by (rule power_35)
  then have m: "m < 2 ^ 128"
    using Suc.prems(3) by simp
  have st: "print_digits (word_of_nat m) (Suc p) 0 str =
      (if m div 10 \<noteq> 0 then print_digits (word_of_nat (m div 10)) p 0 (digit_char (m mod 10) # str) else Some (digit_char (m mod 10) # str, p, 0))"
    using print_step [OF m, of p 0 str] by simp
  show ?case
  proof (cases "m div 10 = 0")
    case True
    then show ?thesis
      using st num_step [OF Suc.prems(1)] by simp
  next
    case False
    have "m div 10 < 10 ^ p"
      using Suc.prems(3) by (simp add: less_mult_imp_div_less mult.commute)
    then show ?thesis
      using Suc.IH [OF num_step [OF Suc.prems(1)]] False st Suc.prems(4) by fastforce
  qed
qed simp

lemma print_fraction:
  assumes "frac_shown n s sc m str" "0 < sc" "0 < m" "m < 10 ^ p" "sc \<le> p" "p \<le> 35"
  shows "\<exists>str' p' sc'. print_digits (word_of_nat m) p sc str = Some (str', p', sc') \<and>
    (if sc' = 0 then num_shown n s 0 str' \<and> length str' + p' \<le> Suc (length str + p)
     else frac_shown n s sc' 0 str' \<and> sc' \<le> p' \<and> length str' + p' \<le> length str + p)"
  using assms
proof (induction p arbitrary: m str sc)
  case (Suc p)
  have "(10 :: nat) ^ Suc p \<le> 10 ^ 35"
    using Suc.prems(6) by (rule power_35)
  then have m: "m < 2 ^ 128"
    using Suc.prems(4) by simp
  define str1 where "str1 = (if m mod 10 \<noteq> 0 \<or> sc = 0 \<or> str \<noteq> [] then digit_char (m mod 10) # str else str)"
  define str2 where "str2 = (if sc - 1 = 0 \<and> str1 \<noteq> [] then CHR ''.'' # str1 else str1)"
  have st: "print_digits (word_of_nat m) (Suc p) sc str =
      (if m div 10 \<noteq> 0 then print_digits (word_of_nat (m div 10)) p (sc - 1) str2 else Some (str2, p, sc - 1))"
    using print_step [OF m, of p sc str] Suc.prems(2) unfolding str1_def [symmetric] Let_def by (simp add: str2_def)
  have f: "frac_shown n s (sc - 1) (m div 10) str1" "length str1 \<le> Suc (length str)"
    using frac_step [OF Suc.prems(1,2)] by (simp_all add: str1_def)
  have d: "m div 10 < 10 ^ p" "p \<le> 35" "sc - 1 \<le> p"
    using Suc.prems(4-6) by (simp_all add: less_mult_imp_div_less mult.commute)
  show ?case
  proof (cases "sc - 1 = 0")
    case True
    then have "num_shown n s (m div 10) str2" "length str2 \<le> Suc (Suc (length str))"
      using frac_done [of n s "m div 10" str1] f by (simp_all add: str2_def)
    then show ?thesis
      using print_integral [of n s "m div 10" str2 p] st True d by (cases "m div 10 = 0") fastforce+
  next
    case False
    then have "str2 = str1"
      by (simp add: str2_def)
    then show ?thesis
      using Suc.IH [OF f(1) _ _ d(1,3,2)] st False f d by (cases "m div 10 = 0") fastforce+
  qed
qed simp

lemma pad_zeros_all: "sc \<le> p \<Longrightarrow> pad_zeros p sc str = Some (replicate sc CHR ''0'' @ str)"
  by (induction p sc str rule: pad_zeros.induct) (simp_all add: replicate_app_Cons_same)

lemma dec_value_zeros: "dec_value 0 (replicate k CHR ''0'' @ str) = dec_value 0 str"
  by (induction k) (simp_all add: dec_digit_def)

lemma frac_padded:
  assumes "frac_shown n s sc 0 str" "0 < sc"
  shows "num_shown n s 0 (CHR ''.'' # replicate sc CHR ''0'' @ str)"
  using assms unfolding num_shown_def frac_shown_def
  by (intro exI [of _ "[]"] exI [of _ "replicate sc CHR ''0'' @ str"]) (auto simp: dec_value_zeros list_all_iff isdigit_def)

lemma printed_number:
  assumes "0 < n" "n < 10 ^ p" "p \<le> 35" "s \<le> p"
  shows "\<exists>str. (case print_digits (word_of_nat n) p s [] of
      None \<Rightarrow> None
    | Some (str, p, sc) \<Rightarrow> (if sc \<noteq> 0 then map_option ((#) CHR ''.'') (pad_zeros p sc str) else Some str)) = Some str \<and>
    num_shown n s 0 str \<and> length str \<le> Suc p"
proof (cases "s = 0")
  case True
  have "num_shown n s n []"
    unfolding num_shown_def True by (intro exI [of _ "[]"]) simp
  then show ?thesis
    using print_integral [of n s n "[]" p] assms True by fastforce
next
  case False
  have "frac_shown n s s n []" "0 < s"
    using False by (simp_all add: frac_shown_def)
  from print_fraction [OF this assms(1,2,4,3)] have "\<exists>str p' sc. print_digits (word_of_nat n) p s [] = Some (str, p', sc) \<and>
      (sc = 0 \<longrightarrow> num_shown n s 0 str \<and> length str + p' \<le> Suc p) \<and> (sc \<noteq> 0 \<longrightarrow> frac_shown n s sc 0 str \<and> sc \<le> p' \<and> length str + p' \<le> p)"
    by (elim exE) (auto split: if_splits)
  then obtain str p' sc where "print_digits (word_of_nat n) p s [] = Some (str, p', sc)" "sc = 0 \<longrightarrow> num_shown n s 0 str \<and> length str + p' \<le> Suc p"
      "sc \<noteq> 0 \<longrightarrow> frac_shown n s sc 0 str \<and> sc \<le> p' \<and> length str + p' \<le> p"
    by blast
  then show ?thesis
    using pad_zeros_all [of sc p' str] frac_padded [of n s sc str] by (cases "sc = 0") auto
qed

lemma printed_case:
  "(case P of None \<Rightarrow> None | Some (a, b, c) \<Rightarrow> E a b c) = Some y \<Longrightarrow>
     (case P of None \<Rightarrow> z | Some (a, b, c) \<Rightarrow> (case E a b c of None \<Rightarrow> None | Some s \<Rightarrow> G s)) = G y"
  by (cases P) auto

lemma num_shown_text:
  assumes "num_shown n s 0 str" "0 < n"
  shows "\<exists>ids fs. (if hd str = CHR ''.'' then CHR ''0'' # str else str) = ids @ (if fs = [] then [] else CHR ''.'' # fs) \<and> ids \<noteq> [] \<and>
    list_all isdigit ids \<and> list_all isdigit fs \<and> length fs \<le> s \<and> n = dec_value 0 ids * 10 ^ s + dec_value 0 fs * 10 ^ (s - length fs)"
proof -
  obtain ids fs where f: "str = ids @ (if fs = [] then [] else CHR ''.'' # fs)" "list_all isdigit ids" "list_all isdigit fs" "length fs \<le> s"
      "n = dec_value 0 ids * 10 ^ s + dec_value 0 fs * 10 ^ (s - length fs)"
    using assms(1) unfolding num_shown_def by auto
  show ?thesis
  proof (cases ids)
    case Nil
    then have "fs \<noteq> []"
      using f(5) assms(2) by auto
    then show ?thesis
      using Nil f by (intro exI [of _ "''0''"] exI [of _ fs]) (simp add: isdigit_def dec_digit_def)
  next
    case (Cons c ids')
    then have "hd str \<noteq> CHR ''.''"
      using f(1,2) by (auto simp: isdigit_def)
    then show ?thesis
      using Cons f by (intro exI [of _ ids] exI [of _ fs]) simp
  qed
qed

lemma sint_Inf: "sint DecimalInf = 10 ^ 35" "sint (- DecimalInf) = - (10 ^ 35)" "sint DecimalNan = 10 ^ 35 + 1"
  by (simp_all add: DecimalInf_def DecimalNan_def)

lemma units_of_number:
  assumes "n = dec_value 0 ids * 10 ^ s + dec_value 0 fs * 10 ^ (s - length fs)" "length fs \<le> s" "n < 10 ^ p" "s \<le> p"
  shows "decimal_of_units p s ids fs = word_of_nat n"
proof -
  have u: "decimal_units s ids fs = n"
    using assms(1,2) shift_digits [OF assms(2), of "dec_value 0 ids" "dec_value 0 fs"]
    by (simp add: decimal_units_def dec_value_append dec_value_acc [of "dec_value 0 ids"])
  have "dec_value 0 ids * 10 ^ s < 10 ^ (p - s) * 10 ^ s"
    using assms(1,3,4) by (simp add: power_add [symmetric])
  then have "\<not> 10 ^ (p - s) \<le> dec_value 0 ids"
    by simp
  then show ?thesis
    using u assms(3) by (simp add: decimal_of_units_def)
qed

lemma signed_number:
  fixes val :: int128
  assumes "\<bar>sint val\<bar> < 10 ^ p" "p \<le> 35"
  shows "(if sint val < 0 then - val else val) = word_of_nat (nat \<bar>sint val\<bar>)" "nat \<bar>sint val\<bar> < 10 ^ p" "IsNormal val"
    "val \<noteq> DecimalInf" "val \<noteq> - DecimalInf" "val \<noteq> DecimalNan" "sint val = 0 \<longleftrightarrow> val = 0"
proof -
  have "(10 :: int) ^ p \<le> 10 ^ 35"
    using assms(2) by (intro power_increasing) simp_all
  then have b: "\<bar>sint val\<bar> < 10 ^ 35"
    using assms(1) by linarith
  then show "IsNormal val" "val \<noteq> DecimalInf" "val \<noteq> - DecimalInf" "val \<noteq> DecimalNan"
    using sint_Inf by (auto simp: IsNormal_def)
  have "val = word_of_int (sint val)"
    by simp
  then show "(if sint val < 0 then - val else val) = word_of_nat (nat \<bar>sint val\<bar>)"
    by (cases "sint val < 0") simp_all
  show "nat \<bar>sint val\<bar> < 10 ^ p"
    using assms(1) by (simp add: nat_less_iff)
  show "sint val = 0 \<longleftrightarrow> val = 0"
    by (metis \<open>val = word_of_int (sint val)\<close> of_int_0 signed_0)
qed

lemma decimal_number_roundtrip:
  assumes "0 < precision" "unat precision \<le> 35" "scale \<le> precision" "\<bar>sint val\<bar> < 10 ^ unat precision"
  shows "\<exists>text. DecimalToString val precision scale = Some text \<and> length text < 40 \<and> DecimalFromString text precision scale = val"
proof -
  have ty: "(precision = 0 \<or> unat precision > MaxPrecision \<or> scale > precision) = False"
    using assms(1-3) by (auto simp: MaxPrecision_def)
  show ?thesis
  proof (cases "val = 0")
    case True
    have "DecimalFromString ([] @ ''0'' @ []) precision scale = 0"
      using FromString_number [of "''0''" "[]" "[]" "[]" scale precision] units_of_number [of 0 "''0''" "unat scale" "[]" "unat precision"] assms(2,3)
      by (simp add: isdigit_def dec_digit_def word_le_nat_alt)
    then show ?thesis
      using signed_number [OF assms(4,2)] True unfolding DecimalToString_def ty by simp
  next
    case False
    let ?n = "nat \<bar>sint val\<bar>" and ?p = "unat precision" and ?s = "unat scale" and ?sign = "if sint val < 0 then ''-'' else []"
    note v = signed_number [OF assms(4,2)]
    have n: "0 < ?n" "?s \<le> ?p"
      using False v(7) assms(3) by (simp_all add: word_le_nat_alt)
    obtain str where str: "(case print_digits (word_of_nat ?n) ?p ?s [] of
        None \<Rightarrow> None
      | Some (str, p, sc) \<Rightarrow> (if sc \<noteq> 0 then map_option ((#) CHR ''.'') (pad_zeros p sc str) else Some str)) = Some str"
        "num_shown ?n ?s 0 str" "length str \<le> Suc ?p"
      using printed_number [OF n(1) v(2) assms(2) n(2)] by blast
    obtain ids fs where f: "(if hd str = CHR ''.'' then CHR ''0'' # str else str) = ids @ (if fs = [] then [] else CHR ''.'' # fs)" "ids \<noteq> []"
        "list_all isdigit ids" "list_all isdigit fs" "length fs \<le> ?s" "?n = dec_value 0 ids * 10 ^ ?s + dec_value 0 fs * 10 ^ (?s - length fs)"
      using num_shown_text [OF str(2) n(1)] by blast
    let ?text = "?sign @ ids @ (if fs = [] then [] else CHR ''.'' # fs)"
    have "DecimalFromString ?text precision scale = (let x = decimal_of_units ?p ?s ids fs in if ?sign = ''-'' then - x else x)"
      using f assms(2,3) by (intro FromString_number) auto
    then have "DecimalFromString ?text precision scale = val"
      using units_of_number [OF f(6,5) v(2) n(2)] v(1) by (auto simp: Let_def split: if_splits)
    moreover have "DecimalToString val precision scale = Some ?text"
      using v(3-6) False f(1) unfolding DecimalToString_def ty Let_def v(1) printed_case [OF str(1)] by auto
    moreover have "length ?text \<le> length str + 2"
      using arg_cong [OF f(1), of length] by (auto split: if_splits)
    ultimately show ?thesis
      using str(3) assms(2) by (intro exI [of _ ?text]) auto
  qed
qed

lemma print_too_long: "10 ^ p \<le> m \<Longrightarrow> m < 2 ^ 128 \<Longrightarrow> print_digits (word_of_nat m) p sc str = None"
proof (induction p arbitrary: m sc str)
  case (Suc p)
  have "10 ^ p * 10 \<le> m"
    using Suc.prems(1) by (simp add: mult.commute)
  then have "10 ^ p \<le> m div 10"
    by (simp add: less_eq_div_iff_mult_less_eq)
  moreover from this have "m div 10 \<noteq> 0"
    by (metis le_zero_eq power_not_zero zero_neq_numeral)
  moreover have "m div 10 < 2 ^ 128"
    using le_less_trans [OF div_le_dividend Suc.prems(2)] .
  ultimately show ?case
    using Suc.IH [of "m div 10"] print_step [OF Suc.prems(2), of p sc str] by (simp add: Let_def split_beta)
qed simp

text \<open>A number with more digits than the precision has the empty text, and an error has none at all.\<close>

lemma ToString_too_long:
  assumes "0 < precision" "unat precision \<le> 35" "scale \<le> precision" "10 ^ unat precision \<le> \<bar>sint val\<bar>" "\<bar>sint val\<bar> < 10 ^ 35"
  shows "DecimalToString val precision scale = Some []"
proof -
  note v = signed_number [OF assms(5) order_refl]
  have ty: "(precision = 0 \<or> unat precision > MaxPrecision \<or> scale > precision) = False"
    using assms(1-3) by (auto simp: MaxPrecision_def)
  have "10 ^ unat precision \<le> nat \<bar>sint val\<bar>" "nat \<bar>sint val\<bar> < 2 ^ 128"
    using assms(4,5) by (simp_all add: le_nat_iff nat_less_iff)
  then have "print_digits (if sint val < 0 then - val else val) (unat precision) (unat scale) [] = None"
    unfolding v(1) by (rule print_too_long)
  moreover have "(0 :: int) < 10 ^ unat precision"
    by simp
  then have "val \<noteq> 0"
    using assms(4) by (metis abs_zero not_less signed_0)
  ultimately show ?thesis
    using v(3-6) unfolding DecimalToString_def ty Let_def by simp
qed

lemma ToString_error: "0 < precision \<Longrightarrow> unat precision \<le> 35 \<Longrightarrow> scale \<le> precision \<Longrightarrow> DecimalToString DecimalErr precision scale = None"
  by (auto simp: DecimalToString_def MaxPrecision_def DecimalErr_def DecimalNan_def DecimalInf_def IsNormal_def)

text \<open>Texts that are no numbers are read as numbers: a sign or a dot alone as zero, anything after too many digits as infinity;
  and with a precision above 35 the 128 bits overflow.\<close>

lemma strange_texts:
  "DecimalFromString ''-'' 22 9 = 0" "DecimalFromString ''.'' 22 9 = 0" "DecimalFromString ''1000x'' 5 2 = DecimalInf"
  "DecimalFromString ''340282366920938463463374607431768211456'' 39 0 = 0"
  by code_simp+

section \<open>Decimal values\<close>

lemma halfs_of: "FromHalfs (ucast v) (ucast (drop_bit 64 v)) = v"
  unfolding FromHalfs_def by (rule bit_word_eqI) (auto simp: bit_simps not_less)

lemma of_halfs: "ucast (FromHalfs lo hi) = lo" "ucast (drop_bit 64 (FromHalfs lo hi)) = hi"
  unfolding FromHalfs_def by (rule bit_word_eqI; auto simp: bit_simps dest: bit_imp_le_length)+

lemma special_texts:
  assumes "scale \<le> precision"
  shows "DecimalFromString ''inf'' precision scale = DecimalInf" "DecimalFromString ''-inf'' precision scale = - DecimalInf"
    "DecimalFromString ''nan'' precision scale = DecimalNan"
  using assms by (auto simp: DecimalFromString_def is_inf_text_def is_nan_text_def)

text \<open>
  C29. Reading a decimal: a text with a sign, digits, and digits after a dot gives the number of units nearest to it, of two equally
  near ones the even one; it gives infinity with this sign if the digits before the dot do not fit, or if rounding reaches the limit.
\<close>

theorem decimal_text_rounded:
  assumes "list_all isdigit ds" "list_all isdigit fs" "tail = CHR ''.'' # fs \<or> tail = [] \<and> fs = []"
    and "sign \<in> {[], ''-'', ''+''}" "sign @ ds @ tail \<noteq> []" "scale \<le> precision" "unat precision \<le> 35"
  shows "DecimalFromString (sign @ ds @ tail) precision scale =
    (let units = (if length fs \<le> unat scale then dec_value 0 (ds @ fs) * 10 ^ (unat scale - length fs)
                  else round_half_even (dec_value 0 (ds @ fs)) (10 ^ (length fs - unat scale)));
         x = (if 10 ^ (unat precision - unat scale) \<le> dec_value 0 ds \<or> 10 ^ unat precision \<le> units then DecimalInf else word_of_nat units)
     in if sign = ''-'' then - x else x)"
  using FromString_number [OF assms] by (simp only: decimal_of_units_def decimal_units_def Let_def)

theorem decimal_text_rounded_witness: "DecimalFromString ''-12.3455'' 22 3 = - 12346"
  using decimal_text_rounded [of "''12''" "''3455''" "''.3455''" "''-''" 3 22]
  by (simp add: isdigit_def dec_digit_def round_half_even_def)

text \<open>
  C30. The text of a decimal value: if the value has no more digits than its precision, or is infinite or no number, then it has a text,
  the text fits into the buffer with its final zero, and reading it with the same precision and scale gives the value again.
\<close>

theorem decimal_text_roundtrip:
  assumes "0 < Precision (DecimalValueType d)" "unat (Precision (DecimalValueType d)) \<le> 35"
    and "Scale (DecimalValueType d) \<le> Precision (DecimalValueType d)"
    and "\<bar>sint (FromHalfs (LowHalf d) (HiHalf d))\<bar> < 10 ^ unat (Precision (DecimalValueType d)) \<or>
      FromHalfs (LowHalf d) (HiHalf d) \<in> {DecimalInf, - DecimalInf, DecimalNan}"
  shows "\<exists>text. decimal_string d = Some text \<and> length text < 40 \<and>
    decimal_of_string text (Precision (DecimalValueType d)) (Scale (DecimalValueType d)) = d"
proof -
  let ?p = "Precision (DecimalValueType d)" and ?s = "Scale (DecimalValueType d)" and ?v = "FromHalfs (LowHalf d) (HiHalf d)"
  have ty: "(?p = 0 \<or> unat ?p > MaxPrecision \<or> ?s > ?p) = False"
    using assms(1-3) by (auto simp: MaxPrecision_def)
  have "\<exists>text. DecimalToString ?v ?p ?s = Some text \<and> length text < 40 \<and> DecimalFromString text ?p ?s = ?v"
  proof (cases "?v \<in> {DecimalInf, - DecimalInf, DecimalNan}")
    case True
    have "- DecimalInf \<noteq> DecimalInf" "DecimalNan \<noteq> DecimalInf" "DecimalNan \<noteq> - DecimalInf"
      by (simp_all add: DecimalInf_def DecimalNan_def)
    then show ?thesis
      using True special_texts [OF assms(3)] unfolding DecimalToString_def ty by auto
  next
    case False
    then show ?thesis
      using decimal_number_roundtrip [OF assms(1-3), of ?v] assms(4) by blast
  qed
  then show ?thesis
    by (auto simp: decimal_string_def decimal_of_string_def Let_def of_halfs)
qed

theorem decimal_text_roundtrip_witness:
  "\<exists>text. decimal_string \<lparr>DecimalValueType = \<lparr>Precision = 22, Scale = 9\<rparr>, LowHalf = 1500000000, HiHalf = 0\<rparr> = Some text \<and> length text < 40 \<and>
    decimal_of_string text 22 9 = \<lparr>DecimalValueType = \<lparr>Precision = 22, Scale = 9\<rparr>, LowHalf = 1500000000, HiHalf = 0\<rparr>"
  using decimal_text_roundtrip [of "\<lparr>DecimalValueType = \<lparr>Precision = 22, Scale = 9\<rparr>, LowHalf = 1500000000, HiHalf = 0\<rparr>"]
  by (simp add: FromHalfs_def)

section \<open>Validation\<close>

lemma valid_digits_after_dot: "valid_digits True s = list_all isdigit s"
  by (induction s) (auto simp: isdigit_def)

lemma valid_digits_form:
  "valid_digits False s \<Longrightarrow> \<exists>ds fs tail. s = ds @ tail \<and> list_all isdigit ds \<and> list_all isdigit fs \<and> (tail = CHR ''.'' # fs \<or> tail = [] \<and> fs = [])"
proof (induction s)
  case (Cons c s)
  show ?case
  proof (cases "c = CHR ''.''")
    case True
    then show ?thesis
      using Cons.prems by (intro exI [of _ "[]"] exI [of _ s] exI [of _ "c # s"]) (simp add: valid_digits_after_dot)
  next
    case False
    then obtain ds fs tail where "s = ds @ tail" "list_all isdigit ds" "list_all isdigit fs" "tail = CHR ''.'' # fs \<or> tail = [] \<and> fs = []"
      using Cons by auto
    then show ?thesis
      using False Cons.prems by (intro exI [of _ "c # ds"] exI [of _ fs] exI [of _ tail]) simp
  qed
qed auto

lemma units_not_error:
  assumes "p \<le> 35"
  shows "decimal_of_units p s ds fs \<noteq> DecimalErr" "- decimal_of_units p s ds fs \<noteq> DecimalErr"
proof -
  have p: "(10 :: nat) ^ p \<le> 10 ^ 35"
    using assms by (rule power_35)
  have "\<exists>n \<le> 10 ^ 35. decimal_of_units p s ds fs = word_of_nat n"
  proof (cases "10 ^ (p - s) \<le> dec_value 0 ds \<or> 10 ^ p \<le> decimal_units s ds fs")
    case True
    then show ?thesis
      unfolding decimal_of_units_def DecimalInf_power by auto
  next
    case False
    then show ?thesis
      using p by (intro exI [of _ "decimal_units s ds fs"]) (simp add: decimal_of_units_def)
  qed
  then have u: "unat (decimal_of_units p s ds fs) \<le> 10 ^ 35"
    using unat_128 by fastforce
  have "unat DecimalErr > 10 ^ 35" "unat (- DecimalErr) > 10 ^ 35"
    by (simp_all add: DecimalErr_def DecimalNan_def DecimalInf_def)
  then show "decimal_of_units p s ds fs \<noteq> DecimalErr" "- decimal_of_units p s ds fs \<noteq> DecimalErr"
    using u by (metis leD) (use u \<open>unat (- DecimalErr) > 10 ^ 35\<close> in \<open>metis leD minus_minus\<close>)
qed

text \<open>A valid text is never read as an error.\<close>

lemma valid_text_read:
  assumes "DecimalIsValid str" "scale \<le> precision" "unat precision \<le> 35"
  shows "DecimalFromString str precision scale \<noteq> DecimalErr"
proof -
  let ?s = "if hd str = CHR ''-'' \<or> hd str = CHR ''+'' then tl str else str"
  have str: "str \<noteq> []"
    using assms(1) by (auto simp: DecimalIsValid_def)
  have "- DecimalInf \<noteq> DecimalErr" "DecimalInf \<noteq> DecimalErr" "DecimalNan \<noteq> DecimalErr"
    by (simp_all add: DecimalErr_def DecimalNan_def DecimalInf_def)
  moreover have "DecimalFromString str precision scale \<noteq> DecimalErr" if v: "valid_digits False ?s"
  proof -
    obtain ds fs tail where f: "?s = ds @ tail" "list_all isdigit ds" "list_all isdigit fs" "tail = CHR ''.'' # fs \<or> tail = [] \<and> fs = []"
      using valid_digits_form [OF v] by blast
    obtain sign where "sign \<in> {[], ''-'', ''+''}" "str = sign @ ds @ tail"
      using str f(1) by (cases str) (auto split: if_splits)
    then show ?thesis
      using FromString_number [OF f(2-4), of sign scale precision] str assms(2,3) units_not_error [OF assms(3)] by (simp add: Let_def)
  qed
  ultimately show ?thesis
    using assms(1,2) str unfolding DecimalIsValid_def DecimalFromString_def Let_def by (auto split: if_splits)
qed

end
