(* ===== verification/Spec2Isabelle.thy ===== *)
theory Spec2Isabelle
  imports Prelude Ascii IntCast Utf8 Multimaps Rose Issue Status Quote Cgi OperationId Session SessionPool QueryClient
    Endpoints Ieee EndpointPool DriverState Retry Paths Types TypeBuilder
    Values ValueReading ValueBuilder ValueEncoding ValueBuilding Uuid Decimal
begin

text \<open>
  \<^bold>\<open>A verification of the YDB C++ SDK.\<close>

  The SDK is a client library of a distributed database. A \<^emph>\<open>driver\<close> keeps one state per database
  (\<^verbatim>\<open>src/client/impl/internal/db_driver_state\<close>); the state discovers the endpoints of the database and chooses one for each
  request (\<^verbatim>\<open>src/client/impl/endpoints\<close>). A \<^emph>\<open>client\<close>, such as the query client (\<^verbatim>\<open>src/client/query\<close>), takes sessions from a
  pool (\<^verbatim>\<open>src/client/impl/session\<close>), runs requests on them and retries what failed (\<^verbatim>\<open>src/client/impl/internal/retry\<close>). Results
  carry statuses with trees of issues (\<^verbatim>\<open>src/library/issue\<close>), and values with types that are read and built through
  cursors (\<^verbatim>\<open>src/client/value\<close>). Below lie the parts of a general library that these use.

  \<^bold>\<open>How the code is modelled.\<close> A class is a record, an enum a datatype, a method a function on the record; a
  status code is a number because the code casts numbers it receives. Where a method can abort the process, use freed memory, read
  past the end or shift out of range, its model returns an option and that outcome is \<open>None\<close>; where it throws, its model
  returns a sum. Integers have the width of the source where they can wrap; other ones are \<open>int\<close> or \<open>nat\<close>. Pointers are addresses
  in a store. A lock makes what it protects one step, and code that releases a lock and takes it again is split there; threads
  are interleaved by step relations. Clocks, random numbers, \<^verbatim>\<open>std::sort\<close>, answers of the server and code that is generated when
  the SDK is built are arguments; what is assumed of them stands in the theorems.

  \<^bold>\<open>Theories.\<close>
  \<^item> \<open>Prelude\<close>: association lists for maps, facts on lists and options, the interface \<open>sorter\<close> of a sorting routine.
    \<open>Multimaps\<close>: \<^verbatim>\<open>std::multimap\<close> as an ordered list. \<open>Ieee\<close>: rounding of floating point numbers to nearest even on rationals, the
    interface \<open>rounding\<close> and its two formats.
  \<^item> \<open>Ascii\<close> (\<^verbatim>\<open>util/string/ascii.h\<close>), \<open>IntCast\<close> (\<^verbatim>\<open>util/string/cast.cpp\<close>: decimal text of 64-bit integers), \<open>Utf8\<close>
    (\<^verbatim>\<open>src/library/issue/utf8.cpp\<close>, \<^verbatim>\<open>util/charset/utf8.h\<close>), \<open>Quote\<close> and \<open>Cgi\<close> (\<^verbatim>\<open>library/cpp/string_utils/quote\<close>,
    \<^verbatim>\<open>library/cpp/cgiparam\<close>: percent encoding and query parameters).
  \<^item> \<open>Rose\<close> and \<open>Issue\<close> (\<^verbatim>\<open>src/library/issue\<close>): trees with their copy by a queue, issues, their traversal with a stack, their
    printing, their messages. \<open>Status\<close> (\<^verbatim>\<open>types/status\<close>, \<^verbatim>\<open>impl/internal/plain_status\<close>): codes and the status of a call.
  \<^item> \<open>OperationId\<close> (\<^verbatim>\<open>src/library/operation_id\<close>): identifiers of operations and sessions, over the address parser \<^verbatim>\<open>TUri\<close> as an
    argument.
  \<^item> \<open>Session\<close>, \<open>SessionPool\<close>, \<open>QueryClient\<close> (\<^verbatim>\<open>impl/session\<close>, \<^verbatim>\<open>query\<close>): the state machine of a session; the pool
    over a heap of sessions, with the interface \<open>session_owner\<close> of the client that deletes and returns sessions; the query client,
    which interprets it, with creation, the attach stream, releases, the timer and the closing by the server as steps.
  \<^item> \<open>Endpoints\<close> (\<^verbatim>\<open>impl/endpoints\<close>): the elector. \<open>EndpointPool\<close> and \<open>DriverState\<close> (\<^verbatim>\<open>db_driver_state\<close>): the
    conversion of a discovery result into records, the handler of a discovery split at its locks, the tracker that shares a driver state
    between the threads that ask for it, and the periodic task.
  \<^item> \<open>Retry\<close> (\<^verbatim>\<open>impl/internal/retry\<close>): decisions, backoff times, the loop of attempts with its session.
  \<^item> \<open>Types\<close> and \<open>TypeBuilder\<close> (\<^verbatim>\<open>src/client/value/value.cpp\<close>, \<^verbatim>\<open>impl/internal/value_helpers\<close>): the message of a type, the parser
    that walks it with a path, printing, comparison, and the builder whose pointers into the message are addresses. \<open>Paths\<close>: the
    interface \<open>message_tree\<close> of messages with parts, interpreted for the messages of types and of values.
  \<^item> \<open>Values\<close>, \<open>ValueReading\<close>, \<open>ValueBuilder\<close>, \<open>ValueEncoding\<close>, \<open>ValueBuilding\<close> (\<^verbatim>\<open>src/client/value/value.cpp\<close>): the message of a value and its
    parser; a client that reads a whole value, and the data it gets; the builder, with its cache of struct members;
    the calls and the message for a piece of data of a type; the proof that building and reading are inverse. \<open>Uuid\<close> and \<open>Decimal\<close>
    (\<^verbatim>\<open>src/library/uuid\<close>, \<^verbatim>\<open>src/library/decimal\<close>): the texts of these values.

  \<^bold>\<open>What is shown.\<close>
  \<^item> \<open>QueryClient\<close>: in every reachable state no step aborts or touches a freed session; the counter of active sessions is what it
    should be and stays within the limit; every request is in one place until it is answered once, every session too;
    a release serves the first waiter, the timer exactly the overdue ones, and a broken session is deleted. The invariant
    \<open>pool_inv\<close> of \<open>SessionPool\<close> carries these, one lemma per operation.
  \<^item> \<open>DriverState\<close>, \<open>EndpointPool\<close>, \<open>Endpoints\<close>: the tracker is safe for every interleaving as long as no initialization throws, and not
    otherwise; every future of an update is fulfilled once and one discovery runs at a time; a discovery puts preferred
    endpoints first; when the periodic task works and when it does not; the elector never aborts, chooses a best endpoint,
    keeps its indexes and registries consistent.
  \<^item> \<open>Retry\<close>: the loop ends within its bounds and for a reason, repeats only what is safe to repeat, and waits within bounds.
  \<^item> \<open>TypeBuilder\<close>, \<open>Types\<close>: pointers of the builder stay valid, it builds the type its calls describe, printing ends and gives the text of
    the type, traversal is safe, comparison is equality up to what it ignores.
  \<^item> \<open>ValueReading\<close>, \<open>ValueBuilding\<close>: reading by the parser is recursion on the type, errors included; the calls for
    data of a type succeed on a new builder and on one that knows the type, and reading what was built returns the data.
  \<^item> \<open>Uuid\<close>, \<open>Decimal\<close>: which texts are read and as what, rounding to the nearest even unit, and that printed values are read back.
  \<^item> The rest: UTF-8 validation is RFC 3629, sanitizing, issue trees, integer text, statuses, percent encoding, query parameters and
    operation identifiers.

  \<^bold>\<open>Bounds and fuel.\<close> \<open>FormatType\<close> takes fuel, one unit per call; the property on the printed text shows that the size of a
  type gives enough. \<open>ReadValue\<close>, the client that reads a whole value, takes fuel too; \<open>read_fuel\<close> of the type and the message is enough. The loop of attempts ends because its counter is below \<^verbatim>\<open>MaxRetries\<close> whenever it goes on, so it is a function with a
  measure. Other loops are structural or have a measure. A discovery result has fewer than \<open>2 ^ 31\<close> records, which is the limit of a message.

  \<^bold>\<open>Not modelled.\<close> The gRPC layer and the code that only hands a request message to it and a response message back (most of the
  service clients); threads, executors and the driver's settings; credentials, which are requests to other services; counters, spans
  and logs, but for the gauges that the pool and the elector keep; the streaming sessions of the topic, persistent queue and
  coordination clients; results
  and parameters, which wrap values; code that is generated (messages, enums, state machines of the address parser, tables);
  vendored libraries, plugins, examples and tests.
\<close>

end
